(* ===== verification/Prelude.thy ===== *)
theory Prelude
  imports Main "HOL-Library.Char_ord" "HOL-Library.List_Lexorder" "HOL-Library.Product_Lexorder"
begin

section \<open>Prelude: errors, Python strings, and SQL-style tables\<close>

text \<open>
  What the components share: the exceptions of the code as values, the sum type of a call
  that may raise, the string operations the code uses (\<open>split\<close>, \<open>rsplit\<close>,
  \<open>replace\<close>, decimal rendering), and tables as lists of rows with the
  \<open>UPDATE ... WHERE\<close> statement that the job and registry code issues. The interface of
  a table with a unique key is the locale \<open>keyed_table\<close>.
\<close>

named_theorems result_simps \<open>unfolding of the sum-typed sequencing operators\<close>
named_theorems table_simps \<open>rewrite rules of row updates and lookups\<close>

subsection \<open>Exceptions as values\<close>

datatype py_error =
    ValueError string
  | ValidationError string
  | TypeError string
  | KeyError string
  | IntegrityError string
  | RuntimeError string
  | OverflowError string
  | RegistryNotFoundError string
  | RegistryConflictError string
  | LeaseLostError string
  | DataError string

type_synonym 'a result = "py_error + 'a"

definition bind_result :: "'a result \<Rightarrow> ('a \<Rightarrow> 'b result) \<Rightarrow> 'b result" where
  "bind_result r f = (case r of Inl e \<Rightarrow> Inl e | Inr x \<Rightarrow> f x)"

definition ensure :: "bool \<Rightarrow> py_error \<Rightarrow> unit result" where
  "ensure b e = (if b then Inr () else Inl e)"

fun traverse :: "('a \<Rightarrow> 'b result) \<Rightarrow> 'a list \<Rightarrow> 'b list result" where
  "traverse f [] = Inr []"
| "traverse f (x # xs) =
     (case f x of Inl e \<Rightarrow> Inl e
      | Inr y \<Rightarrow> (case traverse f xs of Inl e \<Rightarrow> Inl e | Inr ys \<Rightarrow> Inr (y # ys)))"

lemma bind_result_Inl [simp, result_simps]: "bind_result (Inl e) f = Inl e"
  by (simp add: bind_result_def)

lemma bind_result_Inr [simp, result_simps]: "bind_result (Inr x) f = f x"
  by (simp add: bind_result_def)

lemma bind_result_eq_Inr:
  "bind_result r f = Inr y \<longleftrightarrow> (\<exists>x. r = Inr x \<and> f x = Inr y)"
  by (cases r) auto

lemma bind_result_eq_Inl:
  "bind_result r f = Inl e \<longleftrightarrow> (r = Inl e \<or> (\<exists>x. r = Inr x \<and> f x = Inl e))"
  by (cases r) auto

lemma ensure_eq_Inr [simp]: "ensure b e = Inr u \<longleftrightarrow> b"
  by (simp add: ensure_def)

lemma ensure_eq_Inl [simp]: "ensure b e = Inl e' \<longleftrightarrow> \<not> b \<and> e' = e"
  by (auto simp: ensure_def)

lemma traverse_Inr_length: "traverse f xs = Inr ys \<Longrightarrow> length ys = length xs"
  by (induction xs arbitrary: ys) (auto split: sum.splits)

lemma traverse_Inr_iff:
  "traverse f xs = Inr ys \<longleftrightarrow> list_all2 (\<lambda>x y. f x = Inr y) xs ys"
proof (induction xs arbitrary: ys)
  case Nil
  show ?case by auto
next
  case (Cons x xs)
  have "traverse f (x # xs) = Inr ys \<longleftrightarrow>
      (\<exists>u us. ys = u # us \<and> f x = Inr u \<and> traverse f xs = Inr us)"
    by (auto split: sum.splits)
  then show ?case
    by (auto simp: Cons.IH list_all2_Cons1)
qed

lemma traverse_Inr_set:
  "traverse f xs = Inr ys \<Longrightarrow> x \<in> set xs \<Longrightarrow> \<exists>y \<in> set ys. f x = Inr y"
  by (induction xs arbitrary: ys) (auto split: sum.splits)

lemma traverse_Inr_set_rev:
  "traverse f xs = Inr ys \<Longrightarrow> y \<in> set ys \<Longrightarrow> \<exists>x \<in> set xs. f x = Inr y"
  by (induction xs arbitrary: ys) (fastforce split: sum.splits)+

lemma traverse_append:
  "traverse f (xs @ ys) =
     (case traverse f xs of Inl e \<Rightarrow> Inl e
      | Inr us \<Rightarrow> (case traverse f ys of Inl e \<Rightarrow> Inl e | Inr vs \<Rightarrow> Inr (us @ vs)))"
  by (induction xs) (auto split: sum.splits)

subsection \<open>Python strings\<close>

text \<open>\<open>s.split(c, 1)\<close> unpacked into two names: no separator, no pair (the code raises).\<close>

fun split_once :: "char \<Rightarrow> string \<Rightarrow> (string \<times> string) option" where
  "split_once c [] = None"
| "split_once c (x # xs) =
     (if x = c then Some ([], xs)
      else (case split_once c xs of None \<Rightarrow> None | Some (a, b) \<Rightarrow> Some (x # a, b)))"

definition rsplit_once :: "char \<Rightarrow> string \<Rightarrow> (string \<times> string) option" where
  "rsplit_once c s =
     (case split_once c (rev s) of None \<Rightarrow> None | Some (a, b) \<Rightarrow> Some (rev b, rev a))"

lemma split_once_Some:
  "split_once c s = Some (a, b) \<longleftrightarrow> s = a @ c # b \<and> c \<notin> set a"
proof (induction s arbitrary: a)
  case Nil
  show ?case by simp
next
  case (Cons x s)
  have "split_once c (x # s) = Some (a, b) \<longleftrightarrow>
      (x = c \<and> a = [] \<and> b = s) \<or>
      (x \<noteq> c \<and> (\<exists>a'. a = x # a' \<and> split_once c s = Some (a', b)))"
    by (auto split: option.splits)
  then show ?case
    by (cases a) (auto simp: Cons.IH)
qed

lemma split_once_None: "split_once c s = None \<longleftrightarrow> c \<notin> set s"
  by (induction s) (auto split: option.splits)

lemma rsplit_once_Some:
  "rsplit_once c s = Some (a, b) \<longleftrightarrow> s = a @ c # b \<and> c \<notin> set b"
proof -
  have "rsplit_once c s = Some (a, b) \<longleftrightarrow> split_once c (rev s) = Some (rev b, rev a)"
    by (auto simp: rsplit_once_def split: option.splits)
  also have "\<dots> \<longleftrightarrow> rev s = rev b @ c # rev a \<and> c \<notin> set b"
    by (simp add: split_once_Some)
  also have "\<dots> \<longleftrightarrow> s = a @ c # b \<and> c \<notin> set b"
    by (metis append.assoc append_Cons append_Nil rev.simps(2) rev_append rev_rev_ident)
  finally show ?thesis .
qed

lemma rsplit_once_None: "rsplit_once c s = None \<longleftrightarrow> c \<notin> set s"
proof -
  have "rsplit_once c s = None \<longleftrightarrow> split_once c (rev s) = None"
    by (simp add: rsplit_once_def split: option.splits)
  then show ?thesis by (simp add: split_once_None)
qed

text \<open>A text is cut in one way at the first character of a class.\<close>

lemma cut_unique:
  assumes "\<forall>c \<in> set a. \<not> P c" "\<forall>c \<in> set b. \<not> P c"
    and "r = [] \<or> P (hd r)" "s = [] \<or> P (hd s)" and "a @ r = b @ s"
  shows "a = b \<and> r = s"
proof -
  have cut: "takeWhile (\<lambda>c. \<not> P c) (x @ t) = x"
    if "\<forall>c \<in> set x. \<not> P c" "t = [] \<or> P (hd t)" for x t
    using that by (cases t) (simp_all add: takeWhile_append2)
  have "a = b" using cut [OF assms(1,3)] cut [OF assms(2,4)] assms(5) by metis
  with assms(5) show ?thesis by simp
qed

fun split_all :: "char \<Rightarrow> string \<Rightarrow> string list" where
  "split_all c [] = [[]]"
| "split_all c (x # xs) =
     (if x = c then [] # split_all c xs
      else (case split_all c xs of [] \<Rightarrow> [[x]] | p # ps \<Rightarrow> (x # p) # ps))"

lemma split_all_nonempty [simp]: "split_all c s \<noteq> []"
  by (cases s) (auto split: list.splits)

lemma split_all_chars: "(\<Union>p \<in> set (split_all c s). set p) = set s - {c}"
proof (induction s)
  case Nil
  show ?case by simp
next
  case (Cons x s)
  obtain p ps where "split_all c s = p # ps"
    using split_all_nonempty [of c s] by (cases "split_all c s") auto
  with Cons show ?case by auto
qed

definition replace_char :: "char \<Rightarrow> string \<Rightarrow> string \<Rightarrow> string" where
  "replace_char c r s = concat (map (\<lambda>x. if x = c then r else [x]) s)"

definition starts_with :: "string \<Rightarrow> string \<Rightarrow> bool" where
  "starts_with p s = (take (length p) s = p)"

definition is_digit :: "char \<Rightarrow> bool" where
  "is_digit c = (c \<in> set ''0123456789'')"

definition is_lower :: "char \<Rightarrow> bool" where
  "is_lower c = (c \<in> set ''abcdefghijklmnopqrstuvwxyz'')"

definition is_space :: "char \<Rightarrow> bool" where
  "is_space c = (of_char c \<in> {9, 10, 11, 12, 13, 28, 29, 30, 31, 32, 133, 160 :: nat})"

definition lstrip :: "string \<Rightarrow> string" where
  "lstrip s = dropWhile is_space s"

definition strip :: "string \<Rightarrow> string" where
  "strip s = rev (lstrip (rev (lstrip s)))"

definition to_lower :: "char \<Rightarrow> char" where
  "to_lower c = (let n = (of_char c :: nat)
     in if 65 \<le> n \<and> n \<le> 90 then char_of (n + 32) else c)"

subsection \<open>Decimal rendering\<close>

definition digit_char :: "nat \<Rightarrow> char" where
  "digit_char d = char_of (48 + d)"

fun nat_str :: "nat \<Rightarrow> string" where
  "nat_str n = (if n < 10 then [digit_char n] else nat_str (n div 10) @ [digit_char (n mod 10)])"

declare nat_str.simps [simp del]

definition int_str :: "int \<Rightarrow> string" where
  "int_str i = (if i < 0 then CHR ''-'' # nat_str (nat (- i)) else nat_str (nat i))"

text \<open>Fixed-width decimals, as \<open>f"{n:04d}"\<close> renders a number that fits.\<close>

fun fixed_str :: "nat \<Rightarrow> nat \<Rightarrow> string" where
  "fixed_str 0 n = []"
| "fixed_str (Suc w) n = fixed_str w (n div 10) @ [digit_char (n mod 10)]"

lemma of_char_digit [simp]: "d < 10 \<Longrightarrow> of_char (digit_char d) = 48 + d"
  by (simp add: digit_char_def)

lemma digit_char_inj: "a < 10 \<Longrightarrow> b < 10 \<Longrightarrow> digit_char a = digit_char b \<longleftrightarrow> a = b"
  by (metis of_char_digit add_left_cancel)

lemma digit_char_less: "a < 10 \<Longrightarrow> b < 10 \<Longrightarrow> digit_char a < digit_char b \<longleftrightarrow> a < b"
  by (simp add: less_char_def)

lemma digit_chars: "''0123456789'' = map digit_char [0..<10]"
  by code_simp

text \<open>Evaluation rules, so that closed texts compute by \<open>simp\<close>.\<close>

lemma digit_char_nth: "d < 10 \<Longrightarrow> digit_char d = ''0123456789'' ! d"
  unfolding digit_chars by simp

lemma digit_char_eval:
  "digit_char 0 = CHR ''0''" "digit_char 1 = CHR ''1''" "digit_char 2 = CHR ''2''"
  "digit_char 3 = CHR ''3''" "digit_char 4 = CHR ''4''" "digit_char 5 = CHR ''5''"
  "digit_char 6 = CHR ''6''" "digit_char 7 = CHR ''7''" "digit_char 8 = CHR ''8''"
  "digit_char 9 = CHR ''9''" "digit_char (Suc 0) = CHR ''1''"
  using digit_char_nth [of 0] digit_char_nth [of 1] digit_char_nth [of 2]
    digit_char_nth [of 3] digit_char_nth [of 4] digit_char_nth [of 5] digit_char_nth [of 6]
    digit_char_nth [of 7] digit_char_nth [of 8] digit_char_nth [of 9]
  by simp_all

lemma is_digit_iff: "is_digit c \<longleftrightarrow> (\<exists>d < 10. c = digit_char d)"
  by (auto simp only: is_digit_def digit_chars set_map set_upt image_iff atLeastLessThan_iff)

lemma is_digit_digit_char [simp]: "d < 10 \<Longrightarrow> is_digit (digit_char d)"
  by (auto simp: is_digit_iff)

lemma fixed_str_numeral:
  "fixed_str (numeral k) n = fixed_str (pred_numeral k) (n div 10) @ [digit_char (n mod 10)]"
  unfolding numeral_eq_Suc [of k] by (rule fixed_str.simps)

lemma nat_str_eval:
  "n < 10 \<Longrightarrow> nat_str n = [digit_char n]"
  "\<not> n < 10 \<Longrightarrow> nat_str n = nat_str (n div 10) @ [digit_char (n mod 10)]"
  by (simp_all add: nat_str.simps [of n])

lemmas text_eval = digit_char_eval fixed_str_numeral nat_str_eval

lemma length_fixed_str [simp]: "length (fixed_str w n) = w"
  by (induction w arbitrary: n) auto

definition digits_val :: "string \<Rightarrow> nat" where
  "digits_val s = foldl (\<lambda>a c. 10 * a + (of_char c - 48)) 0 s"

lemma digits_val_snoc: "d < 10 \<Longrightarrow> digits_val (s @ [digit_char d]) = 10 * digits_val s + d"
  by (simp add: digits_val_def)

lemma digits_val_nat_str [simp]: "digits_val (nat_str n) = n"
proof (induction n rule: nat_str.induct)
  case (1 n)
  show ?case
  proof (cases "n < 10")
    case True
    then show ?thesis
      using digits_val_snoc [of n "[]"] by (simp add: nat_str.simps [of n] digits_val_def)
  next
    case False
    with 1 have "digits_val (nat_str (n div 10)) = n div 10" by simp
    with False show ?thesis
      by (simp add: nat_str.simps [of n] digits_val_snoc)
  qed
qed

lemma nat_str_inj [simp]: "nat_str m = nat_str n \<longleftrightarrow> m = n"
  by (metis digits_val_nat_str)

lemma nat_str_nonempty [simp]: "nat_str n \<noteq> []"
  by (subst nat_str.simps) simp

lemma nat_str_digits: "c \<in> set (nat_str n) \<Longrightarrow> is_digit c"
proof (induction n rule: nat_str.induct)
  case (1 n)
  then show ?case
    by (cases "n < 10") (auto simp: nat_str.simps [of n])
qed

lemma minus_not_digit [simp]: "\<not> is_digit (CHR ''-'')"
  by (simp add: is_digit_def)

lemma hd_nat_str: "is_digit (hd (nat_str n))"
  by (rule nat_str_digits [of _ n]) simp

lemma int_str_inj [simp]: "int_str i = int_str j \<longleftrightarrow> i = j"
proof -
  have neq: "CHR ''-'' # s \<noteq> nat_str n" for s n
    using hd_nat_str [of n] by (metis list.sel(1) minus_not_digit)
  then show ?thesis
    by (auto simp: int_str_def neq [symmetric] split: if_splits)
qed

text \<open>\<open>int(s)\<close> on decimal text.\<close>

definition int_of_text :: "string \<Rightarrow> int" where
  "int_of_text s = (case s of
       c # t \<Rightarrow> if c = CHR ''-'' then - int (digits_val t) else int (digits_val s)
     | [] \<Rightarrow> 0)"

lemma int_of_text_int_str [simp]: "int_of_text (int_str i) = i"
proof (cases "i < 0")
  case False
  have "hd (nat_str (nat i)) \<noteq> CHR ''-''" using hd_nat_str [of "nat i"] by force
  then have "int_of_text (nat_str (nat i)) = int (digits_val (nat_str (nat i)))"
    by (cases "nat_str (nat i)") (simp_all add: int_of_text_def digits_val_def)
  then show ?thesis using False by (simp add: int_str_def)
qed (simp add: int_of_text_def int_str_def)

lemma append_less_append:
  "length a = length b \<Longrightarrow>
     (a @ c < b @ d) = (a < b \<or> a = b \<and> c < (d :: 'a::linorder list))"
  by (induction a b rule: list_induct2) auto

lemma fixed_str_less:
  "m < 10 ^ w \<Longrightarrow> n < 10 ^ w \<Longrightarrow> fixed_str w m < fixed_str w n \<longleftrightarrow> m < n"
proof (induction w arbitrary: m n)
  case 0
  then show ?case by simp
next
  case (Suc w)
  have digits: "m mod 10 < 10" "n mod 10 < 10" by simp_all
  have quot: "m div 10 < 10 ^ w" "n div 10 < 10 ^ w"
    using Suc.prems by (auto simp: less_mult_imp_div_less mult.commute)
  have eq: "fixed_str w (m div 10) = fixed_str w (n div 10) \<longleftrightarrow> m div 10 = n div 10"
    using Suc.IH [OF quot] Suc.IH [OF quot(2) quot(1)] by (metis less_irrefl linorder_less_linear)
  have "fixed_str (Suc w) m < fixed_str (Suc w) n \<longleftrightarrow>
      m div 10 < n div 10 \<or> m div 10 = n div 10 \<and> m mod 10 < n mod 10"
    by (simp add: append_less_append eq Suc.IH [OF quot] digit_char_less [OF digits])
  also have "\<dots> \<longleftrightarrow> m < n"
  proof -
    have parts: "m = 10 * (m div 10) + m mod 10" "n = 10 * (n div 10) + n mod 10" by simp_all
    show ?thesis using parts digits by linarith
  qed
  finally show ?case .
qed

lemma fixed_str_eq:
  "m < 10 ^ w \<Longrightarrow> n < 10 ^ w \<Longrightarrow> fixed_str w m = fixed_str w n \<longleftrightarrow> m = n"
  by (metis fixed_str_less less_irrefl linorder_less_linear)

subsection \<open>Tables\<close>

text \<open>
  A table is the list of its rows in insertion order. \<open>sql_update P f\<close> is
  \<open>UPDATE ... SET f WHERE P\<close>, \<open>rowcount P\<close> the number of rows the statement matched.
\<close>

definition sql_update :: "('r \<Rightarrow> bool) \<Rightarrow> ('r \<Rightarrow> 'r) \<Rightarrow> 'r list \<Rightarrow> 'r list" where
  "sql_update P f t = map (\<lambda>r. if P r then f r else r) t"

definition rowcount :: "('r \<Rightarrow> bool) \<Rightarrow> 'r list \<Rightarrow> nat" where
  "rowcount P t = length (filter P t)"

lemma length_sql_update [simp, table_simps]: "length (sql_update P f t) = length t"
  by (simp add: sql_update_def)

lemma sql_update_Nil [simp, table_simps]: "sql_update P f [] = []"
  by (simp add: sql_update_def)

lemma sql_update_Cons [simp, table_simps]:
  "sql_update P f (r # t) = (if P r then f r else r) # sql_update P f t"
  by (simp add: sql_update_def)

lemma set_sql_update: "set (sql_update P f t) = (\<lambda>r. if P r then f r else r) ` set t"
  by (simp add: sql_update_def)

lemma rowcount_0_iff [simp, table_simps]: "rowcount P t = 0 \<longleftrightarrow> (\<forall>r \<in> set t. \<not> P r)"
  by (auto simp: rowcount_def filter_empty_conv)

lemma rowcount_pos_iff: "0 < rowcount P t \<longleftrightarrow> (\<exists>r \<in> set t. P r)"
  using rowcount_0_iff [of P t] by (metis neq0_conv)

lemma sql_update_no_match: "rowcount P t = 0 \<Longrightarrow> sql_update P f t = t"
  by (induction t) (auto simp: rowcount_def split: if_splits)

lemma sql_update_keeps_map:
  "(\<And>r. P r \<Longrightarrow> g (f r) = g r) \<Longrightarrow> map g (sql_update P f t) = map g t"
  by (induction t) auto

lemma sql_update_keeps_all:
  assumes "\<And>r. r \<in> set t \<Longrightarrow> Q r" and "\<And>r. r \<in> set t \<Longrightarrow> P r \<Longrightarrow> Q r \<Longrightarrow> Q (f r)"
    and "r \<in> set (sql_update P f t)"
  shows "Q r"
  using assms by (auto simp: set_sql_update split: if_splits)

lemma find_sql_update:
  assumes "\<And>r. key (f r) = key r"
  shows "find (\<lambda>r. key r = k) (sql_update (\<lambda>r. key r = k') f t)
    = map_option (\<lambda>r. if k = k' then f r else r) (find (\<lambda>r. key r = k) t)"
  using assms by (induction t) auto

subsection \<open>Interface: a table with a unique key\<close>

locale keyed_table =
  fixes key :: "'r \<Rightarrow> 'k"
    and rows :: "'t \<Rightarrow> 'r list"
    and lookup :: "'t \<Rightarrow> 'k \<Rightarrow> 'r option"
    and add :: "'r \<Rightarrow> 't \<Rightarrow> 't"
  assumes lookup_first: "lookup t k = find (\<lambda>r. key r = k) (rows t)"
    and rows_add: "rows (add r t) = rows t @ [r]"
begin

lemma lookup_None: "lookup t k = None \<longleftrightarrow> k \<notin> key ` set (rows t)"
  by (auto simp: lookup_first find_None_iff)

lemma lookup_SomeD: "lookup t k = Some r \<Longrightarrow> r \<in> set (rows t) \<and> key r = k"
  by (auto simp: lookup_first find_Some_iff)

lemma lookup_unique:
  "distinct (map key (rows t)) \<Longrightarrow> lookup t k = Some r \<longleftrightarrow> r \<in> set (rows t) \<and> key r = k"
proof
  assume "lookup t k = Some r"
  then show "r \<in> set (rows t) \<and> key r = k" by (rule lookup_SomeD)
next
  assume dist: "distinct (map key (rows t))" and r: "r \<in> set (rows t) \<and> key r = k"
  then have "lookup t k \<noteq> None" by (auto simp: lookup_None)
  then obtain r' where r': "lookup t k = Some r'" by blast
  then have "r' \<in> set (rows t) \<and> key r' = k" by (rule lookup_SomeD)
  with dist r have "r' = r" by (auto simp: distinct_map inj_on_def)
  with r' show "lookup t k = Some r" by simp
qed

lemma lookup_add:
  "lookup (add r t) k =
     (case lookup t k of Some r' \<Rightarrow> Some r' | None \<Rightarrow> if key r = k then Some r else None)"
proof -
  have "find P (xs @ [r]) =
      (case find P xs of Some r' \<Rightarrow> Some r' | None \<Rightarrow> if P r then Some r else None)" for P xs
    by (induction xs) auto
  then show ?thesis by (simp add: lookup_first rows_add)
qed

lemma add_keeps_unique:
  "distinct (map key (rows t)) \<Longrightarrow> lookup t (key r) = None \<Longrightarrow> distinct (map key (rows (add r t)))"
  by (auto simp: rows_add lookup_None)

end

end
