(* ===== verification/Calendar.thy ===== *)
theory Calendar
  imports Prelude
begin

section \<open>Datetimes and their ISO text\<close>

text \<open>
  The datetimes of the code: naive or aware values of Python's \<open>datetime\<close>, counted in
  microseconds from 0001-01-01T00:00:00 of their own clock, an aware one with its UTC offset.
  \<open>as_utc\<close> is the normalisation \<open>_as_utc\<close> / \<open>_utc\<close> that jobs, registry and
  observability share, and \<open>iso_us\<close> the text that \<open>isoformat(timespec="microseconds")\<close>
  gives for a UTC value. The online store compares these texts, so the main lemma
  \<open>iso_us_less\<close> says that their lexicographic order is the order of time over the whole
  range of years 1 to 9999.
\<close>

subsection \<open>Naive and aware datetimes\<close>

datatype datetime = Naive int | Aware int int

text \<open>\<open>datetime.replace(tzinfo=UTC)\<close> on a naive value, \<open>astimezone(UTC)\<close> on an aware one.\<close>

fun as_utc :: "datetime \<Rightarrow> datetime" where
  "as_utc (Naive t) = Aware t 0"
| "as_utc (Aware t off) = Aware (t - off) 0"

fun has_tz :: "datetime \<Rightarrow> bool" where
  "has_tz (Naive t) = False"
| "has_tz (Aware t off) = True"

text \<open>The UTC instant a normalised value stands for, in microseconds.\<close>

fun instant :: "datetime \<Rightarrow> int" where
  "instant (Naive t) = t"
| "instant (Aware t off) = t - off"

definition seconds :: "int \<Rightarrow> int" where
  "seconds s = s * 1000000"

lemma instant_as_utc [simp]: "instant (as_utc d) = instant d"
  by (cases d) auto

lemma as_utc_idem [simp]: "as_utc (as_utc d) = as_utc d"
  by (cases d) auto

lemma has_tz_as_utc [simp]: "has_tz (as_utc d)"
  by (cases d) auto

lemma as_utc_instant: "as_utc d = Aware (instant d) 0"
  by (cases d) auto

lemma seconds_mono [simp]: "seconds a \<le> seconds b \<longleftrightarrow> a \<le> b"
  by (simp add: seconds_def)

lemma seconds_nonneg [simp]: "0 \<le> seconds a \<longleftrightarrow> 0 \<le> a"
  by (simp add: seconds_def)

subsection \<open>The Gregorian calendar\<close>

definition leap_year :: "nat \<Rightarrow> bool" where
  "leap_year y \<longleftrightarrow> 4 dvd y \<and> (\<not> 100 dvd y \<or> 400 dvd y)"

definition year_days :: "nat \<Rightarrow> nat" where
  "year_days y = (if leap_year y then 366 else 365)"

definition month_lengths :: "nat \<Rightarrow> nat list" where
  "month_lengths y = [31, if leap_year y then 29 else 28, 31, 30, 31, 30, 31, 31, 30, 31, 30, 31]"

text \<open>Year and zero-based day of the year of a day number (day 0 is 0001-01-01).\<close>

definition year_day :: "nat \<Rightarrow> nat \<times> nat" where
  "year_day n =
     (let a = n div 146097; r = n mod 146097;
          b = min 3 (r div 36524); r = r - 36524 * b;
          c = r div 1461; r = r mod 1461;
          d = min 3 (r div 365)
      in (400 * a + 100 * b + 4 * c + d + 1, r - 365 * d))"

fun month_day :: "nat \<Rightarrow> nat list \<Rightarrow> nat \<Rightarrow> nat \<times> nat" where
  "month_day m [] d = (m, d + 1)"
| "month_day m (l # ls) d = (if d < l then (m, d + 1) else month_day (m + 1) ls (d - l))"

definition civil :: "nat \<Rightarrow> nat \<times> nat \<times> nat" where
  "civil n = (let (y, d) = year_day n in (y, month_day 1 (month_lengths y) d))"

primrec days_before :: "nat \<Rightarrow> nat" where
  "days_before 0 = 0"
| "days_before (Suc p) = days_before p + year_days (Suc p)"

lemma days_before_closed: "int (days_before p) = 365 * int p + int (p div 4) - int (p div 100) + int (p div 400)"
proof (induction p)
  case 0
  show ?case by simp
next
  case (Suc p)
  have dvds: "100 dvd Suc p \<Longrightarrow> 4 dvd Suc p" "400 dvd Suc p \<Longrightarrow> 100 dvd Suc p"
    by (auto elim!: dvd_trans [rotated])
  show ?case
    using Suc dvds
    by (auto simp: year_days_def leap_year_def div_Suc dvd_eq_mod_eq_0 [symmetric])
qed

lemma days_before_cycles:
  assumes "b \<le> 3" "c \<le> 24" "d \<le> 3"
  shows "days_before (400 * a + 100 * b + 4 * c + d) = 146097 * a + 36524 * b + 1461 * c + 365 * d"
proof -
  let ?p = "400 * a + 100 * b + 4 * c + d"
  have q4: "?p div 4 = 100 * a + 25 * b + c" using assms by linarith
  have q100: "?p div 100 = 4 * a + b" using assms by linarith
  have q400: "?p div 400 = a" using assms by linarith
  have "int (days_before ?p) =
      365 * int ?p + int (100 * a + 25 * b + c) - int (4 * a + b) + int a"
    by (simp only: days_before_closed q4 q100 q400)
  also have "\<dots> = int (146097 * a + 36524 * b + 1461 * c + 365 * d)" by simp
  finally show ?thesis by (simp only: of_nat_eq_iff)
qed

lemma leap_year_cycles:
  assumes "b \<le> 3" "c \<le> 24" "d \<le> 3"
  shows "leap_year (Suc (400 * a + 100 * b + 4 * c + d)) \<longleftrightarrow> d = 3 \<and> (c < 24 \<or> b = 3)"
proof -
  let ?y = "Suc (400 * a + 100 * b + 4 * c + d)"
  have r4: "?y = 4 * (100 * a + 25 * b + c) + Suc d" by simp
  have m4: "4 dvd ?y \<longleftrightarrow> d = 3"
  proof -
    have "4 dvd ?y \<longleftrightarrow> 4 dvd Suc d"
      unfolding r4 by (rule dvd_add_right_iff) simp
    also have "\<dots> \<longleftrightarrow> Suc d = 4"
      using assms by (auto dest: dvd_imp_le)
    finally show ?thesis by simp
  qed
  have r100: "?y = 100 * (4 * a + b) + Suc (4 * c + d)" by simp
  have m100: "100 dvd ?y \<longleftrightarrow> c = 24 \<and> d = 3"
  proof -
    have "100 dvd ?y \<longleftrightarrow> 100 dvd Suc (4 * c + d)"
      unfolding r100 by (rule dvd_add_right_iff) simp
    also have "\<dots> \<longleftrightarrow> Suc (4 * c + d) = 100"
      using assms by (auto dest: dvd_imp_le)
    finally show ?thesis using assms by linarith
  qed
  have r400: "?y = 400 * a + Suc (100 * b + 4 * c + d)" by simp
  have m400: "400 dvd ?y \<longleftrightarrow> b = 3 \<and> c = 24 \<and> d = 3"
  proof -
    have "400 dvd ?y \<longleftrightarrow> 400 dvd Suc (100 * b + 4 * c + d)"
      unfolding r400 by (rule dvd_add_right_iff) simp
    also have "\<dots> \<longleftrightarrow> Suc (100 * b + 4 * c + d) = 400"
      using assms by (auto dest: dvd_imp_le)
    finally show ?thesis using assms by linarith
  qed
  show ?thesis unfolding leap_year_def m4 m100 m400 using assms by auto
qed

lemma year_day_split:
  assumes "year_day n = (y, k)"
  obtains p where "y = Suc p" "n = days_before p + k" "k < year_days (Suc p)"
proof -
  define a where "a = n div 146097"
  define r1 where "r1 = n mod 146097"
  define b where "b = min 3 (r1 div 36524)"
  define r2 where "r2 = r1 - 36524 * b"
  define c where "c = r2 div 1461"
  define r3 where "r3 = r2 mod 1461"
  define d where "d = min 3 (r3 div 365)"
  have n: "n = 146097 * a + r1" and r1: "r1 < 146097" by (simp_all add: a_def r1_def)
  have b: "b \<le> 3" "36524 * b \<le> r1" "r2 < 36525" "b < 3 \<Longrightarrow> r2 < 36524"
    using r1 unfolding r2_def b_def by (auto simp: min_def)
  then have r1_eq: "r1 = 36524 * b + r2" unfolding r2_def by simp
  have c: "c \<le> 24" and r3: "r3 < 1461" and r2_eq: "r2 = 1461 * c + r3"
    using b(3) by (simp_all add: c_def r3_def)
  have d: "d \<le> 3" "365 * d \<le> r3" "d < 3 \<Longrightarrow> r3 - 365 * d < 365"
    unfolding d_def by (auto simp: min_def)
  let ?p = "400 * a + 100 * b + 4 * c + d"
  have yk: "y = Suc ?p" "k = r3 - 365 * d"
    using assms unfolding year_day_def Let_def a_def b_def c_def d_def r1_def r2_def r3_def by simp_all
  have "n = days_before ?p + k"
    using days_before_cycles [OF b(1) c d(1), of a] n r1_eq r2_eq d(2) yk(2) by linarith
  moreover have "k < year_days (Suc ?p)"
  proof (cases "leap_year (Suc ?p)")
    case True
    have "k < 366" using d yk(2) r3 by linarith
    with True show ?thesis by (simp add: year_days_def)
  next
    case False
    then have "d < 3 \<or> (c = 24 \<and> b < 3)"
      using leap_year_cycles [OF b(1) c d(1), of a] b(1) c d(1) by auto
    then have "k < 365" using d yk(2) r2_eq b(4) by (cases "d < 3") auto
    with False show ?thesis by (simp add: year_days_def)
  qed
  ultimately show ?thesis using that yk(1) by blast
qed

lemma days_before_mono: "p \<le> q \<Longrightarrow> days_before p \<le> days_before q"
  by (rule lift_Suc_mono_le [of days_before]) simp_all

lemma year_day_less:
  assumes m: "year_day m = (y, k)" and n: "year_day n = (y', k')"
  shows "m < n \<longleftrightarrow> y < y' \<or> y = y' \<and> k < k'"
proof -
  obtain p where p: "y = Suc p" "m = days_before p + k" "k < year_days (Suc p)"
    using year_day_split [OF m] by blast
  obtain q where q: "y' = Suc q" "n = days_before q + k'" "k' < year_days (Suc q)"
    using year_day_split [OF n] by blast
  have lt: "p < q \<Longrightarrow> m < n" using p q days_before_mono [of "Suc p" q] by simp
  have gt: "q < p \<Longrightarrow> n < m" using p q days_before_mono [of "Suc q" p] by simp
  show ?thesis using lt gt p q by (cases p q rule: linorder_cases) auto
qed

lemma month_day_ge: "m \<le> fst (month_day m ls d)"
  by (induction m ls d rule: month_day.induct) auto

lemma month_day_less:
  "d < sum_list ls \<Longrightarrow> d' < sum_list ls \<Longrightarrow>
     month_day m ls d < month_day m ls d' \<longleftrightarrow> d < d'"
proof (induction m ls d arbitrary: d' rule: month_day.induct)
  case (1 m d)
  then show ?case by simp
next
  case (2 m l ls d)
  have later: "(m, Suc x) < month_day (Suc m) ls y" for x y
    using month_day_ge [of "Suc m" ls y] by (cases "month_day (Suc m) ls y") auto
  show ?case
  proof (cases "d < l")
    case True
    show ?thesis
      using True later [of d "d' - l"] by (cases "d' < l") auto
  next
    case False
    show ?thesis
    proof (cases "d' < l")
      case True
      then show ?thesis
        using False later [of d' "d - l"] by auto
    next
      case d': False
      then show ?thesis
        using False "2.IH" [of "d' - l"] "2.prems" by auto
    qed
  qed
qed

lemma month_day_bounds:
  "d < sum_list ls \<Longrightarrow> month_day m ls d = (mo, dd) \<Longrightarrow>
     mo < m + length ls \<and> dd \<le> Max (set ls)"
proof (induction m ls d rule: month_day.induct)
  case (1 m d)
  then show ?case by simp
next
  case (2 m l ls d)
  show ?case
  proof (cases "d < l")
    case True
    then show ?thesis using "2.prems" by (auto intro: Max_ge [THEN le_trans [rotated]])
  next
    case False
    then have ih: "mo < Suc m + length ls \<and> dd \<le> Max (set ls)"
      using "2.IH" "2.prems" by auto
    have "ls \<noteq> []" using False "2.prems" by auto
    then have "Max (set ls) \<le> Max (set (l # ls))" by (auto intro: Max_mono)
    then show ?thesis using ih by auto
  qed
qed

lemma sum_month_lengths [simp]: "sum_list (month_lengths y) = year_days y"
  by (simp add: month_lengths_def year_days_def)

lemma civil_bounds:
  assumes "n < 3652059" and "civil n = (y, m, d)"
  shows "y < 10 ^ 4" and "m < 10 ^ 2" and "d < 10 ^ 2"
proof -
  obtain k where yk: "year_day n = (y, k)" and md: "month_day 1 (month_lengths y) k = (m, d)"
    using assms(2) by (auto simp: civil_def split: prod.splits)
  obtain p where p: "y = Suc p" "n = days_before p + k" "k < year_days (Suc p)"
    using year_day_split [OF yk] by blast
  have last: "days_before 9999 = 3652059"
    using days_before_cycles [of 3 24 3 24] by simp
  have "p < 9999"
  proof (rule ccontr)
    assume "\<not> p < 9999"
    then have "3652059 \<le> days_before p" using days_before_mono [of 9999 p] last by simp
    with assms(1) p(2) show False by simp
  qed
  with p(1) show "y < 10 ^ 4" by simp
  have "k < sum_list (month_lengths y)" using p by simp
  from month_day_bounds [OF this md] show "m < 10 ^ 2" "d < 10 ^ 2"
    by (auto simp: month_lengths_def)
qed

lemma civil_less:
  "civil m < civil n \<longleftrightarrow> m < n"
proof -
  obtain y k y' k' where m: "year_day m = (y, k)" and n: "year_day n = (y', k')"
    by (metis surj_pair)
  obtain p q where k: "k < year_days y" "k' < year_days y'"
    using year_day_split [OF m] year_day_split [OF n] by metis
  show ?thesis
    using year_day_less [OF m n] k month_day_less [of k "month_lengths y" k' 1]
    by (auto simp: civil_def m n less_prod_def')
qed

lemma civil_eq: "civil m = civil n \<longleftrightarrow> m = n"
proof
  assume "civil m = civil n"
  then have "\<not> civil m < civil n" "\<not> civil n < civil m" by simp_all
  then show "m = n" by (simp add: civil_less)
qed simp

subsection \<open>The ISO text of a UTC instant\<close>

definition clock :: "nat \<Rightarrow> nat \<times> nat \<times> nat \<times> nat" where
  "clock r = (r div 3600000000, r div 60000000 mod 60, r div 1000000 mod 60, r mod 1000000)"

definition iso_us :: "int \<Rightarrow> string" where
  "iso_us t =
     (let n = nat t;
          (y, m, d) = civil (n div 86400000000);
          (hh, mi, ss, us) = clock (n mod 86400000000)
      in fixed_str 4 y @ CHR ''-'' # fixed_str 2 m @ CHR ''-'' # fixed_str 2 d @ CHR ''T'' #
         fixed_str 2 hh @ CHR '':'' # fixed_str 2 mi @ CHR '':'' # fixed_str 2 ss @
         CHR ''.'' # fixed_str 6 us @ ''+00:00'')"

text \<open>The instants a Python datetime can hold: years 1 to 9999.\<close>

definition in_range :: "int \<Rightarrow> bool" where
  "in_range t \<longleftrightarrow> 0 \<le> t \<and> t < 3652059 * 86400000000"

lemma clock_less: "clock r < clock s \<longleftrightarrow> r < s"
proof -
  have parts: "\<exists>h m s u. clock r = (h, m, s, u) \<and> m < 60 \<and> s < 60 \<and> u < 1000000 \<and>
      r = 3600000000 * h + 60000000 * m + 1000000 * s + u" for r
  proof -
    have u: "r = 1000000 * (r div 1000000) + r mod 1000000" by simp
    have s: "r div 1000000 = 60 * (r div 60000000) + r div 1000000 mod 60"
      using div_mult2_eq [of r 1000000 60] by simp
    have m: "r div 60000000 = 60 * (r div 3600000000) + r div 60000000 mod 60"
      using div_mult2_eq [of r 60000000 60] by simp
    from u s m have "r = 3600000000 * (r div 3600000000) + 60000000 * (r div 60000000 mod 60)
        + 1000000 * (r div 1000000 mod 60) + r mod 1000000" by linarith
    then show ?thesis by (simp add: clock_def)
  qed
  obtain h m c u where r: "clock r = (h, m, c, u)" "m < 60" "c < 60" "u < 1000000"
      "r = 3600000000 * h + 60000000 * m + 1000000 * c + u" using parts [of r] by blast
  obtain h' m' c' u' where s: "clock s = (h', m', c', u')" "m' < 60" "c' < 60" "u' < 1000000"
      "s = 3600000000 * h' + 60000000 * m' + 1000000 * c' + u'" using parts [of s] by blast
  show ?thesis unfolding r(1) s(1) less_prod_simp using r(2-) s(2-) by linarith
qed

lemma clock_bounds:
  "r < 86400000000 \<Longrightarrow> clock r = (hh, mi, ss, us) \<Longrightarrow>
     hh < 10 ^ 2 \<and> mi < 10 ^ 2 \<and> ss < 10 ^ 2 \<and> us < 10 ^ 6"
  by (auto simp: clock_def intro: less_trans [of _ 60])

lemma fixed_append_less:
  "m < 10 ^ w \<Longrightarrow> n < 10 ^ w \<Longrightarrow>
     fixed_str w m @ a < fixed_str w n @ b \<longleftrightarrow> m < n \<or> m = n \<and> a < b"
  by (simp add: append_less_append fixed_str_less fixed_str_eq)

theorem iso_us_less:
  assumes "in_range t" and "in_range u"
  shows "iso_us t < iso_us u \<longleftrightarrow> t < u"
proof -
  define m where "m = nat t"
  define n where "n = nat u"
  obtain y mo d y' mo' d' where c: "civil (m div 86400000000) = (y, mo, d)"
      "civil (n div 86400000000) = (y', mo', d')" by (metis prod_cases3)
  obtain h mi s us h' mi' s' us' where k: "clock (m mod 86400000000) = (h, mi, s, us)"
      "clock (n mod 86400000000) = (h', mi', s', us')" by (metis prod_cases4)
  have range: "m div 86400000000 < 3652059" "n div 86400000000 < 3652059"
    using assms by (auto simp: in_range_def m_def n_def less_mult_imp_div_less nat_less_iff)
  note b = civil_bounds [OF range(1) c(1)] civil_bounds [OF range(2) c(2)]
    clock_bounds [OF _ k(1)] clock_bounds [OF _ k(2)]
  have "iso_us t < iso_us u \<longleftrightarrow>
      (y, mo, d) < (y', mo', d') \<or> (y, mo, d) = (y', mo', d') \<and> (h, mi, s, us) < (h', mi', s', us')"
    using b unfolding iso_us_def m_def [symmetric] n_def [symmetric] Let_def c k
    by (auto simp: fixed_append_less less_prod_simp)
  also have "\<dots> \<longleftrightarrow> m div 86400000000 < n div 86400000000 \<or>
      m div 86400000000 = n div 86400000000 \<and> m mod 86400000000 < n mod 86400000000"
    unfolding c [symmetric] k [symmetric] civil_less clock_less
    by (simp only: civil_eq)
  also have "\<dots> \<longleftrightarrow> m < n"
  proof -
    have parts: "m = 86400000000 * (m div 86400000000) + m mod 86400000000"
      "n = 86400000000 * (n div 86400000000) + n mod 86400000000" by simp_all
    have mods: "m mod 86400000000 < 86400000000" "n mod 86400000000 < 86400000000" by simp_all
    show ?thesis using parts mods by linarith
  qed
  also have "\<dots> \<longleftrightarrow> t < u" using assms by (auto simp: m_def n_def in_range_def)
  finally show ?thesis .
qed

corollary iso_us_eq: "in_range t \<Longrightarrow> in_range u \<Longrightarrow> iso_us t = iso_us u \<longleftrightarrow> t = u"
  by (metis iso_us_less less_irrefl linorder_less_linear)

end
