(* ===== verification/Values.thy ===== *)
theory Values
  imports Calendar Complex_Main
begin

section \<open>Python values and their JSON text\<close>

text \<open>
  The dynamic values that flow through the code (\<open>Any\<close>, \<open>dict[str, Any]\<close>, the rows of a
  table, the dumped specifications): their Python equality and numeric order, and
  \<open>json.dumps\<close> with the options the code passes. The runtime services the text depends on
  (\<open>float.__repr__\<close>, \<open>str\<close>, \<open>datetime.fromisoformat\<close>, \<open>urlparse\<close>,
  SHA-256, pydantic's reading and writing of a datetime field) are the fields of the record \<open>pyenv\<close>, an argument of the definitions that use them.
  \<open>render_inj\<close> says that the JSON text determines the value.
\<close>

subsection \<open>Values\<close>

datatype pyfloat = Fin rat | PosInf | NegInf | NotANumber

datatype pyval =
    VNone
  | VBool bool
  | VInt int
  | VFloat pyfloat
  | VStr string
  | VTime datetime
  | VList "pyval list"
  | VDict "(string \<times> pyval) list"

type_synonym row = "(string \<times> pyval) list"

record pyenv =
  env_sha256 :: "string \<Rightarrow> string"
  env_float_repr :: "rat \<Rightarrow> string"
  env_float_of :: "string \<Rightarrow> pyfloat"
  env_time_str :: "datetime \<Rightarrow> string"
  env_fromiso :: "string \<Rightarrow> datetime option"
  env_parse_time :: "pyval \<Rightarrow> datetime option"
  env_dump_time :: "datetime \<Rightarrow> string"
  env_urlparse :: "string \<Rightarrow> (string \<times> string) option"
  env_str :: "pyval \<Rightarrow> string"

text \<open>\<open>d.get(k)\<close>: a missing key reads as \<open>None\<close>.\<close>

definition dict_get :: "row \<Rightarrow> string \<Rightarrow> pyval" where
  "dict_get d k = (case map_of d k of None \<Rightarrow> VNone | Some v \<Rightarrow> v)"

text \<open>\<open>d[k] = v\<close> on an insertion-ordered dictionary.\<close>

fun dict_set :: "('k \<times> 'v) list \<Rightarrow> 'k \<Rightarrow> 'v \<Rightarrow> ('k \<times> 'v) list" where
  "dict_set [] k v = [(k, v)]"
| "dict_set ((k', v') # d) k v = (if k' = k then (k, v) # d else (k', v') # dict_set d k v)"

lemma map_of_dict_set [simp]: "map_of (dict_set d k v) = (map_of d)(k \<mapsto> v)"
  by (induction d) (auto simp: fun_eq_iff)

lemma keys_dict_set:
  "map fst (dict_set d k v) = (if k \<in> fst ` set d then map fst d else map fst d @ [k])"
  by (induction d) force+

lemma distinct_dict_set: "distinct (map fst d) \<Longrightarrow> distinct (map fst (dict_set d k v))"
  by (simp add: keys_dict_set)

subsection \<open>Python's numeric order and equality\<close>

fun flt_less :: "pyfloat \<Rightarrow> pyfloat \<Rightarrow> bool" where
  "flt_less (Fin a) (Fin b) = (a < b)"
| "flt_less (Fin a) PosInf = True"
| "flt_less NegInf (Fin b) = True"
| "flt_less NegInf PosInf = True"
| "flt_less _ _ = False"

fun flt_eq :: "pyfloat \<Rightarrow> pyfloat \<Rightarrow> bool" where
  "flt_eq (Fin a) (Fin b) = (a = b)"
| "flt_eq PosInf PosInf = True"
| "flt_eq NegInf NegInf = True"
| "flt_eq _ _ = False"

text \<open>\<open>bool\<close> is a subclass of \<open>int\<close>, and integers compare exactly with floats.\<close>

fun num_of :: "pyval \<Rightarrow> pyfloat option" where
  "num_of (VBool b) = Some (Fin (if b then 1 else 0))"
| "num_of (VInt i) = Some (Fin (of_int i))"
| "num_of (VFloat f) = Some f"
| "num_of _ = None"

definition py_less :: "pyval \<Rightarrow> pyval \<Rightarrow> bool result" where
  "py_less v w =
     (case (num_of v, num_of w) of
        (Some a, Some b) \<Rightarrow> Inr (flt_less a b)
      | _ \<Rightarrow> Inl (TypeError ''unsupported operand types for <''))"

fun py_eq :: "pyval \<Rightarrow> pyval \<Rightarrow> bool"
  and py_eq_list :: "pyval list \<Rightarrow> pyval list \<Rightarrow> bool"
  and py_eq_items :: "(string \<times> pyval) list \<Rightarrow> (string \<times> pyval) list \<Rightarrow> bool" where
  "py_eq v w =
     (case v of
        VNone \<Rightarrow> w = VNone
      | VStr s \<Rightarrow> w = VStr s
      | VTime d \<Rightarrow> (case w of VTime e \<Rightarrow> has_tz d = has_tz e \<and> instant d = instant e | _ \<Rightarrow> False)
      | VList xs \<Rightarrow> (case w of VList ys \<Rightarrow> py_eq_list xs ys | _ \<Rightarrow> False)
      | VDict d \<Rightarrow> (case w of VDict e \<Rightarrow> length d = length e \<and> py_eq_items d e | _ \<Rightarrow> False)
      | _ \<Rightarrow> (case (num_of v, num_of w) of (Some a, Some b) \<Rightarrow> flt_eq a b | _ \<Rightarrow> False))"
| "py_eq_list [] ys = (ys = [])"
| "py_eq_list (x # xs) ys = (case ys of [] \<Rightarrow> False | y # ys' \<Rightarrow> py_eq x y \<and> py_eq_list xs ys')"
| "py_eq_items [] e = True"
| "py_eq_items (kv # d) e =
     ((case map_of e (fst kv) of None \<Rightarrow> False | Some w \<Rightarrow> py_eq (snd kv) w) \<and> py_eq_items d e)"

declare py_eq.simps [simp del]

subsection \<open>JSON text\<close>

definition hex_char :: "nat \<Rightarrow> char" where
  "hex_char d = ''0123456789abcdef'' ! d"

definition must_escape :: "bool \<Rightarrow> char \<Rightarrow> bool" where
  "must_escape ascii c =
     (let n = (of_char c :: nat) in n < 32 \<or> (ascii \<and> 127 \<le> n))"

definition escape_char :: "bool \<Rightarrow> char \<Rightarrow> string" where
  "escape_char ascii c =
     (if c = CHR 0x22 then [CHR 0x5C, CHR 0x22]
      else if c = CHR 0x5C then [CHR 0x5C, CHR 0x5C]
      else if c = CHR 0x0A then [CHR 0x5C, CHR ''n'']
      else if c = CHR 0x0D then [CHR 0x5C, CHR ''r'']
      else if c = CHR 0x09 then [CHR 0x5C, CHR ''t'']
      else if c = CHR 0x0C then [CHR 0x5C, CHR ''f'']
      else if c = CHR 0x08 then [CHR 0x5C, CHR ''b'']
      else if must_escape ascii c then
        [CHR 0x5C, CHR ''u'', CHR ''0'', CHR ''0'', hex_char (of_char c div 16), hex_char (of_char c mod 16)]
      else [c])"

definition quote_str :: "bool \<Rightarrow> string \<Rightarrow> string" where
  "quote_str ascii s = CHR 0x22 # concat (map (escape_char ascii) s) @ [CHR 0x22]"

text \<open>The options of one \<open>json.dumps\<close> call: separators, \<open>ensure_ascii\<close>, \<open>default\<close>.\<close>

record json_opts =
  opt_item_sep :: string
  opt_key_sep :: string
  opt_ascii :: bool

definition compact_opts :: json_opts where
  "compact_opts = \<lparr>opt_item_sep = '','', opt_key_sep = '':'', opt_ascii = True\<rparr>"

definition unicode_opts :: json_opts where
  "unicode_opts = \<lparr>opt_item_sep = '','', opt_key_sep = '':'', opt_ascii = False\<rparr>"

definition spaced_opts :: json_opts where
  "spaced_opts = \<lparr>opt_item_sep = '', '', opt_key_sep = '': '', opt_ascii = True\<rparr>"

fun float_text :: "pyenv \<Rightarrow> pyfloat \<Rightarrow> string" where
  "float_text env (Fin q) = env_float_repr env q"
| "float_text env PosInf = ''Infinity''"
| "float_text env NegInf = ''-Infinity''"
| "float_text env NotANumber = ''NaN''"

fun render :: "pyenv \<Rightarrow> json_opts \<Rightarrow> pyval \<Rightarrow> string"
  and render_more :: "pyenv \<Rightarrow> json_opts \<Rightarrow> pyval list \<Rightarrow> string"
  and render_pairs :: "pyenv \<Rightarrow> json_opts \<Rightarrow> (string \<times> pyval) list \<Rightarrow> string" where
  "render env opt VNone = ''null''"
| "render env opt (VBool b) = (if b then ''true'' else ''false'')"
| "render env opt (VInt i) = int_str i"
| "render env opt (VFloat f) = float_text env f"
| "render env opt (VStr s) = quote_str (opt_ascii opt) s"
| "render env opt (VTime d) = quote_str (opt_ascii opt) (env_time_str env d)"
| "render env opt (VList []) = ''[]''"
| "render env opt (VList (x # xs)) = CHR ''['' # render env opt x @ render_more env opt xs"
| "render env opt (VDict []) = ''{}''"
| "render env opt (VDict (kv # d)) =
     CHR ''{'' # quote_str (opt_ascii opt) (fst kv) @ opt_key_sep opt @ render env opt (snd kv)
       @ render_pairs env opt d"
| "render_more env opt [] = '']''"
| "render_more env opt (x # xs) = opt_item_sep opt @ render env opt x @ render_more env opt xs"
| "render_pairs env opt [] = ''}''"
| "render_pairs env opt (kv # d) =
     opt_item_sep opt @ quote_str (opt_ascii opt) (fst kv) @ opt_key_sep opt
       @ render env opt (snd kv) @ render_pairs env opt d"

text \<open>\<open>sort_keys=True\<close> orders every dictionary by key, at every depth.\<close>

fun canon :: "pyval \<Rightarrow> pyval" where
  "canon (VList xs) = VList (map canon xs)"
| "canon (VDict d) = VDict (sort_key fst (map (\<lambda>kv. (fst kv, canon (snd kv))) d))"
| "canon v = v"

definition json_dumps :: "pyenv \<Rightarrow> json_opts \<Rightarrow> pyval \<Rightarrow> string" where
  "json_dumps env opt v = render env opt (canon v)"

text \<open>A value in the domain of \<open>json.dumps\<close> without \<open>default\<close>: no datetime inside.\<close>

fun jsonable :: "pyval \<Rightarrow> bool" where
  "jsonable (VTime d) = False"
| "jsonable (VList xs) = (\<forall>x \<in> set xs. jsonable x)"
| "jsonable (VDict d) = (\<forall>kv \<in> set d. jsonable (snd kv))"
| "jsonable v = True"

text \<open>Every dictionary inside has distinct keys, as Python dictionaries do.\<close>

fun keys_ok :: "pyval \<Rightarrow> bool" where
  "keys_ok (VList xs) = (\<forall>x \<in> set xs. keys_ok x)"
| "keys_ok (VDict d) = (distinct (map fst d) \<and> (\<forall>kv \<in> set d. keys_ok (snd kv)))"
| "keys_ok v = True"

subsection \<open>The text determines the value\<close>

text \<open>
  \<open>float_texts_ok\<close> is what the code relies on from \<open>float.__repr__\<close>: it is injective and
  writes a number with a point or an exponent, so never the text of an integer.
\<close>

definition float_texts_ok :: "pyenv \<Rightarrow> bool" where
  "float_texts_ok env \<longleftrightarrow>
     (\<forall>p q. env_float_repr env p = env_float_repr env q \<longrightarrow> p = q) \<and>
     (\<forall>q. set (env_float_repr env q) \<subseteq> set ''0123456789.e+-'' \<and>
          (CHR ''.'' \<in> set (env_float_repr env q) \<or> CHR ''e'' \<in> set (env_float_repr env q)))"

definition is_closing :: "char \<Rightarrow> bool" where
  "is_closing c \<longleftrightarrow> c = CHR '','' \<or> c = CHR '']'' \<or> c = CHR ''}''"

definition closed_tail :: "string \<Rightarrow> bool" where
  "closed_tail r \<longleftrightarrow> (case r of [] \<Rightarrow> True | c # _ \<Rightarrow> is_closing c)"

lemma is_closing_lit [simp]:
  "is_closing (CHR '','')" "is_closing (CHR '']'')" "is_closing (CHR ''}'')"
  by (simp_all add: is_closing_def)

lemma closed_tail_simps [simp]: "closed_tail []" "closed_tail (c # r) = is_closing c"
  by (simp_all add: closed_tail_def)

lemma closed_cut:
  assumes "\<forall>c \<in> set a. \<not> is_closing c" "\<forall>c \<in> set b. \<not> is_closing c"
    and "closed_tail r" "closed_tail s" and "a @ r = b @ s"
  shows "a = b \<and> r = s"
  using cut_unique [OF assms(1,2) _ _ assms(5)] assms(3,4)
  by (auto simp: closed_tail_def split: list.splits)

lemma hex_char_inj: "a < 16 \<Longrightarrow> b < 16 \<Longrightarrow> hex_char a = hex_char b \<longleftrightarrow> a = b"
  unfolding hex_char_def by (rule nth_eq_iff_index_eq) simp_all

lemma escape_char_forms:
  "(escape_char ascii c = [c] \<and> c \<noteq> CHR 0x22 \<and> c \<noteq> CHR 0x5C) \<or>
   (\<exists>x. escape_char ascii c = [CHR 0x5C, x] \<and> x \<noteq> CHR ''u'') \<or>
   escape_char ascii c = [CHR 0x5C, CHR ''u'', CHR ''0'', CHR ''0'',
     hex_char (of_char c div 16), hex_char (of_char c mod 16)]"
  unfolding escape_char_def by simp

lemma escape_char_cases:
  obtains (plain) "escape_char ascii c = [c]" "c \<noteq> CHR 0x22" "c \<noteq> CHR 0x5C"
  | (short) x where "escape_char ascii c = [CHR 0x5C, x]" "x \<noteq> CHR ''u''"
  | (hex) "escape_char ascii c = [CHR 0x5C, CHR ''u'', CHR ''0'', CHR ''0'',
        hex_char (of_char c div 16), hex_char (of_char c mod 16)]"
  using escape_char_forms [of ascii c] by blast

lemma escape_char_short_inj:
  "escape_char ascii c = [CHR 0x5C, x] \<Longrightarrow> escape_char ascii d = [CHR 0x5C, x] \<Longrightarrow> c = d"
  by (auto simp: escape_char_def split: if_splits)

lemma escape_char_prefix:
  assumes "escape_char ascii c @ r = escape_char ascii d @ s"
  shows "c = d \<and> r = s"
proof (cases ascii c rule: escape_char_cases)
  case plain
  then show ?thesis using assms by (cases ascii d rule: escape_char_cases) auto
next
  case (short x)
  then have "escape_char ascii d = [CHR 0x5C, x]"
    using assms by (cases ascii d rule: escape_char_cases) auto
  then show ?thesis using short(1) assms escape_char_short_inj [OF short(1)] by auto
next
  case hex
  have bound: "of_char x div 16 < (16 :: nat)" for x
    using nat_of_char_less_256 [of x] by (simp add: less_mult_imp_div_less)
  from hex have "escape_char ascii d = [CHR 0x5C, CHR ''u'', CHR ''0'', CHR ''0'',
      hex_char (of_char d div 16), hex_char (of_char d mod 16)]"
    using assms by (cases ascii d rule: escape_char_cases) auto
  then have eq: "of_char c div 16 = (of_char d div 16 :: nat)" "of_char c mod 16 = (of_char d mod 16 :: nat)"
      "r = s"
    using hex assms bound by (auto simp: hex_char_inj)
  then have "of_char c = (of_char d :: nat)" by (metis div_mult_mod_eq)
  with eq(3) show ?thesis by simp
qed

lemma escape_char_hd: "\<exists>x xs. escape_char ascii c = x # xs \<and> x \<noteq> CHR 0x22"
  by (cases ascii c rule: escape_char_cases) auto

lemma quote_str_prefix:
  "quote_str ascii a @ r = quote_str ascii b @ s \<Longrightarrow> a = b \<and> r = s"
proof (induction a arbitrary: b)
  case Nil
  then show ?case
    using escape_char_hd [of ascii "hd b"] by (cases b) (auto simp: quote_str_def)
next
  case (Cons c a)
  show ?case
  proof (cases b)
    case Nil
    then show ?thesis
      using Cons.prems escape_char_hd [of ascii c] by (auto simp: quote_str_def)
  next
    case (Cons d b')
    have "escape_char ascii c @ concat (map (escape_char ascii) a) @ CHR 0x22 # r
        = escape_char ascii d @ concat (map (escape_char ascii) b') @ CHR 0x22 # s"
      using Cons.prems Cons by (simp add: quote_str_def)
    from escape_char_prefix [OF this]
    have cd: "c = d" and rest: "quote_str ascii a @ r = quote_str ascii b' @ s"
      by (simp_all add: quote_str_def)
    show ?thesis using Cons.IH [OF rest] cd Cons by simp
  qed
qed

lemma quote_key_prefix:
  "quote_str ascii k @ sep @ u = quote_str ascii k' @ sep @ v \<Longrightarrow> k = k' \<and> u = v"
  using quote_str_prefix [of ascii k "sep @ u" k' "sep @ v"] by simp

lemma quote_str_hd: "\<exists>t. quote_str ascii a = CHR 0x22 # t"
  by (simp add: quote_str_def)

text \<open>Everything but strings, lists and dictionaries renders to a text with no closing mark.\<close>

fun is_atom :: "pyval \<Rightarrow> bool" where
  "is_atom VNone = True"
| "is_atom (VBool b) = True"
| "is_atom (VInt i) = True"
| "is_atom (VFloat f) = True"
| "is_atom _ = False"

lemma int_str_chars: "c \<in> set (int_str i) \<Longrightarrow> is_digit c \<or> c = CHR ''-''"
  by (auto simp: int_str_def dest: nat_str_digits split: if_splits)

lemma int_str_not_word:
  "int_str i \<noteq> ''null''" "int_str i \<noteq> ''true''" "int_str i \<noteq> ''false''"
  "int_str i \<noteq> ''Infinity''" "int_str i \<noteq> ''-Infinity''" "int_str i \<noteq> ''NaN''"
  using int_str_chars [of "CHR ''l''" i] int_str_chars [of "CHR ''e''" i]
    int_str_chars [of "CHR ''a''" i] int_str_chars [of "CHR ''y''" i]
  by (auto simp: is_digit_def)

lemma int_str_no_point: "CHR ''.'' \<notin> set (int_str i)" "CHR ''e'' \<notin> set (int_str i)"
  using int_str_chars [of _ i] by (auto simp: is_digit_def)

lemma float_repr_chars:
  "float_texts_ok env \<Longrightarrow> c \<in> set (env_float_repr env q) \<Longrightarrow> c \<in> set ''0123456789.e+-''"
  unfolding float_texts_ok_def by blast

lemma float_repr_point:
  "float_texts_ok env \<Longrightarrow> CHR ''.'' \<in> set (env_float_repr env q) \<or> CHR ''e'' \<in> set (env_float_repr env q)"
  unfolding float_texts_ok_def by blast

lemma float_repr_nonempty: "float_texts_ok env \<Longrightarrow> env_float_repr env q \<noteq> []"
  using float_repr_point [of env q] by auto

lemma float_repr_not_word:
  assumes "float_texts_ok env"
  shows "env_float_repr env q \<noteq> ''null''" "env_float_repr env q \<noteq> ''true''"
    "env_float_repr env q \<noteq> ''false''" "env_float_repr env q \<noteq> ''Infinity''"
    "env_float_repr env q \<noteq> ''-Infinity''" "env_float_repr env q \<noteq> ''NaN''"
  using float_repr_chars [OF assms, of "CHR ''l''" q] float_repr_chars [OF assms, of "CHR ''t''" q]
    float_repr_chars [OF assms, of "CHR ''f''" q] float_repr_chars [OF assms, of "CHR ''N''" q]
  by auto

lemma float_repr_not_int: "float_texts_ok env \<Longrightarrow> env_float_repr env q \<noteq> int_str i"
  using float_repr_point [of env q] int_str_no_point [of i] by auto

lemma float_text_not_int: "float_texts_ok env \<Longrightarrow> float_text env f \<noteq> int_str i"
  using float_repr_not_int int_str_not_word [of i] by (cases f) (auto dest: sym)

lemma float_text_inj:
  assumes "float_texts_ok env" and "float_text env f = float_text env g"
  shows "f = g"
proof -
  have inj: "env_float_repr env p = env_float_repr env q \<Longrightarrow> p = q" for p q
    using assms(1) unfolding float_texts_ok_def by blast
  show ?thesis
    using assms(2) inj float_repr_not_word [OF assms(1)] float_repr_not_word [OF assms(1), symmetric]
    by (cases f; cases g) auto
qed

lemma float_text_not_word:
  "float_texts_ok env \<Longrightarrow> float_text env f \<noteq> ''null''"
  "float_texts_ok env \<Longrightarrow> float_text env f \<noteq> ''true''"
  "float_texts_ok env \<Longrightarrow> float_text env f \<noteq> ''false''"
  using float_repr_not_word [of env] by (cases f; simp)+

lemma atom_inj:
  assumes "float_texts_ok env" "is_atom v" "is_atom w" "render env opt v = render env opt w"
  shows "v = w"
proof -
  note facts = float_text_not_int [OF assms(1)] float_text_not_int [OF assms(1), symmetric]
    float_text_not_word [OF assms(1)] float_text_not_word [OF assms(1), symmetric]
    int_str_not_word int_str_not_word [symmetric]
  have inj: "float_text env f = float_text env g \<longleftrightarrow> f = g" for f g
    using float_text_inj [OF assms(1)] by blast
  show ?thesis
    using assms(2,3,4) by (cases v; cases w) (simp_all add: facts inj split: if_splits)
qed

lemma float_text_chars:
  assumes "float_texts_ok env" "c \<in> set (float_text env f)"
  shows "c \<in> set ''0123456789.e+-InfityNa''"
proof (cases f)
  case (Fin q)
  have "set ''0123456789.e+-'' \<subseteq> set ''0123456789.e+-InfityNa''" by simp
  then show ?thesis using float_repr_chars [OF assms(1), of c q] assms(2) Fin by fastforce
qed (use assms(2) in \<open>simp_all, blast+\<close>)

lemma atom_no_closing:
  assumes "float_texts_ok env" "is_atom v" "c \<in> set (render env opt v)"
  shows "\<not> is_closing c"
proof (cases v)
  case (VInt i)
  then show ?thesis using assms(3) int_str_chars [of c i] by (auto simp: is_digit_def is_closing_def)
next
  case (VFloat f)
  then show ?thesis using float_text_chars [OF assms(1), of c f] assms(3) by (auto simp: is_closing_def)
qed (use assms in \<open>auto simp: is_closing_def split: if_splits\<close>)

lemma atom_hd:
  assumes "float_texts_ok env" "is_atom v"
  shows "\<exists>c t. render env opt v = c # t \<and> c \<notin> {CHR 0x22, CHR ''['', CHR ''{''}"
proof (cases v)
  case (VInt i)
  have "int_str i \<noteq> []" by (simp add: int_str_def)
  then obtain c t where ct: "int_str i = c # t" by (cases "int_str i") auto
  then show ?thesis using VInt int_str_chars [of c i] by (auto simp: is_digit_def)
next
  case (VFloat f)
  have "float_text env f \<noteq> []" using float_repr_nonempty [OF assms(1)] by (cases f) auto
  then obtain c t where ct: "float_text env f = c # t" by (cases "float_text env f") auto
  then show ?thesis using VFloat float_text_chars [OF assms(1), of c f] by auto
qed (use assms in auto)

lemma compound_hd:
  "jsonable v \<Longrightarrow> \<not> is_atom v \<Longrightarrow>
     \<exists>c t. render env opt v = c # t \<and> c \<in> {CHR 0x22, CHR ''['', CHR ''{''} \<and>
       (c = CHR 0x22 \<longleftrightarrow> (\<exists>s. v = VStr s)) \<and> (c = CHR ''['' \<longleftrightarrow> (\<exists>xs. v = VList xs)) \<and>
       (c = CHR ''{'' \<longleftrightarrow> (\<exists>d. v = VDict d))"
proof (cases v)
  case (VList xs)
  then show ?thesis by (cases xs) auto
next
  case (VDict d)
  then show ?thesis by (cases d) auto
qed (auto simp: quote_str_def)

lemma compound_by_hd:
  assumes "float_texts_ok env" "jsonable w" "c # t = render env opt w @ s"
  shows "c = CHR 0x22 \<Longrightarrow> \<exists>b. w = VStr b"
    and "c = CHR ''['' \<Longrightarrow> \<exists>ys. w = VList ys"
    and "c = CHR ''{'' \<Longrightarrow> \<exists>e. w = VDict e"
proof -
  have "(c = CHR 0x22 \<longrightarrow> (\<exists>b. w = VStr b)) \<and> (c = CHR ''['' \<longrightarrow> (\<exists>ys. w = VList ys)) \<and>
      (c = CHR ''{'' \<longrightarrow> (\<exists>e. w = VDict e))"
  proof (cases "is_atom w")
    case True
    obtain c' t' where "render env opt w = c' # t'" "c' \<notin> {CHR 0x22, CHR ''['', CHR ''{''}"
      using atom_hd [OF assms(1) True] by blast
    then show ?thesis using assms(3) by simp
  next
    case False
    then show ?thesis using compound_hd [OF assms(2), of env opt] assms(3) by fastforce
  qed
  then show "c = CHR 0x22 \<Longrightarrow> \<exists>b. w = VStr b" "c = CHR ''['' \<Longrightarrow> \<exists>ys. w = VList ys"
    "c = CHR ''{'' \<Longrightarrow> \<exists>e. w = VDict e" by blast+
qed

lemma render_hd_open:
  assumes "float_texts_ok env" "jsonable v"
  shows "\<exists>c t. render env opt v = c # t \<and> \<not> is_closing c"
proof (cases "is_atom v")
  case True
  obtain c t where ct: "render env opt v = c # t" using atom_hd [OF assms(1) True] by blast
  then show ?thesis using atom_no_closing [OF assms(1) True, of c opt] by simp
next
  case False
  obtain c t where "render env opt v = c # t" "c \<in> {CHR 0x22, CHR ''['', CHR ''{''}"
    using compound_hd [OF assms(2) False, of env opt] by blast
  then show ?thesis by (auto simp: is_closing_def)
qed

lemma atom_prefix:
  assumes "float_texts_ok env" "is_atom v" "jsonable w" "closed_tail r" "closed_tail s"
    and "render env opt v @ r = render env opt w @ s"
  shows "v = w \<and> r = s"
proof (cases "is_atom w")
  case True
  have "render env opt v = render env opt w \<and> r = s"
    using closed_cut assms(4,5,6) atom_no_closing [OF assms(1,2)] atom_no_closing [OF assms(1) True]
    by blast
  then show ?thesis using atom_inj [OF assms(1,2) True] by blast
next
  case False
  then show ?thesis
    using compound_hd [OF assms(3) False, of env opt] atom_hd [OF assms(1,2), of opt] assms(6) by auto
qed

lemma atom_prefix_all:
  "float_texts_ok env \<Longrightarrow> is_atom v \<Longrightarrow> jsonable v \<longrightarrow>
     (\<forall>w r s. jsonable w \<longrightarrow> closed_tail r \<longrightarrow> closed_tail s \<longrightarrow>
      render env opt v @ r = render env opt w @ s \<longrightarrow> v = w \<and> r = s)"
  using atom_prefix by blast

definition seps_ok :: "json_opts \<Rightarrow> bool" where
  "seps_ok opt \<longleftrightarrow> (case opt_item_sep opt of [] \<Rightarrow> False | c # _ \<Rightarrow> c = CHR '','')"

lemma closed_render_more [simp]: "seps_ok opt \<Longrightarrow> closed_tail (render_more env opt xs @ r)"
  by (cases xs) (auto simp: seps_ok_def split: list.splits)

lemma closed_render_pairs [simp]: "seps_ok opt \<Longrightarrow> closed_tail (render_pairs env opt d @ r)"
  by (cases d) (auto simp: seps_ok_def split: list.splits)

lemma sep_neq_close:
  "seps_ok opt \<Longrightarrow> opt_item_sep opt @ a \<noteq> CHR '']'' # b"
  "seps_ok opt \<Longrightarrow> opt_item_sep opt @ a \<noteq> CHR ''}'' # b"
  by (auto simp: seps_ok_def split: list.splits)

lemma render_prefix_all:
  assumes env: "float_texts_ok env" and opt: "seps_ok opt"
  shows "jsonable v \<longrightarrow> (\<forall>w r s. jsonable w \<longrightarrow> closed_tail r \<longrightarrow> closed_tail s \<longrightarrow>
      render env opt v @ r = render env opt w @ s \<longrightarrow> v = w \<and> r = s)"
    and "(\<forall>x \<in> set xs. jsonable x) \<longrightarrow> (\<forall>ys r s. (\<forall>y \<in> set ys. jsonable y) \<longrightarrow>
      render_more env opt xs @ r = render_more env opt ys @ s \<longrightarrow> xs = ys \<and> r = s)"
    and "(\<forall>kv \<in> set d. jsonable (snd kv)) \<longrightarrow> (\<forall>e r s. (\<forall>kv \<in> set e. jsonable (snd kv)) \<longrightarrow>
      render_pairs env opt d @ r = render_pairs env opt e @ s \<longrightarrow> d = e \<and> r = s)"
  using env opt
proof (induction env opt v and env opt xs and env opt d
    rule: render_render_more_render_pairs.induct)
  case (5 env opt a)
  show ?case
  proof (intro allI impI)
    fix w r s assume w: "jsonable w" and eq: "render env opt (VStr a) @ r = render env opt w @ s"
    then obtain b where b: "w = VStr b"
      using compound_by_hd(1) [OF 5(1) w, of "CHR 0x22" _ opt s] by (auto simp: quote_str_def)
    show "VStr a = w \<and> r = s" using eq quote_str_prefix [of "opt_ascii opt" a r b s] b by simp
  qed
next
  case (7 env opt)
  show ?case
  proof (intro allI impI)
    fix w r s assume w: "jsonable w" and eq: "render env opt (VList []) @ r = render env opt w @ s"
    then obtain ys where ys: "w = VList ys"
      using compound_by_hd(2) [OF 7(1) w, of "CHR ''[''" _ opt s] by auto
    show "VList [] = w \<and> r = s"
    proof (cases ys)
      case (Cons y ys')
      then show ?thesis
        using eq w ys render_hd_open [OF 7(1), of y opt] by auto
    qed (use eq ys in auto)
  qed
next
  case (8 env opt x xs)
  show ?case
  proof (intro allI impI)
    fix w r s assume v: "jsonable (VList (x # xs))" and w: "jsonable w"
      and eq: "render env opt (VList (x # xs)) @ r = render env opt w @ s"
    then obtain ys where ys: "w = VList ys"
      using compound_by_hd(2) [OF 8(3) w, of "CHR ''[''" _ opt s] by auto
    show "VList (x # xs) = w \<and> r = s"
    proof (cases ys)
      case Nil
      then show ?thesis using eq ys v render_hd_open [OF 8(3), of x opt] by auto
    next
      case (Cons y ys')
      have "x = y \<and> render_more env opt xs @ r = render_more env opt ys' @ s"
        using 8(1) [OF 8(3,4), rule_format, of y "render_more env opt xs @ r" "render_more env opt ys' @ s"]
          v w eq ys Cons 8(4) by simp
      then show ?thesis using 8(2) [OF 8(3,4), rule_format, of ys' r s] v w ys Cons by simp
    qed
  qed
next
  case (9 env opt)
  show ?case
  proof (intro allI impI)
    fix w r s assume w: "jsonable w" and eq: "render env opt (VDict []) @ r = render env opt w @ s"
    then obtain e where e: "w = VDict e"
      using compound_by_hd(3) [OF 9(1) w, of "CHR ''{''" _ opt s] by auto
    show "VDict [] = w \<and> r = s"
      using eq e by (cases e) (auto simp: quote_str_def)
  qed
next
  case (10 env opt kv d)
  show ?case
  proof (intro allI impI)
    fix w r s assume v: "jsonable (VDict (kv # d))" and w: "jsonable w"
      and eq: "render env opt (VDict (kv # d)) @ r = render env opt w @ s"
    then obtain e where e: "w = VDict e"
      using compound_by_hd(3) [OF 10(3) w, of "CHR ''{''" _ opt s] by auto
    show "VDict (kv # d) = w \<and> r = s"
    proof (cases e)
      case Nil
      then show ?thesis using eq e by (simp add: quote_str_def)
    next
      case (Cons kw e')
      have "quote_str (opt_ascii opt) (fst kv) @ opt_key_sep opt @ render env opt (snd kv) @ render_pairs env opt d @ r
          = quote_str (opt_ascii opt) (fst kw) @ opt_key_sep opt @ render env opt (snd kw) @ render_pairs env opt e' @ s"
        using eq e Cons by simp
      from quote_key_prefix [OF this]
      have k: "fst kv = fst kw" and "render env opt (snd kv) @ render_pairs env opt d @ r
          = render env opt (snd kw) @ render_pairs env opt e' @ s" by simp_all
      then have "snd kv = snd kw \<and> render_pairs env opt d @ r = render_pairs env opt e' @ s"
        using 10(1) [OF 10(3,4), rule_format, of "snd kw" "render_pairs env opt d @ r" "render_pairs env opt e' @ s"]
          v w e Cons 10(4) by simp
      then show ?thesis using 10(2) [OF 10(3,4), rule_format, of e' r s] v w e Cons k by (simp add: prod_eq_iff)
    qed
  qed
next
  case (11 env opt)
  show ?case
  proof (intro allI impI)
    fix ys r s assume "render_more env opt [] @ r = render_more env opt ys @ s"
    then show "[] = ys \<and> r = s"
      using sep_neq_close [OF 11(2)] by (cases ys) (auto dest: sym)
  qed
next
  case (12 env opt x xs)
  show ?case
  proof (intro allI impI)
    fix ys r s assume v: "\<forall>x \<in> set (x # xs). jsonable x" and w: "\<forall>y \<in> set ys. jsonable y"
      and eq: "render_more env opt (x # xs) @ r = render_more env opt ys @ s"
    show "x # xs = ys \<and> r = s"
    proof (cases ys)
      case Nil
      then show ?thesis using eq sep_neq_close [OF 12(4)] by auto
    next
      case (Cons y ys')
      have "x = y \<and> render_more env opt xs @ r = render_more env opt ys' @ s"
        using 12(1) [OF 12(3,4), rule_format, of y "render_more env opt xs @ r" "render_more env opt ys' @ s"]
          v w eq Cons 12(4) by simp
      then show ?thesis using 12(2) [OF 12(3,4), rule_format, of ys' r s] v w Cons by simp
    qed
  qed
next
  case (13 env opt)
  show ?case
  proof (intro allI impI)
    fix e r s assume "render_pairs env opt [] @ r = render_pairs env opt e @ s"
    then show "[] = e \<and> r = s"
      using sep_neq_close [OF 13(2)] by (cases e) (auto dest: sym)
  qed
next
  case (14 env opt kv d)
  show ?case
  proof (intro allI impI)
    fix e r s assume v: "\<forall>kv \<in> set (kv # d). jsonable (snd kv)" and w: "\<forall>kv \<in> set e. jsonable (snd kv)"
      and eq: "render_pairs env opt (kv # d) @ r = render_pairs env opt e @ s"
    show "kv # d = e \<and> r = s"
    proof (cases e)
      case Nil
      then show ?thesis using eq sep_neq_close [OF 14(4)] by auto
    next
      case (Cons kw e')
      have "quote_str (opt_ascii opt) (fst kv) @ opt_key_sep opt @ render env opt (snd kv) @ render_pairs env opt d @ r
          = quote_str (opt_ascii opt) (fst kw) @ opt_key_sep opt @ render env opt (snd kw) @ render_pairs env opt e' @ s"
        using eq Cons by simp
      from quote_key_prefix [OF this]
      have k: "fst kv = fst kw" and "render env opt (snd kv) @ render_pairs env opt d @ r
          = render env opt (snd kw) @ render_pairs env opt e' @ s" by simp_all
      then have "snd kv = snd kw \<and> render_pairs env opt d @ r = render_pairs env opt e' @ s"
        using 14(1) [OF 14(3,4), rule_format, of "snd kw" "render_pairs env opt d @ r" "render_pairs env opt e' @ s"]
          v w Cons 14(4) by simp
      then show ?thesis using 14(2) [OF 14(3,4), rule_format, of e' r s] v w Cons k by (simp add: prod_eq_iff)
    qed
  qed
next
  case (6 env opt d)
  show ?case by simp
qed (rule atom_prefix_all; simp)+

lemma render_inj:
  assumes "float_texts_ok env" "seps_ok opt" "jsonable v" "jsonable w"
  shows "render env opt v = render env opt w \<longleftrightarrow> v = w"
  using render_prefix_all(1) [OF assms(1,2), of v] assms(3,4) by (metis append_Nil2 closed_tail_simps(1))

lemma jsonable_canon [simp]: "jsonable (canon v) = jsonable v"
  by (induction v rule: canon.induct) auto

lemma json_dumps_inj:
  assumes "float_texts_ok env" "seps_ok opt" "jsonable v" "jsonable w"
  shows "json_dumps env opt v = json_dumps env opt w \<longleftrightarrow> canon v = canon w"
  using assms by (simp add: json_dumps_def render_inj)

lemma seps_ok_opts [simp]: "seps_ok compact_opts" "seps_ok unicode_opts" "seps_ok spaced_opts"
  by (simp_all add: seps_ok_def compact_opts_def unicode_opts_def spaced_opts_def)

subsection \<open>Looking into a canonical document\<close>

lemma map_of_canon_items:
  "distinct (map fst d) \<Longrightarrow>
     map_of (sort_key fst (map (\<lambda>kv. (fst kv, canon (snd kv))) d)) k = map_option canon (map_of d k)"
proof -
  assume d: "distinct (map fst d)"
  define m where "m = map (\<lambda>kv. (fst kv, canon (snd kv))) d"
  have dm: "distinct (map fst m)" using d by (simp add: m_def o_def)
  then have "distinct (map fst (sort_key fst m))" by (simp only: distinct_map distinct_sort set_sort)
  then have "map_of (sort_key fst m) = map_of m" using dm by (simp only: map_of_inject_set set_sort)
  moreover have "map_of m k = map_option canon (map_of d k)" unfolding m_def by (induction d) auto
  ultimately show ?thesis by (simp add: m_def)
qed

lemma canon_lookup:
  assumes "canon (VDict d) = canon (VDict e)" "distinct (map fst d)" "distinct (map fst e)"
  shows "map_option canon (map_of d k) = map_option canon (map_of e k)"
  using assms map_of_canon_items [of d k] map_of_canon_items [of e k] by simp

subsection \<open>A concrete environment\<close>

text \<open>
  An instance of the runtime services that satisfies what the code relies on; concrete runs of
  the model use it. Its hash is the identity and its float text is the reduced fraction.
\<close>

definition fraction_text :: "rat \<Rightarrow> string" where
  "fraction_text q = (case quotient_of q of (a, b) \<Rightarrow> int_str a @ CHR ''.'' # int_str b)"

definition text_fraction :: "string \<Rightarrow> rat" where
  "text_fraction s = (case split_once (CHR ''.'') s of
       None \<Rightarrow> 0
     | Some (a, b) \<Rightarrow> of_int (int_of_text a) / of_int (int_of_text b))"

definition demo_env :: pyenv where
  "demo_env = \<lparr>env_sha256 = (\<lambda>s. s), env_float_repr = fraction_text, env_float_of = (\<lambda>s. Fin (text_fraction s)),
     env_time_str = (\<lambda>d. iso_us (instant d)), env_fromiso = (\<lambda>s. None),
     env_parse_time = (\<lambda>v. None), env_dump_time = (\<lambda>d. iso_us (instant d)),
     env_urlparse = (\<lambda>s. Some (''https'', s)), env_str = (\<lambda>v. [])\<rparr>"

lemma fraction_text_inj: "fraction_text p = fraction_text q \<Longrightarrow> p = q"
proof -
  assume eq: "fraction_text p = fraction_text q"
  obtain a b c d where pq: "quotient_of p = (a, b)" "quotient_of q = (c, d)" by (metis surj_pair)
  then have "split_once (CHR ''.'') (fraction_text p) = Some (int_str a, int_str b)"
    "split_once (CHR ''.'') (fraction_text q) = Some (int_str c, int_str d)"
    by (simp_all add: fraction_text_def split_once_Some int_str_no_point)
  with eq pq have "quotient_of p = quotient_of q" by simp
  then show "p = q" by (rule quotient_of_inject)
qed

lemma float_chars_split: "''0123456789.e+-'' = ''0123456789'' @ ''.e+-''"
  by simp

lemma fraction_text_chars: "c \<in> set (fraction_text q) \<Longrightarrow> c \<in> set ''0123456789.e+-''"
proof -
  assume c: "c \<in> set (fraction_text q)"
  obtain a b where ab: "quotient_of q = (a, b)" by (metis surj_pair)
  from c ab have "c \<in> set (int_str a) \<or> c = CHR ''.'' \<or> c \<in> set (int_str b)"
    by (auto simp: fraction_text_def)
  then have "is_digit c \<or> c = CHR ''-'' \<or> c = CHR ''.''" using int_str_chars by blast
  then have "c \<in> set ''0123456789'' \<or> c \<in> set ''.e+-''"
  proof (elim disjE)
    assume "is_digit c"
    then show ?thesis unfolding is_digit_def by (rule disjI1)
  qed simp_all
  then show ?thesis by (simp only: float_chars_split set_append Un_iff)
qed

lemma demo_float_texts_ok [simp]: "float_texts_ok demo_env"
  unfolding float_texts_ok_def
proof (intro conjI allI impI)
  show "p = q" if "env_float_repr demo_env p = env_float_repr demo_env q" for p q
    using that by (simp only: demo_env_def pyenv.select_convs fraction_text_inj)
  show "set (env_float_repr demo_env q) \<subseteq> set ''0123456789.e+-''" for q
    unfolding demo_env_def pyenv.select_convs by (rule subsetI) (rule fraction_text_chars)
  show "CHR ''.'' \<in> set (env_float_repr demo_env q) \<or> CHR ''e'' \<in> set (env_float_repr demo_env q)" for q
    by (cases "quotient_of q") (simp add: demo_env_def fraction_text_def)
qed

end
