(* ===== verification/Models.thy ===== *)
theory Models
  imports Values
begin

section \<open>The typed contract: registry objects, queries, targets\<close>

text \<open>
  \<open>models.py\<close>: the definitions a manifest declares (entities, sources, features with
  quality contracts, feature views, feature services), the requests and the registry targets,
  each with the validators that run when it is constructed and the dump that is stored and
  fingerprinted. A constructor \<open>mk_X\<close> takes the raw fields and returns the object or the
  \<open>ValidationError\<close> that construction raises.
\<close>

subsection \<open>Names, versions, references\<close>

definition name_char :: "char \<Rightarrow> bool" where
  "name_char c = (is_lower c \<or> is_digit c \<or> c = CHR ''_'')"

text \<open>\<open>NAME_PATTERN.fullmatch\<close>.\<close>

definition name_ok :: "string \<Rightarrow> bool" where
  "name_ok s = (case s of [] \<Rightarrow> False
     | c # cs \<Rightarrow> is_lower c \<and> 1 \<le> length cs \<and> length cs \<le> 62 \<and> list_all name_char cs)"

definition digits_ok :: "string \<Rightarrow> bool" where
  "digits_ok s = (s \<noteq> [] \<and> list_all is_digit s)"

definition version_part_ok :: "string \<Rightarrow> bool" where
  "version_part_ok s = (s = ''0'' \<or> digits_ok s \<and> hd s \<noteq> CHR ''0'')"

text \<open>\<open>VERSION_PATTERN.fullmatch\<close>: three numbers without leading zeros.\<close>

definition version_ok :: "string \<Rightarrow> bool" where
  "version_ok s = (case split_all (CHR ''.'') s of
       [a, b, c] \<Rightarrow> version_part_ok a \<and> version_part_ok b \<and> version_part_ok c
     | _ \<Rightarrow> False)"

definition loose_version_ok :: "string \<Rightarrow> bool" where
  "loose_version_ok s = (case split_all (CHR ''.'') s of
       [a, b, c] \<Rightarrow> digits_ok a \<and> digits_ok b \<and> digits_ok c
     | _ \<Rightarrow> False)"

text \<open>\<open>FEATURE_REF_PATTERN.fullmatch\<close>: \<open>view@x.y.z:feature\<close>, leading zeros allowed.\<close>

definition feature_ref_ok :: "string \<Rightarrow> bool" where
  "feature_ref_ok s = (case split_once (CHR ''@'') s of None \<Rightarrow> False
     | Some (view, rest) \<Rightarrow> (case split_once (CHR '':'') rest of None \<Rightarrow> False
         | Some (ver, feat) \<Rightarrow> name_ok view \<and> loose_version_ok ver \<and> name_ok feat))"

subsection \<open>Enumerations\<close>

datatype value_type = TString | TInt64 | TFloat64 | TBool | TTimestamp

datatype quality_policy = Reject | Quarantine | Report

datatype constraint = CNullable | CMinimum | CMaximum | CAccepted | CUnique | CMaxAge

fun value_type_str :: "value_type \<Rightarrow> string" where
  "value_type_str TString = ''string''"
| "value_type_str TInt64 = ''int64''"
| "value_type_str TFloat64 = ''float64''"
| "value_type_str TBool = ''bool''"
| "value_type_str TTimestamp = ''timestamp''"

fun policy_str :: "quality_policy \<Rightarrow> string" where
  "policy_str Reject = ''reject''"
| "policy_str Quarantine = ''quarantine''"
| "policy_str Report = ''report''"

fun constraint_str :: "constraint \<Rightarrow> string" where
  "constraint_str CNullable = ''nullable''"
| "constraint_str CMinimum = ''minimum''"
| "constraint_str CMaximum = ''maximum''"
| "constraint_str CAccepted = ''accepted_values''"
| "constraint_str CUnique = ''unique''"
| "constraint_str CMaxAge = ''max_age_seconds''"

lemma value_type_str_inj [simp]: "value_type_str a = value_type_str b \<longleftrightarrow> a = b"
  by (cases a; cases b) simp_all

lemma policy_str_inj [simp]: "policy_str a = policy_str b \<longleftrightarrow> a = b"
  by (cases a; cases b) simp_all

subsection \<open>Values of a declared type\<close>

definition int64_ok :: "int \<Rightarrow> bool" where
  "int64_ok i \<longleftrightarrow> - (2 ^ 63) \<le> i \<and> i < 2 ^ 63"

text \<open>\<open>validate_feature_value\<close>: no coercion of producer data.\<close>

definition validate_feature_value :: "pyenv \<Rightarrow> value_type \<Rightarrow> pyval \<Rightarrow> unit result" where
  "validate_feature_value env dtype v =
     (if v = VNone then Inr ()
      else ensure
        (case dtype of
           TString \<Rightarrow> (case v of VStr _ \<Rightarrow> True | _ \<Rightarrow> False)
         | TInt64 \<Rightarrow> (case v of VInt i \<Rightarrow> int64_ok i | _ \<Rightarrow> False)
         | TFloat64 \<Rightarrow> (case v of VInt _ \<Rightarrow> True | VFloat _ \<Rightarrow> True | _ \<Rightarrow> False)
         | TBool \<Rightarrow> (case v of VBool _ \<Rightarrow> True | _ \<Rightarrow> False)
         | TTimestamp \<Rightarrow> (case v of
               VTime d \<Rightarrow> has_tz d
             | VStr s \<Rightarrow> (case env_fromiso env s of Some d \<Rightarrow> has_tz d | None \<Rightarrow> False)
             | _ \<Rightarrow> False))
        (ValueError ''value does not match the declared type''))"

subsection \<open>Quality contracts\<close>

record feature_quality =
  q_nullable :: bool
  q_minimum :: pyval
  q_maximum :: pyval
  q_accepted :: "pyval list option"
  q_unique :: bool
  q_max_age :: "int option"

text \<open>\<open>bounds_are_numeric\<close> and \<open>age_is_integer\<close>, the validators of the raw fields.\<close>

definition bounds_are_numeric :: "pyval \<Rightarrow> pyval result" where
  "bounds_are_numeric v = (case v of
       VNone \<Rightarrow> Inr v | VInt _ \<Rightarrow> Inr v | VFloat _ \<Rightarrow> Inr v
     | _ \<Rightarrow> Inl (ValidationError ''quality bounds must be numeric''))"

definition age_is_integer :: "pyval \<Rightarrow> int option result" where
  "age_is_integer v = (case v of
       VNone \<Rightarrow> Inr None
     | VInt i \<Rightarrow> (if 0 \<le> i then Inr (Some i)
                  else Inl (ValidationError ''max_age_seconds must be non-negative''))
     | _ \<Rightarrow> Inl (ValidationError ''max_age_seconds must be an integer''))"

definition num_greater :: "pyval \<Rightarrow> pyval \<Rightarrow> bool" where
  "num_greater a b = (case (num_of a, num_of b) of (Some x, Some y) \<Rightarrow> flt_less y x | _ \<Rightarrow> False)"

text \<open>\<open>FeatureQuality.valid_range\<close>.\<close>

definition valid_range :: "pyenv \<Rightarrow> feature_quality \<Rightarrow> feature_quality result" where
  "valid_range env q =
     (if q_minimum q \<noteq> VNone \<and> q_maximum q \<noteq> VNone \<and> num_greater (q_minimum q) (q_maximum q)
      then Inl (ValidationError ''quality minimum cannot exceed maximum'')
      else (case q_accepted q of
          None \<Rightarrow> Inr q
        | Some vs \<Rightarrow>
            if vs = [] then Inl (ValidationError ''accepted_values must not be empty'')
            else if \<not> distinct (map (json_dumps env compact_opts) vs)
            then Inl (ValidationError ''accepted_values must be unique'')
            else Inr q))"

definition mk_quality ::
    "pyenv \<Rightarrow> bool \<Rightarrow> pyval \<Rightarrow> pyval \<Rightarrow> pyval list option \<Rightarrow> bool \<Rightarrow> pyval \<Rightarrow> feature_quality result" where
  "mk_quality env nullable mi ma accepted uniq age =
     bind_result (bounds_are_numeric mi) (\<lambda>mi.
     bind_result (bounds_are_numeric ma) (\<lambda>ma.
     bind_result (age_is_integer age) (\<lambda>age.
     valid_range env \<lparr>q_nullable = nullable, q_minimum = mi, q_maximum = ma,
       q_accepted = accepted, q_unique = uniq, q_max_age = age\<rparr>)))"

subsection \<open>Features\<close>

record feature =
  f_name :: string
  f_dtype :: value_type
  f_description :: string
  f_quality :: "feature_quality option"

text \<open>
  \<open>float(value)\<close> on an accepted integer: round to 53 bits, ties to even.
  \<open>None\<close> is the \<open>OverflowError\<close> beyond the largest double.
\<close>

fun bit_len :: "nat \<Rightarrow> nat" where
  "bit_len n = (if n = 0 then 0 else Suc (bit_len (n div 2)))"

declare bit_len.simps [simp del]

definition round53 :: "nat \<Rightarrow> nat" where
  "round53 n =
     (if n \<le> 2 ^ 53 then n
      else let k = bit_len n - 53; q = n div 2 ^ k; r = n mod 2 ^ k
        in (if 2 ^ k < 2 * r \<or> 2 ^ k = 2 * r \<and> odd q then q + 1 else q) * 2 ^ k)"

definition to_float :: "pyval \<Rightarrow> pyfloat option" where
  "to_float v = (case v of
       VInt i \<Rightarrow> (let n = round53 (nat \<bar>i\<bar>)
          in if n < 2 ^ 1024 then Some (Fin (of_int (sgn i * int n))) else None)
     | VFloat f \<Rightarrow> Some f
     | _ \<Rightarrow> None)"

definition is_int :: "pyval \<Rightarrow> bool" where
  "is_int v = (case v of VInt _ \<Rightarrow> True | _ \<Rightarrow> False)"

fun check_accepted :: "pyenv \<Rightarrow> value_type \<Rightarrow> pyval list \<Rightarrow> unit result" where
  "check_accepted env dtype [] = Inr ()"
| "check_accepted env dtype (v # vs) =
     (if v = VNone then Inl (ValidationError ''accepted_values cannot contain null'')
      else (case validate_feature_value env dtype v of
          Inl _ \<Rightarrow> Inl (ValidationError ''accepted_values must match the feature dtype'')
        | Inr _ \<Rightarrow> check_accepted env dtype vs))"

text \<open>\<open>len(xs) != len(set(xs))\<close> under Python's equality of floats.\<close>

fun float_dup :: "pyfloat list \<Rightarrow> bool" where
  "float_dup [] = False"
| "float_dup (x # xs) = (list_ex (flt_eq x) xs \<or> float_dup xs)"

definition accepted_ok :: "pyenv \<Rightarrow> value_type \<Rightarrow> pyval list \<Rightarrow> unit result" where
  "accepted_ok env dtype vs =
     (if dtype = TTimestamp
      then Inl (ValidationError ''accepted_values are only supported for scalar categorical features'')
      else bind_result (check_accepted env dtype vs) (\<lambda>_.
        if dtype = TFloat64
        then (let fs = map to_float vs
              in if None \<in> set fs
                 then Inl (OverflowError ''int too large to convert to float'')
                 else ensure (\<not> float_dup (map the fs))
                   (ValidationError ''accepted_values must be unique''))
        else Inr ()))"

text \<open>\<open>Feature.validate_quality\<close>.\<close>

definition validate_feature_quality :: "pyenv \<Rightarrow> value_type \<Rightarrow> feature_quality \<Rightarrow> unit result" where
  "validate_feature_quality env dtype q =
     (if (q_minimum q \<noteq> VNone \<or> q_maximum q \<noteq> VNone) \<and> dtype \<notin> {TInt64, TFloat64}
      then Inl (ValidationError ''minimum and maximum require an int64 or float64 feature'')
      else if dtype = TInt64 \<and>
        ((q_minimum q \<noteq> VNone \<and> \<not> is_int (q_minimum q)) \<or> (q_maximum q \<noteq> VNone \<and> \<not> is_int (q_maximum q)))
      then Inl (ValidationError ''int64 bounds must be integers'')
      else (case q_accepted q of None \<Rightarrow> Inr () | Some vs \<Rightarrow> accepted_ok env dtype vs))"

definition validate_feature :: "pyenv \<Rightarrow> feature \<Rightarrow> unit result" where
  "validate_feature env f =
     (if \<not> name_ok (f_name f)
      then Inl (ValidationError ''feature name must be lowercase snake_case'')
      else (case f_quality f of None \<Rightarrow> Inr () | Some q \<Rightarrow> validate_feature_quality env (f_dtype f) q))"

subsection \<open>Entities and sources\<close>

record entity =
  e_name :: string
  e_join_keys :: "(string \<times> value_type) list"

definition validate_entity :: "entity \<Rightarrow> unit result" where
  "validate_entity e =
     (if \<not> name_ok (e_name e) then Inl (ValidationError ''entity name must be lowercase snake_case'')
      else if e_join_keys e = [] then Inl (ValidationError ''entity requires at least one join key'')
      else (case find (\<lambda>kv. \<not> name_ok (fst kv)) (e_join_keys e) of
          Some kv \<Rightarrow> Inl (ValidationError (''invalid join key: '' @ fst kv))
        | None \<Rightarrow> Inr ()))"

record batch_source =
  bs_name :: string
  bs_uri :: string
  bs_timestamp_field :: string

definition validate_batch_source :: "batch_source \<Rightarrow> unit result" where
  "validate_batch_source b =
     ensure (name_ok (bs_name b) \<and> name_ok (bs_timestamp_field b))
       (ValidationError ''names must be lowercase snake_case'')"

record stream_source =
  ss_name :: string
  ss_topic :: string
  ss_dead_letter :: "string option"

definition validate_stream_source :: "stream_source \<Rightarrow> unit result" where
  "validate_stream_source s =
     ensure (name_ok (ss_name s)) (ValidationError ''name must be lowercase snake_case'')"

subsection \<open>Feature views and services\<close>

record feature_view =
  v_name :: string
  v_version :: string
  v_entity :: string
  v_features :: "feature list"
  v_batch_source :: string
  v_batch_sql :: string
  v_stream_source :: "string option"
  v_ttl_seconds :: "int option"
  v_description :: string
  v_quality_policy :: "quality_policy option"

definition view_ref :: "feature_view \<Rightarrow> string" where
  "view_ref v = v_name v @ CHR ''@'' # v_version v"

definition effective_policy :: "feature_view \<Rightarrow> quality_policy" where
  "effective_policy v = (case v_quality_policy v of None \<Rightarrow> Reject | Some p \<Rightarrow> p)"

definition feature_names :: "feature_view \<Rightarrow> string list" where
  "feature_names v = map f_name (v_features v)"

text \<open>The field validators, then \<open>FeatureView.validate_view\<close>.\<close>

definition validate_view :: "pyenv \<Rightarrow> feature_view \<Rightarrow> unit result" where
  "validate_view env v =
     bind_result (traverse (validate_feature env) (v_features v)) (\<lambda>_.
     (if (case v_ttl_seconds v of Some t \<Rightarrow> t \<le> 0 | None \<Rightarrow> False)
      then Inl (ValidationError ''ttl_seconds must be greater than 0'')
      else if \<not> name_ok (v_name v)
      then Inl (ValidationError ''feature view name must be lowercase snake_case'')
      else if \<not> version_ok (v_version v)
      then Inl (ValidationError ''version must be semantic major.minor.patch'')
      else if v_features v = []
      then Inl (ValidationError ''feature view requires at least one feature'')
      else if \<not> distinct (feature_names v)
      then Inl (ValidationError ''feature names must be unique'')
      else (let sql = map to_lower (strip (v_batch_sql v))
        in ensure (starts_with ''select'' sql \<or> starts_with ''with'' sql)
             (ValidationError ''batch_sql must be a SELECT query''))))"

record feature_service =
  s_name :: string
  s_features :: "string list"
  s_description :: string

definition validate_service :: "feature_service \<Rightarrow> unit result" where
  "validate_service s =
     (if \<not> name_ok (s_name s)
      then Inl (ValidationError ''feature service name must be lowercase snake_case'')
      else if s_features s = []
      then Inl (ValidationError ''feature service requires at least one feature'')
      else ensure (list_all feature_ref_ok (s_features s))
        (ValidationError ''feature references must be view@x.y.z:feature''))"

record manifest =
  m_entities :: "entity list"
  m_batch_sources :: "batch_source list"
  m_stream_sources :: "stream_source list"
  m_feature_views :: "feature_view list"
  m_feature_services :: "feature_service list"

definition validate_manifest :: "pyenv \<Rightarrow> manifest \<Rightarrow> unit result" where
  "validate_manifest env m =
     bind_result (traverse validate_entity (m_entities m)) (\<lambda>_.
     bind_result (traverse validate_batch_source (m_batch_sources m)) (\<lambda>_.
     bind_result (traverse validate_stream_source (m_stream_sources m)) (\<lambda>_.
     bind_result (traverse (validate_view env) (m_feature_views m)) (\<lambda>_.
     bind_result (traverse validate_service (m_feature_services m)) (\<lambda>_. Inr ())))))"

subsection \<open>Dumps: the stored and fingerprinted specifications\<close>

definition opt_str :: "string option \<Rightarrow> pyval" where
  "opt_str x = (case x of None \<Rightarrow> VNone | Some s \<Rightarrow> VStr s)"

definition opt_int :: "int option \<Rightarrow> pyval" where
  "opt_int x = (case x of None \<Rightarrow> VNone | Some i \<Rightarrow> VInt i)"

definition quality_spec :: "feature_quality \<Rightarrow> pyval" where
  "quality_spec q = VDict
     [(''nullable'', VBool (q_nullable q)), (''minimum'', q_minimum q), (''maximum'', q_maximum q),
      (''accepted_values'', (case q_accepted q of None \<Rightarrow> VNone | Some vs \<Rightarrow> VList vs)),
      (''unique'', VBool (q_unique q)), (''max_age_seconds'', opt_int (q_max_age q))]"

text \<open>\<open>Feature.registry_spec\<close>: the \<open>quality\<close> key is dropped when there is no contract.\<close>

definition feature_spec :: "feature \<Rightarrow> pyval" where
  "feature_spec f = VDict
     ([(''name'', VStr (f_name f)), (''dtype'', VStr (value_type_str (f_dtype f))),
       (''description'', VStr (f_description f))]
      @ (case f_quality f of None \<Rightarrow> [] | Some q \<Rightarrow> [(''quality'', quality_spec q)]))"

definition entity_spec :: "entity \<Rightarrow> pyval" where
  "entity_spec e = VDict
     [(''name'', VStr (e_name e)),
      (''join_keys'', VDict (map (\<lambda>(k, t). (k, VStr (value_type_str t))) (e_join_keys e)))]"

definition batch_source_spec :: "batch_source \<Rightarrow> pyval" where
  "batch_source_spec b = VDict
     [(''name'', VStr (bs_name b)), (''uri'', VStr (bs_uri b)),
      (''event_timestamp_field'', VStr (bs_timestamp_field b))]"

definition stream_source_spec :: "stream_source \<Rightarrow> pyval" where
  "stream_source_spec s = VDict
     [(''name'', VStr (ss_name s)), (''topic'', VStr (ss_topic s)),
      (''dead_letter_topic'', opt_str (ss_dead_letter s))]"

text \<open>\<open>FeatureView.registry_spec\<close>.\<close>

definition view_spec :: "feature_view \<Rightarrow> pyval" where
  "view_spec v = VDict
     ([(''name'', VStr (v_name v)), (''version'', VStr (v_version v)),
       (''entity'', VStr (v_entity v)), (''features'', VList (map feature_spec (v_features v))),
       (''batch_source'', VStr (v_batch_source v)), (''batch_sql'', VStr (v_batch_sql v)),
       (''stream_source'', opt_str (v_stream_source v)), (''ttl_seconds'', opt_int (v_ttl_seconds v)),
       (''description'', VStr (v_description v))]
      @ (case v_quality_policy v of None \<Rightarrow> []
         | Some p \<Rightarrow> [(''quality_policy'', VStr (policy_str p))]))"

definition service_spec :: "feature_service \<Rightarrow> pyval" where
  "service_spec s = VDict
     [(''name'', VStr (s_name s)), (''features'', VList (map VStr (s_features s))),
      (''description'', VStr (s_description s))]"

definition manifest_spec :: "manifest \<Rightarrow> pyval" where
  "manifest_spec m = VDict
     [(''entities'', VList (map entity_spec (m_entities m))),
      (''batch_sources'', VList (map batch_source_spec (m_batch_sources m))),
      (''stream_sources'', VList (map stream_source_spec (m_stream_sources m))),
      (''feature_views'', VList (map view_spec (m_feature_views m))),
      (''feature_services'', VList (map service_spec (m_feature_services m)))]"

definition manifest_fingerprint :: "pyenv \<Rightarrow> manifest \<Rightarrow> string" where
  "manifest_fingerprint env m = env_sha256 env (json_dumps env compact_opts (manifest_spec m))"

lemma feature_spec_name:
  assumes "canon (feature_spec f) = canon (feature_spec g)"
  shows "f_name f = f_name g"
proof -
  have "map_option canon (map_of (un f) ''name'') = Some (VStr (f_name f))" if "un = (\<lambda>f. [(''name'', VStr (f_name f)), (''dtype'', VStr (value_type_str (f_dtype f))),
       (''description'', VStr (f_description f))]
      @ (case f_quality f of None \<Rightarrow> [] | Some q \<Rightarrow> [(''quality'', quality_spec q)]))" for un and f :: feature
    using that by simp
  then show ?thesis
    using canon_lookup [OF assms [unfolded feature_spec_def], of "''name''"]
    by (simp split: option.splits)
qed

lemma view_spec_features:
  assumes "canon (view_spec v) = canon (view_spec w)"
  shows "feature_names v = feature_names w"
proof -
  have "map canon (map feature_spec (v_features v)) = map canon (map feature_spec (v_features w))"
    using canon_lookup [OF assms [unfolded view_spec_def], of "''features''"]
    by (simp split: option.splits)
  then have "list_all2 (\<lambda>f g. canon (feature_spec f) = canon (feature_spec g)) (v_features v) (v_features w)"
    by (simp add: list_eq_iff_nth_eq list_all2_conv_all_nth) 
  then have "list_all2 (\<lambda>f g. f_name f = f_name g) (v_features v) (v_features w)"
    by (rule list_all2_mono) (rule feature_spec_name)
  then show ?thesis by (simp add: feature_names_def list_all2_conv_all_nth list_eq_iff_nth_eq)
qed
subsection \<open>Registry targets\<close>

datatype object_kind = KEntity | KBatchSource | KStreamSource | KFeatureView | KFeatureService

fun kind_str :: "object_kind \<Rightarrow> string" where
  "kind_str KEntity = ''entity''"
| "kind_str KBatchSource = ''batch_source''"
| "kind_str KStreamSource = ''stream_source''"
| "kind_str KFeatureView = ''feature_view''"
| "kind_str KFeatureService = ''feature_service''"

lemma kind_str_inj [simp]: "kind_str a = kind_str b \<longleftrightarrow> a = b"
  by (cases a; cases b) simp_all

lemma kind_str_no_colon [simp]: "CHR '':'' \<notin> set (kind_str k)"
  by (cases k) simp_all

record target =
  t_kind :: object_kind
  t_name :: string
  t_version :: "string option"
  t_feature :: "string option"

text \<open>\<open>RegistryTarget.validate_target\<close>.\<close>

definition mk_target :: "object_kind \<Rightarrow> string \<Rightarrow> string option \<Rightarrow> string option \<Rightarrow> target result" where
  "mk_target k name ver feat =
     (if \<not> name_ok name
      then Inl (ValidationError ''registry target name must be lowercase snake_case'')
      else if k = KFeatureView \<and> (case ver of None \<Rightarrow> True | Some x \<Rightarrow> \<not> version_ok x)
      then Inl (ValidationError ''feature view targets require a semantic version'')
      else if k \<noteq> KFeatureView \<and> ver \<noteq> None
      then Inl (ValidationError ''only feature view targets accept a version'')
      else if feat \<noteq> None \<and> k \<noteq> KFeatureView
      then Inl (ValidationError ''only feature view targets accept a feature'')
      else if (case feat of None \<Rightarrow> False | Some f \<Rightarrow> \<not> name_ok f)
      then Inl (ValidationError ''feature target name must be lowercase snake_case'')
      else Inr \<lparr>t_kind = k, t_name = name, t_version = ver, t_feature = feat\<rparr>)"

definition valid_target :: "target \<Rightarrow> bool" where
  "valid_target t \<longleftrightarrow> mk_target (t_kind t) (t_name t) (t_version t) (t_feature t) = Inr t"

definition suffix_of :: "char \<Rightarrow> string option \<Rightarrow> string" where
  "suffix_of c x = (case x of None \<Rightarrow> [] | Some s \<Rightarrow> if s = [] then [] else c # s)"

definition target_ref :: "target \<Rightarrow> string" where
  "target_ref t = kind_str (t_kind t) @ CHR '':'' # t_name t
     @ suffix_of (CHR ''@'') (t_version t) @ suffix_of (CHR '':'') (t_feature t)"

subsection \<open>Facts about names, references and targets\<close>

lemma name_char_plain: "name_char c \<Longrightarrow> c \<noteq> CHR ''@'' \<and> c \<noteq> CHR '':''"
  by (intro conjI notI) (simp_all add: name_char_def is_lower_def is_digit_def)

lemma is_lower_name_char: "is_lower c \<Longrightarrow> name_char c"
  by (simp add: name_char_def)

lemma name_ok_chars: "name_ok s \<Longrightarrow> c \<in> set s \<Longrightarrow> name_char c"
  by (cases s) (auto simp: name_ok_def list_all_iff is_lower_name_char)

lemma name_ok_plain: "name_ok s \<Longrightarrow> c \<in> set s \<Longrightarrow> c \<noteq> CHR ''@'' \<and> c \<noteq> CHR '':''"
  using name_ok_chars name_char_plain by blast

lemma name_ok_nonempty: "name_ok s \<Longrightarrow> s \<noteq> []"
  by (auto simp: name_ok_def)

lemma version_part_ok_digits: "version_part_ok s \<Longrightarrow> c \<in> set s \<Longrightarrow> is_digit c"
  by (auto simp: version_part_ok_def digits_ok_def list_all_iff) (simp add: is_digit_def)

lemma version_ok_parts:
  assumes "version_ok s"
  obtains a b c where "split_all (CHR ''.'') s = [a, b, c]"
    "version_part_ok a" "version_part_ok b" "version_part_ok c"
  using assms by (auto simp: version_ok_def split: list.splits)

lemma version_ok_chars:
  assumes "version_ok s" "c \<in> set s"
  shows "is_digit c \<or> c = CHR ''.''"
proof -
  obtain x y z where parts: "split_all (CHR ''.'') s = [x, y, z]"
    and ok: "version_part_ok x" "version_part_ok y" "version_part_ok z"
    using version_ok_parts [OF assms(1)] by blast
  have "set s - {CHR ''.''} = set x \<union> set y \<union> set z"
    using split_all_chars [of "CHR ''.''" s] parts by auto
  with assms(2) have "c = CHR ''.'' \<or> c \<in> set x \<or> c \<in> set y \<or> c \<in> set z" by blast
  then show ?thesis using ok version_part_ok_digits by blast
qed

lemma version_ok_plain: "version_ok s \<Longrightarrow> c \<in> set s \<Longrightarrow> c \<noteq> CHR ''@'' \<and> c \<noteq> CHR '':''"
  using version_ok_chars [of s c] by (intro conjI notI) (simp_all add: is_digit_def)

lemma version_ok_nonempty: "version_ok s \<Longrightarrow> s \<noteq> []"
  by (auto simp: version_ok_def)

lemma mk_target_eq_Inr:
  "mk_target k name ver feat = Inr t \<Longrightarrow>
     t = \<lparr>t_kind = k, t_name = name, t_version = ver, t_feature = feat\<rparr> \<and> valid_target t"
  unfolding valid_target_def by (auto simp: mk_target_def split: if_splits option.splits)

lemma valid_targetD:
  assumes "valid_target t"
  shows "name_ok (t_name t)"
    and "t_kind t = KFeatureView \<Longrightarrow> \<exists>x. t_version t = Some x \<and> version_ok x"
    and "t_kind t \<noteq> KFeatureView \<Longrightarrow> t_version t = None \<and> t_feature t = None"
    and "t_feature t = Some f \<Longrightarrow> name_ok f"
  using assms by (auto simp: valid_target_def mk_target_def split: if_splits option.splits)

lemma target_eqI:
  "t_kind a = t_kind b \<Longrightarrow> t_name a = t_name b \<Longrightarrow> t_version a = t_version b \<Longrightarrow>
     t_feature a = t_feature b \<Longrightarrow> a = (b :: target)"
  by simp

lemma suffix_of_hd: "suffix_of c x = [] \<or> hd (suffix_of c x) = c"
  by (auto simp: suffix_of_def split: option.splits)

lemma suffix_of_name_inj:
  assumes "\<And>f. x = Some f \<Longrightarrow> name_ok f" "\<And>f. y = Some f \<Longrightarrow> name_ok f"
    and "suffix_of c x = suffix_of c y"
  shows "x = y"
  using assms name_ok_nonempty by (auto simp: suffix_of_def split: option.splits if_splits)

lemma target_ref_inj:
  assumes a: "valid_target a" and b: "valid_target b"
    and eq: "target_ref a = target_ref b"
  shows "a = b"
proof -
  let ?at = "CHR ''@''" and ?co = "CHR '':''"
  let ?ra = "t_name a @ suffix_of ?at (t_version a) @ suffix_of ?co (t_feature a)"
  let ?rb = "t_name b @ suffix_of ?at (t_version b) @ suffix_of ?co (t_feature b)"
  have "split_once ?co (target_ref a) = Some (kind_str (t_kind a), ?ra)"
    "split_once ?co (target_ref b) = Some (kind_str (t_kind b), ?rb)"
    by (simp_all add: split_once_Some target_ref_def)
  with eq have kind: "t_kind a = t_kind b" and rest: "?ra = ?rb" by simp_all
  have tail: "suffix_of ?at v @ suffix_of ?co f = [] \<or> hd (suffix_of ?at v @ suffix_of ?co f) \<in> {?at, ?co}"
    for v f by (auto simp: suffix_of_def split: option.splits)
  have "t_name a = t_name b \<and> suffix_of ?at (t_version a) @ suffix_of ?co (t_feature a) =
      suffix_of ?at (t_version b) @ suffix_of ?co (t_feature b)"
    using valid_targetD(1) [OF a] valid_targetD(1) [OF b] name_ok_plain tail rest
    by (intro cut_unique [where P = "\<lambda>c. c \<in> {?at, ?co}"]) auto
  then have name: "t_name a = t_name b" and suf: "suffix_of ?at (t_version a) @ suffix_of ?co (t_feature a) =
      suffix_of ?at (t_version b) @ suffix_of ?co (t_feature b)" by simp_all
  show ?thesis
  proof (cases "t_kind a = KFeatureView")
    case False
    then show ?thesis
      using valid_targetD(3) [OF a] valid_targetD(3) [OF b] kind name by (auto intro: target_eqI)
  next
    case True
    then obtain x y where x: "t_version a = Some x" "version_ok x" and y: "t_version b = Some y" "version_ok y"
      using valid_targetD(2) [OF a] valid_targetD(2) [OF b] kind by auto
    have "x @ suffix_of ?co (t_feature a) = y @ suffix_of ?co (t_feature b)"
      using suf x y version_ok_nonempty by (simp add: suffix_of_def)
    then have "x = y \<and> suffix_of ?co (t_feature a) = suffix_of ?co (t_feature b)"
      using version_ok_plain x(2) y(2) suffix_of_hd
      by (intro cut_unique [where P = "\<lambda>c. c = ?co"]) auto
    moreover have "t_feature a = t_feature b"
      using suffix_of_name_inj [of "t_feature a" "t_feature b" ?co] calculation
        valid_targetD(4) [OF a] valid_targetD(4) [OF b] by blast
    ultimately show ?thesis using kind name x y by (intro target_eqI) simp_all
  qed
qed

end
