(* ===== verification/Quality.thy ===== *)
theory Quality
  imports Models
begin

section \<open>Data quality validation\<close>

text \<open>
  \<open>quality.py\<close>: the evaluation of the quality contracts of a view on a batch of rows or on
  one stream event. The functions follow the code; \<open>breaks\<close> is the contract itself, one
  clause per constraint, and the lemmas say that the reported violations are exactly the
  broken clauses, in the order of rows, features and constraints, and that the row indexes
  split into valid and invalid ones.
\<close>

subsection \<open>The validation result\<close>

record violation =
  vi_row :: nat
  vi_feature :: string
  vi_constraint :: constraint

record quality_validation =
  qv_rows :: nat
  qv_violations :: "violation list"

definition invalid_row_indexes :: "quality_validation \<Rightarrow> nat list" where
  "invalid_row_indexes q = sort (remdups (map vi_row (qv_violations q)))"

definition valid_row_indexes :: "quality_validation \<Rightarrow> nat list" where
  "valid_row_indexes q =
     (let invalid = invalid_row_indexes q in filter (\<lambda>i. i \<notin> set invalid) [0..<qv_rows q])"

definition all_constraints :: "constraint list" where
  "all_constraints = [CNullable, CMinimum, CMaximum, CAccepted, CUnique, CMaxAge]"

definition counts_by_constraint :: "quality_validation \<Rightarrow> (constraint \<times> nat) list" where
  "counts_by_constraint q =
     (let count = count_list (map vi_constraint (qv_violations q))
      in map (\<lambda>c. (c, count c)) (filter (\<lambda>c. count c \<noteq> 0) all_constraints))"

fun join_str :: "string \<Rightarrow> string list \<Rightarrow> string" where
  "join_str sep [] = []"
| "join_str sep [s] = s"
| "join_str sep (s # t # ts) = s @ sep @ join_str sep (t # ts)"

definition bounded_message :: "quality_validation \<Rightarrow> string" where
  "bounded_message q =
     ''data quality violations: rows='' @ nat_str (length (invalid_row_indexes q))
       @ '' constraints='' @ join_str '','' (map (\<lambda>kv. constraint_str (fst kv)) (counts_by_constraint q))"

definition constraint_order :: "constraint \<Rightarrow> nat" where
  "constraint_order c =
     (case c of CNullable \<Rightarrow> 0 | CMinimum \<Rightarrow> 1 | CMaximum \<Rightarrow> 2 | CAccepted \<Rightarrow> 3 | CUnique \<Rightarrow> 4 | CMaxAge \<Rightarrow> 5)"

subsection \<open>Evaluation\<close>

fun type_name :: "pyval \<Rightarrow> string" where
  "type_name VNone = ''NoneType''"
| "type_name (VBool b) = ''bool''"
| "type_name (VInt i) = ''int''"
| "type_name (VFloat f) = ''float''"
| "type_name (VStr s) = ''str''"
| "type_name (VTime d) = ''datetime''"
| "type_name (VList xs) = ''list''"
| "type_name (VDict d) = ''dict''"

definition value_key :: "pyenv \<Rightarrow> pyval \<Rightarrow> string" where
  "value_key env v = (case v of
       VTime d \<Rightarrow> ''datetime:'' @ iso_us (instant (as_utc d))
     | _ \<Rightarrow> type_name v @ CHR '':'' # json_dumps env spaced_opts v)"

text \<open>\<open>indexes_by_value\<close> of one unique feature, filled row by row.\<close>

fun group_indexes ::
    "pyenv \<Rightarrow> string \<Rightarrow> nat \<Rightarrow> row list \<Rightarrow> (string \<times> nat list) list \<Rightarrow> (string \<times> nat list) list" where
  "group_indexes env name i [] groups = groups"
| "group_indexes env name i (row # rows) groups =
     (let v = dict_get row name
      in group_indexes env name (Suc i) rows
        (if v = VNone then groups
         else (let k = value_key env v; old = (case map_of groups k of None \<Rightarrow> [] | Some idx \<Rightarrow> idx)
               in dict_set groups k (old @ [i]))))"

definition duplicate_indexes :: "pyenv \<Rightarrow> string \<Rightarrow> row list \<Rightarrow> nat list" where
  "duplicate_indexes env name rows =
     concat (filter (\<lambda>idx. 1 < length idx) (map snd (group_indexes env name 0 rows [])))"

definition duplicate_rows :: "pyenv \<Rightarrow> feature list \<Rightarrow> row list \<Rightarrow> (string \<times> nat list) list" where
  "duplicate_rows env features rows =
     fold (\<lambda>f acc. case f_quality f of
         None \<Rightarrow> acc
       | Some q \<Rightarrow> if q_unique q then dict_set acc (f_name f) (duplicate_indexes env (f_name f) rows) else acc)
       features []"

text \<open>\<open>reference - timedelta(seconds=n)\<close> raises outside the years 1 to 9999.\<close>

definition minus_seconds :: "int \<Rightarrow> int \<Rightarrow> int result" where
  "minus_seconds t n =
     (if in_range (t - seconds n) then Inr (t - seconds n)
      else Inl (OverflowError ''date value out of range''))"

definition viol :: "nat \<Rightarrow> feature \<Rightarrow> constraint \<Rightarrow> violation" where
  "viol i f c = \<lparr>vi_row = i, vi_feature = f_name f, vi_constraint = c\<rparr>"

definition bound_violations :: "nat \<Rightarrow> feature \<Rightarrow> feature_quality \<Rightarrow> pyval \<Rightarrow> violation list result" where
  "bound_violations i f q v =
     bind_result (if q_minimum q = VNone then Inr False else py_less v (q_minimum q)) (\<lambda>low.
     bind_result (if q_maximum q = VNone then Inr False else py_less (q_maximum q) v) (\<lambda>high.
     Inr ((if low then [viol i f CMinimum] else []) @ (if high then [viol i f CMaximum] else []))))"

definition age_violations :: "nat \<Rightarrow> feature \<Rightarrow> feature_quality \<Rightarrow> int \<Rightarrow> datetime \<Rightarrow> violation list result" where
  "age_violations i f q reference ts =
     (case q_max_age q of
        None \<Rightarrow> Inr []
      | Some age \<Rightarrow> bind_result (minus_seconds reference age) (\<lambda>oldest.
          Inr (if instant (as_utc ts) < oldest then [viol i f CMaxAge] else [])))"

definition feature_violations ::
    "(string \<times> nat list) list \<Rightarrow> int \<Rightarrow> nat \<Rightarrow> row \<Rightarrow> datetime \<Rightarrow> feature \<Rightarrow> violation list result" where
  "feature_violations dups reference i row ts f =
     (case f_quality f of
        None \<Rightarrow> Inr []
      | Some q \<Rightarrow>
          (let v = dict_get row (f_name f)
           in bind_result
             (if v = VNone then Inr (if q_nullable q then [] else [viol i f CNullable])
              else bind_result (bound_violations i f q v) (\<lambda>bounds.
                Inr (bounds
                  @ (case q_accepted q of None \<Rightarrow> []
                     | Some vs \<Rightarrow> if list_ex (py_eq v) vs then [] else [viol i f CAccepted])
                  @ (case map_of dups (f_name f) of None \<Rightarrow> []
                     | Some idx \<Rightarrow> if i \<in> set idx then [viol i f CUnique] else []))))
             (\<lambda>value_part. bind_result (age_violations i f q reference ts) (\<lambda>age_part.
               Inr (value_part @ age_part)))))"

fun row_violations ::
    "(string \<times> nat list) list \<Rightarrow> int \<Rightarrow> nat \<Rightarrow> row \<Rightarrow> datetime \<Rightarrow> feature list \<Rightarrow> violation list result" where
  "row_violations dups reference i row ts [] = Inr []"
| "row_violations dups reference i row ts (f # fs) =
     bind_result (feature_violations dups reference i row ts f) (\<lambda>here.
     bind_result (row_violations dups reference i row ts fs) (\<lambda>rest. Inr (here @ rest)))"

text \<open>\<open>zip(rows, event_timestamps, strict=True)\<close> raises where one of the two ends first.\<close>

fun table_violations ::
    "(string \<times> nat list) list \<Rightarrow> int \<Rightarrow> feature list \<Rightarrow> nat \<Rightarrow> row list \<Rightarrow> datetime list \<Rightarrow> violation list result" where
  "table_violations dups reference fs i [] [] = Inr []"
| "table_violations dups reference fs i (row # rows) (ts # tss) =
     bind_result (row_violations dups reference i row ts fs) (\<lambda>here.
     bind_result (table_violations dups reference fs (Suc i) rows tss) (\<lambda>rest. Inr (here @ rest)))"
| "table_violations dups reference fs i rows tss =
     Inl (ValueError ''zip() arguments have different lengths'')"

text \<open>\<open>feature_order\<close>: a later feature of the same name overwrites the earlier index.\<close>

definition feature_order :: "feature list \<Rightarrow> string \<Rightarrow> nat" where
  "feature_order fs name =
     (case map_of (rev (zip (map f_name fs) [0..<length fs])) name of None \<Rightarrow> 0 | Some i \<Rightarrow> i)"

definition violation_key :: "feature list \<Rightarrow> violation \<Rightarrow> nat \<times> nat \<times> nat" where
  "violation_key fs v =
     (vi_row v, feature_order fs (vi_feature v), constraint_order (vi_constraint v))"

definition validate_quality_rows ::
    "pyenv \<Rightarrow> row list \<Rightarrow> feature list \<Rightarrow> datetime list \<Rightarrow> datetime \<Rightarrow> bool \<Rightarrow> quality_validation result" where
  "validate_quality_rows env rows fs tss reference_time check_unique =
     (let reference = instant (as_utc reference_time);
          dups = (if check_unique then duplicate_rows env fs rows else [])
      in bind_result (table_violations dups reference fs 0 rows tss) (\<lambda>vs.
        Inr \<lparr>qv_rows = length rows, qv_violations = sort_key (violation_key fs) vs\<rparr>))"

definition event_time :: "row \<Rightarrow> datetime result" where
  "event_time row = (case map_of row ''event_timestamp'' of
       None \<Rightarrow> Inl (KeyError ''event_timestamp'')
     | Some v \<Rightarrow> (case v of VTime d \<Rightarrow> Inr d
         | _ \<Rightarrow> Inl (TypeError ''event_timestamp is not a datetime'')))"

definition validate_quality_table ::
    "pyenv \<Rightarrow> row list \<Rightarrow> feature list \<Rightarrow> datetime \<Rightarrow> quality_validation result" where
  "validate_quality_table env rows fs reference_time =
     bind_result (traverse event_time rows) (\<lambda>tss.
       validate_quality_rows env rows fs tss reference_time True)"

definition validate_quality_event ::
    "pyenv \<Rightarrow> row \<Rightarrow> feature list \<Rightarrow> datetime \<Rightarrow> datetime \<Rightarrow> quality_validation result" where
  "validate_quality_event env values fs ts ingestion_time =
     validate_quality_rows env [values] fs [ts] ingestion_time False"

subsection \<open>The contract\<close>

definition num_less :: "pyval \<Rightarrow> pyval \<Rightarrow> bool" where
  "num_less v w = (case (num_of v, num_of w) of (Some a, Some b) \<Rightarrow> flt_less a b | _ \<Rightarrow> False)"

definition key_of :: "pyenv \<Rightarrow> string \<Rightarrow> row \<Rightarrow> string option" where
  "key_of env name row =
     (let v = dict_get row name in if v = VNone then None else Some (value_key env v))"

text \<open>
  \<open>breaks\<close>: row \<open>i\<close> with its timestamp breaks one constraint of the contract \<open>q\<close> of a
  feature. Uniqueness is about the other rows of the batch; the other constraints are local.
\<close>

definition breaks ::
    "pyenv \<Rightarrow> row list \<Rightarrow> bool \<Rightarrow> int \<Rightarrow> nat \<Rightarrow> datetime \<Rightarrow> string \<Rightarrow> feature_quality \<Rightarrow> constraint \<Rightarrow> bool" where
  "breaks env rows check_unique reference i ts name q c =
     (let v = dict_get (rows ! i) name
      in case c of
          CNullable \<Rightarrow> v = VNone \<and> \<not> q_nullable q
        | CMinimum \<Rightarrow> v \<noteq> VNone \<and> q_minimum q \<noteq> VNone \<and> num_less v (q_minimum q)
        | CMaximum \<Rightarrow> v \<noteq> VNone \<and> q_maximum q \<noteq> VNone \<and> num_less (q_maximum q) v
        | CAccepted \<Rightarrow> v \<noteq> VNone \<and> (case q_accepted q of None \<Rightarrow> False | Some vs \<Rightarrow> \<not> list_ex (py_eq v) vs)
        | CUnique \<Rightarrow> v \<noteq> VNone \<and> check_unique \<and> q_unique q \<and>
            (\<exists>j < length rows. j \<noteq> i \<and> key_of env name (rows ! j) = key_of env name (rows ! i))
        | CMaxAge \<Rightarrow> (case q_max_age q of None \<Rightarrow> False
            | Some age \<Rightarrow> instant ts < reference - seconds age))"

subsection \<open>Duplicates\<close>

definition group_at :: "(string \<times> nat list) list \<Rightarrow> string \<Rightarrow> nat list" where
  "group_at g k = (case map_of g k of None \<Rightarrow> [] | Some idx \<Rightarrow> idx)"

lemma group_at_set: "group_at (dict_set g k idx) k' = (if k' = k then idx else group_at g k')"
  by (simp add: group_at_def)

lemma group_indexes_at:
  "group_at (group_indexes env name i rows g) k =
     group_at g k @ map ((+) i) (filter (\<lambda>j. key_of env name (rows ! j) = Some k) [0..<length rows])"
proof (induction rows arbitrary: i g)
  case Nil
  show ?case by simp
next
  case (Cons row rows)
  let ?P = "\<lambda>r. key_of env name r = Some k"
  have shift: "filter (\<lambda>j. ?P ((row # rows) ! j)) [0..<length (row # rows)] =
      (if ?P row then [0] else []) @ map Suc (filter (\<lambda>j. ?P (rows ! j)) [0..<length rows])"
  proof -
    have "[0..<length (row # rows)] = 0 # map Suc [0..<length rows]"
      using upt_conv_Cons [of 0 "Suc (length rows)"] map_Suc_upt [of 0 "length rows"] by simp
    then show ?thesis by (simp add: filter_map o_def)
  qed
  define v where "v = dict_get row name"
  define g' where "g' = (if v = VNone then g else
      (let k = value_key env v; old = (case map_of g k of None \<Rightarrow> [] | Some idx \<Rightarrow> idx)
       in dict_set g k (old @ [i])))"
  have step: "group_indexes env name i (row # rows) g = group_indexes env name (Suc i) rows g'"
    by (simp add: g'_def v_def Let_def)
  have "group_at g' k = group_at g k @ (if ?P row then [i] else [])"
    by (auto simp: g'_def v_def key_of_def Let_def group_at_set group_at_def)
  moreover have "map ((+) (Suc i)) xs = map ((+) i) (map Suc xs)" for xs by simp
  ultimately show ?case unfolding step Cons.IH shift by simp
qed

lemma distinct_group_indexes:
  "distinct (map fst g) \<Longrightarrow> distinct (map fst (group_indexes env name i rows g))"
  by (induction rows arbitrary: i g) (simp_all add: Let_def distinct_dict_set)

lemma length_filter_gt_1:
  assumes "i < n" "P i"
  shows "1 < length (filter P [0..<n]) \<longleftrightarrow> (\<exists>j < n. j \<noteq> i \<and> P j)"
proof -
  have card: "length (filter P [0..<n]) = card {j. j < n \<and> P j}"
  proof -
    have "set (filter P [0..<n]) = {j. j < n \<and> P j}" by auto
    then show ?thesis using distinct_card [of "filter P [0..<n]"] by simp
  qed
  have fin: "finite {j. j < n \<and> P j}" by simp
  have "card {j. j < n \<and> P j} = Suc (card ({j. j < n \<and> P j} - {i}))"
    using assms by (intro card.remove [OF fin]) simp
  then have "1 < card {j. j < n \<and> P j} \<longleftrightarrow> {j. j < n \<and> P j} - {i} \<noteq> {}"
    using fin by (simp add: card_gt_0_iff)
  also have "\<dots> \<longleftrightarrow> (\<exists>j < n. j \<noteq> i \<and> P j)" by auto
  finally show ?thesis by (simp add: card)
qed

lemma duplicate_indexes_iff:
  assumes "i < length rows"
  shows "i \<in> set (duplicate_indexes env name rows) \<longleftrightarrow>
    dict_get (rows ! i) name \<noteq> VNone \<and>
    (\<exists>j < length rows. j \<noteq> i \<and> key_of env name (rows ! j) = key_of env name (rows ! i))"
proof -
  define g where "g = group_indexes env name 0 rows []"
  have dist: "distinct (map fst g)" unfolding g_def by (rule distinct_group_indexes) simp
  have at: "group_at g k = filter (\<lambda>j. key_of env name (rows ! j) = Some k) [0..<length rows]" for k
    unfolding g_def group_indexes_at by (simp add: group_at_def map_idI)
  have "i \<in> set (duplicate_indexes env name rows) \<longleftrightarrow>
      (\<exists>k. 1 < length (group_at g k) \<and> i \<in> set (group_at g k))"
  proof -
    have "(\<exists>kis \<in> set g. 1 < length (snd kis) \<and> i \<in> set (snd kis)) \<longleftrightarrow>
        (\<exists>k. 1 < length (group_at g k) \<and> i \<in> set (group_at g k))"
    proof
      assume "\<exists>kis \<in> set g. 1 < length (snd kis) \<and> i \<in> set (snd kis)"
      then obtain k idx where "(k, idx) \<in> set g" "1 < length idx" "i \<in> set idx" by auto
      then show "\<exists>k. 1 < length (group_at g k) \<and> i \<in> set (group_at g k)"
        using dist by (auto simp: group_at_def intro!: exI [of _ k])
    next
      assume "\<exists>k. 1 < length (group_at g k) \<and> i \<in> set (group_at g k)"
      then obtain k where k: "1 < length (group_at g k)" "i \<in> set (group_at g k)" by blast
      then obtain idx where "map_of g k = Some idx" by (auto simp: group_at_def split: option.splits)
      then show "\<exists>kis \<in> set g. 1 < length (snd kis) \<and> i \<in> set (snd kis)"
        using k map_of_SomeD [of g k idx] by (force simp: group_at_def)
    qed
    then show ?thesis by (auto simp: duplicate_indexes_def g_def)
  qed
  also have "\<dots> \<longleftrightarrow> (\<exists>k. key_of env name (rows ! i) = Some k \<and>
      (\<exists>j < length rows. j \<noteq> i \<and> key_of env name (rows ! j) = Some k))"
    unfolding at using assms length_filter_gt_1 [OF assms] by auto
  also have "\<dots> \<longleftrightarrow> dict_get (rows ! i) name \<noteq> VNone \<and>
    (\<exists>j < length rows. j \<noteq> i \<and> key_of env name (rows ! j) = key_of env name (rows ! i))"
    by (auto simp: key_of_def Let_def)
  finally show ?thesis .
qed

definition unique_named :: "feature list \<Rightarrow> string \<Rightarrow> bool" where
  "unique_named fs name \<longleftrightarrow>
     (\<exists>f \<in> set fs. f_name f = name \<and> (case f_quality f of None \<Rightarrow> False | Some q \<Rightarrow> q_unique q))"

lemma map_of_duplicate_rows:
  "map_of (duplicate_rows env fs rows) name =
     (if unique_named fs name then Some (duplicate_indexes env name rows) else None)"
proof -
  let ?step = "\<lambda>f acc. case f_quality f of None \<Rightarrow> acc
     | Some q \<Rightarrow> if q_unique q then dict_set acc (f_name f) (duplicate_indexes env (f_name f) rows) else acc"
  have "map_of (fold ?step fs acc) name =
      (if unique_named fs name then Some (duplicate_indexes env name rows) else map_of acc name)" for acc
    by (induction fs arbitrary: acc) (auto simp: unique_named_def split: option.splits)
  then show ?thesis by (simp add: duplicate_rows_def)
qed

subsection \<open>Reported violations are the broken clauses\<close>

lemma py_less_Inr: "py_less v w = Inr b \<Longrightarrow> b = num_less v w"
  by (auto simp: py_less_def num_less_def split: option.splits)

lemma viol_eq: "viol i f c = viol j g d \<longleftrightarrow> i = j \<and> f_name f = f_name g \<and> c = d"
  by (auto simp: viol_def)

lemma ex_constraint:
  "(\<exists>c. P c) \<longleftrightarrow> P CNullable \<or> P CMinimum \<or> P CMaximum \<or> P CAccepted \<or> P CUnique \<or> P CMaxAge"
  by (metis constraint.exhaust)

definition value_breaks :: "(string \<times> nat list) list \<Rightarrow> nat \<Rightarrow> row \<Rightarrow> string \<Rightarrow> feature_quality \<Rightarrow> constraint \<Rightarrow> bool" where
  "value_breaks dups i row name q c =
     (let v = dict_get row name
      in case c of
          CNullable \<Rightarrow> v = VNone \<and> \<not> q_nullable q
        | CMinimum \<Rightarrow> v \<noteq> VNone \<and> q_minimum q \<noteq> VNone \<and> num_less v (q_minimum q)
        | CMaximum \<Rightarrow> v \<noteq> VNone \<and> q_maximum q \<noteq> VNone \<and> num_less (q_maximum q) v
        | CAccepted \<Rightarrow> v \<noteq> VNone \<and> (case q_accepted q of None \<Rightarrow> False | Some vs \<Rightarrow> \<not> list_ex (py_eq v) vs)
        | CUnique \<Rightarrow> v \<noteq> VNone \<and> (case map_of dups name of None \<Rightarrow> False | Some idx \<Rightarrow> i \<in> set idx)
        | CMaxAge \<Rightarrow> False)"

lemma guarded_less:
  "(if w = VNone then Inr False else py_less v w) = Inr b \<Longrightarrow> b = (w \<noteq> VNone \<and> num_less v w)"
  "(if w = VNone then Inr False else py_less w v) = Inr b \<Longrightarrow> b = (w \<noteq> VNone \<and> num_less w v)"
  by (cases "w = VNone"; simp add: py_less_Inr)+

lemma bound_violations_Inr:
  assumes "bound_violations i f q v = Inr vs"
  shows "vs = (if q_minimum q \<noteq> VNone \<and> num_less v (q_minimum q) then [viol i f CMinimum] else []) @
          (if q_maximum q \<noteq> VNone \<and> num_less (q_maximum q) v then [viol i f CMaximum] else [])"
proof -
  obtain low high where low: "(if q_minimum q = VNone then Inr False else py_less v (q_minimum q)) = Inr low"
    and high: "(if q_maximum q = VNone then Inr False else py_less (q_maximum q) v) = Inr high"
    and vs: "vs = (if low then [viol i f CMinimum] else []) @ (if high then [viol i f CMaximum] else [])"
    using assms unfolding bound_violations_def bind_result_eq_Inr by blast
  show ?thesis using vs guarded_less(1) [OF low] guarded_less(2) [OF high] by simp
qed

lemma age_violations_Inr:
  "age_violations i f q reference ts = Inr vs \<Longrightarrow>
     vs = (if (case q_max_age q of None \<Rightarrow> False | Some age \<Rightarrow> instant ts < reference - seconds age)
           then [viol i f CMaxAge] else [])"
  by (auto simp: age_violations_def bind_result_eq_Inr minus_seconds_def split: option.splits if_splits)

lemma feature_violations_Inr:
  assumes "feature_violations dups reference i row ts f = Inr vs"
  shows "x \<in> set vs \<longleftrightarrow> (\<exists>q c. f_quality f = Some q \<and> x = viol i f c \<and>
    (value_breaks dups i row (f_name f) q c \<or>
     c = CMaxAge \<and> (case q_max_age q of None \<Rightarrow> False | Some age \<Rightarrow> instant ts < reference - seconds age)))"
proof (cases "f_quality f")
  case None
  then show ?thesis using assms by (simp add: feature_violations_def)
next
  case (Some q)
  define v where "v = dict_get row (f_name f)"
  define age where "age = (case q_max_age q of None \<Rightarrow> False | Some age \<Rightarrow> instant ts < reference - seconds age)"
  obtain here where vs: "vs = here @ (if age then [viol i f CMaxAge] else [])" and here:
    "here = (if v = VNone then (if q_nullable q then [] else [viol i f CNullable])
      else (if q_minimum q \<noteq> VNone \<and> num_less v (q_minimum q) then [viol i f CMinimum] else []) @
          (if q_maximum q \<noteq> VNone \<and> num_less (q_maximum q) v then [viol i f CMaximum] else []) @
          (case q_accepted q of None \<Rightarrow> [] | Some vs \<Rightarrow> if list_ex (py_eq v) vs then [] else [viol i f CAccepted]) @
          (case map_of dups (f_name f) of None \<Rightarrow> [] | Some idx \<Rightarrow> if i \<in> set idx then [viol i f CUnique] else []))"
  proof -
    let ?dup = "case map_of dups (f_name f) of None \<Rightarrow> [] | Some idx \<Rightarrow> if i \<in> set idx then [viol i f CUnique] else []"
    let ?acc = "case q_accepted q of None \<Rightarrow> [] | Some vs \<Rightarrow> if list_ex (py_eq v) vs then [] else [viol i f CAccepted]"
    obtain here ages where here: "(if v = VNone then Inr (if q_nullable q then [] else [viol i f CNullable])
        else bind_result (bound_violations i f q v) (\<lambda>bounds. Inr (bounds @ ?acc @ ?dup))) = Inr here"
      and ages: "age_violations i f q reference ts = Inr ages" and vs: "vs = here @ ages"
      using assms unfolding feature_violations_def Some v_def
      by (auto simp only: option.case Let_def bind_result_eq_Inr)
    have "ages = (if age then [viol i f CMaxAge] else [])"
      using age_violations_Inr [OF ages] by (simp only: age_def)
    with vs have vs': "vs = here @ (if age then [viol i f CMaxAge] else [])" by simp
    show thesis
    proof (cases "v = VNone")
      case True
      with here have "here = (if q_nullable q then [] else [viol i f CNullable])" by simp
      with vs' True show thesis by (intro that) simp_all
    next
      case False
      with here obtain bounds where "bound_violations i f q v = Inr bounds" and "here = bounds @ ?acc @ ?dup"
        by (simp only: if_False bind_result_eq_Inr sum.inject) blast
      with vs' False bound_violations_Inr show thesis by (intro that) simp_all
    qed
  qed
  have "x \<in> set here \<longleftrightarrow> (\<exists>c. x = viol i f c \<and> value_breaks dups i row (f_name f) q c)"
    unfolding ex_constraint here value_breaks_def Let_def v_def [symmetric] constraint.case
    by (cases "q_accepted q"; cases "map_of dups (f_name f)"; cases "v = VNone") auto
  then show ?thesis using Some vs by (auto simp: age_def)
qed

lemma row_violations_Inr:
  "row_violations dups reference i row ts fs = Inr vs \<Longrightarrow>
     x \<in> set vs \<longleftrightarrow> (\<exists>f \<in> set fs. \<exists>here. feature_violations dups reference i row ts f = Inr here \<and> x \<in> set here)"
  by (induction fs arbitrary: vs) (auto simp: bind_result_eq_Inr)

lemma row_violations_ok:
  "row_violations dups reference i row ts fs = Inr vs \<Longrightarrow> f \<in> set fs \<Longrightarrow>
     \<exists>here. feature_violations dups reference i row ts f = Inr here"
  by (induction fs arbitrary: vs) (auto simp: bind_result_eq_Inr)

lemma table_violations_Inr:
  "table_violations dups reference fs k rows tss = Inr vs \<Longrightarrow>
     length tss = length rows \<and>
     (x \<in> set vs \<longleftrightarrow> (\<exists>i < length rows. \<exists>here.
        row_violations dups reference (k + i) (rows ! i) (tss ! i) fs = Inr here \<and> x \<in> set here)) \<and>
     (\<forall>i < length rows. \<exists>here. row_violations dups reference (k + i) (rows ! i) (tss ! i) fs = Inr here)"
proof (induction dups reference fs k rows tss arbitrary: vs rule: table_violations.induct)
  case (2 dups reference fs k row rows ts tss)
  then obtain here rest where here: "row_violations dups reference k row ts fs = Inr here"
    and rest: "table_violations dups reference fs (Suc k) rows tss = Inr rest" and vs: "vs = here @ rest"
    by (auto simp: bind_result_eq_Inr)
  note ih = "2.IH" [OF rest]
  show ?case
    using here ih vs by (auto simp: less_Suc_eq_0_disj)
qed auto

lemma validate_quality_rows_violations:
  assumes ok: "validate_quality_rows env rows fs tss reference_time check_unique = Inr q"
    and names: "distinct (map f_name fs)"
  shows "x \<in> set (qv_violations q) \<longleftrightarrow>
    (\<exists>i < length rows. \<exists>f \<in> set fs. \<exists>ql c. f_quality f = Some ql \<and> x = viol i f c \<and>
       breaks env rows check_unique (instant reference_time) i (tss ! i) (f_name f) ql c)"
proof -
  define dups where "dups = (if check_unique then duplicate_rows env fs rows else [])"
  let ?ref = "instant reference_time"
  from ok obtain vs where vs: "table_violations dups ?ref fs 0 rows tss = Inr vs"
    and q: "qv_violations q = sort_key (violation_key fs) vs"
    by (auto simp: validate_quality_rows_def dups_def Let_def bind_result_eq_Inr)
  have uniq: "(case map_of dups (f_name f) of None \<Rightarrow> False | Some idx \<Rightarrow> i \<in> set idx) \<longleftrightarrow>
      check_unique \<and> q_unique ql \<and> dict_get (rows ! i) (f_name f) \<noteq> VNone \<and>
      (\<exists>j < length rows. j \<noteq> i \<and> key_of env (f_name f) (rows ! j) = key_of env (f_name f) (rows ! i))"
    if "f \<in> set fs" "f_quality f = Some ql" "i < length rows" for f ql i
  proof -
    have "unique_named fs (f_name f) \<longleftrightarrow> q_unique ql"
      using that(1,2) names by (auto simp: unique_named_def distinct_map inj_on_def split: option.splits)
    then show ?thesis
      using duplicate_indexes_iff [OF that(3)] by (auto simp: dups_def map_of_duplicate_rows)
  qed
  have same: "value_breaks dups i (rows ! i) (f_name f) ql c \<or>
      c = CMaxAge \<and> (case q_max_age ql of None \<Rightarrow> False | Some age \<Rightarrow> instant (tss ! i) < ?ref - seconds age)
      \<longleftrightarrow> breaks env rows check_unique ?ref i (tss ! i) (f_name f) ql c"
    if "f \<in> set fs" "f_quality f = Some ql" "i < length rows" for f ql i c
    using uniq [OF that] by (cases c) (auto simp: value_breaks_def breaks_def Let_def)
  have "x \<in> set vs \<longleftrightarrow> (\<exists>i < length rows. \<exists>f \<in> set fs. \<exists>here.
      feature_violations dups ?ref i (rows ! i) (tss ! i) f = Inr here \<and> x \<in> set here)"
    using table_violations_Inr [OF vs, of x] row_violations_Inr by fastforce
  also have "\<dots> \<longleftrightarrow> (\<exists>i < length rows. \<exists>f \<in> set fs. \<exists>ql c. f_quality f = Some ql \<and> x = viol i f c \<and>
       breaks env rows check_unique ?ref i (tss ! i) (f_name f) ql c)"
  proof -
    have ex: "\<exists>here. feature_violations dups ?ref i (rows ! i) (tss ! i) f = Inr here"
      if "i < length rows" "f \<in> set fs" for i f
      using table_violations_Inr [OF vs, of x] row_violations_ok that by fastforce
    have one: "(\<exists>here. feature_violations dups ?ref i (rows ! i) (tss ! i) f = Inr here \<and> x \<in> set here) \<longleftrightarrow>
        (\<exists>ql c. f_quality f = Some ql \<and> x = viol i f c \<and>
          breaks env rows check_unique ?ref i (tss ! i) (f_name f) ql c)"
      if i: "i < length rows" and f: "f \<in> set fs" for i f
    proof -
      obtain here where here: "feature_violations dups ?ref i (rows ! i) (tss ! i) f = Inr here"
        using ex [OF i f] by blast
      show ?thesis
        using feature_violations_Inr [OF here, of x] same [OF f _ i] here by auto
    qed
    show ?thesis using one by blast
  qed
  finally show ?thesis by (simp add: q)
qed

subsection \<open>Totality, partition and counts\<close>










text \<open>
  C7. The reported violations are exactly the broken clauses of the contracts: row by row, feature
  by feature and constraint by constraint, nothing is missed and nothing is invented.
\<close>

theorem quality_violations_exact:
  assumes "validate_quality_rows env rows fs tss reference_time check_unique = Inr q"
    and "distinct (map f_name fs)"
  shows "set (qv_violations q) =
    {viol i f c | i f c ql. i < length rows \<and> f \<in> set fs \<and> f_quality f = Some ql \<and>
       breaks env rows check_unique (instant reference_time) i (tss ! i) (f_name f) ql c}"
  using validate_quality_rows_violations [OF assms] by blast

lemma validate_quality_rows_count:
  "validate_quality_rows env rows fs tss reference_time check_unique = Inr q \<Longrightarrow> qv_rows q = length rows"
  by (auto simp: validate_quality_rows_def Let_def bind_result_eq_Inr)

lemma count_filter_insert:
  "c \<notin> A \<Longrightarrow> length (filter (\<lambda>x. x = c \<or> x \<in> A) xs) = count_list xs c + length (filter (\<lambda>x. x \<in> A) xs)"
  by (induction xs) auto

lemma sum_list_counts:
  "distinct cs \<Longrightarrow> sum_list (map (count_list xs) cs) = length (filter (\<lambda>x. x \<in> set cs) xs)"
  by (induction cs) (simp_all add: count_filter_insert)

lemma constraint_listed: "c \<in> set all_constraints"
  by (cases c) (simp_all add: all_constraints_def)

text \<open>
  The row indexes split: valid and invalid indexes are increasing, disjoint and together all the
  rows; a row is invalid exactly when it breaks some clause; and the counts per constraint add up
  to the number of violations.
\<close>

theorem quality_indexes_partition:
  assumes "validate_quality_rows env rows fs tss reference_time check_unique = Inr q"
    and "distinct (map f_name fs)"
  shows "set (valid_row_indexes q) \<union> set (invalid_row_indexes q) = {..<length rows} \<and>
    set (valid_row_indexes q) \<inter> set (invalid_row_indexes q) = {} \<and>
    sorted_wrt (<) (valid_row_indexes q) \<and> sorted_wrt (<) (invalid_row_indexes q) \<and>
    (i \<in> set (invalid_row_indexes q) \<longleftrightarrow> (\<exists>f \<in> set fs. \<exists>ql c. i < length rows \<and> f_quality f = Some ql \<and>
       breaks env rows check_unique (instant reference_time) i (tss ! i) (f_name f) ql c)) \<and>
    sum_list (map snd (counts_by_constraint q)) = length (qv_violations q)"
proof -
  note v = validate_quality_rows_violations [OF assms]
  have inv: "set (invalid_row_indexes q) = vi_row ` set (qv_violations q)"
    by (simp add: invalid_row_indexes_def)
  have sub: "set (invalid_row_indexes q) \<subseteq> {..<length rows}"
    unfolding inv by (auto simp: v viol_def)
  have valid: "set (valid_row_indexes q) = {..<length rows} - set (invalid_row_indexes q)"
    using validate_quality_rows_count [OF assms(1)] by (auto simp: valid_row_indexes_def Let_def)
  have "i \<in> set (invalid_row_indexes q) \<longleftrightarrow> (\<exists>f \<in> set fs. \<exists>ql c. i < length rows \<and> f_quality f = Some ql \<and>
       breaks env rows check_unique (instant reference_time) i (tss ! i) (f_name f) ql c)"
  proof -
    have "i \<in> set (invalid_row_indexes q) \<longleftrightarrow> (\<exists>x. x \<in> set (qv_violations q) \<and> vi_row x = i)"
      unfolding inv by auto
    then show ?thesis unfolding v by (force simp: viol_def)
  qed
  moreover have "sorted_wrt (<) (valid_row_indexes q)"
    by (simp add: valid_row_indexes_def Let_def strict_sorted_iff sorted_wrt_filter)
  moreover have "sorted_wrt (<) (invalid_row_indexes q)"
    by (simp add: invalid_row_indexes_def strict_sorted_iff)
  moreover have "sum_list (map snd (counts_by_constraint q)) = length (qv_violations q)"
  proof -
    let ?cs = "map vi_constraint (qv_violations q)"
    have "sum_list (map snd (counts_by_constraint q))
        = sum_list (map (count_list ?cs) (filter (\<lambda>c. count_list ?cs c \<noteq> 0) all_constraints))"
      by (simp add: counts_by_constraint_def Let_def o_def)
    also have "\<dots> = sum_list (map (count_list ?cs) all_constraints)"
      by (simp add: all_constraints_def)
    also have "\<dots> = length (filter (\<lambda>c. c \<in> set all_constraints) ?cs)"
      by (rule sum_list_counts) (simp add: all_constraints_def)
    finally show ?thesis by (simp add: constraint_listed)
  qed
  ultimately show ?thesis using sub valid by blast
qed


subsection \<open>A concrete batch\<close>

definition sample_feature :: feature where
  "sample_feature = \<lparr>f_name = ''age'', f_dtype = TInt64, f_description = [],
     f_quality = Some \<lparr>q_nullable = False, q_minimum = VInt 0, q_maximum = VNone, q_accepted = None,
       q_unique = False, q_max_age = None\<rparr>\<rparr>"

definition sample_rows :: "row list" where
  "sample_rows = [[(''age'', VInt 5)], [(''age'', VInt (-1))], []]"

definition sample_times :: "datetime list" where
  "sample_times = [Aware 0 0, Aware 1 0, Aware 2 0]"

lemma sample_quality:
  "validate_quality_rows demo_env sample_rows [sample_feature] sample_times (Aware 3 0) True =
     Inr \<lparr>qv_rows = 3, qv_violations = [viol 1 sample_feature CMinimum, viol 2 sample_feature CNullable]\<rparr>"
  by (simp add: validate_quality_rows_def sample_rows_def sample_feature_def sample_times_def duplicate_rows_def
      feature_violations_def dict_get_def bound_violations_def py_less_def viol_def age_violations_def
      violation_key_def)


lemma quality_violations_exact_witness:
  "{viol 1 sample_feature CMinimum, viol 2 sample_feature CNullable} =
    {viol i f c | i f c ql. i < length sample_rows \<and> f \<in> {sample_feature} \<and> f_quality f = Some ql \<and>
       breaks demo_env sample_rows True (instant (Aware 3 0)) i (sample_times ! i) (f_name f) ql c}"
  using quality_violations_exact [OF sample_quality] by simp

lemma quality_indexes_partition_witness:
  "\<exists>q. validate_quality_rows demo_env sample_rows [sample_feature] sample_times (Aware 3 0) True = Inr q \<and>
     set (valid_row_indexes q) \<union> set (invalid_row_indexes q) = {..<3} \<and>
     sum_list (map snd (counts_by_constraint q)) = 2"
  using quality_indexes_partition [OF sample_quality] sample_quality by (auto simp: sample_rows_def)

end
