(* ===== verification/RegistryStore.thy ===== *)
theory RegistryStore
  imports Models "HOL-Library.AList"
begin

section \<open>The registry tables and the reads of \<open>Registry\<close>\<close>

text \<open>
  The two tables of the registry (\<open>RegistryRecord\<close> and \<open>RegistryLifecycleRecord\<close> of
  \<open>db.py\<close>), the lookups of \<open>registry.py\<close> (\<open>_get\<close>, \<open>_record_for_target\<close>,
  \<open>_lifecycle\<close>), the object accessors, \<open>resolve_features\<close>, the descriptors and the
  deprecation warnings. The stored \<open>spec\<close> column is kept as the typed object it was dumped
  from (\<open>object_spec\<close>); \<open>spec_json\<close> is its JSON dump, which is what is hashed, compared
  and returned. Row ids, random in the code, are drawn from a counter.
\<close>

subsection \<open>Rows\<close>

datatype object_spec =
    SEntity entity
  | SBatch batch_source
  | SStream stream_source
  | SView feature_view
  | SService feature_service

fun spec_json :: "object_spec \<Rightarrow> pyval" where
  "spec_json (SEntity e) = entity_spec e"
| "spec_json (SBatch b) = batch_source_spec b"
| "spec_json (SStream s) = stream_source_spec s"
| "spec_json (SView v) = view_spec v"
| "spec_json (SService s) = service_spec s"

fun spec_kind :: "object_spec \<Rightarrow> object_kind" where
  "spec_kind (SEntity e) = KEntity"
| "spec_kind (SBatch b) = KBatchSource"
| "spec_kind (SStream s) = KStreamSource"
| "spec_kind (SView v) = KFeatureView"
| "spec_kind (SService s) = KFeatureService"

fun spec_name :: "object_spec \<Rightarrow> string" where
  "spec_name (SEntity e) = e_name e"
| "spec_name (SBatch b) = bs_name b"
| "spec_name (SStream s) = ss_name s"
| "spec_name (SView v) = v_name v"
| "spec_name (SService s) = s_name s"

fun spec_version :: "object_spec \<Rightarrow> string" where
  "spec_version (SView v) = v_version v"
| "spec_version _ = []"

record registry_record =
  r_id :: nat
  r_kind :: object_kind
  r_name :: string
  r_version :: string
  r_fingerprint :: string
  r_spec :: object_spec
  r_created :: datetime

datatype lifecycle_status = Active | Deprecated

record lifecycle =
  l_record :: nat
  l_feature :: "string option"
  l_owners :: "string list"
  l_tags :: "(string \<times> string) list"
  l_links :: "string list"
  l_status :: lifecycle_status
  l_deprecated_at :: "datetime option"
  l_message :: "string option"
  l_replacement :: "target option"
  l_updated :: datetime

record registry =
  reg_rows :: "registry_record list"
  reg_lives :: "lifecycle list"
  reg_next :: nat

type_synonym obj_key = "object_kind \<times> string \<times> string"
type_synonym life_key = "nat \<times> string option"

definition record_key :: "registry_record \<Rightarrow> obj_key" where
  "record_key r = (r_kind r, r_name r, r_version r)"

definition life_key :: "lifecycle \<Rightarrow> life_key" where
  "life_key l = (l_record l, l_feature l)"

definition empty_registry :: registry where
  "empty_registry = \<lparr>reg_rows = [], reg_lives = [], reg_next = 0\<rparr>"

subsection \<open>Lookups\<close>

definition find_record :: "registry \<Rightarrow> obj_key \<Rightarrow> registry_record option" where
  "find_record reg k = find (\<lambda>r. record_key r = k) (reg_rows reg)"

definition add_record :: "registry_record \<Rightarrow> registry \<Rightarrow> registry" where
  "add_record r reg = reg\<lparr>reg_rows := reg_rows reg @ [r]\<rparr>"

definition find_life :: "registry \<Rightarrow> life_key \<Rightarrow> lifecycle option" where
  "find_life reg k = find (\<lambda>l. life_key l = k) (reg_lives reg)"

definition add_life :: "lifecycle \<Rightarrow> registry \<Rightarrow> registry" where
  "add_life l reg = reg\<lparr>reg_lives := reg_lives reg @ [l]\<rparr>"

text \<open>\<open>_get\<close>.\<close>

definition get_record :: "registry \<Rightarrow> object_kind \<Rightarrow> string \<Rightarrow> string \<Rightarrow> registry_record result" where
  "get_record reg k name ver =
     (case find_record reg (k, name, ver) of
        Some r \<Rightarrow> Inr r
      | None \<Rightarrow> Inl (RegistryNotFoundError
          (''unknown '' @ kind_str k @ '': '' @ name @ (if ver = [] then [] else CHR ''@'' # ver))))"

text \<open>
  \<open>FeatureView.model_validate(record.spec)\<close> and its siblings: reading a row as another kind of
  object fails validation.
\<close>

definition as_view :: "object_spec \<Rightarrow> feature_view result" where
  "as_view s = (case s of SView v \<Rightarrow> Inr v | _ \<Rightarrow> Inl (ValidationError ''FeatureView''))"

definition as_entity :: "object_spec \<Rightarrow> entity result" where
  "as_entity s = (case s of SEntity e \<Rightarrow> Inr e | _ \<Rightarrow> Inl (ValidationError ''Entity''))"

definition as_batch :: "object_spec \<Rightarrow> batch_source result" where
  "as_batch s = (case s of SBatch b \<Rightarrow> Inr b | _ \<Rightarrow> Inl (ValidationError ''BatchSource''))"

definition as_stream :: "object_spec \<Rightarrow> stream_source result" where
  "as_stream s = (case s of SStream b \<Rightarrow> Inr b | _ \<Rightarrow> Inl (ValidationError ''StreamSource''))"

definition as_service :: "object_spec \<Rightarrow> feature_service result" where
  "as_service s = (case s of SService b \<Rightarrow> Inr b | _ \<Rightarrow> Inl (ValidationError ''FeatureService''))"

text \<open>\<open>_record_for_target\<close>; \<open>target.version or ""\<close> reads a missing version as the empty one.\<close>

definition version_text :: "string option \<Rightarrow> string" where
  "version_text v = (case v of None \<Rightarrow> [] | Some s \<Rightarrow> s)"

definition version_opt :: "string \<Rightarrow> string option" where
  "version_opt s = (if s = [] then None else Some s)"

definition record_for_target :: "registry \<Rightarrow> target \<Rightarrow> registry_record result" where
  "record_for_target reg t =
     bind_result (get_record reg (t_kind t) (t_name t) (version_text (t_version t))) (\<lambda>r.
     (case t_feature t of
        None \<Rightarrow> Inr r
      | Some f \<Rightarrow> bind_result (as_view (r_spec r)) (\<lambda>v.
          if f \<in> set (feature_names v) then Inr r
          else Inl (RegistryNotFoundError (''unknown feature: '' @ target_ref t)))))"

text \<open>\<open>_lifecycle\<close>.\<close>

definition record_life :: "registry \<Rightarrow> registry_record \<Rightarrow> string option \<Rightarrow> lifecycle option" where
  "record_life reg r f = find_life reg (r_id r, f)"

text \<open>\<open>_target_for_record\<close>.\<close>

definition target_for_record :: "registry_record \<Rightarrow> string option \<Rightarrow> target result" where
  "target_for_record r f = mk_target (r_kind r) (r_name r) (version_opt (r_version r)) f"

text \<open>\<open>_target_for_lifecycle\<close>.\<close>

definition target_for_life :: "registry \<Rightarrow> lifecycle \<Rightarrow> target result" where
  "target_for_life reg l =
     (case find (\<lambda>r. r_id r = l_record l) (reg_rows reg) of
        None \<Rightarrow> Inl (RegistryNotFoundError ''lifecycle metadata has no registry record'')
      | Some r \<Rightarrow> target_for_record r (l_feature l))"

subsection \<open>Named objects\<close>

text \<open>\<open>parse_view_ref\<close> and \<open>ref.rsplit(":", 1)\<close>.\<close>

definition parse_view_ref :: "string \<Rightarrow> (string \<times> string) result" where
  "parse_view_ref ref =
     (case split_once (CHR ''@'') ref of
        Some p \<Rightarrow> Inr p
      | None \<Rightarrow> Inl (ValueError ''feature view reference must be name@x.y.z''))"

definition split_feature_ref :: "string \<Rightarrow> (string \<times> string) result" where
  "split_feature_ref ref =
     (case rsplit_once (CHR '':'') ref of
        Some p \<Rightarrow> Inr p
      | None \<Rightarrow> Inl (ValueError ''not enough values to unpack (expected 2, got 1)''))"

definition entity_of :: "registry \<Rightarrow> string \<Rightarrow> entity result" where
  "entity_of reg name = bind_result (get_record reg KEntity name []) (\<lambda>r. as_entity (r_spec r))"

definition batch_source_of :: "registry \<Rightarrow> string \<Rightarrow> batch_source result" where
  "batch_source_of reg name = bind_result (get_record reg KBatchSource name []) (\<lambda>r. as_batch (r_spec r))"

definition stream_source_of :: "registry \<Rightarrow> string \<Rightarrow> stream_source result" where
  "stream_source_of reg name = bind_result (get_record reg KStreamSource name []) (\<lambda>r. as_stream (r_spec r))"

definition feature_view_of :: "registry \<Rightarrow> string \<Rightarrow> feature_view result" where
  "feature_view_of reg ref =
     bind_result (parse_view_ref ref) (\<lambda>(name, ver).
     bind_result (get_record reg KFeatureView name ver) (\<lambda>r. as_view (r_spec r)))"

definition feature_service_of :: "registry \<Rightarrow> string \<Rightarrow> feature_service result" where
  "feature_service_of reg name =
     bind_result (get_record reg KFeatureService name []) (\<lambda>r. as_service (r_spec r))"

subsection \<open>Resolving a query\<close>

definition output_name :: "feature_view \<Rightarrow> string \<Rightarrow> string" where
  "output_name v f = v_name v @ ''__'' @ f"

text \<open>One iteration of the loop of \<open>resolve_features\<close>, and the loop with its set of outputs.\<close>

definition resolve_ref :: "registry \<Rightarrow> string \<Rightarrow> (feature_view \<times> string) result" where
  "resolve_ref reg ref =
     bind_result (split_feature_ref ref) (\<lambda>(view_ref, fname).
     bind_result (feature_view_of reg view_ref) (\<lambda>v.
       if fname \<in> set (feature_names v) then Inr (v, fname)
       else Inl (RegistryNotFoundError (''unknown feature: '' @ ref))))"

fun resolve_loop :: "registry \<Rightarrow> string list \<Rightarrow> string set \<Rightarrow> unit result" where
  "resolve_loop reg [] outs = Inr ()"
| "resolve_loop reg (ref # refs) outs =
     bind_result (resolve_ref reg ref) (\<lambda>(v, fname).
       let out = output_name v fname
       in if out \<in> outs
          then Inl (ValueError (''ambiguous output '' @ out @
            ''; query duplicate or multi-version features separately''))
          else resolve_loop reg refs (insert out outs))"

definition requested_refs :: "registry \<Rightarrow> string list \<Rightarrow> string option \<Rightarrow> string list result" where
  "requested_refs reg features service =
     (case service of
        None \<Rightarrow> Inr features
      | Some name \<Rightarrow> if name = [] then Inr features
          else bind_result (feature_service_of reg name) (\<lambda>s. Inr (s_features s)))"

definition resolve_features :: "registry \<Rightarrow> string list \<Rightarrow> string option \<Rightarrow> string list result" where
  "resolve_features reg features service =
     bind_result (requested_refs reg features service) (\<lambda>refs.
       if refs = [] then Inl (RegistryNotFoundError ''no features requested'')
       else bind_result (resolve_loop reg refs {}) (\<lambda>_. Inr refs))"

subsection \<open>Metadata and descriptors\<close>

definition blank :: "string \<Rightarrow> bool" where
  "blank s \<longleftrightarrow> strip s = []"

definition owners_ok :: "string list \<Rightarrow> unit result" where
  "owners_ok owners =
     (if 100 < length owners \<or> list_ex (\<lambda>w. blank w \<or> 256 < length w) owners
      then Inl (ValueError ''owners must contain 100 or fewer non-empty strings'')
      else ensure (distinct owners) (ValueError ''owners must be unique''))"

definition tags_ok :: "(string \<times> string) list \<Rightarrow> unit result" where
  "tags_ok tags =
     ensure (\<not> (100 < length tags \<or>
               list_ex (\<lambda>(k, v). blank k \<or> 128 < length k \<or> 512 < length v) tags))
       (ValueError ''tags must contain 100 or fewer bounded string pairs'')"

definition link_ok :: "pyenv \<Rightarrow> string \<Rightarrow> bool" where
  "link_ok env link =
     (case env_urlparse env link of
        None \<Rightarrow> False
      | Some (scheme, netloc) \<Rightarrow>
          (scheme = ''http'' \<or> scheme = ''https'') \<and> netloc \<noteq> [] \<and> length link \<le> 2048)"

definition links_ok :: "pyenv \<Rightarrow> string list \<Rightarrow> unit result" where
  "links_ok env links =
     (if 100 < length links \<or> \<not> distinct links
      then Inl (ValueError ''documentation links must be unique and contain at most 100 URLs'')
      else ensure (list_all (link_ok env) links)
        (ValueError ''documentation links must be HTTP(S) URLs''))"

text \<open>\<open>_validate_metadata_values\<close>; an absent argument is not checked.\<close>

definition check_opt :: "('a \<Rightarrow> unit result) \<Rightarrow> 'a option \<Rightarrow> unit result" where
  "check_opt f x = (case x of None \<Rightarrow> Inr () | Some y \<Rightarrow> f y)"

definition validate_metadata_values ::
    "pyenv \<Rightarrow> string list option \<Rightarrow> (string \<times> string) list option \<Rightarrow> string list option \<Rightarrow> unit result" where
  "validate_metadata_values env owners tags links =
     bind_result (check_opt owners_ok owners) (\<lambda>_.
     bind_result (check_opt tags_ok tags) (\<lambda>_.
     check_opt (links_ok env) links))"

record metadata =
  md_owners :: "string list"
  md_tags :: "(string \<times> string) list"
  md_links :: "string list"

definition mk_metadata ::
    "pyenv \<Rightarrow> string list \<Rightarrow> (string \<times> string) list \<Rightarrow> string list \<Rightarrow> metadata result" where
  "mk_metadata env owners tags links =
     bind_result (validate_metadata_values env (Some owners) (Some tags) (Some links)) (\<lambda>_.
     Inr \<lparr>md_owners = owners, md_tags = tags, md_links = links\<rparr>)"

record descriptor =
  d_target :: target
  d_fingerprint :: string
  d_spec :: pyval
  d_created :: datetime
  d_metadata :: metadata
  d_status :: lifecycle_status
  d_deprecated_at :: "datetime option"
  d_message :: "string option"
  d_replacement :: "target option"
  d_updated :: "datetime option"

definition life_owners :: "lifecycle option \<Rightarrow> string list" where
  "life_owners l = (case l of None \<Rightarrow> [] | Some x \<Rightarrow> l_owners x)"

definition life_tags :: "lifecycle option \<Rightarrow> (string \<times> string) list" where
  "life_tags l = (case l of None \<Rightarrow> [] | Some x \<Rightarrow> l_tags x)"

definition life_links :: "lifecycle option \<Rightarrow> string list" where
  "life_links l = (case l of None \<Rightarrow> [] | Some x \<Rightarrow> l_links x)"

definition life_status :: "lifecycle option \<Rightarrow> lifecycle_status" where
  "life_status l = (case l of None \<Rightarrow> Active | Some x \<Rightarrow> l_status x)"

text \<open>The \<open>spec\<close> of a descriptor: a feature target shows the feature, not its view.\<close>

definition descriptor_spec :: "target \<Rightarrow> registry_record \<Rightarrow> pyval result" where
  "descriptor_spec t r =
     (case t_feature t of
        None \<Rightarrow> Inr (spec_json (r_spec r))
      | Some f \<Rightarrow> bind_result (as_view (r_spec r)) (\<lambda>v.
          case find (\<lambda>x. f_name x = f) (v_features v) of
            Some x \<Rightarrow> Inr (feature_spec x)
          | None \<Rightarrow> Inl (RuntimeError ''StopIteration'')))"

text \<open>\<open>_descriptor\<close>.\<close>

definition describe_record :: "pyenv \<Rightarrow> registry \<Rightarrow> target \<Rightarrow> registry_record \<Rightarrow> descriptor result" where
  "describe_record env reg t r =
     (let l = record_life reg r (t_feature t) in
      bind_result (descriptor_spec t r) (\<lambda>sp.
      bind_result (mk_metadata env (life_owners l) (life_tags l) (life_links l)) (\<lambda>md.
      Inr \<lparr>d_target = t, d_fingerprint = r_fingerprint r, d_spec = sp,
           d_created = as_utc (r_created r), d_metadata = md, d_status = life_status l,
           d_deprecated_at = map_option as_utc (Option.bind l l_deprecated_at),
           d_message = Option.bind l l_message,
           d_replacement = Option.bind l l_replacement,
           d_updated = map_option (\<lambda>x. as_utc (l_updated x)) l\<rparr>)))"

definition describe :: "pyenv \<Rightarrow> registry \<Rightarrow> target \<Rightarrow> descriptor result" where
  "describe env reg t =
     bind_result (record_for_target reg t) (\<lambda>r. describe_record env reg t r)"

text \<open>\<open>list_records\<close>: ordered by kind, name and version.\<close>

record listing =
  ls_record :: registry_record
  ls_version :: "string option"
  ls_descriptor :: descriptor

definition list_records :: "pyenv \<Rightarrow> registry \<Rightarrow> object_kind option \<Rightarrow> listing list result" where
  "list_records env reg k =
     traverse (\<lambda>r.
       bind_result (target_for_record r None) (\<lambda>t.
       bind_result (describe_record env reg t r) (\<lambda>d.
       Inr \<lparr>ls_record = r, ls_version = version_opt (r_version r), ls_descriptor = d\<rparr>)))
     (sort_key (\<lambda>r. (kind_str (r_kind r), r_name r, r_version r))
       (filter (\<lambda>r. case k of None \<Rightarrow> True | Some k \<Rightarrow> r_kind r = k) (reg_rows reg)))"

subsection \<open>Deprecation warnings\<close>

record warning =
  w_target :: target
  w_message :: string
  w_deprecated_at :: datetime
  w_replacement :: "target option"
  w_inherited :: "target option"

type_synonym warning_key = "string \<times> string \<times> string \<times> string \<times> string"

definition warning_key :: "warning \<Rightarrow> warning_key" where
  "warning_key w =
     (kind_str (t_kind (w_target w)), t_name (w_target w), version_text (t_version (w_target w)),
      version_text (t_feature (w_target w)),
      (case w_inherited w of None \<Rightarrow> [] | Some t \<Rightarrow> target_ref t))"

text \<open>\<open>_warning\<close>: \<open>or\<close> also replaces an empty message by the default one.\<close>

definition mk_warning :: "target \<Rightarrow> lifecycle \<Rightarrow> target option \<Rightarrow> warning" where
  "mk_warning t l inherited =
     (let source = (case inherited of None \<Rightarrow> t | Some p \<Rightarrow> p);
          default = ''registry target is deprecated: '' @ target_ref source
      in \<lparr>w_target = t,
          w_message = (case l_message l of None \<Rightarrow> default | Some m \<Rightarrow> if m = [] then default else m),
          w_deprecated_at = as_utc (case l_deprecated_at l of None \<Rightarrow> l_updated l | Some d \<Rightarrow> d),
          w_replacement = l_replacement l, w_inherited = inherited\<rparr>)"

definition parent_target :: "target \<Rightarrow> target" where
  "parent_target t = t\<lparr>t_feature := None\<rparr>"

definition is_deprecated :: "lifecycle option \<Rightarrow> bool" where
  "is_deprecated l = (case l of None \<Rightarrow> False | Some x \<Rightarrow> l_status x = Deprecated)"

text \<open>The warnings one target contributes, in the order the code records them.\<close>

definition target_warnings :: "registry \<Rightarrow> target \<Rightarrow> registry_record \<Rightarrow> warning list" where
  "target_warnings reg t r =
     (let direct = record_life reg r (t_feature t); parent = record_life reg r None in
      (case direct of None \<Rightarrow> []
       | Some l \<Rightarrow> if l_status l = Deprecated then [mk_warning t l None] else [])
      @ (if t_feature t = None then []
         else (case parent of None \<Rightarrow> []
               | Some l \<Rightarrow> if l_status l = Deprecated
                   then [mk_warning t l (Some (parent_target t))] else [])))"

definition put_warning :: "warning \<Rightarrow> (warning_key \<times> warning) list \<Rightarrow> (warning_key \<times> warning) list" where
  "put_warning w d = dict_set d (warning_key w) w"

text \<open>\<open>warnings_for_targets\<close>: an unknown target is skipped, any other error propagates.\<close>

fun collect_warnings ::
    "registry \<Rightarrow> target list \<Rightarrow> (warning_key \<times> warning) list \<Rightarrow> (warning_key \<times> warning) list result" where
  "collect_warnings reg [] d = Inr d"
| "collect_warnings reg (t # ts) d =
     (case record_for_target reg t of
        Inl (RegistryNotFoundError m) \<Rightarrow> collect_warnings reg ts d
      | Inl e \<Rightarrow> Inl e
      | Inr r \<Rightarrow> collect_warnings reg ts (fold put_warning (target_warnings reg t r) d))"

definition warnings_for_targets :: "registry \<Rightarrow> target list \<Rightarrow> warning list result" where
  "warnings_for_targets reg ts =
     bind_result (collect_warnings reg ts []) (\<lambda>d. Inr (sort_key warning_key (map snd d)))"

text \<open>The targets one view's use touches, and \<open>warnings_for_query\<close>.\<close>

definition source_targets :: "feature_view \<Rightarrow> target list result" where
  "source_targets v =
     bind_result (mk_target KEntity (v_entity v) None None) (\<lambda>te.
     bind_result (mk_target KBatchSource (v_batch_source v) None None) (\<lambda>tb.
     Inr [te, tb]))"

definition stream_targets :: "feature_view \<Rightarrow> target list result" where
  "stream_targets v =
     (case v_stream_source v of
        None \<Rightarrow> Inr []
      | Some s \<Rightarrow> if s = [] then Inr []
          else bind_result (mk_target KStreamSource s None None) (\<lambda>t. Inr [t]))"

definition query_targets :: "registry \<Rightarrow> string \<Rightarrow> target list result" where
  "query_targets reg ref =
     bind_result (split_feature_ref ref) (\<lambda>(view_ref, fname).
     bind_result (parse_view_ref view_ref) (\<lambda>(name, ver).
     bind_result (feature_view_of reg view_ref) (\<lambda>v.
     bind_result (mk_target KFeatureView name (Some ver) (Some fname)) (\<lambda>tf.
     bind_result (mk_target KFeatureView name (Some ver) None) (\<lambda>tv.
     bind_result (source_targets v) (\<lambda>ts.
     bind_result (stream_targets v) (\<lambda>ss. Inr (tf # tv # ts @ ss))))))))"

definition warnings_for_query :: "registry \<Rightarrow> string list \<Rightarrow> string option \<Rightarrow> warning list result" where
  "warnings_for_query reg features service =
     bind_result
       (case service of
          None \<Rightarrow> Inr []
        | Some name \<Rightarrow> if name = [] then Inr []
            else bind_result (mk_target KFeatureService name None None) (\<lambda>t. Inr [t])) (\<lambda>ts0.
     bind_result (requested_refs reg features service) (\<lambda>refs.
     bind_result (traverse (query_targets reg) refs) (\<lambda>tss.
     warnings_for_targets reg (ts0 @ concat tss))))"

subsection \<open>The tables as keyed tables\<close>

interpretation records: keyed_table record_key reg_rows find_record add_record
  by unfold_locales (simp_all add: find_record_def add_record_def)

interpretation lives: keyed_table life_key reg_lives find_life add_life
  by unfold_locales (simp_all add: find_life_def add_life_def)

lemma add_record_simps [simp]:
  "reg_lives (add_record r reg) = reg_lives reg" "reg_next (add_record r reg) = reg_next reg"
  by (simp_all add: add_record_def)

lemma add_life_simps [simp]:
  "reg_rows (add_life l reg) = reg_rows reg" "reg_next (add_life l reg) = reg_next reg"
  by (simp_all add: add_life_def)

lemma get_record_Inr:
  "get_record reg k name ver = Inr r \<longleftrightarrow> find_record reg (k, name, ver) = Some r"
  by (auto simp: get_record_def split: option.splits)

lemma get_record_Inl:
  "get_record reg k name ver = Inl e \<Longrightarrow> \<exists>m. e = RegistryNotFoundError m"
  by (auto simp: get_record_def split: option.splits)

lemma as_view_Inr [simp]: "as_view s = Inr v \<longleftrightarrow> s = SView v"
  by (auto simp: as_view_def split: object_spec.splits)

lemma record_for_target_Inr:
  "record_for_target reg t = Inr r \<longleftrightarrow>
     find_record reg (t_kind t, t_name t, version_text (t_version t)) = Some r \<and>
     (\<forall>f. t_feature t = Some f \<longrightarrow> (\<exists>v. r_spec r = SView v \<and> f \<in> set (feature_names v)))"
proof (cases "get_record reg (t_kind t) (t_name t) (version_text (t_version t))")
  case (Inl e)
  then have "find_record reg (t_kind t, t_name t, version_text (t_version t)) \<noteq> Some r"
    by (metis get_record_Inr sum.distinct(1))
  with Inl show ?thesis by (simp add: record_for_target_def)
next
  case (Inr r')
  then have "find_record reg (t_kind t, t_name t, version_text (t_version t)) = Some r'"
    by (simp add: get_record_Inr)
  with Inr show ?thesis
    by (cases "r_spec r'") (auto simp: record_for_target_def as_view_def split: option.splits)
qed

lemma record_for_target_SomeD:
  "record_for_target reg t = Inr r \<Longrightarrow>
     r \<in> set (reg_rows reg) \<and> record_key r = (t_kind t, t_name t, version_text (t_version t))"
  by (auto simp: record_for_target_Inr dest: records.lookup_SomeD)

subsection \<open>What \<open>resolve_features\<close> accepts\<close>

lemma resolve_loop_Inr:
  "resolve_loop reg refs outs = Inr () \<longleftrightarrow>
     (\<exists>vs. traverse (resolve_ref reg) refs = Inr vs \<and>
        distinct (map (\<lambda>(v, f). output_name v f) vs) \<and>
        (\<lambda>(v, f). output_name v f) ` set vs \<inter> outs = {})"
proof (induction refs arbitrary: outs)
  case Nil
  show ?case by auto
next
  case (Cons ref refs)
  show ?case
    by (cases "resolve_ref reg ref"; cases "traverse (resolve_ref reg) refs")
      (auto simp: Cons.IH Let_def split: prod.splits)
qed

text \<open>
  The contract of a reference, free of parsing order: its last colon cuts off a feature, the rest
  is \<open>name@version\<close> of a stored view, and that view declares the feature.
\<close>

definition resolves :: "registry \<Rightarrow> string \<Rightarrow> feature_view \<Rightarrow> string \<Rightarrow> bool" where
  "resolves reg ref v f \<longleftrightarrow>
     (\<exists>name ver r. ref = name @ CHR ''@'' # ver @ CHR '':'' # f \<and> CHR ''@'' \<notin> set name \<and>
        CHR '':'' \<notin> set f \<and> find_record reg (KFeatureView, name, ver) = Some r \<and>
        r_spec r = SView v \<and> f \<in> set (feature_names v))"

lemma split_feature_ref_Inr:
  "split_feature_ref ref = Inr (a, f) \<longleftrightarrow> ref = a @ CHR '':'' # f \<and> CHR '':'' \<notin> set f"
proof -
  have "rsplit_once (CHR '':'') ref = Some (a, f) \<longleftrightarrow> ref = a @ CHR '':'' # f \<and> CHR '':'' \<notin> set f"
    by (rule rsplit_once_Some)
  then show ?thesis by (auto simp: split_feature_ref_def split: option.splits)
qed

lemma parse_view_ref_Inr:
  "parse_view_ref ref = Inr (n, ver) \<longleftrightarrow> ref = n @ CHR ''@'' # ver \<and> CHR ''@'' \<notin> set n"
proof -
  have "split_once (CHR ''@'') ref = Some (n, ver) \<longleftrightarrow> ref = n @ CHR ''@'' # ver \<and> CHR ''@'' \<notin> set n"
    by (rule split_once_Some)
  then show ?thesis by (auto simp: parse_view_ref_def split: option.splits)
qed

lemma feature_view_of_Inr:
  "feature_view_of reg ref = Inr v \<longleftrightarrow>
     (\<exists>n ver r. ref = n @ CHR ''@'' # ver \<and> CHR ''@'' \<notin> set n \<and>
        find_record reg (KFeatureView, n, ver) = Some r \<and> r_spec r = SView v)"
  by (fastforce simp: feature_view_of_def bind_result_eq_Inr parse_view_ref_Inr get_record_Inr)

lemma bind_pair_eq_Inr:
  "bind_result r (\<lambda>(a, b). f a b) = Inr y \<longleftrightarrow> (\<exists>a b. r = Inr (a, b) \<and> f a b = Inr y)"
  by (cases r) auto

lemma guard_eq_Inr: "(if b then Inr x else Inl e) = Inr y \<longleftrightarrow> b \<and> x = y"
  by simp

lemma resolve_ref_Inr: "resolve_ref reg ref = Inr (v, f) \<longleftrightarrow> resolves reg ref v f"
proof -
  have "resolve_ref reg ref = Inr (v, f) \<longleftrightarrow>
      (\<exists>a. split_feature_ref ref = Inr (a, f) \<and> feature_view_of reg a = Inr v \<and>
         f \<in> set (feature_names v))"
    unfolding resolve_ref_def bind_pair_eq_Inr by (auto simp: bind_result_eq_Inr split: if_splits)
  also have "\<dots> \<longleftrightarrow> resolves reg ref v f"
    unfolding split_feature_ref_Inr feature_view_of_Inr resolves_def by (rule iffI) (elim exE conjE, fastforce)+
  finally show ?thesis .
qed

text \<open>
  A query is resolved exactly when its list of references (the named service's, or the given
  one) is non-empty, every reference names a stored view that declares the feature, and no two
  references share an output column; the result is the list itself, in order.
\<close>

theorem resolve_features_iff:
  "resolve_features reg features service = Inr refs \<longleftrightarrow>
     requested_refs reg features service = Inr refs \<and> refs \<noteq> [] \<and>
     (\<exists>vs. list_all2 (\<lambda>ref (v, f). resolves reg ref v f) refs vs \<and>
        distinct (map (\<lambda>(v, f). output_name v f) vs))"
proof -
  have all2: "list_all2 (\<lambda>ref (v, f). resolves reg ref v f) refs vs \<longleftrightarrow>
      traverse (resolve_ref reg) refs = Inr vs" for vs
    unfolding traverse_Inr_iff by (simp add: case_prod_beta' flip: resolve_ref_Inr)
  show ?thesis
    by (auto simp: resolve_features_def bind_result_eq_Inr resolve_loop_Inr all2 split: if_splits)
qed

end
