(* ===== verification/RegistryPlan.thy ===== *)
theory RegistryPlan
  imports RegistryStore
begin

section \<open>Planning and applying a manifest\<close>

text \<open>
  \<open>_fingerprint\<close>, \<open>_json_pointer\<close>, \<open>_differences\<close>, \<open>Registry.plan\<close> and
  \<open>Registry.apply\<close> of \<open>registry.py\<close>. A plan walks the objects of the manifest in the
  order entities, sources, views, services and threads the names available so far; \<open>apply\<close>
  inserts the created objects in one transaction, guarded by the unique key of the table.
\<close>

subsection \<open>Fingerprints and structural differences\<close>

definition fingerprint :: "pyenv \<Rightarrow> pyval \<Rightarrow> string" where
  "fingerprint env sp = env_sha256 env (json_dumps env compact_opts sp)"

text \<open>\<open>_json_pointer\<close>: \<open>~\<close> becomes \<open>~0\<close>, then \<open>/\<close> becomes \<open>~1\<close>.\<close>

definition json_pointer :: "string \<Rightarrow> string \<Rightarrow> string" where
  "json_pointer path part =
     path @ CHR ''/'' # replace_char (CHR ''/'') ''~1'' (replace_char (CHR ''~'') ''~0'' part)"

datatype diff_op = Added | Removed | Changed

record difference =
  df_path :: string
  df_op :: diff_op
  df_existing :: pyval
  df_proposed :: pyval

definition added :: "string \<Rightarrow> pyval \<Rightarrow> difference" where
  "added p w = \<lparr>df_path = p, df_op = Added, df_existing = VNone, df_proposed = w\<rparr>"

definition removed :: "string \<Rightarrow> pyval \<Rightarrow> difference" where
  "removed p v = \<lparr>df_path = p, df_op = Removed, df_existing = v, df_proposed = VNone\<rparr>"

definition changed :: "string \<Rightarrow> pyval \<Rightarrow> pyval \<Rightarrow> difference" where
  "changed p v w =
     \<lparr>df_path = (if p = [] then ''/'' else p), df_op = Changed, df_existing = v, df_proposed = w\<rparr>"

definition sorted_keys :: "row \<Rightarrow> row \<Rightarrow> string list" where
  "sorted_keys d e = sort (remdups (map fst d @ map fst e))"

lemma size_map_of: "map_of d k = Some v \<Longrightarrow> size v < Suc (size_list (size_prod (\<lambda>x. 0) size) d)"
  by (induction d) (auto split: if_splits)

lemma size_nth: "i < length xs \<Longrightarrow> size (xs ! i) < Suc (size_list size (xs :: pyval list))"
  using size_list_estimation' [of "xs ! i" xs "size (xs ! i)" size] by simp

function differences :: "pyval \<Rightarrow> pyval \<Rightarrow> string \<Rightarrow> difference list" where
  "differences v w path =
     (case (v, w) of
        (VDict d, VDict e) \<Rightarrow> concat (map (\<lambda>k.
          let child = json_pointer path k in
          (case map_of d k of
             None \<Rightarrow> [added child (dict_get e k)]
           | Some x \<Rightarrow> (case map_of e k of
                 None \<Rightarrow> [removed child x]
               | Some y \<Rightarrow> differences x y child))) (sorted_keys d e))
      | (VList xs, VList ys) \<Rightarrow> concat (map (\<lambda>i.
          let child = json_pointer path (nat_str i) in
          if length xs \<le> i then [added child (ys ! i)]
          else if length ys \<le> i then [removed child (xs ! i)]
          else differences (xs ! i) (ys ! i) child) [0..<max (length xs) (length ys)])
      | _ \<Rightarrow> if py_eq v w then [] else [changed path v w])"
  by pat_completeness auto
termination
  by (relation "measure (\<lambda>(v, w, p). size v)") (auto dest: size_map_of simp: size_nth not_le)

declare differences.simps [simp del]

subsection \<open>The objects and targets of a manifest\<close>

text \<open>\<open>_manifest_objects\<close>: each object with its kind, name, version and dump.\<close>

definition manifest_objects :: "manifest \<Rightarrow> object_spec list" where
  "manifest_objects m =
     map SEntity (m_entities m) @ map SBatch (m_batch_sources m) @ map SStream (m_stream_sources m)
     @ map SView (m_feature_views m) @ map SService (m_feature_services m)"

definition spec_key :: "object_spec \<Rightarrow> obj_key" where
  "spec_key o' = (spec_kind o', spec_name o', spec_version o')"

text \<open>\<open>_manifest_targets\<close>; every \<open>RegistryTarget\<close> is validated as it is built.\<close>

definition view_targets :: "feature_view \<Rightarrow> target list result" where
  "view_targets v =
     bind_result (mk_target KFeatureView (v_name v) (Some (v_version v)) None) (\<lambda>tv.
     bind_result (source_targets v) (\<lambda>ts.
     bind_result (traverse (\<lambda>f. mk_target KFeatureView (v_name v) (Some (v_version v)) (Some f))
       (feature_names v)) (\<lambda>tfs.
     bind_result (stream_targets v) (\<lambda>ss. Inr (tv # ts @ tfs @ ss)))))"

definition ref_targets :: "string \<Rightarrow> target list result" where
  "ref_targets ref =
     bind_result (split_feature_ref ref) (\<lambda>(view_ref, fname).
     bind_result (parse_view_ref view_ref) (\<lambda>(name, ver).
     bind_result (mk_target KFeatureView name (Some ver) (Some fname)) (\<lambda>tf.
     bind_result (mk_target KFeatureView name (Some ver) None) (\<lambda>tv. Inr [tf, tv]))))"

definition service_targets :: "feature_service \<Rightarrow> target list result" where
  "service_targets s =
     bind_result (mk_target KFeatureService (s_name s) None None) (\<lambda>ts.
     bind_result (traverse ref_targets (s_features s)) (\<lambda>tss. Inr (ts # concat tss)))"

definition named_targets :: "object_kind \<Rightarrow> string list \<Rightarrow> target list result" where
  "named_targets k names = traverse (\<lambda>n. mk_target k n None None) names"

definition manifest_targets :: "manifest \<Rightarrow> target list result" where
  "manifest_targets m =
     bind_result (named_targets KEntity (map e_name (m_entities m))) (\<lambda>es.
     bind_result (named_targets KBatchSource (map bs_name (m_batch_sources m))) (\<lambda>bs.
     bind_result (named_targets KStreamSource (map ss_name (m_stream_sources m))) (\<lambda>ss.
     bind_result (traverse view_targets (m_feature_views m)) (\<lambda>vs.
     bind_result (traverse service_targets (m_feature_services m)) (\<lambda>fs.
     Inr (es @ bs @ ss @ concat vs @ concat fs))))))"

text \<open>\<open>_manifest_warning_targets\<close>: references to stored views add the sources they read.\<close>

definition stored_ref_targets :: "registry \<Rightarrow> string \<Rightarrow> target list result" where
  "stored_ref_targets reg ref =
     bind_result (split_feature_ref ref) (\<lambda>(view_ref, _).
     (case feature_view_of reg view_ref of
        Inl (RegistryNotFoundError m) \<Rightarrow> Inr []
      | Inl e \<Rightarrow> Inl e
      | Inr v \<Rightarrow> bind_result (source_targets v) (\<lambda>ts.
          bind_result (stream_targets v) (\<lambda>ss. Inr (ts @ ss)))))"

definition manifest_refs :: "manifest \<Rightarrow> string list" where
  "manifest_refs m = concat (map s_features (m_feature_services m))"

definition manifest_warning_targets :: "registry \<Rightarrow> manifest \<Rightarrow> target list result" where
  "manifest_warning_targets reg m =
     bind_result (manifest_targets m) (\<lambda>ts.
     bind_result (traverse (stored_ref_targets reg) (manifest_refs m)) (\<lambda>tss.
     Inr (ts @ concat tss)))"

subsection \<open>The plan\<close>

datatype issue_code =
    ImmutableConflict | MissingEntity | MissingBatchSource | MissingStreamSource
  | MissingFeatureView | MissingFeature

record issue =
  ic_code :: issue_code
  ic_path :: string
  ic_message :: string

datatype object_status = Created | Unchanged | Rejected

record object_plan =
  op_key :: obj_key
  op_status :: object_status
  op_issues :: "issue list"
  op_differences :: "difference list"

record available =
  av_entities :: "string set"
  av_batch :: "string set"
  av_stream :: "string set"
  av_views :: "(string \<times> string) \<Rightarrow> feature_view option"

definition names_of_kind :: "object_kind \<Rightarrow> registry \<Rightarrow> string set" where
  "names_of_kind k reg = set (map r_name (filter (\<lambda>r. r_kind r = k) (reg_rows reg)))"

text \<open>The views of the registry by name and version, read once at the start of a plan.\<close>

definition stored_views :: "registry \<Rightarrow> ((string \<times> string) \<times> feature_view) list result" where
  "stored_views reg =
     traverse (\<lambda>r. bind_result (as_view (r_spec r)) (\<lambda>v. Inr ((r_name r, r_version r), v)))
       (filter (\<lambda>r. r_kind r = KFeatureView) (reg_rows reg))"

definition initial_available :: "registry \<Rightarrow> available result" where
  "initial_available reg =
     bind_result (stored_views reg) (\<lambda>vs.
     Inr \<lparr>av_entities = names_of_kind KEntity reg, av_batch = names_of_kind KBatchSource reg,
          av_stream = names_of_kind KStreamSource reg, av_views = map_of (rev vs)\<rparr>)"

definition key_suffix :: "obj_key \<Rightarrow> string" where
  "key_suffix k = fst (snd k) @ (if snd (snd k) = [] then [] else CHR ''@'' # snd (snd k))"

definition conflict_message :: "obj_key \<Rightarrow> string" where
  "conflict_message k = ''immutable registry object changed: '' @ key_suffix k"

definition conflict_issue :: "obj_key \<Rightarrow> issue" where
  "conflict_issue k =
     \<lparr>ic_code = ImmutableConflict, ic_path = ''/'', ic_message = conflict_message k\<rparr>"

definition view_issues :: "available \<Rightarrow> feature_view \<Rightarrow> issue list" where
  "view_issues av v =
     (if v_entity v \<in> av_entities av then [] else
        [\<lparr>ic_code = MissingEntity, ic_path = ''/entity'',
          ic_message = ''unknown entity: '' @ v_entity v\<rparr>])
     @ (if v_batch_source v \<in> av_batch av then [] else
        [\<lparr>ic_code = MissingBatchSource, ic_path = ''/batch_source'',
          ic_message = ''unknown batch source: '' @ v_batch_source v\<rparr>])
     @ (case v_stream_source v of None \<Rightarrow> []
        | Some s \<Rightarrow> if s = [] \<or> s \<in> av_stream av then [] else
        [\<lparr>ic_code = MissingStreamSource, ic_path = ''/stream_source'',
          ic_message = ''unknown stream source: '' @ s\<rparr>])"

definition ref_issues :: "available \<Rightarrow> nat \<Rightarrow> string \<Rightarrow> issue list result" where
  "ref_issues av i ref =
     bind_result (split_feature_ref ref) (\<lambda>(view_ref, fname).
     bind_result (parse_view_ref view_ref) (\<lambda>key.
     (case av_views av key of
        None \<Rightarrow> Inr [\<lparr>ic_code = MissingFeatureView, ic_path = ''/features/'' @ nat_str i,
                      ic_message = ''unknown feature view: '' @ view_ref\<rparr>]
      | Some v \<Rightarrow> Inr (if fname \<in> set (feature_names v) then [] else
                   [\<lparr>ic_code = MissingFeature, ic_path = ''/features/'' @ nat_str i,
                     ic_message = ''unknown feature: '' @ ref\<rparr>]))))"

definition service_issues :: "available \<Rightarrow> feature_service \<Rightarrow> issue list result" where
  "service_issues av s =
     bind_result (traverse (\<lambda>(i, ref). ref_issues av i ref) (enumerate 0 (s_features s))) (\<lambda>iss.
     Inr (concat iss))"

definition reference_issues :: "available \<Rightarrow> object_spec \<Rightarrow> issue list result" where
  "reference_issues av o' =
     (case o' of SView v \<Rightarrow> Inr (view_issues av v)
      | SService s \<Rightarrow> service_issues av s
      | _ \<Rightarrow> Inr [])"

fun make_available :: "object_spec \<Rightarrow> available \<Rightarrow> available" where
  "make_available (SEntity e) av = av\<lparr>av_entities := insert (e_name e) (av_entities av)\<rparr>"
| "make_available (SBatch b) av = av\<lparr>av_batch := insert (bs_name b) (av_batch av)\<rparr>"
| "make_available (SStream s) av = av\<lparr>av_stream := insert (ss_name s) (av_stream av)\<rparr>"
| "make_available (SView v) av = av\<lparr>av_views := (av_views av)((v_name v, v_version v) \<mapsto> v)\<rparr>"
| "make_available (SService s) av = av"

text \<open>The body of the loop of \<open>plan\<close>: the row of one object, and what is available after it.\<close>

definition is_conflict :: "pyenv \<Rightarrow> registry \<Rightarrow> object_spec \<Rightarrow> bool" where
  "is_conflict env reg o' =
     (case find_record reg (spec_key o') of
        None \<Rightarrow> False
      | Some r \<Rightarrow> r_fingerprint r \<noteq> fingerprint env (spec_json o'))"

definition conflict_part :: "pyenv \<Rightarrow> registry \<Rightarrow> object_spec \<Rightarrow> issue list \<times> difference list" where
  "conflict_part env reg o' =
     (case find_record reg (spec_key o') of
        None \<Rightarrow> ([], [])
      | Some r \<Rightarrow> if r_fingerprint r \<noteq> fingerprint env (spec_json o')
          then ([conflict_issue (spec_key o')], differences (spec_json (r_spec r)) (spec_json o') [])
          else ([], []))"

definition plan_object :: "pyenv \<Rightarrow> registry \<Rightarrow> available \<Rightarrow> object_spec \<Rightarrow> object_plan result" where
  "plan_object env reg av o' =
     bind_result (reference_issues av o') (\<lambda>refs.
     let (conflicts, diffs) = conflict_part env reg o'; issues = conflicts @ refs
     in Inr \<lparr>op_key = spec_key o',
             op_status = (if issues \<noteq> [] then Rejected
                          else if find_record reg (spec_key o') \<noteq> None then Unchanged
                          else Created),
             op_issues = issues, op_differences = diffs\<rparr>)"

fun plan_loop :: "pyenv \<Rightarrow> registry \<Rightarrow> available \<Rightarrow> object_spec list \<Rightarrow> object_plan list result" where
  "plan_loop env reg av [] = Inr []"
| "plan_loop env reg av (o' # os) =
     bind_result (plan_object env reg av o') (\<lambda>p.
     bind_result (plan_loop env reg (if op_status p = Rejected then av else make_available o' av) os)
       (\<lambda>ps. Inr (p # ps)))"

record registry_plan =
  p_fingerprint :: string
  p_created :: nat
  p_unchanged :: nat
  p_rejected :: nat
  p_objects :: "object_plan list"
  p_warnings :: "warning list"

definition count_status :: "object_status \<Rightarrow> object_plan list \<Rightarrow> nat" where
  "count_status s ps = length (filter (\<lambda>p. op_status p = s) ps)"

definition plan :: "pyenv \<Rightarrow> registry \<Rightarrow> manifest \<Rightarrow> registry_plan result" where
  "plan env reg m =
     bind_result (initial_available reg) (\<lambda>av.
     bind_result (plan_loop env reg av (manifest_objects m)) (\<lambda>ps.
     bind_result (manifest_warning_targets reg m) (\<lambda>ts.
     bind_result (warnings_for_targets reg ts) (\<lambda>ws.
     Inr \<lparr>p_fingerprint = manifest_fingerprint env m,
          p_created = count_status Created ps, p_unchanged = count_status Unchanged ps,
          p_rejected = count_status Rejected ps, p_objects = ps, p_warnings = ws\<rparr>))))"

subsection \<open>Applying\<close>

record apply_result =
  ar_fingerprint :: string
  ar_created :: nat
  ar_unchanged :: nat
  ar_warnings :: "warning list"

text \<open>The error of a rejected plan: the first issue that is not a conflict, else the conflict.\<close>

definition rejected_plans :: "object_plan list \<Rightarrow> object_plan list" where
  "rejected_plans ps = filter (\<lambda>p. op_status p = Rejected) ps"

definition missing_issues :: "object_plan list \<Rightarrow> issue list" where
  "missing_issues ps = filter (\<lambda>i. ic_code i \<noteq> ImmutableConflict) (concat (map op_issues ps))"

definition rejection_error :: "object_plan list \<Rightarrow> py_error" where
  "rejection_error rejected =
     (case missing_issues rejected of
        i # _ \<Rightarrow> RegistryNotFoundError (ic_message i)
      | [] \<Rightarrow> RegistryConflictError (conflict_message (op_key (hd rejected))))"

definition insert_object :: "pyenv \<Rightarrow> datetime \<Rightarrow> object_spec \<Rightarrow> registry \<Rightarrow> registry" where
  "insert_object env now o' reg =
     (add_record \<lparr>r_id = reg_next reg, r_kind = spec_kind o', r_name = spec_name o',
        r_version = spec_version o', r_fingerprint = fingerprint env (spec_json o'),
        r_spec = o', r_created = now\<rparr> reg)\<lparr>reg_next := Suc (reg_next reg)\<rparr>"

definition created_objects :: "object_plan list \<Rightarrow> object_spec list \<Rightarrow> object_spec list" where
  "created_objects ps os = map snd (filter (\<lambda>(p, _). op_status p = Created) (zip ps os))"

definition keys_unique :: "registry \<Rightarrow> bool" where
  "keys_unique reg \<longleftrightarrow> distinct (map record_key (reg_rows reg))"

definition apply_manifest ::
    "pyenv \<Rightarrow> datetime \<Rightarrow> registry \<Rightarrow> manifest \<Rightarrow> (registry \<times> apply_result) result" where
  "apply_manifest env now reg m =
     bind_result (plan env reg m) (\<lambda>p.
     (case rejected_plans (p_objects p) of
        r # rs \<Rightarrow> Inl (rejection_error (r # rs))
      | [] \<Rightarrow>
          let reg' = fold (insert_object env now)
                       (created_objects (p_objects p) (manifest_objects m)) reg
          in if keys_unique reg'
             then Inr (reg', \<lparr>ar_fingerprint = p_fingerprint p, ar_created = p_created p,
                              ar_unchanged = p_unchanged p, ar_warnings = p_warnings p\<rparr>)
             else Inl (IntegrityError ''registry_records'')))"

subsection \<open>The diff and Python equality\<close>

lemma py_eq_list_iff: "py_eq_list xs ys \<longleftrightarrow> list_all2 py_eq xs ys"
  by (induction xs arbitrary: ys) (auto simp: list_all2_Cons1 split: list.splits)

lemma py_eq_items_iff:
  "py_eq_items d e \<longleftrightarrow> (\<forall>(k, v) \<in> set d. \<exists>w. map_of e k = Some w \<and> py_eq v w)"
  by (induction d) (auto split: option.splits)

lemma py_eq_dict:
  assumes "distinct (map fst d)" "distinct (map fst e)"
  shows "py_eq (VDict d) (VDict e) \<longleftrightarrow>
    (\<forall>k \<in> fst ` set d \<union> fst ` set e. \<exists>x y. map_of d k = Some x \<and> map_of e k = Some y \<and> py_eq x y)"
    (is "?L \<longleftrightarrow> ?E")
proof -
  have card: "length d = card (fst ` set d)" "length e = card (fst ` set e)"
    using assms by (metis distinct_card length_map list.set_map)+
  have dom: "k \<in> fst ` set a \<longleftrightarrow> (\<exists>v. map_of a k = Some v)" for k and a :: row
    by (metis domIff dom_map_of_conv_image_fst not_None_eq)
  have val: "(k, v) \<in> set d \<longleftrightarrow> map_of d k = Some v" for k v using assms(1) by simp
  have "?L \<longleftrightarrow> length d = length e \<and> (\<forall>(k, v) \<in> set d. \<exists>w. map_of e k = Some w \<and> py_eq v w)"
    by (simp add: py_eq.simps [of "VDict d"] py_eq_items_iff)
  also have "\<dots> \<longleftrightarrow> length d = length e \<and>
      (\<forall>k v. map_of d k = Some v \<longrightarrow> (\<exists>w. map_of e k = Some w \<and> py_eq v w))"
    unfolding val [symmetric] by fast
  also have "\<dots> \<longleftrightarrow> ?E"
  proof
    assume len: "length d = length e \<and>
      (\<forall>k v. map_of d k = Some v \<longrightarrow> (\<exists>w. map_of e k = Some w \<and> py_eq v w))"
    then have "fst ` set d \<subseteq> fst ` set e" by (metis dom subsetI)
    then have "fst ` set d = fst ` set e"
      using len card by (metis List.finite_set card_subset_eq finite_imageI)
    with len show ?E by (metis Un_iff dom)
  next
    assume E: ?E
    then have "fst ` set d = fst ` set e" unfolding set_eq_iff dom by (metis Un_iff dom)
    then have "length d = length e" by (simp add: card)
    moreover have "map_of d k = Some v \<Longrightarrow> \<exists>w. map_of e k = Some w \<and> py_eq v w" for k v
      using E by (metis Un_iff dom option.inject)
    ultimately show "length d = length e \<and>
      (\<forall>k v. map_of d k = Some v \<longrightarrow> (\<exists>w. map_of e k = Some w \<and> py_eq v w))" by blast
  qed
  finally show ?thesis .
qed

lemma set_sorted_keys: "set (sorted_keys d e) = fst ` set d \<union> fst ` set e"
  by (simp add: sorted_keys_def)

lemma keys_ok_map_of: "keys_ok (VDict d) \<Longrightarrow> map_of d k = Some x \<Longrightarrow> keys_ok x"
  by (auto dest: map_of_SomeD)

lemma differences_dict:
  "differences (VDict d) (VDict e) p = [] \<longleftrightarrow>
     (\<forall>k \<in> fst ` set d \<union> fst ` set e. \<exists>x y. map_of d k = Some x \<and> map_of e k = Some y \<and>
        differences x y (json_pointer p k) = [])"
proof -
  let ?F = "\<lambda>k. let child = json_pointer p k in
          (case map_of d k of
             None \<Rightarrow> [added child (dict_get e k)]
           | Some x \<Rightarrow> (case map_of e k of
                 None \<Rightarrow> [removed child x]
               | Some y \<Rightarrow> differences x y child))"
  have one: "?F k = [] \<longleftrightarrow> (\<exists>x y. map_of d k = Some x \<and> map_of e k = Some y \<and>
        differences x y (json_pointer p k) = [])" for k
    by (cases "map_of d k"; cases "map_of e k") simp_all
  have "differences (VDict d) (VDict e) p = concat (map ?F (sorted_keys d e))"
    by (subst differences.simps) simp
  then show ?thesis by (simp only: concat_eq_Nil_conv set_map set_sorted_keys ball_simps one)
qed

lemma differences_list:
  "differences (VList xs) (VList ys) p = [] \<longleftrightarrow>
     length xs = length ys \<and>
     (\<forall>i < length xs. differences (xs ! i) (ys ! i) (json_pointer p (nat_str i)) = [])"
proof -
  let ?F = "\<lambda>i. let child = json_pointer p (nat_str i) in
          if length xs \<le> i then [added child (ys ! i)]
          else if length ys \<le> i then [removed child (xs ! i)]
          else differences (xs ! i) (ys ! i) child"
  have one: "?F i = [] \<longleftrightarrow> i < length xs \<and> i < length ys \<and>
      differences (xs ! i) (ys ! i) (json_pointer p (nat_str i)) = []" for i
    by (simp add: Let_def not_le)
  have "differences (VList xs) (VList ys) p = concat (map ?F [0..<max (length xs) (length ys)])"
    by (subst differences.simps) simp
  then have "differences (VList xs) (VList ys) p = [] \<longleftrightarrow>
      (\<forall>i < max (length xs) (length ys). i < length xs \<and> i < length ys \<and>
        differences (xs ! i) (ys ! i) (json_pointer p (nat_str i)) = [])"
    by (simp only: concat_eq_Nil_conv set_map ball_simps one set_upt) (simp add: Ball_def)
  moreover have "(\<forall>i < max a b. i < a \<and> i < b \<and> D i) \<longleftrightarrow> a = b \<and> (\<forall>i < a. D i)" for a b :: nat and D
  proof (cases a b rule: linorder_cases)
    case less
    then have "a < max a b \<and> \<not> a < a" by simp
    with less show ?thesis by blast
  next
    case greater
    then have "b < max a b \<and> \<not> b < b" by simp
    with greater show ?thesis by blast
  qed simp
  ultimately show ?thesis by simp
qed

text \<open>
  C5. The structural diff of a rejected object is empty exactly when the stored and the proposed
  document are equal as Python values: nothing that differs is left out at any depth, and nothing
  equal is listed. (Python equality identifies 1, 1.0 and True.)
\<close>

theorem differences_empty_iff:
  "keys_ok v \<Longrightarrow> keys_ok w \<Longrightarrow> differences v w p = [] \<longleftrightarrow> py_eq v w"
proof (induction v w p rule: differences.induct)
  case (1 v w p)
  show ?case
  proof (cases "\<exists>d e. v = VDict d \<and> w = VDict e")
    case True
    then obtain d e where de: "v = VDict d" "w = VDict e" by blast
    have "k \<in> fst ` set d \<union> fst ` set e \<Longrightarrow> map_of d k = Some x \<Longrightarrow> map_of e k = Some y \<Longrightarrow>
        differences x y (json_pointer p k) = [] \<longleftrightarrow> py_eq x y" for k x y
      using 1 keys_ok_map_of unfolding de by (metis set_sorted_keys)
    then have "(\<exists>x y. map_of d k = Some x \<and> map_of e k = Some y \<and> differences x y (json_pointer p k) = [])
        \<longleftrightarrow> (\<exists>x y. map_of d k = Some x \<and> map_of e k = Some y \<and> py_eq x y)"
      if "k \<in> fst ` set d \<union> fst ` set e" for k
      using that by blast
    moreover have "distinct (map fst d)" "distinct (map fst e)" using 1(3,4) de by simp_all
    ultimately show ?thesis unfolding de by (simp only: differences_dict py_eq_dict ball_simps cong: ball_cong)
  next
    case False
    note nd = this
    show ?thesis
    proof (cases "\<exists>xs ys. v = VList xs \<and> w = VList ys")
      case True
      then obtain xs ys where xy: "v = VList xs" "w = VList ys" by blast
      show ?thesis
        using 1 unfolding xy
        by (auto simp: differences_list py_eq.simps [of "VList xs"] py_eq_list_iff list_all2_conv_all_nth)
    next
      case False
      with nd show ?thesis
        by (subst differences.simps) (auto split: pyval.splits)
    qed
  qed
qed

lemma differences_empty_iff_witness:
  "differences (VDict [(''a'', VInt 1), (''b'', VList [])]) (VDict [(''b'', VList []), (''a'', VInt 1)]) [] = []
   \<and> differences (VDict [(''a'', VInt 1)]) (VDict [(''a'', VInt 2)]) [] \<noteq> []"
  using differences_empty_iff [of "VDict [(''a'', VInt 1), (''b'', VList [])]"
      "VDict [(''b'', VList []), (''a'', VInt 1)]" "[]"]
    differences_empty_iff [of "VDict [(''a'', VInt 1)]" "VDict [(''a'', VInt 2)]" "[]"]
  by (simp add: py_eq.simps)

end
