(* ===== verification/RegistryApply.thy ===== *)
theory RegistryApply
  imports RegistryPlan
begin

section \<open>What a successful apply does to the registry\<close>

text \<open>
  The invariant of the registry tables (\<open>registry_ok\<close>: unique keys, fresh ids, rows that carry
  their own key and fingerprint, references that resolve) and the facts about \<open>plan\<close> and
  \<open>apply_manifest\<close> that rest on it: preservation, immutability of stored rows, and
  idempotence of applying the same manifest twice.
\<close>

subsection \<open>Accepted manifests\<close>

text \<open>An object list that the loop of \<open>plan\<close> accepts without a rejection.\<close>

definition no_conflict :: "pyenv \<Rightarrow> registry \<Rightarrow> object_spec \<Rightarrow> bool" where
  "no_conflict env reg o' \<longleftrightarrow>
     (\<forall>r. find_record reg (spec_key o') = Some r \<longrightarrow> r_fingerprint r = fingerprint env (spec_json o'))"

fun accepted :: "pyenv \<Rightarrow> registry \<Rightarrow> available \<Rightarrow> object_spec list \<Rightarrow> bool" where
  "accepted env reg av [] \<longleftrightarrow> True"
| "accepted env reg av (o' # os) \<longleftrightarrow>
     reference_issues av o' = Inr [] \<and> no_conflict env reg o' \<and>
     accepted env reg (make_available o' av) os"

definition fresh_status :: "registry \<Rightarrow> object_spec \<Rightarrow> object_status" where
  "fresh_status reg o' = (if find_record reg (spec_key o') = None then Created else Unchanged)"

definition accepted_plan :: "registry \<Rightarrow> object_spec \<Rightarrow> object_plan" where
  "accepted_plan reg o' =
     \<lparr>op_key = spec_key o', op_status = fresh_status reg o', op_issues = [], op_differences = []\<rparr>"

lemma conflict_part_no_conflict:
  "no_conflict env reg o' \<Longrightarrow> conflict_part env reg o' = ([], [])"
  by (auto simp: conflict_part_def no_conflict_def split: option.splits)

lemma conflict_part_issues: "fst (conflict_part env reg o') = [] \<longleftrightarrow> no_conflict env reg o'"
  by (auto simp: conflict_part_def no_conflict_def split: option.splits)

lemma plan_object_Inr:
  assumes "plan_object env reg av o' = Inr p"
  obtains refs where "reference_issues av o' = Inr refs"
    "op_issues p = fst (conflict_part env reg o') @ refs"
    "op_differences p = snd (conflict_part env reg o')" "op_key p = spec_key o'"
  using assms
  by (cases "reference_issues av o'"; cases "conflict_part env reg o'") (auto simp: plan_object_def)

lemma plan_object_accepts:
  "plan_object env reg av o' = Inr p \<and> op_status p \<noteq> Rejected \<longleftrightarrow>
     reference_issues av o' = Inr [] \<and> no_conflict env reg o' \<and> p = accepted_plan reg o'"
proof (cases "reference_issues av o'")
  case (Inl e)
  then show ?thesis by (simp add: plan_object_def)
next
  case (Inr refs)
  obtain cs ds where cd: "conflict_part env reg o' = (cs, ds)" by fastforce
  then have "cs = [] \<longleftrightarrow> no_conflict env reg o'" using conflict_part_issues [of env reg o'] by simp
  moreover have "no_conflict env reg o' \<Longrightarrow> ds = []"
    using conflict_part_no_conflict [of env reg o'] cd by simp
  ultimately show ?thesis
    using Inr cd by (auto simp: plan_object_def accepted_plan_def fresh_status_def)
qed

lemma plan_loop_accepts:
  "plan_loop env reg av os = Inr ps \<and> rejected_plans ps = [] \<longleftrightarrow>
     accepted env reg av os \<and> ps = map (accepted_plan reg) os"
proof (induction os arbitrary: av ps)
  case Nil
  show ?case by (auto simp: rejected_plans_def)
next
  case (Cons o' os)
  have "plan_loop env reg av (o' # os) = Inr ps \<and> rejected_plans ps = [] \<longleftrightarrow>
     (\<exists>p ps'. plan_object env reg av o' = Inr p \<and> op_status p \<noteq> Rejected \<and>
       plan_loop env reg (make_available o' av) os = Inr ps' \<and> rejected_plans ps' = [] \<and> ps = p # ps')"
    by (auto simp: bind_result_eq_Inr rejected_plans_def split: if_splits)
  also have "\<dots> \<longleftrightarrow> (\<exists>p ps'. (plan_object env reg av o' = Inr p \<and> op_status p \<noteq> Rejected) \<and>
       (plan_loop env reg (make_available o' av) os = Inr ps' \<and> rejected_plans ps' = []) \<and> ps = p # ps')"
    by blast
  also have "\<dots> \<longleftrightarrow> accepted env reg av (o' # os) \<and> ps = map (accepted_plan reg) (o' # os)"
    unfolding plan_object_accepts Cons.IH by auto
  finally show ?case .
qed

lemma accepted_plans_objects:
  "created_objects (map (accepted_plan reg) os) os
     = filter (\<lambda>o'. find_record reg (spec_key o') = None) os"
  "count_status Created (map (accepted_plan reg) os)
     = length (filter (\<lambda>o'. find_record reg (spec_key o') = None) os)"
  "count_status Unchanged (map (accepted_plan reg) os)
     = length (filter (\<lambda>o'. find_record reg (spec_key o') \<noteq> None) os)"
  by (induction os)
    (auto simp: created_objects_def count_status_def accepted_plan_def fresh_status_def)

subsection \<open>The inserted rows\<close>

definition new_row :: "pyenv \<Rightarrow> datetime \<Rightarrow> nat \<Rightarrow> object_spec \<Rightarrow> registry_record" where
  "new_row env now i o' =
     \<lparr>r_id = i, r_kind = spec_kind o', r_name = spec_name o', r_version = spec_version o',
      r_fingerprint = fingerprint env (spec_json o'), r_spec = o', r_created = now\<rparr>"

definition new_rows :: "pyenv \<Rightarrow> datetime \<Rightarrow> nat \<Rightarrow> object_spec list \<Rightarrow> registry_record list" where
  "new_rows env now i os = map (\<lambda>(j, o'). new_row env now j o') (enumerate i os)"

lemma new_rows_simps [simp]:
  "new_rows env now i [] = []"
  "new_rows env now i (o' # os) = new_row env now i o' # new_rows env now (Suc i) os"
  by (simp_all add: new_rows_def)

lemma fold_insert_object:
  "reg_rows (fold (insert_object env now) os reg) = reg_rows reg @ new_rows env now (reg_next reg) os"
  "reg_lives (fold (insert_object env now) os reg) = reg_lives reg"
  "reg_next (fold (insert_object env now) os reg) = reg_next reg + length os"
  by (induction os arbitrary: reg)
    (auto simp: insert_object_def add_record_def new_row_def)

lemma new_row_simps [simp]:
  "r_id (new_row env now i o') = i" "record_key (new_row env now i o') = spec_key o'"
  "r_fingerprint (new_row env now i o') = fingerprint env (spec_json o')"
  "r_spec (new_row env now i o') = o'"
  by (simp_all add: new_row_def record_key_def spec_key_def)

lemma set_new_rows:
  "r \<in> set (new_rows env now i os) \<Longrightarrow> \<exists>j o'. i \<le> j \<and> j < i + length os \<and> o' \<in> set os \<and> r = new_row env now j o'"
proof (induction os arbitrary: i)
  case (Cons o' os)
  show ?case
  proof (cases "r = new_row env now i o'")
    case True
    then show ?thesis by (intro exI [of _ i] exI [of _ o']) simp
  next
    case False
    with Cons.prems have "r \<in> set (new_rows env now (Suc i) os)" by simp
    from Cons.IH [OF this] obtain j x where
      "Suc i \<le> j" "j < Suc i + length os" "x \<in> set os" "r = new_row env now j x" by blast
    then show ?thesis by (intro exI [of _ j] exI [of _ x]) simp
  qed
qed simp

lemma new_rows_keys [simp]: "map record_key (new_rows env now i os) = map spec_key os"
  by (induction os arbitrary: i) simp_all

lemma new_rows_specs [simp]: "map r_spec (new_rows env now i os) = os"
  by (induction os arbitrary: i) simp_all

lemma new_rows_ids [simp]: "map r_id (new_rows env now i os) = [i..<i + length os]"
proof (induction os arbitrary: i)
  case (Cons o' os)
  then show ?case by (simp add: upt_conv_Cons del: upt_Suc)
qed simp

text \<open>The full description of a successful apply.\<close>

definition to_create :: "registry \<Rightarrow> manifest \<Rightarrow> object_spec list" where
  "to_create reg m = filter (\<lambda>o'. find_record reg (spec_key o') = None) (manifest_objects m)"

lemma apply_manifest_Inr:
  assumes "apply_manifest env now reg m = Inr (reg', res)"
  obtains p av where "plan env reg m = Inr p" "initial_available reg = Inr av"
    "accepted env reg av (manifest_objects m)"
    "p_objects p = map (accepted_plan reg) (manifest_objects m)"
    "reg_rows reg' = reg_rows reg @ new_rows env now (reg_next reg) (to_create reg m)"
    "reg_lives reg' = reg_lives reg"
    "reg_next reg' = reg_next reg + length (to_create reg m)" "keys_unique reg'"
    "ar_created res = length (to_create reg m)"
    "ar_unchanged res = length (manifest_objects m) - length (to_create reg m)"
proof -
  let ?os = "manifest_objects m"
  from assms obtain p where p1: "plan env reg m = Inr p"
    unfolding apply_manifest_def bind_result_eq_Inr by blast
  with assms have "rejected_plans (p_objects p) = []"
    by (cases "rejected_plans (p_objects p)") (simp_all add: apply_manifest_def)
  note p = p1 this
  from p(1) obtain av where av: "initial_available reg = Inr av"
    and loop: "plan_loop env reg av ?os = Inr (p_objects p)"
    and counts: "p_created p = count_status Created (p_objects p)"
      "p_unchanged p = count_status Unchanged (p_objects p)"
    by (auto simp: plan_def bind_result_eq_Inr)
  from loop p(2) have acc: "accepted env reg av ?os" "p_objects p = map (accepted_plan reg) ?os"
    using plan_loop_accepts [of env reg av ?os "p_objects p"] by blast+
  have created: "created_objects (p_objects p) ?os = to_create reg m"
    unfolding acc(2) to_create_def by (rule accepted_plans_objects(1))
  let ?reg' = "fold (insert_object env now) (to_create reg m) reg"
  have r: "reg' = ?reg'" "keys_unique ?reg'" "ar_created res = p_created p"
    "ar_unchanged res = p_unchanged p"
    using assms p created by (auto simp: apply_manifest_def Let_def split: if_splits)
  have c: "p_created p = length (to_create reg m)"
    unfolding counts acc(2) to_create_def by (rule accepted_plans_objects(2))
  have u: "p_unchanged p = length (filter (\<lambda>o'. find_record reg (spec_key o') \<noteq> None) ?os)"
    unfolding counts acc(2) by (rule accepted_plans_objects(3))
  have "p_unchanged p = length ?os - length (to_create reg m)"
    unfolding u to_create_def
    using sum_length_filter_compl [of "\<lambda>o'. find_record reg (spec_key o') = None" ?os] by simp
  then show thesis
    using that [OF p(1) av acc] fold_insert_object [of env now "to_create reg m" reg] r c by simp
qed

subsection \<open>The invariant of the tables\<close>

text \<open>Where a reference of a stored object leads; \<open>resolves\<close> is the contract of a query.\<close>

definition has_object :: "registry \<Rightarrow> object_kind \<Rightarrow> string \<Rightarrow> bool" where
  "has_object reg k name \<longleftrightarrow> find_record reg (k, name, []) \<noteq> None"

definition stream_stored :: "registry \<Rightarrow> string option \<Rightarrow> bool" where
  "stream_stored reg s =
     (case s of None \<Rightarrow> True | Some n \<Rightarrow> n = [] \<or> has_object reg KStreamSource n)"

definition references_stored :: "registry \<Rightarrow> object_spec \<Rightarrow> bool" where
  "references_stored reg o' =
     (case o' of
        SView v \<Rightarrow> has_object reg KEntity (v_entity v) \<and> has_object reg KBatchSource (v_batch_source v) \<and>
          stream_stored reg (v_stream_source v)
      | SService s \<Rightarrow> (\<forall>ref \<in> set (s_features s). \<exists>v f. resolves reg ref v f)
      | _ \<Rightarrow> True)"

definition rows_ok :: "pyenv \<Rightarrow> registry \<Rightarrow> bool" where
  "rows_ok env reg \<longleftrightarrow>
     keys_unique reg \<and> distinct (map r_id (reg_rows reg)) \<and>
     (\<forall>r \<in> set (reg_rows reg). r_id r < reg_next reg \<and> spec_key (r_spec r) = record_key r \<and>
        r_fingerprint r = fingerprint env (spec_json (r_spec r)))"

definition refs_ok :: "registry \<Rightarrow> bool" where
  "refs_ok reg \<longleftrightarrow> (\<forall>r \<in> set (reg_rows reg). references_stored reg (r_spec r))"

lemma empty_registry_ok [simp]: "rows_ok env empty_registry" "refs_ok empty_registry"
  by (simp_all add: rows_ok_def refs_ok_def empty_registry_def keys_unique_def)

lemma find_record_unique:
  "keys_unique reg \<Longrightarrow> find_record reg k = Some r \<longleftrightarrow> r \<in> set (reg_rows reg) \<and> record_key r = k"
  unfolding keys_unique_def by (rule records.lookup_unique)

lemma find_record_prefix:
  assumes "reg_rows reg' = reg_rows reg @ new" and "find_record reg k = Some r"
  shows "find_record reg' k = Some r"
proof -
  have "find P xs = Some r \<Longrightarrow> find P (xs @ ys) = Some r" for P and xs ys :: "registry_record list"
    by (induction xs) (auto split: if_splits)
  with assms show ?thesis by (simp add: find_record_def)
qed

lemma has_object_mono:
  "(\<And>k r. find_record reg k = Some r \<Longrightarrow> find_record reg' k = Some r) \<Longrightarrow>
     has_object reg k n \<Longrightarrow> has_object reg' k n"
  by (fastforce simp: has_object_def)

lemma references_stored_mono:
  assumes mono: "\<And>k r. find_record reg k = Some r \<Longrightarrow> find_record reg' k = Some r"
    and refs: "references_stored reg o'"
  shows "references_stored reg' o'"
proof (cases o')
  case (SView v)
  have obj: "has_object reg k n \<Longrightarrow> has_object reg' k n" for k n
    using has_object_mono [OF mono] .
  show ?thesis
    using refs obj unfolding SView references_stored_def stream_stored_def
    by (auto split: option.splits)
next
  case (SService s)
  have "resolves reg ref v f \<Longrightarrow> resolves reg' ref v f" for ref v f
    unfolding resolves_def using mono by blast
  then show ?thesis using refs unfolding SService references_stored_def by (simp, blast)
qed (use refs in \<open>simp_all add: references_stored_def\<close>)

lemma apply_appends:
  assumes "apply_manifest env now reg m = Inr (reg', res)"
  shows "reg_rows reg' = reg_rows reg @ new_rows env now (reg_next reg) (to_create reg m)"
    and "reg_lives reg' = reg_lives reg"
    and "find_record reg k = Some r \<Longrightarrow> find_record reg' k = Some r"
proof -
  from apply_manifest_Inr [OF assms]
  show rows: "reg_rows reg' = reg_rows reg @ new_rows env now (reg_next reg) (to_create reg m)"
    and "reg_lives reg' = reg_lives reg" by blast+
  show "find_record reg k = Some r \<Longrightarrow> find_record reg' k = Some r"
    by (rule find_record_prefix [OF rows])
qed

text \<open>
  C1. A successful apply only appends rows: every object that was registered is still found under
  its key, with the same id, fingerprint, document and creation time, and no lifecycle row changes.
\<close>

theorem apply_keeps_rows:
  assumes "apply_manifest env now reg m = Inr (reg', res)"
  shows "(\<exists>new. reg_rows reg' = reg_rows reg @ new \<and> map r_spec new = to_create reg m) \<and>
    reg_lives reg' = reg_lives reg \<and>
    (\<forall>k r. find_record reg k = Some r \<longrightarrow> find_record reg' k = Some r)"
  using apply_appends [OF assms]
  by (intro conjI exI [of _ "new_rows env now (reg_next reg) (to_create reg m)"] allI impI) simp_all

lemma accepted_no_conflict: "accepted env reg av os \<Longrightarrow> o' \<in> set os \<Longrightarrow> no_conflict env reg o'"
  by (induction os arbitrary: av) auto

text \<open>
  C2. An object whose key is registered with another fingerprint makes the whole apply fail,
  whatever else the manifest holds.
\<close>

theorem apply_rejects_change:
  assumes "o' \<in> set (manifest_objects m)" "find_record reg (spec_key o') = Some r"
    and "r_fingerprint r \<noteq> fingerprint env (spec_json o')"
  shows "\<exists>e. apply_manifest env now reg m = Inl e"
proof (cases "apply_manifest env now reg m")
  case (Inr x)
  obtain reg' res where "x = (reg', res)" by fastforce
  with Inr have app: "apply_manifest env now reg m = Inr (reg', res)" by simp
  obtain av where "accepted env reg av (manifest_objects m)"
    by (rule apply_manifest_Inr [OF app]) blast
  from accepted_no_conflict [OF this assms(1)] assms(2,3) show ?thesis
    by (simp add: no_conflict_def)
qed blast

subsection \<open>What is available\<close>

text \<open>Every available name leads to a row, every available view to one with the same features.\<close>

definition backed :: "registry \<Rightarrow> available \<Rightarrow> bool" where
  "backed reg av \<longleftrightarrow>
     (\<forall>n \<in> av_entities av. has_object reg KEntity n) \<and>
     (\<forall>n \<in> av_batch av. has_object reg KBatchSource n) \<and>
     (\<forall>n \<in> av_stream av. has_object reg KStreamSource n) \<and>
     (\<forall>k w. av_views av k = Some w \<longrightarrow>
        (\<exists>r v. find_record reg (KFeatureView, k) = Some r \<and> r_spec r = SView v \<and>
           feature_names v = feature_names w))"

lemma spec_key_kind:
  "spec_key o' = (KEntity, n, ver) \<Longrightarrow> ver = []"
  "spec_key o' = (KBatchSource, n, ver) \<Longrightarrow> ver = []"
  "spec_key o' = (KStreamSource, n, ver) \<Longrightarrow> ver = []"
  "spec_key o' = (KFeatureService, n, ver) \<Longrightarrow> ver = []"
  "spec_key o' = (KFeatureView, n, ver) \<Longrightarrow> \<exists>v. o' = SView v \<and> v_name v = n \<and> v_version v = ver"
  by (cases o'; simp add: spec_key_def)+

lemma rows_ok_names_of_kind:
  assumes ok: "rows_ok env reg" and k: "k \<noteq> KFeatureView" and n: "n \<in> names_of_kind k reg"
  shows "has_object reg k n"
proof -
  from n obtain r where r: "r \<in> set (reg_rows reg)" "r_kind r = k" "r_name r = n"
    by (auto simp: names_of_kind_def)
  with ok have "spec_key (r_spec r) = (k, n, r_version r)"
    by (simp add: rows_ok_def record_key_def)
  then have "r_version r = []" using k spec_key_kind by (cases k) blast+
  with r have "record_key r = (k, n, [])" by (simp add: record_key_def)
  then show ?thesis using r(1) records.lookup_None [of reg "(k, n, [])"] unfolding has_object_def by (metis image_eqI)
qed

lemma stored_views_Inr:
  assumes ok: "rows_ok env reg" and vs: "stored_views reg = Inr vs"
  shows "map_of (rev vs) k = Some w \<Longrightarrow>
    \<exists>r. find_record reg (KFeatureView, k) = Some r \<and> r_spec r = SView w"
proof -
  assume "map_of (rev vs) k = Some w"
  then have "(k, w) \<in> set vs" by (auto dest: map_of_SomeD)
  then obtain r where r: "r \<in> set (reg_rows reg)" "r_kind r = KFeatureView" "k = (r_name r, r_version r)"
    "r_spec r = SView w"
    using traverse_Inr_set_rev [OF vs [unfolded stored_views_def]]
    by (fastforce simp: bind_result_eq_Inr)
  then have "record_key r = (KFeatureView, k)" by (simp add: record_key_def)
  with r ok show ?thesis by (auto simp: rows_ok_def find_record_unique)
qed

lemma initial_backed:
  assumes ok: "rows_ok env reg" and av: "initial_available reg = Inr av"
  shows "backed reg av"
proof -
  from av obtain vs where vs: "stored_views reg = Inr vs" and
    "av = \<lparr>av_entities = names_of_kind KEntity reg, av_batch = names_of_kind KBatchSource reg,
          av_stream = names_of_kind KStreamSource reg, av_views = map_of (rev vs)\<rparr>"
    by (auto simp: initial_available_def bind_result_eq_Inr)
  then show ?thesis
    using rows_ok_names_of_kind [OF ok] stored_views_Inr [OF ok vs] by (simp add: backed_def) blast
qed

subsection \<open>Fingerprints identify documents\<close>

text \<open>
  What the code relies on in SHA-256: no two different texts it hashes collide. With the injective
  JSON text of \<open>json_dumps\<close>, equal fingerprints are equal documents up to key order.
\<close>

definition collision_free :: "pyenv \<Rightarrow> bool" where
  "collision_free env \<longleftrightarrow> inj (env_sha256 env) \<and> float_texts_ok env"

lemma demo_collision_free [simp]: "collision_free demo_env"
  by (simp add: collision_free_def inj_def) (simp add: demo_env_def)

lemma fingerprint_inj:
  assumes "collision_free env" "jsonable v" "jsonable w"
  shows "fingerprint env v = fingerprint env w \<longleftrightarrow> canon v = canon w"
  using assms json_dumps_inj [of env compact_opts v w]
  by (simp add: collision_free_def fingerprint_def inj_eq)

definition documents_ok :: "registry \<Rightarrow> bool" where
  "documents_ok reg \<longleftrightarrow> (\<forall>r \<in> set (reg_rows reg). jsonable (spec_json (r_spec r)))"

lemma fingerprint_features:
  assumes "collision_free env" "jsonable (view_spec v)" "jsonable (view_spec w)"
    and "fingerprint env (view_spec v) = fingerprint env (view_spec w)"
  shows "feature_names v = feature_names w"
  using fingerprint_inj [OF assms(1-3)] assms(4) view_spec_features by blast

lemma plan_loop_nth:
  assumes "plan_loop env reg av os = Inr ps" "i < length os"
  shows "\<exists>av'. plan_object env reg av' (os ! i) = Inr (ps ! i)"
  using assms
proof (induction os arbitrary: av ps i)
  case (Cons o' os)
  from Cons.prems(1) obtain p ps' where p: "plan_object env reg av o' = Inr p" "ps = p # ps'"
    and rest: "plan_loop env reg (if op_status p = Rejected then av else make_available o' av) os = Inr ps'"
    by (auto simp: bind_result_eq_Inr)
  show ?case
  proof (cases i)
    case 0
    with p show ?thesis by auto
  next
    case (Suc j)
    then show ?thesis using Cons.IH [OF rest, of j] Cons.prems(2) p by simp
  qed
qed simp

lemma reference_issues_codes:
  assumes "reference_issues av o' = Inr refs"
  shows "ImmutableConflict \<notin> ic_code ` set refs"
proof (cases o')
  case (SView v)
  then show ?thesis
    using assms by (auto simp: reference_issues_def view_issues_def split: option.splits if_splits)
next
  case (SService s)
  have "ImmutableConflict \<notin> ic_code ` set here" if "ref_issues av i ref = Inr here" for i ref here
    using that by (auto simp: ref_issues_def bind_pair_eq_Inr bind_result_eq_Inr split: option.splits if_splits)
  then show ?thesis
    using assms traverse_Inr_set_rev
    by (fastforce simp: SService reference_issues_def service_issues_def bind_result_eq_Inr)
qed (use assms in \<open>auto simp: reference_issues_def\<close>)

text \<open>
  A plan reports an immutable conflict for an object exactly when the key is registered and
  the registered document differs from the proposed one by more than the order of its keys.
\<close>

theorem plan_conflict_iff:
  assumes cf: "collision_free env" and ok: "rows_ok env reg" "documents_ok reg"
    and plan: "plan env reg m = Inr p" and i: "i < length (manifest_objects m)"
    and js: "jsonable (spec_json (manifest_objects m ! i))"
  shows "ImmutableConflict \<in> ic_code ` set (op_issues (p_objects p ! i)) \<longleftrightarrow>
    (\<exists>r. find_record reg (spec_key (manifest_objects m ! i)) = Some r \<and>
       canon (spec_json (r_spec r)) \<noteq> canon (spec_json (manifest_objects m ! i)))"
proof -
  let ?o = "manifest_objects m ! i"
  from plan obtain av where "plan_loop env reg av (manifest_objects m) = Inr (p_objects p)"
    by (auto simp: plan_def bind_result_eq_Inr)
  from plan_loop_nth [OF this i] obtain av' refs where
    refs: "reference_issues av' ?o = Inr refs" and "op_issues (p_objects p ! i) = fst (conflict_part env reg ?o) @ refs"
    by (elim exE) (erule plan_object_Inr, blast)
  then have "ImmutableConflict \<in> ic_code ` set (op_issues (p_objects p ! i)) \<longleftrightarrow>
      ImmutableConflict \<in> ic_code ` set (fst (conflict_part env reg ?o))"
    using reference_issues_codes [OF refs] by auto
  also have "\<dots> \<longleftrightarrow> \<not> no_conflict env reg ?o"
    by (auto simp: conflict_part_def no_conflict_def conflict_issue_def split: option.splits)
  also have "\<dots> \<longleftrightarrow> (\<exists>r. find_record reg (spec_key ?o) = Some r \<and>
       canon (spec_json (r_spec r)) \<noteq> canon (spec_json ?o))"
  proof -
    have "r_fingerprint r = fingerprint env (spec_json ?o) \<longleftrightarrow> canon (spec_json (r_spec r)) = canon (spec_json ?o)"
      if "find_record reg (spec_key ?o) = Some r" for r
    proof -
      have "r \<in> set (reg_rows reg)" using records.lookup_SomeD [OF that] by simp
      then show ?thesis using ok cf js by (simp add: rows_ok_def documents_ok_def fingerprint_inj)
    qed
    then show ?thesis by (auto simp: no_conflict_def)
  qed
  finally show ?thesis .
qed

subsection \<open>Accepted objects have their references stored\<close>

lemma backed_mono:
  assumes "\<And>k r. find_record reg k = Some r \<Longrightarrow> find_record reg' k = Some r" "backed reg av"
  shows "backed reg' av"
proof -
  have "has_object reg k n \<Longrightarrow> has_object reg' k n" for k n using has_object_mono [OF assms(1)] .
  then show ?thesis using assms unfolding backed_def by blast
qed

definition recorded :: "pyenv \<Rightarrow> registry \<Rightarrow> object_spec \<Rightarrow> bool" where
  "recorded env reg o' \<longleftrightarrow>
     (\<exists>r. find_record reg (spec_key o') = Some r \<and> r_fingerprint r = fingerprint env (spec_json o'))"

lemma recorded_view:
  assumes "collision_free env" "rows_ok env reg" "documents_ok reg"
    and "recorded env reg (SView v)" "jsonable (view_spec v)"
  shows "\<exists>r w. find_record reg (KFeatureView, v_name v, v_version v) = Some r \<and> r_spec r = SView w \<and>
    feature_names w = feature_names v"
proof -
  from assms(4) obtain r where r: "find_record reg (KFeatureView, v_name v, v_version v) = Some r"
    and fp: "r_fingerprint r = fingerprint env (view_spec v)"
    by (auto simp: recorded_def spec_key_def)
  have mem: "r \<in> set (reg_rows reg)" "record_key r = (KFeatureView, v_name v, v_version v)"
    using records.lookup_SomeD [OF r] by simp_all
  with assms(2) have "spec_key (r_spec r) = (KFeatureView, v_name v, v_version v)"
    and fp': "r_fingerprint r = fingerprint env (spec_json (r_spec r))"
    by (simp_all add: rows_ok_def)
  then obtain w where w: "r_spec r = SView w" using spec_key_kind(5) by blast
  have "jsonable (view_spec w)" using assms(3) mem(1) w by (force simp: documents_ok_def)
  then have "feature_names w = feature_names v"
    using fingerprint_features [OF assms(1), of w v] assms(5) fp fp' w by simp
  with r w show ?thesis by blast
qed

lemma backed_make_available:
  assumes "collision_free env" "rows_ok env reg" "documents_ok reg" "backed reg av"
    and "recorded env reg o'" "jsonable (spec_json o')"
  shows "backed reg (make_available o' av)"
proof (cases o')
  case (SView v)
  then show ?thesis
    using recorded_view [OF assms(1-3), of v] assms(4-6) by (auto simp: backed_def)
next
  case (SService s)
  then show ?thesis using assms(4) by simp
qed (use assms(4,5) in \<open>auto simp: backed_def has_object_def recorded_def spec_key_def\<close>)

lemma ref_issues_none:
  assumes "ref_issues av i ref = Inr []" "backed reg av"
  shows "\<exists>v f. resolves reg ref v f"
proof -
  from assms(1) obtain a f n ver w where
    "split_feature_ref ref = Inr (a, f)" "parse_view_ref a = Inr (n, ver)"
    "av_views av (n, ver) = Some w" "f \<in> set (feature_names w)"
    by (auto simp: ref_issues_def bind_result_eq_Inr split: option.splits if_splits)
  moreover from this assms(2) obtain r v where
    "find_record reg (KFeatureView, n, ver) = Some r" "r_spec r = SView v" "feature_names v = feature_names w"
    unfolding backed_def by blast
  ultimately show ?thesis
    unfolding resolves_def split_feature_ref_Inr parse_view_ref_Inr
    by (intro exI [of _ v] exI [of _ f] exI [of _ n] exI [of _ ver] exI [of _ r]) simp
qed

lemma reference_issues_none:
  assumes iss: "reference_issues av o' = Inr []" and bk: "backed reg av"
  shows "references_stored reg o'"
proof (cases o')
  case (SView v)
  then show ?thesis
    using assms by (auto simp: reference_issues_def view_issues_def references_stored_def backed_def
        stream_stored_def split: option.splits if_splits)
next
  case (SService s)
  have "\<exists>v f. resolves reg ref v f" if ref: "ref \<in> set (s_features s)" for ref
  proof -
    from iss SService obtain iss where
      tr: "traverse (\<lambda>(i, ref). ref_issues av i ref) (enumerate 0 (s_features s)) = Inr iss"
      and none: "concat iss = []"
      by (auto simp: reference_issues_def service_issues_def bind_result_eq_Inr)
    obtain i where "(i, ref) \<in> set (enumerate 0 (s_features s))"
      using ref by (metis add_0 in_set_conv_nth length_enumerate nth_enumerate_eq)
    from traverse_Inr_set [OF tr this] none have "ref_issues av i ref = Inr []" by auto
    then show ?thesis using ref_issues_none bk by blast
  qed
  then show ?thesis by (simp add: SService references_stored_def)
qed (simp_all add: references_stored_def)

lemma accepted_references:
  assumes "collision_free env" "rows_ok env reg'" "documents_ok reg'"
    and "accepted env reg av os" "backed reg' av"
    and "\<forall>o' \<in> set os. recorded env reg' o' \<and> jsonable (spec_json o')"
  shows "\<forall>o' \<in> set os. references_stored reg' o'"
  using assms(4-)
proof (induction os arbitrary: av)
  case (Cons o' os)
  then have "backed reg' (make_available o' av)"
    using backed_make_available [OF assms(1-3)] by simp
  with Cons.IH [of "make_available o' av"] Cons.prems
  have "\<forall>x \<in> set os. references_stored reg' x" by simp
  moreover have "references_stored reg' o'" using Cons.prems reference_issues_none [of av o' reg'] by simp
  ultimately show ?case by simp
qed simp

subsection \<open>Preservation of the invariant\<close>

lemma apply_rows_ok:
  assumes ok: "rows_ok env reg" and app: "apply_manifest env now reg m = Inr (reg', res)"
  shows "rows_ok env reg'"
proof -
  from apply_manifest_Inr [OF app]
  have rows: "reg_rows reg' = reg_rows reg @ new_rows env now (reg_next reg) (to_create reg m)"
    and nxt: "reg_next reg' = reg_next reg + length (to_create reg m)" and uniq: "keys_unique reg'"
    by blast+
  have "distinct (map r_id (reg_rows reg'))"
    using ok by (auto simp: rows rows_ok_def)
  moreover have "r_id r < reg_next reg' \<and> spec_key (r_spec r) = record_key r \<and>
      r_fingerprint r = fingerprint env (spec_json (r_spec r))" if "r \<in> set (reg_rows reg')" for r
  proof (cases "r \<in> set (reg_rows reg)")
    case True
    then show ?thesis using ok nxt by (auto simp: rows_ok_def)
  next
    case False
    then have "r \<in> set (new_rows env now (reg_next reg) (to_create reg m))" using that rows by simp
    then show ?thesis using set_new_rows nxt by fastforce
  qed
  ultimately show ?thesis using uniq by (simp add: rows_ok_def)
qed

lemma apply_recorded:
  assumes app: "apply_manifest env now reg m = Inr (reg', res)" and o': "o' \<in> set (manifest_objects m)"
  shows "recorded env reg' o'"
proof (cases "find_record reg (spec_key o')")
  case (Some r)
  obtain av where "accepted env reg av (manifest_objects m)"
    by (rule apply_manifest_Inr [OF app]) blast
  from accepted_no_conflict [OF this o'] Some have "r_fingerprint r = fingerprint env (spec_json o')"
    by (simp add: no_conflict_def)
  then show ?thesis using apply_appends(3) [OF app Some] by (simp add: recorded_def)
next
  case None
  with o' have "o' \<in> set (to_create reg m)" by (simp add: to_create_def)
  moreover from apply_manifest_Inr [OF app]
  have rows: "reg_rows reg' = reg_rows reg @ new_rows env now (reg_next reg) (to_create reg m)"
    and uniq: "keys_unique reg'" by blast+
  ultimately obtain r where "r \<in> set (new_rows env now (reg_next reg) (to_create reg m))" "r_spec r = o'"
    by (metis imageE list.set_map new_rows_specs)
  then obtain j where "r = new_row env now j o'" "r \<in> set (reg_rows reg')"
    using rows set_new_rows [of r env now "reg_next reg" "to_create reg m"] by auto
  then show ?thesis using uniq by (auto simp: recorded_def find_record_unique)
qed

text \<open>
  C3. Referential integrity: a successful apply keeps the tables well formed and every stored
  reference resolvable. Each view's entity, batch source and stream source is registered, and each
  reference of a service names a registered view that declares the feature.
\<close>

theorem apply_preserves_integrity:
  assumes cf: "collision_free env" and ok: "rows_ok env reg" "refs_ok reg" "documents_ok reg"
    and js: "\<forall>o' \<in> set (manifest_objects m). jsonable (spec_json o')"
    and app: "apply_manifest env now reg m = Inr (reg', res)"
  shows "rows_ok env reg' \<and> refs_ok reg' \<and> documents_ok reg'"
proof -
  note rows = apply_appends(1) [OF app] and mono = apply_appends(3) [OF app]
  have ok': "rows_ok env reg'" using ok(1) app by (rule apply_rows_ok)
  have new: "r_spec r \<in> set (manifest_objects m)"
    if "r \<in> set (new_rows env now (reg_next reg) (to_create reg m))" for r
    using set_new_rows [OF that] by (auto simp: to_create_def)
  have docs: "documents_ok reg'" using ok(3) js new by (auto simp: documents_ok_def rows)
  obtain av where av: "initial_available reg = Inr av" "accepted env reg av (manifest_objects m)"
    by (rule apply_manifest_Inr [OF app]) blast
  have "backed reg' av" using backed_mono [OF mono initial_backed [OF ok(1) av(1)]] .
  then have refs: "\<forall>o' \<in> set (manifest_objects m). references_stored reg' o'"
    using accepted_references [OF cf ok' docs av(2)] apply_recorded [OF app] js by blast
  have "references_stored reg' (r_spec r)" if "r \<in> set (reg_rows reg')" for r
    using that new refs ok(2) references_stored_mono [OF mono] by (auto simp: rows refs_ok_def)
  with ok' docs show ?thesis by (simp add: refs_ok_def)
qed

end
