(* ===== verification/RegistryReapply.thy ===== *)
theory RegistryReapply
  imports RegistryApply
begin

section \<open>Applying a manifest again\<close>

text \<open>
  Totality of the reads behind a plan (stored views, targets, warnings) on well formed tables, and
  the idempotence of \<open>apply\<close>: what was just applied is accepted again as unchanged. Also a
  small registry built by the model, on which concrete runs are evaluated.
\<close>

subsection \<open>Applying twice\<close>

definition av_le :: "available \<Rightarrow> available \<Rightarrow> bool" where
  "av_le a b \<longleftrightarrow> av_entities a \<subseteq> av_entities b \<and> av_batch a \<subseteq> av_batch b \<and>
     av_stream a \<subseteq> av_stream b \<and> av_views a \<subseteq>\<^sub>m av_views b"

lemma make_available_mono: "av_le a b \<Longrightarrow> av_le (make_available o' a) (make_available o' b)"
  by (cases o') (auto simp: av_le_def map_le_def)

lemma ref_issues_mono:
  assumes "av_le a b" "ref_issues a i ref = Inr []"
  shows "ref_issues b i ref = Inr []"
proof -
  from assms(2) obtain s f k w where *: "split_feature_ref ref = Inr (s, f)" "parse_view_ref s = Inr k"
    "av_views a k = Some w" "f \<in> set (feature_names w)"
    by (auto simp: ref_issues_def bind_result_eq_Inr split: option.splits if_splits)
  with assms(1) have "av_views b k = Some w" unfolding av_le_def by (metis map_le_def domI)
  with * show ?thesis by (simp add: ref_issues_def)
qed

lemma traverse_none:
  "(\<exists>iss. traverse f xs = Inr iss \<and> concat iss = []) \<longleftrightarrow> (\<forall>x \<in> set xs. f x = Inr [])"
proof (induction xs)
  case (Cons x xs)
  have "(\<exists>iss. traverse f (x # xs) = Inr iss \<and> concat iss = []) \<longleftrightarrow>
      f x = Inr [] \<and> (\<exists>iss. traverse f xs = Inr iss \<and> concat iss = [])"
    by (auto split: sum.splits)
  with Cons show ?case by simp
qed simp

lemma reference_issues_mono:
  assumes le: "av_le a b" and iss: "reference_issues a o' = Inr []"
  shows "reference_issues b o' = Inr []"
proof (cases o')
  case (SView v)
  then show ?thesis
    using assms by (auto simp: reference_issues_def view_issues_def av_le_def split: option.splits if_splits)
next
  case (SService s)
  let ?f = "\<lambda>av (i, ref). ref_issues av i ref"
  from iss obtain iss where "traverse (?f a) (enumerate 0 (s_features s)) = Inr iss \<and> concat iss = []"
    by (auto simp: SService reference_issues_def service_issues_def bind_result_eq_Inr)
  then have "\<forall>x \<in> set (enumerate 0 (s_features s)). ?f a x = Inr []"
    using traverse_none [of "?f a" "enumerate 0 (s_features s)"] by simp
  then have "\<forall>x \<in> set (enumerate 0 (s_features s)). ?f b x = Inr []"
    using ref_issues_mono [OF le] by (simp add: case_prod_beta')
  then obtain iss' where "traverse (?f b) (enumerate 0 (s_features s)) = Inr iss' \<and> concat iss' = []"
    using traverse_none [of "?f b" "enumerate 0 (s_features s)"] by auto
  then show ?thesis by (simp add: SService reference_issues_def service_issues_def)
qed (simp_all add: reference_issues_def)

lemma accepted_mono:
  assumes "accepted env reg a os" "av_le a b" "\<forall>o' \<in> set os. no_conflict env reg' o'"
  shows "accepted env reg' b os"
  using assms
proof (induction os arbitrary: a b)
  case (Cons o' os)
  then have "accepted env reg' (make_available o' b) os"
    using make_available_mono [of a b o'] Cons.IH [of "make_available o' a" "make_available o' b"] by simp
  moreover have "reference_issues b o' = Inr []"
    using Cons.prems reference_issues_mono [of a b o'] by simp
  ultimately show ?case using Cons.prems by simp
qed simp

lemma recorded_no_conflict: "recorded env reg o' \<Longrightarrow> no_conflict env reg o'"
  by (auto simp: recorded_def no_conflict_def)

lemma names_of_kind_mono:
  "reg_rows reg' = reg_rows reg @ new \<Longrightarrow> names_of_kind k reg \<subseteq> names_of_kind k reg'"
  by (auto simp: names_of_kind_def)

lemma kind_view:
  "rows_ok env reg \<Longrightarrow> r \<in> set (reg_rows reg) \<Longrightarrow> r_kind r = KFeatureView \<Longrightarrow>
     \<exists>v. r_spec r = SView v \<and> v_name v = r_name r \<and> v_version v = r_version r"
  using spec_key_kind(5) by (fastforce simp: rows_ok_def record_key_def)

lemma view_row:
  assumes ok: "rows_ok env reg" and r: "find_record reg (KFeatureView, n, ver) = Some r"
  shows "\<exists>v. r_spec r = SView v \<and> v_name v = n \<and> v_version v = ver"
  using kind_view [OF ok] records.lookup_SomeD [OF r] by (auto simp: record_key_def)

lemma traverse_total: "(\<And>x. x \<in> set xs \<Longrightarrow> \<exists>y. f x = Inr y) \<Longrightarrow> \<exists>ys. traverse f xs = Inr ys"
  by (induction xs) fastforce+

lemma stored_views_total:
  assumes "rows_ok env reg"
  shows "\<exists>vs. stored_views reg = Inr vs"
  unfolding stored_views_def
proof (rule traverse_total)
  fix r assume "r \<in> set (filter (\<lambda>r. r_kind r = KFeatureView) (reg_rows reg))"
  then obtain v where "r_spec r = SView v" using kind_view [OF assms] by auto
  then show "\<exists>y. bind_result (as_view (r_spec r)) (\<lambda>v. Inr ((r_name r, r_version r), v)) = Inr y"
    by (simp add: as_view_def)
qed

lemma stored_views_lookup:
  assumes ok: "rows_ok env reg" and vs: "stored_views reg = Inr vs"
  shows "map_of (rev vs) k = Some w \<longleftrightarrow>
    (\<exists>r. find_record reg (KFeatureView, k) = Some r \<and> r_spec r = SView w)"
proof
  assume "\<exists>r. find_record reg (KFeatureView, k) = Some r \<and> r_spec r = SView w"
  then obtain r where r: "find_record reg (KFeatureView, k) = Some r" "r_spec r = SView w" by blast
  then have mem: "r \<in> set (reg_rows reg)" "r_kind r = KFeatureView" "(r_name r, r_version r) = k"
    using records.lookup_SomeD [OF r(1)] by (auto simp: record_key_def)
  then have "(k, w) \<in> set vs"
    using traverse_Inr_set [OF vs [unfolded stored_views_def], of r] r(2) by (auto simp: as_view_def)
  then obtain w' where w': "map_of (rev vs) k = Some w'"
    by (metis set_rev weak_map_of_SomeI)
  then show "map_of (rev vs) k = Some w" using stored_views_Inr [OF ok vs w'] r by simp
qed (use stored_views_Inr [OF ok vs] in blast)

lemma initial_available_mono:
  assumes "rows_ok env reg" "rows_ok env reg'" "reg_rows reg' = reg_rows reg @ new"
    and "initial_available reg = Inr av"
  shows "\<exists>av'. initial_available reg' = Inr av' \<and> av_le av av'"
proof -
  obtain vs where vs: "stored_views reg = Inr vs" using stored_views_total [OF assms(1)] by blast
  obtain vs' where vs': "stored_views reg' = Inr vs'" using stored_views_total [OF assms(2)] by blast
  have "map_of (rev vs) \<subseteq>\<^sub>m map_of (rev vs')"
  proof (unfold map_le_def, intro ballI)
    fix k assume "k \<in> dom (map_of (rev vs))"
    then obtain w where w: "map_of (rev vs) k = Some w" by blast
    then have "map_of (rev vs') k = Some w"
      using find_record_prefix [OF assms(3)]
      unfolding stored_views_lookup [OF assms(1) vs] stored_views_lookup [OF assms(2) vs'] by blast
    with w show "map_of (rev vs) k = map_of (rev vs') k" by simp
  qed
  then show ?thesis
    using vs vs' assms(4) names_of_kind_mono [OF assms(3)]
    by (simp add: initial_available_def av_le_def) (metis (mono_tags, lifting) available.select_convs)
qed

lemma record_for_target_errors:
  assumes "rows_ok env reg" "valid_target t" "record_for_target reg t = Inl e"
  shows "\<exists>m. e = RegistryNotFoundError m"
proof (cases "get_record reg (t_kind t) (t_name t) (version_text (t_version t))")
  case (Inl e')
  then show ?thesis using assms(3) get_record_Inl by (auto simp: record_for_target_def)
next
  case (Inr r)
  show ?thesis
  proof (cases "t_feature t")
    case None
    then show ?thesis using Inr assms(3) by (simp add: record_for_target_def)
  next
    case (Some f)
    then have "t_kind t = KFeatureView" using valid_targetD(3) [OF assms(2)] by fastforce
    then obtain v where "r_spec r = SView v" using view_row [OF assms(1), of "t_name t" "version_text (t_version t)" r] Inr by (auto simp: get_record_Inr)
    then show ?thesis using Inr Some assms(3) by (auto simp: record_for_target_def as_view_def split: if_splits)
  qed
qed

lemma collect_warnings_total:
  assumes "rows_ok env reg" "\<forall>t \<in> set ts. valid_target t"
  shows "\<exists>d'. collect_warnings reg ts d = Inr d'"
  using assms(2)
proof (induction ts arbitrary: d)
  case (Cons t ts)
  show ?case
  proof (cases "record_for_target reg t")
    case (Inl e)
    then obtain m where "e = RegistryNotFoundError m" using record_for_target_errors [OF assms(1)] Cons.prems by auto
    then show ?thesis using Inl Cons by simp
  qed (use Cons in auto)
qed simp

lemma warnings_total:
  "rows_ok env reg \<Longrightarrow> \<forall>t \<in> set ts. valid_target t \<Longrightarrow> \<exists>ws. warnings_for_targets reg ts = Inr ws"
  using collect_warnings_total [of env reg ts "[]"] by (auto simp: warnings_for_targets_def)

lemma target_list_valid:
  "mk_target k n ver f = Inr t \<Longrightarrow> valid_target t"
  using mk_target_eq_Inr by blast

lemma source_targets_valid: "source_targets v = Inr ts \<Longrightarrow> \<forall>t \<in> set ts. valid_target t"
  by (auto simp: source_targets_def bind_result_eq_Inr dest: target_list_valid)

lemma stream_targets_valid: "stream_targets v = Inr ts \<Longrightarrow> \<forall>t \<in> set ts. valid_target t"
  by (auto simp: stream_targets_def bind_result_eq_Inr dest: target_list_valid split: option.splits if_splits)

lemma traverse_concat_valid:
  assumes "traverse f xs = Inr tss" "\<And>x ts. x \<in> set xs \<Longrightarrow> f x = Inr ts \<Longrightarrow> \<forall>t \<in> set ts. P t"
  shows "\<forall>t \<in> set (concat tss). P t"
  using assms traverse_Inr_set_rev by fastforce

lemma traverse_each_valid:
  assumes "traverse f xs = Inr ts" "\<And>x t. x \<in> set xs \<Longrightarrow> f x = Inr t \<Longrightarrow> P t"
  shows "\<forall>t \<in> set ts. P t"
  using assms traverse_Inr_set_rev by fastforce

lemma view_targets_valid:
  assumes "view_targets v = Inr ts"
  shows "\<forall>t \<in> set ts. valid_target t"
proof -
  let ?f = "\<lambda>f. mk_target KFeatureView (v_name v) (Some (v_version v)) (Some f)"
  from assms obtain t xs ys zs where "mk_target KFeatureView (v_name v) (Some (v_version v)) None = Inr t"
    "source_targets v = Inr xs" "stream_targets v = Inr zs"
    and ys: "traverse ?f (feature_names v) = Inr ys" and ts: "ts = t # xs @ ys @ zs"
    unfolding view_targets_def bind_result_eq_Inr by blast
  note parts = this(1) [THEN target_list_valid] this(2) [THEN source_targets_valid]
    this(3) [THEN stream_targets_valid]
  have "\<forall>t \<in> set ys. valid_target t"
    using ys by (rule traverse_each_valid) (rule target_list_valid)
  with parts show ?thesis unfolding ts by (simp add: ball_Un)
qed

lemma ref_targets_valid: "ref_targets ref = Inr ts \<Longrightarrow> \<forall>t \<in> set ts. valid_target t"
  by (auto simp: ref_targets_def bind_result_eq_Inr dest: target_list_valid)

lemma all_ref_targets_valid:
  "traverse ref_targets refs = Inr tss \<Longrightarrow> \<forall>t \<in> set (concat tss). valid_target t"
  by (erule traverse_concat_valid) (rule ref_targets_valid)

lemma service_targets_valid:
  assumes "service_targets s = Inr ts"
  shows "\<forall>t \<in> set ts. valid_target t"
proof -
  from assms obtain t tss where "mk_target KFeatureService (s_name s) None None = Inr t"
    "traverse ref_targets (s_features s) = Inr tss" "ts = t # concat tss"
    by (auto simp: service_targets_def bind_result_eq_Inr)
  then show ?thesis using all_ref_targets_valid target_list_valid by simp
qed

lemma all_view_targets_valid:
  "traverse view_targets vs = Inr tss \<Longrightarrow> \<forall>t \<in> set (concat tss). valid_target t"
  by (erule traverse_concat_valid) (rule view_targets_valid)

lemma all_service_targets_valid:
  "traverse service_targets vs = Inr tss \<Longrightarrow> \<forall>t \<in> set (concat tss). valid_target t"
  by (erule traverse_concat_valid) (rule service_targets_valid)

lemma named_targets_valid: "named_targets k ns = Inr ts \<Longrightarrow> \<forall>t \<in> set ts. valid_target t"
  unfolding named_targets_def by (erule traverse_each_valid) (rule target_list_valid)

lemma manifest_targets_valid:
  assumes "manifest_targets m = Inr ts"
  shows "\<forall>t \<in> set ts. valid_target t"
proof -
  from assms obtain es bs ss vs fs where
    "named_targets KEntity (map e_name (m_entities m)) = Inr es"
    "named_targets KBatchSource (map bs_name (m_batch_sources m)) = Inr bs"
    "named_targets KStreamSource (map ss_name (m_stream_sources m)) = Inr ss"
    "traverse view_targets (m_feature_views m) = Inr vs"
    "traverse service_targets (m_feature_services m) = Inr fs"
    and ts: "ts = es @ bs @ ss @ concat vs @ concat fs"
    unfolding manifest_targets_def bind_result_eq_Inr by blast
  note parts = this(1-3) [THEN named_targets_valid] this(4) [THEN all_view_targets_valid]
    this(5) [THEN all_service_targets_valid]
  from parts show ?thesis unfolding ts set_append ball_Un by (intro conjI)
qed

lemma stored_ref_targets_valid:
  assumes "stored_ref_targets reg ref = Inr ts"
  shows "\<forall>t \<in> set ts. valid_target t"
proof -
  from assms obtain a f where s: "split_feature_ref ref = Inr (a, f)"
    by (auto simp: stored_ref_targets_def bind_result_eq_Inr)
  show ?thesis
  proof (cases "feature_view_of reg a")
    case (Inl e)
    then show ?thesis using assms s by (cases e) (auto simp: stored_ref_targets_def)
  next
    case (Inr v)
    then obtain xs ys where "source_targets v = Inr xs" "stream_targets v = Inr ys" "ts = xs @ ys"
      using assms s by (auto simp: stored_ref_targets_def bind_result_eq_Inr)
    then show ?thesis using source_targets_valid stream_targets_valid by (simp add: ball_Un)
  qed
qed

lemma all_stored_targets_valid:
  "traverse (stored_ref_targets reg) refs = Inr tss \<Longrightarrow> \<forall>t \<in> set (concat tss). valid_target t"
  by (erule traverse_concat_valid) (rule stored_ref_targets_valid)

lemma warning_targets_valid:
  assumes "manifest_warning_targets reg m = Inr ts"
  shows "\<forall>t \<in> set ts. valid_target t"
proof -
  from assms obtain xs tss where "manifest_targets m = Inr xs"
    "traverse (stored_ref_targets reg) (manifest_refs m) = Inr tss" and ts: "ts = xs @ concat tss"
    unfolding manifest_warning_targets_def bind_result_eq_Inr by blast
  from this(1) [THEN manifest_targets_valid] this(2) [THEN all_stored_targets_valid]
  show ?thesis unfolding ts set_append ball_Un by (intro conjI)
qed

text \<open>Reading a reference after the apply: the view is an old one, or one of the manifest.\<close>

lemma feature_view_of_cases:
  assumes "rows_ok env reg"
  shows "(\<exists>e. parse_view_ref ref = Inl e) \<or>
    (\<exists>n ver. parse_view_ref ref = Inr (n, ver) \<and>
      (case find_record reg (KFeatureView, n, ver) of
         None \<Rightarrow> \<exists>m. feature_view_of reg ref = Inl (RegistryNotFoundError m)
       | Some r \<Rightarrow> \<exists>v. r_spec r = SView v \<and> feature_view_of reg ref = Inr v))"
proof (cases "parse_view_ref ref")
  case (Inr k)
  obtain n ver where k: "k = (n, ver)" by fastforce
  show ?thesis
  proof (cases "find_record reg (KFeatureView, n, ver)")
    case None
    then show ?thesis using Inr k by (simp add: feature_view_of_def get_record_def)
  next
    case (Some r)
    then obtain v where "r_spec r = SView v" using view_row [OF assms] by blast
    then show ?thesis using Inr k Some by (simp add: feature_view_of_def get_record_def as_view_def)
  qed
qed blast

lemma stored_ref_targets_mono:
  assumes ok: "rows_ok env reg" "rows_ok env reg'"
    and rows: "reg_rows reg' = reg_rows reg @ new"
    and new: "\<And>r v. r \<in> set new \<Longrightarrow> r_spec r = SView v \<Longrightarrow>
      (\<exists>ts. source_targets v = Inr ts) \<and> (\<exists>ts. stream_targets v = Inr ts)"
    and old: "stored_ref_targets reg ref = Inr ts"
  shows "\<exists>ts'. stored_ref_targets reg' ref = Inr ts'"
proof -
  from old obtain a f where s: "split_feature_ref ref = Inr (a, f)"
    by (auto simp: stored_ref_targets_def bind_result_eq_Inr)
  show ?thesis
  proof (cases "parse_view_ref a")
    case (Inl e)
    then have "feature_view_of reg a = Inl e" "\<exists>m. e = ValueError m"
      by (auto simp: feature_view_of_def parse_view_ref_def split: option.splits)
    then show ?thesis using old s by (auto simp: stored_ref_targets_def)
  next
    case (Inr k)
    obtain n ver where k: "k = (n, ver)" by fastforce
    show ?thesis
    proof (cases "find_record reg' (KFeatureView, n, ver)")
      case None
      then show ?thesis
        using feature_view_of_cases [OF ok(2), of a] Inr k s by (auto simp: stored_ref_targets_def)
    next
      case (Some r)
      then obtain v where v: "r_spec r = SView v" "feature_view_of reg' a = Inr v"
        using feature_view_of_cases [OF ok(2), of a] Inr k by auto
      have "(\<exists>ts. source_targets v = Inr ts) \<and> (\<exists>ts. stream_targets v = Inr ts)"
      proof (cases "find_record reg (KFeatureView, n, ver)")
        case None
        have "r \<in> set (reg_rows reg')" "record_key r = (KFeatureView, n, ver)"
          using records.lookup_SomeD [OF Some] by simp_all
        moreover have "r \<notin> set (reg_rows reg)"
          using None records.lookup_None [of reg "(KFeatureView, n, ver)"] calculation(2) by force
        ultimately have "r \<in> set new" using rows by simp
        then show ?thesis using new v by blast
      next
        case (Some r')
        then have "r' = r" using find_record_prefix [OF rows Some] \<open>find_record reg' _ = Some r\<close> by simp
        then have "feature_view_of reg a = Inr v"
          using feature_view_of_cases [OF ok(1), of a] Inr k Some v by auto
        then show ?thesis using old s by (auto simp: stored_ref_targets_def bind_result_eq_Inr)
      qed
      then show ?thesis using s v by (auto simp: stored_ref_targets_def)
    qed
  qed
qed

lemma view_targets_sources:
  "view_targets v = Inr ts \<Longrightarrow> (\<exists>ts. source_targets v = Inr ts) \<and> (\<exists>ts. stream_targets v = Inr ts)"
  by (auto simp: view_targets_def bind_result_eq_Inr)

lemma warning_targets_after:
  assumes ok: "rows_ok env reg" and app: "apply_manifest env now reg m = Inr (reg', res)"
  shows "\<exists>ts. manifest_warning_targets reg' m = Inr ts"
proof -
  obtain p where "plan env reg m = Inr p" by (rule apply_manifest_Inr [OF app]) blast
  then obtain ts tss where ts: "manifest_targets m = Inr ts"
    and tss: "traverse (stored_ref_targets reg) (manifest_refs m) = Inr tss"
    by (auto simp: plan_def manifest_warning_targets_def bind_result_eq_Inr)
  from ts obtain vts where vts: "traverse view_targets (m_feature_views m) = Inr vts"
    by (auto simp: manifest_targets_def bind_result_eq_Inr)
  have new: "(\<exists>ts. source_targets v = Inr ts) \<and> (\<exists>ts. stream_targets v = Inr ts)"
    if r: "r \<in> set (new_rows env now (reg_next reg) (to_create reg m))" and v: "r_spec r = SView v" for r v
  proof -
    have "SView v \<in> set (manifest_objects m)" using set_new_rows [OF r] v by (auto simp: to_create_def)
    then have "v \<in> set (m_feature_views m)" by (auto simp: manifest_objects_def)
    then show ?thesis using traverse_Inr_set [OF vts] view_targets_sources by blast
  qed
  have "\<exists>ts'. stored_ref_targets reg' ref = Inr ts'" if "ref \<in> set (manifest_refs m)" for ref
  proof -
    obtain ts where old: "stored_ref_targets reg ref = Inr ts"
      using traverse_Inr_set [OF tss \<open>ref \<in> _\<close>] by blast
    show ?thesis
      by (rule stored_ref_targets_mono [OF ok apply_rows_ok [OF ok app] apply_appends(1) [OF app]])
        (use new old in blast)+
  qed
  then obtain tss' where "traverse (stored_ref_targets reg') (manifest_refs m) = Inr tss'"
    using traverse_total by blast
  with ts show ?thesis by (simp add: manifest_warning_targets_def)
qed

lemma apply_again:
  assumes ok: "rows_ok env reg" and app: "apply_manifest env now reg m = Inr (reg', res)"
  shows "\<exists>res'. apply_manifest env now' reg' m = Inr (reg', res') \<and> ar_created res' = 0 \<and>
    ar_unchanged res' = length (manifest_objects m)"
proof -
  let ?os = "manifest_objects m"
  have ok': "rows_ok env reg'" by (rule apply_rows_ok [OF ok app])
  obtain av where av: "initial_available reg = Inr av" "accepted env reg av ?os"
    by (rule apply_manifest_Inr [OF app]) blast
  obtain av' where av': "initial_available reg' = Inr av'" "av_le av av'"
    using initial_available_mono [OF ok ok' apply_appends(1) [OF app] av(1)] by blast
  have rec: "\<forall>o' \<in> set ?os. recorded env reg' o'" using apply_recorded [OF app] by blast
  then have acc: "accepted env reg' av' ?os"
    using accepted_mono [OF av(2) av'(2)] recorded_no_conflict by blast
  have none: "filter (\<lambda>o'. find_record reg' (spec_key o') = None) ?os = []"
    using rec by (auto simp: filter_empty_conv recorded_def)
  have all: "filter (\<lambda>o'. find_record reg' (spec_key o') \<noteq> None) ?os = ?os"
    using rec by (auto simp: filter_id_conv recorded_def)
  let ?ps = "map (accepted_plan reg') ?os"
  have loop: "plan_loop env reg' av' ?os = Inr ?ps" "rejected_plans ?ps = []"
    using plan_loop_accepts [of env reg' av' ?os ?ps] acc by blast+
  obtain ts where ts: "manifest_warning_targets reg' m = Inr ts"
    using warning_targets_after [OF ok app] by blast
  obtain ws where ws: "warnings_for_targets reg' ts = Inr ws"
    using warnings_total [OF ok' warning_targets_valid [OF ts]] by blast
  have "created_objects ?ps ?os = []" "count_status Created ?ps = 0" "count_status Unchanged ?ps = length ?os"
    using accepted_plans_objects [of reg' ?os] none all by simp_all
  moreover have "keys_unique reg'" using ok' by (simp add: rows_ok_def)
  ultimately show ?thesis
    using av' loop ts ws by (simp add: apply_manifest_def plan_def)
qed

text \<open>
  C4. Applying a manifest that was just applied succeeds, creates nothing, reports every object as
  unchanged and leaves both tables exactly as they were.
\<close>

theorem apply_idempotent:
  assumes "rows_ok env reg" "apply_manifest env now reg m = Inr (reg', res)"
  shows "\<exists>res'. apply_manifest env now' reg' m = Inr (reg', res') \<and> ar_created res' = 0 \<and>
    ar_unchanged res' = length (manifest_objects m)"
  using assms by (rule apply_again)


subsection \<open>A concrete registry\<close>

definition demo_view :: feature_view where
  "demo_view = \<lparr>v_name = ''spend'', v_version = ''1.0.0'', v_entity = ''user'',
     v_features = [\<lparr>f_name = ''total'', f_dtype = TFloat64, f_description = [], f_quality = None\<rparr>],
     v_batch_source = ''orders'', v_batch_sql = ''select 1'', v_stream_source = None,
     v_ttl_seconds = Some 3600, v_description = [], v_quality_policy = None\<rparr>"

definition demo_manifest :: manifest where
  "demo_manifest = \<lparr>m_entities = [\<lparr>e_name = ''user'', e_join_keys = [(''user_id'', TString)]\<rparr>,
       \<lparr>e_name = ''account'', e_join_keys = [(''account_id'', TString)]\<rparr>],
     m_batch_sources = [\<lparr>bs_name = ''orders'', bs_uri = ''data'', bs_timestamp_field = ''ts''\<rparr>],
     m_stream_sources = [], m_feature_views = [demo_view],
     m_feature_services = [\<lparr>s_name = ''checkout'', s_features = [''spend@1.0.0:total''], s_description = []\<rparr>]\<rparr>"

definition demo_registry :: registry where
  "demo_registry = fold (insert_object demo_env (Aware 0 0)) (manifest_objects demo_manifest) empty_registry"

lemmas name_eval = name_ok_def name_char_def is_lower_def is_digit_def version_ok_def
  version_part_ok_def digits_ok_def mk_target_def

lemmas target_eval = manifest_targets_def named_targets_def view_targets_def source_targets_def
  stream_targets_def feature_names_def service_targets_def ref_targets_def split_feature_ref_def
  rsplit_once_def parse_view_ref_def manifest_warning_targets_def manifest_refs_def
  stored_ref_targets_def feature_view_of_def

lemmas plan_eval = plan_def initial_available_def names_of_kind_def stored_views_def
  manifest_objects_def plan_object_def conflict_part_def find_record_def reference_issues_def
  view_issues_def service_issues_def ref_issues_def spec_key_def count_status_def
  warnings_for_targets_def record_for_target_def get_record_def apply_manifest_def
  rejected_plans_def created_objects_def

definition demo_result :: apply_result where
  "demo_result = \<lparr>ar_fingerprint = manifest_fingerprint demo_env demo_manifest, ar_created = 5,
     ar_unchanged = 0, ar_warnings = []\<rparr>"

lemma demo_rows:
  "reg_rows demo_registry = new_rows demo_env (Aware 0 0) 0 (manifest_objects demo_manifest)"
  "reg_lives demo_registry = []" "reg_next demo_registry = 5"
  by (simp_all add: demo_registry_def fold_insert_object empty_registry_def)
   (simp_all add: manifest_objects_def demo_manifest_def)

lemma demo_keys_unique: "keys_unique demo_registry"
  by (simp add: keys_unique_def demo_rows manifest_objects_def demo_manifest_def spec_key_def)

lemma demo_plan: "\<exists>p. plan demo_env empty_registry demo_manifest = Inr p \<and>
   p_objects p = map (accepted_plan empty_registry) (manifest_objects demo_manifest) \<and> p_warnings p = []
 \<and> p_fingerprint p = manifest_fingerprint demo_env demo_manifest"
  by (simp add: plan_eval target_eval name_eval demo_manifest_def demo_view_def empty_registry_def accepted_plan_def fresh_status_def)


lemma demo_to_create: "to_create empty_registry m = manifest_objects m"
  by (simp add: to_create_def empty_registry_def find_record_def)

lemma demo_apply: "apply_manifest demo_env (Aware 0 0) empty_registry demo_manifest = Inr (demo_registry, demo_result)"
proof -
  obtain p where p: "plan demo_env empty_registry demo_manifest = Inr p"
    "p_objects p = map (accepted_plan empty_registry) (manifest_objects demo_manifest)" "p_warnings p = []"
    "p_fingerprint p = manifest_fingerprint demo_env demo_manifest"
    using demo_plan by blast
  have counts: "p_created p = count_status Created (p_objects p)"
    "p_unchanged p = count_status Unchanged (p_objects p)"
    using p(1) by (auto simp: plan_def bind_result_eq_Inr)
  have objs: "length (manifest_objects demo_manifest) = 5"
    by (simp add: manifest_objects_def demo_manifest_def)
  have all: "filter (\<lambda>o'. find_record empty_registry (spec_key o') = None) (manifest_objects demo_manifest)
      = manifest_objects demo_manifest"
    "filter (\<lambda>o'. find_record empty_registry (spec_key o') \<noteq> None) (manifest_objects demo_manifest) = []"
    by (simp_all add: empty_registry_def find_record_def)
  have "rejected_plans (p_objects p) = []"
    unfolding p(2) by (auto simp: rejected_plans_def accepted_plan_def fresh_status_def filter_empty_conv)
  then show ?thesis
    using p counts accepted_plans_objects [of empty_registry "manifest_objects demo_manifest"] all objs
      demo_keys_unique
    by (simp add: apply_manifest_def demo_registry_def demo_result_def)
qed

lemma demo_ok: "rows_ok demo_env demo_registry"
  using apply_rows_ok [OF empty_registry_ok(1) demo_apply] .

lemma demo_jsonable:
  "\<forall>o' \<in> set (manifest_objects demo_manifest). jsonable (spec_json o')"
  by (simp add: manifest_objects_def demo_manifest_def demo_view_def entity_spec_def
      batch_source_spec_def view_spec_def service_spec_def feature_spec_def opt_str_def opt_int_def)

lemma demo_documents: "documents_ok demo_registry" "documents_ok empty_registry"
  using demo_jsonable by (auto simp: documents_ok_def demo_rows empty_registry_def dest: set_new_rows)

lemma resolve_demo: "resolve_features demo_registry [] (Some ''checkout'') = Inr [''spend@1.0.0:total'']"
  by (simp add: resolve_features_def requested_refs_def feature_service_of_def get_record_def find_record_def
 demo_rows manifest_objects_def demo_manifest_def demo_view_def spec_key_def as_service_def resolve_ref_def split_feature_ref_def rsplit_once_def
 parse_view_ref_def feature_view_of_def as_view_def feature_names_def)

subsection \<open>The theorems at concrete registries\<close>

lemma apply_keeps_rows_witness:
  "apply_manifest demo_env (Aware 0 0) empty_registry demo_manifest = Inr (demo_registry, demo_result) \<and>
   (\<exists>new. reg_rows demo_registry = new \<and> map r_spec new = manifest_objects demo_manifest)"
  using apply_keeps_rows [OF demo_apply] demo_apply unfolding demo_to_create
  by (simp add: empty_registry_def [THEN arg_cong, of reg_rows])

definition demo_changed :: manifest where
  "demo_changed = demo_manifest\<lparr>m_entities := [\<lparr>e_name = ''user'', e_join_keys = [(''user_id'', TInt64)]\<rparr>]\<rparr>"

lemma apply_rejects_change_witness:
  "\<exists>e. apply_manifest demo_env (Aware 0 0) demo_registry demo_changed = Inl e"
proof (rule apply_rejects_change)
  let ?o = "SEntity \<lparr>e_name = ''user'', e_join_keys = [(''user_id'', TInt64)]\<rparr>"
  let ?old = "SEntity \<lparr>e_name = ''user'', e_join_keys = [(''user_id'', TString)]\<rparr>"
  show "?o \<in> set (manifest_objects demo_changed)" by (simp add: demo_changed_def manifest_objects_def)
  show "find_record demo_registry (spec_key ?o) = Some (new_row demo_env (Aware 0 0) 0 ?old)"
    by (simp add: find_record_def demo_rows manifest_objects_def demo_manifest_def spec_key_def)
  have "canon (spec_json ?old) \<noteq> canon (spec_json ?o)" by (simp add: entity_spec_def)
  then show "r_fingerprint (new_row demo_env (Aware 0 0) 0 ?old) \<noteq> fingerprint demo_env (spec_json ?o)"
    by (simp add: fingerprint_inj entity_spec_def)
qed

lemma apply_preserves_integrity_witness:
  "rows_ok demo_env demo_registry \<and> refs_ok demo_registry \<and> documents_ok demo_registry"
  using apply_preserves_integrity [OF demo_collision_free empty_registry_ok demo_documents(2) demo_jsonable demo_apply] .

lemma demo_size: "length (manifest_objects demo_manifest) = 5"
  by (simp add: manifest_objects_def demo_manifest_def)

lemma apply_idempotent_witness:
  "\<exists>res'. apply_manifest demo_env (Aware 5 0) demo_registry demo_manifest = Inr (demo_registry, res') \<and>
     ar_created res' = 0 \<and> ar_unchanged res' = 5"
  using apply_idempotent [OF empty_registry_ok(1) demo_apply, of "Aware 5 0"]
  unfolding demo_size .

lemma plan_conflict_iff_witness:
  "\<exists>p. plan demo_env demo_registry demo_manifest = Inr p \<and>
     ImmutableConflict \<notin> ic_code ` set (op_issues (p_objects p ! 0))"
proof -
  obtain res' where "apply_manifest demo_env (Aware 0 0) demo_registry demo_manifest = Inr (demo_registry, res')"
    using apply_again [OF empty_registry_ok(1) demo_apply] by blast
  then obtain p where p: "plan demo_env demo_registry demo_manifest = Inr p"
    by (rule apply_manifest_Inr) blast
  have i: "0 < length (manifest_objects demo_manifest)"
    and key: "spec_key (manifest_objects demo_manifest ! 0) = (KEntity, ''user'', [])"
    by (simp_all add: manifest_objects_def demo_manifest_def spec_key_def)
  have "find_record demo_registry (KEntity, ''user'', []) =
      Some (new_row demo_env (Aware 0 0) 0 (manifest_objects demo_manifest ! 0))"
    by (simp add: find_record_def demo_rows manifest_objects_def demo_manifest_def spec_key_def)
  then show ?thesis
    using plan_conflict_iff [OF demo_collision_free demo_ok demo_documents(1) p i] i demo_jsonable key p
    by (metis new_row_simps(4) nth_mem option.inject)
qed

end
