(* ===== verification/RegistryLifecycle.thy ===== *)
theory RegistryLifecycle
  imports RegistryReapply
begin

section \<open>Metadata and deprecation\<close>

text \<open>
  The mutating operations on lifecycle rows: \<open>patch_metadata\<close>, \<open>deprecate\<close> with
  \<open>_validate_replacement\<close>, and \<open>reactivate\<close>. Each returns the tables after its commit
  together with the descriptor it reads back, because the commit precedes the read. The walk along
  the replacement chain is a recursive function whose termination is proved: every visited target
  has a row and a row set is finite.
\<close>

subsection \<open>Patching metadata\<close>

text \<open>A field of the patch is absent (\<open>None\<close>), present as null, or present with a value.\<close>

record metadata_patch =
  mp_owners :: "string list option option"
  mp_tags :: "(string \<times> string) list option option"
  mp_links :: "string list option option"

definition present :: "'a option option \<Rightarrow> 'a option" where
  "present x = (case x of None \<Rightarrow> None | Some y \<Rightarrow> y)"

definition validate_patch :: "pyenv \<Rightarrow> metadata_patch \<Rightarrow> unit result" where
  "validate_patch env p =
     (if mp_owners p = None \<and> mp_tags p = None \<and> mp_links p = None
      then Inl (ValidationError ''metadata patch must set at least one field'')
      else validate_metadata_values env (present (mp_owners p)) (present (mp_tags p)) (present (mp_links p)))"

definition patched :: "'a list option option \<Rightarrow> 'a list \<Rightarrow> 'a list" where
  "patched x old = (case x of None \<Rightarrow> old | Some None \<Rightarrow> [] | Some (Some new) \<Rightarrow> new)"

definition patch_life :: "metadata_patch \<Rightarrow> datetime \<Rightarrow> lifecycle \<Rightarrow> lifecycle" where
  "patch_life p now l = l\<lparr>l_owners := patched (mp_owners p) (l_owners l),
     l_tags := patched (mp_tags p) (l_tags l), l_links := patched (mp_links p) (l_links l),
     l_updated := now\<rparr>"

definition new_life :: "nat \<Rightarrow> string option \<Rightarrow> datetime \<Rightarrow> lifecycle" where
  "new_life rid f now = \<lparr>l_record = rid, l_feature = f, l_owners = [], l_tags = [], l_links = [],
     l_status = Active, l_deprecated_at = None, l_message = None, l_replacement = None,
     l_updated = now\<rparr>"

text \<open>Create the lifecycle row of a target if it has none, then change it, and commit.\<close>

definition update_life :: "life_key \<Rightarrow> (lifecycle \<Rightarrow> lifecycle) \<Rightarrow> registry \<Rightarrow> registry" where
  "update_life k f reg = reg\<lparr>reg_lives := sql_update (\<lambda>l. life_key l = k) f (reg_lives reg)\<rparr>"

definition put_life :: "nat \<Rightarrow> string option \<Rightarrow> datetime \<Rightarrow> (lifecycle \<Rightarrow> lifecycle) \<Rightarrow> registry \<Rightarrow> registry" where
  "put_life rid feat now f reg =
     (case find_life reg (rid, feat) of
        None \<Rightarrow> add_life (f (new_life rid feat now)) reg
      | Some _ \<Rightarrow> update_life (rid, feat) f reg)"

definition patch_metadata ::
    "pyenv \<Rightarrow> datetime \<Rightarrow> registry \<Rightarrow> target \<Rightarrow> metadata_patch \<Rightarrow> registry \<times> descriptor result" where
  "patch_metadata env now reg t p =
     (case record_for_target reg t of
        Inl e \<Rightarrow> (reg, Inl e)
      | Inr r \<Rightarrow>
          let reg' = put_life (r_id r) (t_feature t) now (patch_life p now) reg
          in (reg', describe_record env reg' t r))"

subsection \<open>The replacement chain\<close>

text \<open>The references of every target that has a row.\<close>

definition row_ref :: "registry_record \<Rightarrow> string option \<Rightarrow> string" where
  "row_ref r f = kind_str (r_kind r) @ CHR '':'' # r_name r
     @ suffix_of (CHR ''@'') (Some (r_version r)) @ suffix_of (CHR '':'') f"

definition row_features :: "registry_record \<Rightarrow> string option list" where
  "row_features r = None # (case r_spec r of SView v \<Rightarrow> map Some (feature_names v) | _ \<Rightarrow> [])"

definition known_refs :: "registry \<Rightarrow> string list" where
  "known_refs reg = concat (map (\<lambda>r. map (row_ref r) (row_features r)) (reg_rows reg))"

lemma target_ref_known:
  assumes "record_for_target reg t = Inr r"
  shows "target_ref t \<in> set (known_refs reg)"
proof -
  from assms have r: "r \<in> set (reg_rows reg)" "r_kind r = t_kind t" "r_name r = t_name t"
    "r_version r = version_text (t_version t)"
    using record_for_target_SomeD [OF assms] by (simp_all add: record_key_def)
  have "suffix_of c (Some (version_text x)) = suffix_of c x" for c x
    by (simp add: suffix_of_def version_text_def split: option.splits)
  then have "target_ref t = row_ref r (t_feature t)" using r by (simp add: row_ref_def target_ref_def)
  moreover have "t_feature t \<in> set (row_features r)"
    using assms by (cases "t_feature t") (auto simp: row_features_def record_for_target_Inr)
  ultimately show ?thesis using r(1) by (auto simp: known_refs_def)
qed

lemma bind_result_cong [fundef_cong]:
  "r = r' \<Longrightarrow> (\<And>x. r' = Inr x \<Longrightarrow> f x = g x) \<Longrightarrow> bind_result r f = bind_result r' g"
  by (cases r') simp_all

lemma card_fewer: "x \<in> set A \<Longrightarrow> x \<notin> set V \<Longrightarrow> card (set A - insert x (set V)) < card (set A - set V)"
  by (rule psubset_card_mono) auto

text \<open>The \<open>while\<close> loop of \<open>_validate_replacement\<close>.\<close>

function chain_check :: "registry \<Rightarrow> target \<Rightarrow> target \<Rightarrow> string list \<Rightarrow> unit result" where
  "chain_check reg goal current visited =
     (if target_ref current \<in> set visited
      then Inl (RegistryConflictError ''replacement chain contains a lifecycle cycle'')
      else if current = goal
      then Inl (RegistryConflictError ''replacement would create a lifecycle cycle'')
      else bind_result (record_for_target reg current) (\<lambda>r.
        (case record_life reg r (t_feature current) of
           None \<Rightarrow> Inr ()
         | Some l \<Rightarrow> (case l_replacement l of
             None \<Rightarrow> Inr ()
           | Some next_target \<Rightarrow> chain_check reg goal next_target (target_ref current # visited)))))"
  by pat_completeness auto

termination
  by (relation "measure (\<lambda>(reg, goal, current, visited). card (set (known_refs reg) - set visited))")
    (simp_all add: card_fewer target_ref_known del: card_Diff_insert)

declare chain_check.simps [simp del]

definition truthy :: "string option \<Rightarrow> bool" where
  "truthy x = (case x of None \<Rightarrow> False | Some s \<Rightarrow> s \<noteq> [])"

text \<open>\<open>_validate_replacement\<close>.\<close>

definition validate_replacement :: "registry \<Rightarrow> target \<Rightarrow> target \<Rightarrow> unit result" where
  "validate_replacement reg t rep =
     (if rep = t then Inl (RegistryConflictError ''a deprecated target cannot replace itself'')
      else if t_kind rep \<noteq> t_kind t \<or> truthy (t_feature rep) \<noteq> truthy (t_feature t)
      then Inl (RegistryConflictError ''replacement must match the target kind and feature granularity'')
      else bind_result (record_for_target reg rep) (\<lambda>r.
        if is_deprecated (record_life reg r (t_feature rep))
        then Inl (RegistryConflictError (''replacement is deprecated: '' @ target_ref rep))
        else if t_feature rep \<noteq> None \<and> is_deprecated (record_life reg r None)
        then Inl (RegistryConflictError (''replacement parent is deprecated: '' @ target_ref rep))
        else chain_check reg t rep []))"

subsection \<open>Deprecating and reactivating\<close>

definition dependents :: "registry \<Rightarrow> target \<Rightarrow> lifecycle list" where
  "dependents reg t =
     filter (\<lambda>l. l_status l = Deprecated \<and> l_replacement l = Some t) (reg_lives reg)"

text \<open>The scan for deprecated rows that point at the target: the first one raises.\<close>

definition check_dependents :: "registry \<Rightarrow> target \<Rightarrow> unit result" where
  "check_dependents reg t =
     (case dependents reg t of
        [] \<Rightarrow> Inr ()
      | l # _ \<Rightarrow> bind_result (target_for_life reg l) (\<lambda>d.
          Inl (RegistryConflictError (''cannot deprecate active replacement '' @ target_ref t
            @ ''; repoint dependent '' @ target_ref d @ '' first''))))"

definition deprecate_life :: "string option \<Rightarrow> target option \<Rightarrow> datetime \<Rightarrow> lifecycle \<Rightarrow> lifecycle" where
  "deprecate_life msg rep now l = l\<lparr>l_status := Deprecated, l_deprecated_at := Some now,
     l_message := msg, l_replacement := rep, l_updated := now\<rparr>"

definition deprecate_guard :: "registry \<Rightarrow> target \<Rightarrow> target option \<Rightarrow> registry_record result" where
  "deprecate_guard reg t rep =
     bind_result (record_for_target reg t) (\<lambda>r.
     bind_result (case rep of None \<Rightarrow> Inr () | Some x \<Rightarrow> validate_replacement reg t x) (\<lambda>_.
     bind_result (check_dependents reg t) (\<lambda>_. Inr r)))"

definition deprecate ::
    "pyenv \<Rightarrow> datetime \<Rightarrow> registry \<Rightarrow> target \<Rightarrow> string option \<Rightarrow> target option
       \<Rightarrow> registry \<times> descriptor result" where
  "deprecate env now reg t msg rep =
     (case deprecate_guard reg t rep of
        Inl e \<Rightarrow> (reg, Inl e)
      | Inr r \<Rightarrow>
          let reg' = put_life (r_id r) (t_feature t) now (deprecate_life msg rep now) reg
          in (reg', describe_record env reg' t r))"

definition reactivate_life :: "datetime \<Rightarrow> lifecycle \<Rightarrow> lifecycle" where
  "reactivate_life now l = l\<lparr>l_status := Active, l_deprecated_at := None, l_message := None,
     l_replacement := None, l_updated := now\<rparr>"

definition reactivate ::
    "pyenv \<Rightarrow> datetime \<Rightarrow> registry \<Rightarrow> target \<Rightarrow> registry \<times> descriptor result" where
  "reactivate env now reg t =
     (case record_for_target reg t of
        Inl e \<Rightarrow> (reg, Inl e)
      | Inr r \<Rightarrow>
          (case record_life reg r (t_feature t) of
             None \<Rightarrow> (reg, describe_record env reg t r)
           | Some _ \<Rightarrow>
               let reg' = update_life (r_id r, t_feature t) (reactivate_life now) reg
               in (reg', describe_record env reg' t r)))"

subsection \<open>The invariant of the lifecycle rows\<close>

definition metadata_ok :: "pyenv \<Rightarrow> lifecycle \<Rightarrow> bool" where
  "metadata_ok env l \<longleftrightarrow>
     validate_metadata_values env (Some (l_owners l)) (Some (l_tags l)) (Some (l_links l)) = Inr ()"

definition replacement_live :: "registry \<Rightarrow> target \<Rightarrow> bool" where
  "replacement_live reg t \<longleftrightarrow> valid_target t \<and>
     (\<exists>r. record_for_target reg t = Inr r \<and> \<not> is_deprecated (record_life reg r (t_feature t)))"

definition life_ok :: "pyenv \<Rightarrow> registry \<Rightarrow> lifecycle \<Rightarrow> bool" where
  "life_ok env reg l \<longleftrightarrow> metadata_ok env l \<and>
     (\<exists>r \<in> set (reg_rows reg). r_id r = l_record l \<and> l_feature l \<in> set (row_features r)) \<and>
     (\<forall>t. l_replacement l = Some t \<longrightarrow> l_status l = Deprecated \<and> replacement_live reg t)"

definition lives_ok :: "pyenv \<Rightarrow> registry \<Rightarrow> bool" where
  "lives_ok env reg \<longleftrightarrow> distinct (map life_key (reg_lives reg)) \<and>
     (\<forall>l \<in> set (reg_lives reg). life_ok env reg l)"

lemma put_life_simps [simp]:
  "reg_rows (put_life rid feat now f reg) = reg_rows reg"
  "reg_next (put_life rid feat now f reg) = reg_next reg"
  by (simp_all add: put_life_def update_life_def split: option.splits)

lemma update_life_simps [simp]:
  "reg_rows (update_life k f reg) = reg_rows reg" "reg_next (update_life k f reg) = reg_next reg"
  by (simp_all add: update_life_def)

definition keeps_life_key :: "(lifecycle \<Rightarrow> lifecycle) \<Rightarrow> bool" where
  "keeps_life_key f \<longleftrightarrow> (\<forall>l. life_key (f l) = life_key l)"

lemma keeps_life_keyD [simp]: "keeps_life_key f \<Longrightarrow> life_key (f l) = life_key l"
  by (simp add: keeps_life_key_def)

lemma life_changes_keep_key [simp]:
  "keeps_life_key (patch_life p now)" "keeps_life_key (deprecate_life msg rep now)"
  "keeps_life_key (reactivate_life now)"
  by (simp_all add: keeps_life_key_def life_key_def patch_life_def deprecate_life_def reactivate_life_def)

lemma life_key_new [simp]: "life_key (new_life rid feat now) = (rid, feat)"
  by (simp add: life_key_def new_life_def)

text \<open>The row of a target after the change, and every other row as before.\<close>

definition life_before :: "registry \<Rightarrow> nat \<Rightarrow> string option \<Rightarrow> datetime \<Rightarrow> lifecycle" where
  "life_before reg rid feat now =
     (case find_life reg (rid, feat) of None \<Rightarrow> new_life rid feat now | Some l \<Rightarrow> l)"

lemma find_update_life:
  assumes "keeps_life_key f"
  shows "find_life (update_life k f reg) k' =
    (if k' = k then map_option f (find_life reg k) else find_life reg k')"
  using assms find_sql_update [of life_key f k' k "reg_lives reg"]
  by (auto simp: find_life_def update_life_def option.map_ident)

lemma find_put_life:
  assumes f: "keeps_life_key f"
  shows "find_life (put_life rid feat now f reg) k =
    (if k = (rid, feat) then Some (f (life_before reg rid feat now)) else find_life reg k)"
proof (cases "find_life reg (rid, feat)")
  case None
  then show ?thesis
    using f by (simp add: put_life_def life_before_def lives.lookup_add split: option.splits)
next
  case (Some l)
  then show ?thesis using find_update_life [OF f] by (simp add: put_life_def life_before_def)
qed

lemma distinct_update_life:
  "keeps_life_key f \<Longrightarrow> distinct (map life_key (reg_lives reg)) \<Longrightarrow>
     distinct (map life_key (reg_lives (update_life k f reg)))"
  by (simp add: update_life_def sql_update_keeps_map)

lemma distinct_put_life:
  assumes "keeps_life_key f" "distinct (map life_key (reg_lives reg))"
  shows "distinct (map life_key (reg_lives (put_life rid feat now f reg)))"
proof (cases "find_life reg (rid, feat)")
  case None
  with assms lives.add_keeps_unique [OF assms(2), of "f (new_life rid feat now)"] show ?thesis
    by (simp add: put_life_def)
qed (use assms distinct_update_life in \<open>simp add: put_life_def\<close>)

lemma lives_by_key:
  "distinct (map life_key (reg_lives reg)) \<Longrightarrow>
     (\<forall>l \<in> set (reg_lives reg). P l) \<longleftrightarrow> (\<forall>k l. find_life reg k = Some l \<longrightarrow> P l)"
  using lives.lookup_unique [of reg] by blast

lemma record_for_target_rows:
  "reg_rows reg' = reg_rows reg \<Longrightarrow> record_for_target reg' t = record_for_target reg t"
  by (simp add: record_for_target_def get_record_def find_record_def)

lemma rows_ok_same_id:
  "rows_ok env reg \<Longrightarrow> r \<in> set (reg_rows reg) \<Longrightarrow> s \<in> set (reg_rows reg) \<Longrightarrow> r_id r = r_id s \<Longrightarrow> r = s"
  by (auto simp: rows_ok_def distinct_map dest: inj_onD)

lemma valid_target_version_text:
  assumes "valid_target s" "valid_target t" "t_kind s = t_kind t"
    "version_text (t_version s) = version_text (t_version t)"
  shows "t_version s = t_version t"
proof (cases "t_kind t = KFeatureView")
  case True
  then show ?thesis
    using valid_targetD(2) [OF assms(1)] valid_targetD(2) [OF assms(2)] assms(3,4)
    by (auto simp: version_text_def)
next
  case False
  then show ?thesis using valid_targetD(3) [OF assms(1)] valid_targetD(3) [OF assms(2)] assms(3) by simp
qed

lemma same_life_same_target:
  assumes ok: "rows_ok env reg" and v: "valid_target s" "valid_target t"
    and r: "record_for_target reg s = Inr r" "record_for_target reg t = Inr r'"
    and same: "r_id r = r_id r'" "t_feature s = t_feature t"
  shows "s = t"
proof -
  have "r = r'"
    using rows_ok_same_id [OF ok] record_for_target_SomeD [OF r(1)] record_for_target_SomeD [OF r(2)] same(1)
    by blast
  then have "t_kind s = t_kind t" "t_name s = t_name t" "version_text (t_version s) = version_text (t_version t)"
    using record_for_target_SomeD [OF r(1)] record_for_target_SomeD [OF r(2)] by simp_all
  with valid_target_version_text [OF v] same(2) show ?thesis by (intro target_eqI) simp_all
qed

lemma target_row_feature:
  "record_for_target reg t = Inr r \<Longrightarrow> r \<in> set (reg_rows reg) \<and> t_feature t \<in> set (row_features r)"
  by (cases "t_feature t") (auto simp: row_features_def record_for_target_Inr dest: records.lookup_SomeD)

text \<open>The common step: changing the row of one target keeps the invariant of all rows.\<close>

lemma put_life_ok:
  assumes ok: "rows_ok env reg" "lives_ok env reg" and f: "keeps_life_key f"
    and t: "record_for_target reg t = Inr r"
    and md: "metadata_ok env (f (life_before reg (r_id r) (t_feature t) now))"
    and own: "\<And>u. l_replacement (f (life_before reg (r_id r) (t_feature t) now)) = Some u \<Longrightarrow>
      l_status (f (life_before reg (r_id r) (t_feature t) now)) = Deprecated \<and> replacement_live reg u \<and>
      (\<forall>s. record_for_target reg u = Inr s \<longrightarrow> (r_id s, t_feature u) \<noteq> (r_id r, t_feature t))"
    and others: "\<And>l u s. l \<in> set (reg_lives reg) \<Longrightarrow> l_replacement l = Some u \<Longrightarrow> valid_target u \<Longrightarrow>
      l_status l = Deprecated \<Longrightarrow>
      record_for_target reg u = Inr s \<Longrightarrow> r_id s = r_id r \<Longrightarrow> t_feature u = t_feature t \<Longrightarrow>
      life_key l \<noteq> (r_id r, t_feature t) \<Longrightarrow>
      l_status (f (life_before reg (r_id r) (t_feature t) now)) \<noteq> Deprecated"
  shows "lives_ok env (put_life (r_id r) (t_feature t) now f reg)"
proof -
  let ?k = "(r_id r, t_feature t)" and ?reg = "put_life (r_id r) (t_feature t) now f reg"
    and ?l = "f (life_before reg (r_id r) (t_feature t) now)"
  have dist: "distinct (map life_key (reg_lives reg))" using ok(2) by (simp add: lives_ok_def)
  note find = find_put_life [OF f, of "r_id r" "t_feature t" now reg]
  have live: "replacement_live ?reg u"
    if u: "replacement_live reg u" and keep: "\<And>s. record_for_target reg u = Inr s \<Longrightarrow>
      (r_id s, t_feature u) = ?k \<Longrightarrow> l_status ?l \<noteq> Deprecated" for u
  proof -
    from u obtain s where s: "valid_target u" "record_for_target reg u = Inr s"
      "\<not> is_deprecated (record_life reg s (t_feature u))" by (auto simp: replacement_live_def)
    have "\<not> is_deprecated (record_life ?reg s (t_feature u))"
      using s keep [OF s(2)] find by (auto simp: record_life_def is_deprecated_def)
    then show ?thesis
      using s by (auto simp: replacement_live_def record_for_target_rows [of ?reg reg])
  qed
  have "life_ok env ?reg l" if l: "find_life ?reg k = Some l" for k l
  proof (cases "k = ?k")
    case True
    then have "l = ?l" using l find by simp
    moreover have "life_key ?l = ?k"
      using f by (auto simp: life_before_def dest: lives.lookup_SomeD split: option.splits)
    then have "l_record ?l = r_id r" "l_feature ?l = t_feature t" by (simp_all add: life_key_def)
    ultimately show ?thesis
      using md own live target_row_feature [OF t] by (fastforce simp: life_ok_def)
  next
    case False
    then have old: "find_life reg k = Some l" using l find by simp
    then have mem: "l \<in> set (reg_lives reg)" "life_key l = k" using lives.lookup_SomeD by auto
    then have lok: "life_ok env reg l" using ok(2) by (simp add: lives_ok_def)
    have "replacement_live ?reg u" if u: "l_replacement l = Some u" for u
    proof (rule live)
      show u': "replacement_live reg u" using lok u by (simp add: life_ok_def)
      show "l_status ?l \<noteq> Deprecated"
        if "record_for_target reg u = Inr s" "(r_id s, t_feature u) = ?k" for s
      proof -
        have "valid_target u" "l_status l = Deprecated"
          using u' lok u by (auto simp: replacement_live_def life_ok_def)
        then show ?thesis using others [OF mem(1) u _ _ that(1)] that(2) False mem(2) by simp
      qed
    qed
    then show ?thesis using lok by (auto simp: life_ok_def)
  qed
  then show ?thesis
    using distinct_put_life [OF f dist] lives_by_key [of ?reg "life_ok env ?reg"]
    by (simp add: lives_ok_def)
qed

subsection \<open>Every operation keeps the invariant\<close>

lemma life_before_ok:
  assumes ok: "lives_ok env reg"
  shows "metadata_ok env (life_before reg rid feat now)"
    and "l_replacement (life_before reg rid feat now) = Some u \<Longrightarrow>
      l_status (life_before reg rid feat now) = Deprecated \<and> replacement_live reg u"
proof -
  have "metadata_ok env (new_life rid feat now)"
    by (simp add: metadata_ok_def new_life_def validate_metadata_values_def check_opt_def owners_ok_def
        tags_ok_def links_ok_def ensure_def)
  moreover have "life_ok env reg l" if "find_life reg (rid, feat) = Some l" for l
    using ok lives.lookup_SomeD [OF that] by (simp add: lives_ok_def)
  ultimately show "metadata_ok env (life_before reg rid feat now)"
    and "l_replacement (life_before reg rid feat now) = Some u \<Longrightarrow>
      l_status (life_before reg rid feat now) = Deprecated \<and> replacement_live reg u"
    by (auto simp: life_before_def life_ok_def new_life_def split: option.splits)
qed

lemma patch_metadata_ok:
  assumes "validate_patch env p = Inr ()" "metadata_ok env l"
  shows "metadata_ok env (patch_life p now l)"
proof -
  have each: "check_opt f (Some (patched x old)) = Inr ()"
    if "check_opt f (present x) = Inr ()" "check_opt f (Some old) = Inr ()" "f [] = Inr ()"
    for f and x :: "'a list option option" and old
    using that by (auto simp: patched_def present_def check_opt_def split: option.splits)
  have nil: "owners_ok [] = Inr ()" "tags_ok [] = Inr ()" "links_ok env [] = Inr ()"
    by (simp_all add: owners_ok_def tags_ok_def links_ok_def ensure_def)
  have p: "check_opt owners_ok (present (mp_owners p)) = Inr ()" "check_opt tags_ok (present (mp_tags p)) = Inr ()"
    "check_opt (links_ok env) (present (mp_links p)) = Inr ()"
    using assms(1) by (auto simp: validate_patch_def validate_metadata_values_def bind_result_eq_Inr split: if_splits)
  have l: "check_opt owners_ok (Some (l_owners l)) = Inr ()" "check_opt tags_ok (Some (l_tags l)) = Inr ()"
    "check_opt (links_ok env) (Some (l_links l)) = Inr ()"
    using assms(2) by (auto simp: metadata_ok_def validate_metadata_values_def bind_result_eq_Inr)
  show ?thesis
    using each [OF p(1) l(1) nil(1)] each [OF p(2) l(2) nil(2)] each [OF p(3) l(3) nil(3)]
    by (simp add: metadata_ok_def patch_life_def validate_metadata_values_def)
qed

lemma patch_metadata_lives:
  assumes ok: "rows_ok env reg" "lives_ok env reg" and v: "valid_target t"
    and p: "validate_patch env p = Inr ()"
  shows "lives_ok env (fst (patch_metadata env now reg t p))"
proof (cases "record_for_target reg t")
  case (Inr r)
  note before = life_before_ok [OF ok(2), of "r_id r" "t_feature t" now]
  have self: "(r_id s, t_feature u) \<noteq> (r_id r, t_feature t)"
    if u: "l_replacement (life_before reg (r_id r) (t_feature t) now) = Some u"
      and s: "record_for_target reg u = Inr s" for u s
  proof
    assume same: "(r_id s, t_feature u) = (r_id r, t_feature t)"
    have dep: "l_status (life_before reg (r_id r) (t_feature t) now) = Deprecated" and live: "replacement_live reg u"
      using before(2) [OF u] by auto
    then have "find_life reg (r_id r, t_feature t) = Some (life_before reg (r_id r) (t_feature t) now)"
      using u by (auto simp: life_before_def new_life_def split: option.splits)
    then show False using live s same dep by (auto simp: replacement_live_def record_life_def is_deprecated_def)
  qed
  have "lives_ok env (put_life (r_id r) (t_feature t) now (patch_life p now) reg)"
  proof (rule put_life_ok [OF ok _ Inr])
    show "metadata_ok env (patch_life p now (life_before reg (r_id r) (t_feature t) now))"
      by (rule patch_metadata_ok [OF p before(1)])
    show "l_status (patch_life p now (life_before reg (r_id r) (t_feature t) now)) = Deprecated \<and>
        replacement_live reg u \<and> (\<forall>s. record_for_target reg u = Inr s \<longrightarrow> (r_id s, t_feature u) \<noteq> (r_id r, t_feature t))"
      if "l_replacement (patch_life p now (life_before reg (r_id r) (t_feature t) now)) = Some u" for u
      using that before(2) self by (simp add: patch_life_def)
    show "l_status (patch_life p now (life_before reg (r_id r) (t_feature t) now)) \<noteq> Deprecated"
      if l: "l \<in> set (reg_lives reg)" "l_replacement l = Some u" "record_for_target reg u = Inr s"
        "r_id s = r_id r" "t_feature u = t_feature t" for l u s
    proof -
      have "replacement_live reg u" using ok(2) l by (auto simp: lives_ok_def life_ok_def)
      then have "\<not> is_deprecated (find_life reg (r_id r, t_feature t))"
        using l by (auto simp: replacement_live_def record_life_def)
      then show ?thesis
        by (auto simp: life_before_def is_deprecated_def patch_life_def new_life_def split: option.splits)
    qed
  qed simp
  with Inr show ?thesis by (simp add: patch_metadata_def Let_def)
qed (use ok in \<open>simp add: patch_metadata_def\<close>)

lemma dependents_none:
  assumes "check_dependents reg t = Inr u" "l \<in> set (reg_lives reg)" "l_status l = Deprecated"
  shows "l_replacement l \<noteq> Some t"
proof -
  have "dependents reg t = []"
    using assms(1) by (auto simp: check_dependents_def bind_result_eq_Inr split: list.splits)
  then show ?thesis using assms(2,3) by (auto simp: dependents_def filter_empty_conv)
qed

lemma validate_replacement_live:
  assumes "validate_replacement reg t rep = Inr u" "valid_target rep"
  shows "replacement_live reg rep" "rep \<noteq> t" "t_kind rep = t_kind t"
  using assms by (auto simp: validate_replacement_def replacement_live_def bind_result_eq_Inr split: if_splits)

lemma deprecate_guard_Inr:
  "deprecate_guard reg t rep = Inr r \<longleftrightarrow> record_for_target reg t = Inr r \<and>
     (\<forall>x. rep = Some x \<longrightarrow> validate_replacement reg t x = Inr ()) \<and> check_dependents reg t = Inr ()"
  by (auto simp: deprecate_guard_def bind_result_eq_Inr split: option.splits)

lemma deprecate_lives:
  assumes ok: "rows_ok env reg" "lives_ok env reg" and v: "valid_target t" "\<And>x. rep = Some x \<Longrightarrow> valid_target x"
  shows "lives_ok env (fst (deprecate env now reg t msg rep))"
proof (cases "deprecate_guard reg t rep")
  case (Inr r)
  then have t: "record_for_target reg t = Inr r" and deps: "check_dependents reg t = Inr ()"
    and rep: "\<And>x. rep = Some x \<Longrightarrow> validate_replacement reg t x = Inr ()"
    by (simp_all add: deprecate_guard_Inr)
  let ?l = "deprecate_life msg rep now (life_before reg (r_id r) (t_feature t) now)"
  have "lives_ok env (put_life (r_id r) (t_feature t) now (deprecate_life msg rep now) reg)"
  proof (rule put_life_ok [OF ok _ t])
    show "metadata_ok env ?l"
      using life_before_ok(1) [OF ok(2)] by (simp add: metadata_ok_def deprecate_life_def)
    show "l_status ?l = Deprecated \<and> replacement_live reg u \<and>
        (\<forall>s. record_for_target reg u = Inr s \<longrightarrow> (r_id s, t_feature u) \<noteq> (r_id r, t_feature t))"
      if "l_replacement ?l = Some u" for u
    proof -
      have u: "rep = Some u" using that by (simp add: deprecate_life_def)
      note live = validate_replacement_live [OF rep [OF u] v(2) [OF u]]
      have "(r_id s, t_feature u) \<noteq> (r_id r, t_feature t)" if "record_for_target reg u = Inr s" for s
        using same_life_same_target [OF ok(1) v(2) [OF u] v(1) that t] live(2) by auto
      then show ?thesis using live(1) by (simp add: deprecate_life_def)
    qed
    show "l_status ?l \<noteq> Deprecated"
      if l: "l \<in> set (reg_lives reg)" "l_replacement l = Some u" "valid_target u" "l_status l = Deprecated"
        "record_for_target reg u = Inr s" "r_id s = r_id r" "t_feature u = t_feature t" for l u s
      using dependents_none [OF deps l(1,4)] same_life_same_target [OF ok(1) l(3) v(1) l(5) t] l by simp
  qed simp
  with Inr show ?thesis by (simp add: deprecate_def Let_def)
qed (use ok in \<open>simp add: deprecate_def\<close>)

lemma put_life_existing:
  "find_life reg (rid, feat) = Some l \<Longrightarrow> put_life rid feat now f reg = update_life (rid, feat) f reg"
  by (simp add: put_life_def)

lemma reactivate_lives:
  assumes ok: "rows_ok env reg" "lives_ok env reg"
  shows "lives_ok env (fst (reactivate env now reg t))"
proof (cases "record_for_target reg t")
  case (Inr r)
  show ?thesis
  proof (cases "record_life reg r (t_feature t)")
    case None
    with Inr ok show ?thesis by (simp add: reactivate_def)
  next
    case (Some l)
    let ?l = "reactivate_life now (life_before reg (r_id r) (t_feature t) now)"
    have "lives_ok env (put_life (r_id r) (t_feature t) now (reactivate_life now) reg)"
      by (rule put_life_ok [OF ok _ Inr])
        (use life_before_ok(1) [OF ok(2)] in \<open>simp_all add: reactivate_life_def metadata_ok_def\<close>)
    then show ?thesis
      using Inr Some put_life_existing [of reg "r_id r" "t_feature t" l]
      by (simp add: reactivate_def record_life_def Let_def)
  qed
qed (use ok in \<open>simp add: reactivate_def\<close>)

lemma record_for_target_append:
  assumes "\<And>k r. find_record reg k = Some r \<Longrightarrow> find_record reg' k = Some r" "record_for_target reg t = Inr r"
  shows "record_for_target reg' t = Inr r"
  using assms by (auto simp: record_for_target_Inr)

lemma apply_lives:
  assumes ok: "lives_ok env reg" and app: "apply_manifest env now reg m = Inr (reg', res)"
  shows "lives_ok env reg'"
proof -
  have lives: "find_life reg' = find_life reg"
    using apply_appends(2) [OF app] by (simp add: find_life_def fun_eq_iff)
  have "replacement_live reg u \<Longrightarrow> replacement_live reg' u" for u
    using record_for_target_append [OF apply_appends(3) [OF app]]
    by (auto simp: replacement_live_def record_life_def lives)
  moreover have "set (reg_rows reg) \<subseteq> set (reg_rows reg')" using apply_appends(1) [OF app] by auto
  ultimately have "life_ok env reg l \<Longrightarrow> life_ok env reg' l" for l unfolding life_ok_def by blast
  then show ?thesis using ok apply_appends(2) [OF app] by (simp add: lives_ok_def)
qed

subsection \<open>Reachable registries\<close>

text \<open>
  Every way the code changes the registry, with requests as the API builds them: targets and
  patches are validated before they reach the registry.
\<close>

inductive registry_step :: "pyenv \<Rightarrow> registry \<Rightarrow> registry \<Rightarrow> bool" for env where
  apply_step: "apply_manifest env now reg m = Inr (reg', res) \<Longrightarrow> registry_step env reg reg'"
| patch_step: "valid_target t \<Longrightarrow> validate_patch env p = Inr () \<Longrightarrow>
    registry_step env reg (fst (patch_metadata env now reg t p))"
| deprecate_step: "valid_target t \<Longrightarrow> (\<And>x. rep = Some x \<Longrightarrow> valid_target x) \<Longrightarrow>
    registry_step env reg (fst (deprecate env now reg t msg rep))"
| reactivate_step: "valid_target t \<Longrightarrow> registry_step env reg (fst (reactivate env now reg t))"

inductive reachable_registry :: "pyenv \<Rightarrow> registry \<Rightarrow> bool" for env where
  empty: "reachable_registry env empty_registry"
| step: "reachable_registry env reg \<Longrightarrow> registry_step env reg reg' \<Longrightarrow> reachable_registry env reg'"

lemma rows_ok_same_rows:
  "reg_rows reg' = reg_rows reg \<Longrightarrow> reg_next reg' = reg_next reg \<Longrightarrow> rows_ok env reg \<Longrightarrow> rows_ok env reg'"
  by (simp add: rows_ok_def keys_unique_def)

lemma life_ops_rows [simp]:
  "reg_rows (fst (patch_metadata env now reg t p)) = reg_rows reg"
  "reg_next (fst (patch_metadata env now reg t p)) = reg_next reg"
  "reg_rows (fst (deprecate env now reg t msg rep)) = reg_rows reg"
  "reg_next (fst (deprecate env now reg t msg rep)) = reg_next reg"
  "reg_rows (fst (reactivate env now reg t)) = reg_rows reg"
  "reg_next (fst (reactivate env now reg t)) = reg_next reg"
  by (auto simp: patch_metadata_def deprecate_def reactivate_def Let_def split: sum.splits option.splits)

lemma registry_step_ok:
  "registry_step env reg reg' \<Longrightarrow> rows_ok env reg \<Longrightarrow> lives_ok env reg \<Longrightarrow> rows_ok env reg' \<and> lives_ok env reg'"
proof (induction rule: registry_step.induct)
  case (apply_step now reg m reg' res)
  then show ?case using apply_rows_ok apply_lives by blast
next
  case (patch_step t p reg now)
  then show ?case using patch_metadata_lives rows_ok_same_rows by (metis life_ops_rows(1,2))
next
  case (deprecate_step t rep reg now msg)
  then show ?case using deprecate_lives rows_ok_same_rows by (metis life_ops_rows(3,4))
next
  case (reactivate_step t reg now)
  then show ?case using reactivate_lives rows_ok_same_rows by (metis life_ops_rows(5,6))
qed

lemma empty_lives_ok [simp]: "lives_ok env empty_registry"
  by (simp add: lives_ok_def empty_registry_def)

lemma reachable_ok: "reachable_registry env reg \<Longrightarrow> rows_ok env reg \<and> lives_ok env reg"
  by (induction rule: reachable_registry.induct) (use registry_step_ok in auto)

end
