(* ===== verification/RegistryWarnings.thy ===== *)
theory RegistryWarnings
  imports RegistryLifecycle
begin

section \<open>What the lifecycle operations guarantee\<close>

text \<open>
  The theorems on deprecation: replacements of deprecated targets stay live in every reachable
  registry, so the cycle errors of the chain walk cannot occur; what \<open>deprecate\<close> and
  \<open>reactivate\<close> do to the descriptor; and exactly which warnings a set of targets raises.
\<close>

subsection \<open>Replacements stay live\<close>

text \<open>
  C6. In every registry the service can reach, a lifecycle row that names a replacement belongs to
  a deprecated target, and the replacement is a registered target that is not itself deprecated.
\<close>

theorem reachable_replacement_live:
  assumes "reachable_registry env reg" "l \<in> set (reg_lives reg)" "l_replacement l = Some t"
  shows "l_status l = Deprecated \<and> valid_target t \<and>
    (\<exists>r. record_for_target reg t = Inr r \<and> \<not> is_deprecated (record_life reg r (t_feature t)))"
  using reachable_ok [OF assms(1)] assms(2,3) by (auto simp: lives_ok_def life_ok_def replacement_live_def)

lemma chain_check_live:
  assumes ok: "lives_ok env reg" and rep: "record_for_target reg rep = Inr r"
    "\<not> is_deprecated (record_life reg r (t_feature rep))" "rep \<noteq> t"
  shows "chain_check reg t rep [] = Inr ()"
proof (cases "record_life reg r (t_feature rep)")
  case None
  with rep show ?thesis by (subst chain_check.simps) simp
next
  case (Some l)
  then have "l \<in> set (reg_lives reg)" using lives.lookup_SomeD by (auto simp: record_life_def)
  then have "life_ok env reg l" using ok by (simp add: lives_ok_def)
  then have "l_replacement l = None"
    using rep(2) Some by (cases "l_replacement l") (auto simp: life_ok_def is_deprecated_def)
  with rep Some show ?thesis by (subst chain_check.simps) simp
qed

lemma validate_replacement_accepts:
  assumes "lives_ok env reg"
  shows "validate_replacement reg t rep = Inr () \<longleftrightarrow>
    rep \<noteq> t \<and> t_kind rep = t_kind t \<and> truthy (t_feature rep) = truthy (t_feature t) \<and>
    (\<exists>r. record_for_target reg rep = Inr r \<and> \<not> is_deprecated (record_life reg r (t_feature rep)) \<and>
       \<not> (t_feature rep \<noteq> None \<and> is_deprecated (record_life reg r None)))"
  using chain_check_live [OF assms]
  by (cases "record_for_target reg rep") (auto simp: validate_replacement_def)

text \<open>
  On every reachable registry the replacement check accepts exactly the registered targets of
  the same kind and granularity that are not deprecated, directly or through their view; the two
  cycle errors of its loop never arise.
\<close>

theorem validate_replacement_iff:
  assumes "reachable_registry env reg"
  shows "validate_replacement reg t rep = Inr () \<longleftrightarrow>
    rep \<noteq> t \<and> t_kind rep = t_kind t \<and> truthy (t_feature rep) = truthy (t_feature t) \<and>
    (\<exists>r. record_for_target reg rep = Inr r \<and> \<not> is_deprecated (record_life reg r (t_feature rep)) \<and>
       \<not> (t_feature rep \<noteq> None \<and> is_deprecated (record_life reg r None)))"
  using validate_replacement_accepts reachable_ok [OF assms] by blast

subsection \<open>Deprecating and reactivating\<close>

lemma described:
  assumes ok: "rows_ok env reg" "lives_ok env reg" and t: "record_for_target reg t = Inr r"
    and l: "record_life reg r (t_feature t) = l"
  shows "\<exists>d. describe_record env reg t r = Inr d \<and> d_target d = t \<and> d_status d = life_status l \<and>
    d_metadata d = \<lparr>md_owners = life_owners l, md_tags = life_tags l, md_links = life_links l\<rparr> \<and>
    d_replacement d = Option.bind l l_replacement \<and> d_message d = Option.bind l l_message \<and>
    d_deprecated_at d = map_option as_utc (Option.bind l l_deprecated_at)"
proof -
  have spec: "\<exists>sp. descriptor_spec t r = Inr sp"
  proof (cases "t_feature t")
    case None
    then show ?thesis by (simp add: descriptor_spec_def)
  next
    case (Some f)
    then obtain v where v: "r_spec r = SView v" "f \<in> set (feature_names v)"
      using t by (auto simp: record_for_target_Inr)
    then have "find (\<lambda>x. f_name x = f) (v_features v) \<noteq> None"
      by (auto simp: find_None_iff feature_names_def)
    then show ?thesis using Some v by (auto simp: descriptor_spec_def as_view_def)
  qed
  have "validate_metadata_values env (Some (life_owners l)) (Some (life_tags l)) (Some (life_links l)) = Inr ()"
  proof (cases l)
    case None
    then show ?thesis
      by (simp add: life_owners_def life_tags_def life_links_def validate_metadata_values_def check_opt_def
          owners_ok_def tags_ok_def links_ok_def ensure_def)
  next
    case (Some x)
    then have "x \<in> set (reg_lives reg)" using l lives.lookup_SomeD by (auto simp: record_life_def)
    then show ?thesis
      using ok(2) Some by (simp add: lives_ok_def life_ok_def metadata_ok_def life_owners_def life_tags_def life_links_def)
  qed
  then show ?thesis using spec l by (auto simp: describe_record_def mk_metadata_def Let_def)
qed

text \<open>
  Deprecating succeeds exactly when its guards hold; the descriptor it returns shows the target
  deprecated with the given message, replacement and time, and its owners, tags and links are the
  ones it had. If a guard fails the tables are untouched.
\<close>

theorem deprecate_effect:
  assumes "reachable_registry env reg" "valid_target t" "\<And>x. rep = Some x \<Longrightarrow> valid_target x"
  shows "case deprecate_guard reg t rep of
      Inl e \<Rightarrow> deprecate env now reg t msg rep = (reg, Inl e)
    | Inr r \<Rightarrow> \<exists>d. snd (deprecate env now reg t msg rep) = Inr d \<and> d_target d = t \<and>
        d_status d = Deprecated \<and> d_replacement d = rep \<and> d_message d = msg \<and>
        d_deprecated_at d = Some (as_utc now) \<and>
        d_metadata d = (let l = record_life reg r (t_feature t) in
          \<lparr>md_owners = life_owners l, md_tags = life_tags l, md_links = life_links l\<rparr>)"
proof (cases "deprecate_guard reg t rep")
  case (Inl e)
  then show ?thesis by (simp add: deprecate_def)
next
  case (Inr r)
  have ok: "rows_ok env reg" "lives_ok env reg" using reachable_ok [OF assms(1)] by simp_all
  let ?reg = "fst (deprecate env now reg t msg rep)"
  have ok': "rows_ok env ?reg" "lives_ok env ?reg"
    using rows_ok_same_rows [OF _ _ ok(1)] deprecate_lives [OF ok assms(2,3)] by simp_all
  have t: "record_for_target ?reg t = Inr r"
    using Inr record_for_target_rows [of ?reg reg] by (simp add: deprecate_guard_Inr)
  have reg: "?reg = put_life (r_id r) (t_feature t) now (deprecate_life msg rep now) reg"
    "snd (deprecate env now reg t msg rep) = describe_record env ?reg t r"
    using Inr by (simp_all add: deprecate_def Let_def)
  let ?before = "life_before reg (r_id r) (t_feature t) now"
  have l: "record_life ?reg r (t_feature t) = Some (deprecate_life msg rep now ?before)"
    by (simp add: reg record_life_def find_put_life)
  have same: "life_owners (record_life reg r (t_feature t)) = l_owners ?before"
    "life_tags (record_life reg r (t_feature t)) = l_tags ?before"
    "life_links (record_life reg r (t_feature t)) = l_links ?before"
    by (simp_all add: life_owners_def life_tags_def life_links_def record_life_def life_before_def new_life_def
        split: option.splits)
  show ?thesis
    using described [OF ok' t l] Inr same unfolding reg(2)
    by (auto simp: life_status_def deprecate_life_def life_owners_def life_tags_def life_links_def Let_def)
qed

text \<open>
  Reactivating right after a deprecation shows the target active again, without message,
  replacement or deprecation time, with the metadata it had before it was deprecated.
\<close>

theorem reactivate_undoes_deprecate:
  assumes "reachable_registry env reg" "valid_target t" "\<And>x. rep = Some x \<Longrightarrow> valid_target x"
    and "deprecate_guard reg t rep = Inr r"
  shows "\<exists>d. snd (reactivate env later (fst (deprecate env now reg t msg rep)) t) = Inr d \<and>
    d_status d = Active \<and> d_replacement d = None \<and> d_message d = None \<and> d_deprecated_at d = None \<and>
    d_metadata d = (let l = record_life reg r (t_feature t) in
      \<lparr>md_owners = life_owners l, md_tags = life_tags l, md_links = life_links l\<rparr>)"
proof -
  have ok: "rows_ok env reg" "lives_ok env reg" using reachable_ok [OF assms(1)] by simp_all
  let ?k = "(r_id r, t_feature t)" and ?before = "life_before reg (r_id r) (t_feature t) now"
  let ?reg = "fst (deprecate env now reg t msg rep)"
  have reg: "?reg = put_life (r_id r) (t_feature t) now (deprecate_life msg rep now) reg"
    using assms(4) by (simp add: deprecate_def Let_def)
  have ok1: "rows_ok env ?reg" "lives_ok env ?reg"
    using rows_ok_same_rows [OF _ _ ok(1)] deprecate_lives [OF ok assms(2,3)] by simp_all
  have t1: "record_for_target ?reg t = Inr r"
    using assms(4) record_for_target_rows [of ?reg reg] by (simp add: deprecate_guard_Inr)
  have l1: "record_life ?reg r (t_feature t) = Some (deprecate_life msg rep now ?before)"
    by (simp add: reg record_life_def find_put_life)
  let ?reg2 = "fst (reactivate env later ?reg t)"
  have ok2: "rows_ok env ?reg2" "lives_ok env ?reg2"
    using rows_ok_same_rows [OF _ _ ok1(1)] reactivate_lives [OF ok1] by simp_all
  have reg2: "?reg2 = update_life ?k (reactivate_life later) ?reg"
    "snd (reactivate env later ?reg t) = describe_record env ?reg2 t r"
    using t1 l1 by (simp_all add: reactivate_def Let_def)
  have t2: "record_for_target ?reg2 t = Inr r" using t1 record_for_target_rows [of ?reg2 ?reg] by simp
  have l2: "record_life ?reg2 r (t_feature t)
      = Some (reactivate_life later (deprecate_life msg rep now ?before))"
    using l1 by (simp add: reg2 record_life_def find_update_life)
  have same: "life_owners (record_life reg r (t_feature t)) = l_owners ?before"
    "life_tags (record_life reg r (t_feature t)) = l_tags ?before"
    "life_links (record_life reg r (t_feature t)) = l_links ?before"
    by (simp_all add: life_owners_def life_tags_def life_links_def record_life_def life_before_def new_life_def
        split: option.splits)
  show ?thesis
    using described [OF ok2 t2 l2] same unfolding reg2(2)
    by (auto simp: life_status_def deprecate_life_def reactivate_life_def life_owners_def life_tags_def
        life_links_def Let_def)
qed

subsection \<open>Which warnings a request raises\<close>

definition warned_by :: "registry \<Rightarrow> target list \<Rightarrow> warning \<Rightarrow> bool" where
  "warned_by reg ts w \<longleftrightarrow>
     (\<exists>t \<in> set ts. \<exists>r. record_for_target reg t = Inr r \<and> w \<in> set (target_warnings reg t r))"

lemma target_warning_cases:
  "w \<in> set (target_warnings reg t r) \<longleftrightarrow>
     (\<exists>l. record_life reg r (t_feature t) = Some l \<and> l_status l = Deprecated \<and> w = mk_warning t l None) \<or>
     (t_feature t \<noteq> None \<and> (\<exists>l. record_life reg r None = Some l \<and> l_status l = Deprecated \<and>
        w = mk_warning t l (Some (parent_target t))))"
  by (cases "record_life reg r (t_feature t)"; cases "record_life reg r None")
    (auto simp: target_warnings_def Let_def)

lemma target_ref_nonempty [simp]: "target_ref t \<noteq> []" "[] \<noteq> target_ref t"
  by (simp_all add: target_ref_def)

lemma warning_key_target:
  assumes "warning_key w = warning_key w'" "valid_target (w_target w)" "valid_target (w_target w')"
  shows "w_target w = w_target w'" "w_inherited w = None \<longleftrightarrow> w_inherited w' = None"
proof -
  let ?t = "w_target w" and ?u = "w_target w'"
  have k: "t_kind ?t = t_kind ?u" "t_name ?t = t_name ?u"
    "version_text (t_version ?t) = version_text (t_version ?u)"
    "version_text (t_feature ?t) = version_text (t_feature ?u)"
    using assms(1) by (simp_all add: warning_key_def)
  have "name_ok f \<Longrightarrow> f \<noteq> []" for f by (rule name_ok_nonempty)
  then have "t_feature ?t = t_feature ?u"
    using k(4) valid_targetD(4) [OF assms(2)] valid_targetD(4) [OF assms(3)]
    by (cases "t_feature ?t"; cases "t_feature ?u") (auto simp: version_text_def)
  then show "w_target w = w_target w'"
    using k valid_target_version_text [OF assms(2,3) k(1,3)] by (intro target_eqI)
  show "w_inherited w = None \<longleftrightarrow> w_inherited w' = None"
    using assms(1) by (auto simp: warning_key_def split: option.splits)
qed

lemma mk_warning_simps [simp]:
  "w_target (mk_warning t l i) = t" "w_inherited (mk_warning t l i) = i"
  by (simp_all add: mk_warning_def Let_def)

lemma warned_by_inj:
  assumes "\<forall>t \<in> set ts. valid_target t"
  shows "inj_on warning_key {w. warned_by reg ts w}"
proof (rule inj_onI)
  fix w w' assume "w \<in> {w. warned_by reg ts w}" "w' \<in> {w. warned_by reg ts w}"
    and key: "warning_key w = warning_key w'"
  then obtain t r t' r' where w: "t \<in> set ts" "record_for_target reg t = Inr r" "w \<in> set (target_warnings reg t r)"
    and w': "t' \<in> set ts" "record_for_target reg t' = Inr r'" "w' \<in> set (target_warnings reg t' r')"
    by (auto simp: warned_by_def)
  have t: "w_target w = t" "w_target w' = t'" using w(3) w'(3) by (auto simp: target_warning_cases)
  with warning_key_target [OF key] w(1) w'(1) assms
  have "t = t'" "w_inherited w = None \<longleftrightarrow> w_inherited w' = None" by simp_all
  moreover from this have "r = r'" using w(2) w'(2) by simp
  ultimately show "w = w'" using w(3) w'(3) by (auto simp: target_warning_cases)
qed

definition warning_dict :: "(warning_key \<times> warning) list \<Rightarrow> bool" where
  "warning_dict d \<longleftrightarrow> distinct (map fst d) \<and> (\<forall>(k, w) \<in> set d. k = warning_key w)"

lemma dict_set_present: "distinct (map fst d) \<Longrightarrow> (k, v) \<in> set d \<Longrightarrow> dict_set d k v = d"
  by (induction d k v rule: dict_set.induct) (auto simp: rev_image_eqI)

lemma dict_set_absent: "k \<notin> fst ` set d \<Longrightarrow> dict_set d k v = d @ [(k, v)]"
  by (induction d k v rule: dict_set.induct) auto

lemma put_warning_step:
  assumes "warning_dict d" "inj_on warning_key (insert w (snd ` set d))"
  shows "warning_dict (put_warning w d) \<and> snd ` set (put_warning w d) = insert w (snd ` set d)"
proof (cases "warning_key w \<in> fst ` set d")
  case True
  then obtain w' where w': "(warning_key w, w') \<in> set d" by auto
  then have "warning_key w = warning_key w'" using assms(1) by (auto simp: warning_dict_def)
  then have "w' = w" using assms(2) w' by (metis imageI inj_onD insertCI snd_conv)
  then have "put_warning w d = d" "w \<in> snd ` set d"
    using dict_set_present [OF _ w'] w' assms(1) by (simp_all add: put_warning_def warning_dict_def rev_image_eqI)
  with assms(1) show ?thesis by auto
next
  case False
  then show ?thesis using assms(1) by (auto simp: put_warning_def dict_set_absent warning_dict_def)
qed

lemma put_warnings:
  assumes "warning_dict d" "inj_on warning_key (set ws \<union> snd ` set d)"
  shows "warning_dict (fold put_warning ws d) \<and> snd ` set (fold put_warning ws d) = set ws \<union> snd ` set d"
  using assms
proof (induction ws arbitrary: d)
  case (Cons w ws)
  have "warning_dict (put_warning w d) \<and> snd ` set (put_warning w d) = insert w (snd ` set d)"
    using Cons.prems by (intro put_warning_step) (auto intro: inj_on_subset)
  then show ?case using Cons.IH [of "put_warning w d"] Cons.prems(2) by simp
qed simp

lemma collect_warnings_set:
  assumes "warning_dict d" "collect_warnings reg ts d = Inr d'"
    and "inj_on warning_key ({w. warned_by reg ts w} \<union> snd ` set d)"
  shows "warning_dict d' \<and> snd ` set d' = {w. warned_by reg ts w} \<union> snd ` set d"
  using assms
proof (induction ts arbitrary: d)
  case Nil
  then show ?case by (simp add: warned_by_def)
next
  case (Cons t ts)
  show ?case
  proof (cases "record_for_target reg t")
    case (Inl e)
    then have "warned_by reg (t # ts) = warned_by reg ts" by (simp add: warned_by_def fun_eq_iff)
    moreover have "collect_warnings reg ts d = Inr d'" using Cons.prems(2) Inl by (cases e) simp_all
    ultimately show ?thesis using Cons by simp
  next
    case (Inr r)
    let ?d = "fold put_warning (target_warnings reg t r) d"
    have split: "{w. warned_by reg (t # ts) w} = {w. warned_by reg ts w} \<union> set (target_warnings reg t r)"
      using Inr by (auto simp: warned_by_def)
    have d: "warning_dict ?d \<and> snd ` set ?d = set (target_warnings reg t r) \<union> snd ` set d"
      using Cons.prems by (intro put_warnings) (auto simp: split intro: inj_on_subset)
    have "collect_warnings reg ts ?d = Inr d'" using Cons.prems(2) Inr by simp
    then show ?thesis
      using Cons.IH [of ?d] d Cons.prems(3) unfolding split by (simp add: Un_assoc)
  qed
qed

lemma sort_key_unique: "distinct (map f xs) \<Longrightarrow> sorted_wrt (<) (map f (sort_key f xs))"
  unfolding strict_sorted_iff by (metis distinct_map distinct_sort set_sort sorted_sort_key)

text \<open>
  The warnings of a list of targets are exactly the ones its registered targets carry, directly
  or inherited from a deprecated view, each once and in strictly increasing key order; an unknown
  target is skipped, and the call never fails on a reachable registry.
\<close>

theorem warnings_exact:
  assumes "reachable_registry env reg" "\<forall>t \<in> set ts. valid_target t"
  shows "\<exists>ws. warnings_for_targets reg ts = Inr ws \<and> set ws = {w. warned_by reg ts w} \<and>
    sorted_wrt (<) (map warning_key ws)"
proof -
  obtain d where d: "collect_warnings reg ts [] = Inr d"
    using collect_warnings_total [OF _ assms(2)] reachable_ok [OF assms(1)] by blast
  have "warning_dict d \<and> snd ` set d = {w. warned_by reg ts w}"
    using collect_warnings_set [OF _ d] warned_by_inj [OF assms(2)] by (simp add: warning_dict_def)
  then have ws: "distinct (map fst d)" "\<forall>(k, w) \<in> set d. k = warning_key w" "snd ` set d = {w. warned_by reg ts w}"
    by (simp_all add: warning_dict_def)
  have "map fst d = map warning_key (map snd d)" using ws(2) by (auto simp: map_eq_conv)
  then have "distinct (map warning_key (map snd d))" using ws(1) by (simp only:)
  then have "sorted_wrt (<) (map warning_key (sort_key warning_key (map snd d)))"
    by (rule sort_key_unique)
  then show ?thesis using d ws(3) by (simp add: warnings_for_targets_def)
qed

subsection \<open>The theorems at a concrete registry\<close>

definition demo_target :: "string \<Rightarrow> target" where
  "demo_target n = \<lparr>t_kind = KEntity, t_name = n, t_version = None, t_feature = None\<rparr>"

definition demo_deprecated :: registry where
  "demo_deprecated = fst (deprecate demo_env (Aware 7 0) demo_registry (demo_target ''user'') None
     (Some (demo_target ''account'')))"

lemma demo_targets_valid [simp]:
  "valid_target (demo_target ''user'')" "valid_target (demo_target ''account'')"
  by (simp_all add: valid_target_def demo_target_def name_eval)

lemma demo_records:
  "record_for_target demo_registry (demo_target ''user'') =
     Inr (new_row demo_env (Aware 0 0) 0 (SEntity \<lparr>e_name = ''user'', e_join_keys = [(''user_id'', TString)]\<rparr>))"
  "record_for_target demo_registry (demo_target ''account'') =
     Inr (new_row demo_env (Aware 0 0) 1 (SEntity \<lparr>e_name = ''account'', e_join_keys = [(''account_id'', TString)]\<rparr>))"
  by (simp_all add: record_for_target_def get_record_def find_record_def demo_rows manifest_objects_def
      demo_manifest_def spec_key_def demo_target_def version_text_def)

lemma demo_reachable: "reachable_registry demo_env demo_registry"
  by (rule reachable_registry.step [OF reachable_registry.empty]) (rule apply_step [OF demo_apply])

lemma demo_guard:
  "deprecate_guard demo_registry (demo_target ''user'') (Some (demo_target ''account'')) =
     Inr (new_row demo_env (Aware 0 0) 0 (SEntity \<lparr>e_name = ''user'', e_join_keys = [(''user_id'', TString)]\<rparr>))"
proof -
  have "lives_ok demo_env demo_registry" using reachable_ok [OF demo_reachable] by simp
  then have "validate_replacement demo_registry (demo_target ''user'') (demo_target ''account'') = Inr ()"
    using demo_records(2) validate_replacement_accepts [of demo_env demo_registry]
    by (simp add: demo_target_def record_life_def find_life_def demo_rows is_deprecated_def truthy_def)
  then show ?thesis
    using demo_records(1) by (simp add: deprecate_guard_Inr check_dependents_def dependents_def demo_rows)
qed

lemma demo_deprecated_reachable: "reachable_registry demo_env demo_deprecated"
  unfolding demo_deprecated_def
  by (rule reachable_registry.step [OF demo_reachable], rule deprecate_step) auto

lemma demo_deprecated_lives:
  "reg_lives demo_deprecated = [deprecate_life None (Some (demo_target ''account'')) (Aware 7 0)
     (new_life 0 None (Aware 7 0))]"
  using demo_guard
  by (simp add: demo_deprecated_def deprecate_def Let_def put_life_def find_life_def demo_rows add_life_def
      demo_target_def)

lemma reachable_replacement_live_witness:
  "\<exists>r. record_for_target demo_deprecated (demo_target ''account'') = Inr r \<and>
     \<not> is_deprecated (record_life demo_deprecated r None)"
  using reachable_replacement_live [OF demo_deprecated_reachable, of _ "demo_target ''account''"]
    demo_deprecated_lives
  by (auto simp: deprecate_life_def demo_target_def)

lemma validate_replacement_iff_witness:
  "validate_replacement demo_registry (demo_target ''user'') (demo_target ''account'') = Inr () \<and>
   validate_replacement demo_registry (demo_target ''user'') (demo_target ''user'') \<noteq> Inr ()"
  using validate_replacement_iff [OF demo_reachable, of "demo_target ''user''" "demo_target ''account''"]
    validate_replacement_iff [OF demo_reachable, of "demo_target ''user''" "demo_target ''user''"]
    demo_records
  by (simp add: demo_target_def record_life_def find_life_def demo_rows is_deprecated_def)

lemma deprecate_effect_witness:
  "\<exists>d. snd (deprecate demo_env (Aware 7 0) demo_registry (demo_target ''user'') None
       (Some (demo_target ''account''))) = Inr d \<and> d_status d = Deprecated \<and>
     d_replacement d = Some (demo_target ''account'') \<and> d_deprecated_at d = Some (Aware 7 0)"
  using deprecate_effect [OF demo_reachable, of "demo_target ''user''" "Some (demo_target ''account'')"
      "Aware 7 0" None] demo_guard
  by auto

lemma reactivate_undoes_deprecate_witness:
  "\<exists>d. snd (reactivate demo_env (Aware 9 0) demo_deprecated (demo_target ''user'')) = Inr d \<and> d_status d = Active"
  using reactivate_undoes_deprecate [OF demo_reachable _ _ demo_guard, of "Aware 9 0" "Aware 7 0" None]
  by (auto simp: demo_deprecated_def)

lemma warnings_exact_witness:
  "\<exists>ws. warnings_for_targets demo_deprecated [demo_target ''user'', demo_target ''account''] = Inr ws \<and>
     set ws = {w. warned_by demo_deprecated [demo_target ''user'', demo_target ''account''] w}"
  using warnings_exact [OF demo_deprecated_reachable, of "[demo_target ''user'', demo_target ''account'']"]
  by auto

end
