(* ===== verification/Events.thy ===== *)
theory Events
  imports RegistryStore
begin

section \<open>Requests and stream events\<close>

text \<open>
  The request models of \<open>models.py\<close> (observations, historical and online queries, job
  requests) and \<open>StreamFeatureEvent\<close>, each with the validators that construct it, and the
  JSON dump and validation that carry an event through the ledger. How pydantic reads and writes
  a datetime is the pair \<open>env_parse_time\<close>, \<open>env_dump_time\<close> of the environment.
  \<open>parse_event_dump\<close> says that a dumped event validates back to itself.
\<close>

subsection \<open>Query requests\<close>

record observation =
  ob_entity :: row
  ob_time :: datetime

definition mk_observation :: "row \<Rightarrow> datetime \<Rightarrow> observation result" where
  "mk_observation entity t =
     (if has_tz t then Inr \<lparr>ob_entity = entity, ob_time = t\<rparr>
      else Inl (ValidationError ''event_timestamp must include a timezone''))"

text \<open>
  \<open>one_selector\<close>, the validator \<open>HistoricalQuery\<close> and \<open>OnlineQuery\<close> share:
  exactly one of the two selectors is truthy.
\<close>

definition one_selector :: "string list \<Rightarrow> string option \<Rightarrow> unit result" where
  "one_selector features service =
     (if (features \<noteq> []) = (service \<noteq> None \<and> service \<noteq> Some [])
      then Inl (ValidationError ''provide exactly one of features or feature_service'')
      else Inr ())"

record historical_query =
  hq_observations :: "observation list"
  hq_features :: "string list"
  hq_service :: "string option"

definition mk_historical_query ::
    "observation list \<Rightarrow> string list \<Rightarrow> string option \<Rightarrow> historical_query result" where
  "mk_historical_query obs features service =
     bind_result (one_selector features service) (\<lambda>_.
     Inr \<lparr>hq_observations = obs, hq_features = features, hq_service = service\<rparr>)"

record online_query =
  oq_entities :: "row list"
  oq_features :: "string list"
  oq_service :: "string option"

definition mk_online_query :: "row list \<Rightarrow> string list \<Rightarrow> string option \<Rightarrow> online_query result" where
  "mk_online_query entities features service =
     bind_result (one_selector features service) (\<lambda>_.
     Inr \<lparr>oq_entities = entities, oq_features = features, oq_service = service\<rparr>)"

text \<open>\<open>QueryResponse\<close>.\<close>

record query_response =
  qr_features :: "string list"
  qr_rows :: "row list"
  qr_warnings :: "warning list"

subsection \<open>Job requests\<close>

record job_request =
  jr_view :: string
  jr_start :: datetime
  jr_end :: datetime

definition mk_job_request :: "string \<Rightarrow> datetime \<Rightarrow> datetime \<Rightarrow> job_request result" where
  "mk_job_request view s e =
     (if \<not> has_tz s \<or> \<not> has_tz e
      then Inl (ValidationError ''job timestamps must include a timezone'')
      else if instant e \<le> instant s then Inl (ValidationError ''start must be before end'')
      else Inr \<lparr>jr_view = view, jr_start = s, jr_end = e\<rparr>)"

record incremental_request =
  ir_view :: string
  ir_end :: "datetime option"
  ir_lookback :: "int option"

definition mk_incremental_request ::
    "string \<Rightarrow> datetime option \<Rightarrow> int option \<Rightarrow> incremental_request result" where
  "mk_incremental_request view e lookback =
     (if (case e of None \<Rightarrow> False | Some d \<Rightarrow> \<not> has_tz d)
      then Inl (ValidationError ''end must include a timezone'')
      else if (case lookback of None \<Rightarrow> False | Some s \<Rightarrow> s < 0)
      then Inl (ValidationError ''lookback_seconds must be non-negative'')
      else Inr \<lparr>ir_view = view, ir_end = e, ir_lookback = lookback\<rparr>)"

subsection \<open>Stream events\<close>

datatype event_state = EPending | EStaged | EApplied

record stream_event =
  ev_id :: string
  ev_view :: string
  ev_entity :: row
  ev_time :: datetime
  ev_values :: row

definition mk_event :: "string \<Rightarrow> string \<Rightarrow> row \<Rightarrow> datetime \<Rightarrow> row \<Rightarrow> stream_event result" where
  "mk_event i view entity t vals =
     (if i = [] \<or> 256 < length i
      then Inl (ValidationError ''event_id must have between 1 and 256 characters'')
      else if \<not> has_tz t then Inl (ValidationError ''event_timestamp must include a timezone'')
      else Inr \<lparr>ev_id = i, ev_view = view, ev_entity = entity, ev_time = t, ev_values = vals\<rparr>)"

definition valid_event :: "stream_event \<Rightarrow> bool" where
  "valid_event e \<longleftrightarrow> ev_id e \<noteq> [] \<and> length (ev_id e) \<le> 256 \<and> has_tz (ev_time e)"

lemma mk_event_valid: "mk_event i view entity t vals = Inr e \<Longrightarrow> valid_event e"
  by (auto simp: mk_event_def valid_event_def split: if_splits)

text \<open>\<open>model_dump(mode="json")\<close> writes the datetimes inside untyped values as text.\<close>

fun json_mode :: "pyenv \<Rightarrow> pyval \<Rightarrow> pyval" where
  "json_mode env (VTime d) = VStr (env_dump_time env d)"
| "json_mode env (VList xs) = VList (map (json_mode env) xs)"
| "json_mode env (VDict d) = VDict (map (\<lambda>kv. (fst kv, json_mode env (snd kv))) d)"
| "json_mode env v = v"

definition event_fields :: "string list" where
  "event_fields = [''event_id'', ''feature_view'', ''entity_values'', ''event_timestamp'', ''values'']"

text \<open>\<open>StreamFeatureEvent.model_validate\<close>: exactly these fields, of these types.\<close>

definition parse_event :: "pyenv \<Rightarrow> pyval \<Rightarrow> stream_event result" where
  "parse_event env v =
     (case v of
        VDict d \<Rightarrow>
          if set (map fst d) \<noteq> set event_fields
          then Inl (ValidationError ''StreamFeatureEvent: missing or extra fields'')
          else (case (dict_get d ''event_id'', dict_get d ''feature_view'', dict_get d ''entity_values'',
                      env_parse_time env (dict_get d ''event_timestamp''), dict_get d ''values'') of
              (VStr i, VStr view, VDict entity, Some t, VDict vals) \<Rightarrow> mk_event i view entity t vals
            | _ \<Rightarrow> Inl (ValidationError ''StreamFeatureEvent: a field has the wrong type''))
      | _ \<Rightarrow> Inl (ValidationError ''StreamFeatureEvent: not an object''))"

lemma jsonable_json_mode [simp]: "jsonable (json_mode env v)"
  by (induction env v rule: json_mode.induct) auto

lemma json_mode_id: "jsonable v \<Longrightarrow> json_mode env v = v"
  by (induction env v rule: json_mode.induct) (auto intro!: map_idI)

lemma keys_json_mode: "keys_ok v \<Longrightarrow> keys_ok (json_mode env v)"
  by (induction env v rule: json_mode.induct) (auto simp: o_def)

lemma parse_event_valid: "parse_event env v = Inr e \<Longrightarrow> valid_event e"
  by (auto simp: parse_event_def split: pyval.splits if_splits option.splits intro: mk_event_valid)

subsection \<open>A sample registry\<close>

text \<open>One entity, one view over a stream and a batch source: the concrete runs of later theories use it.\<close>

definition shop_entity :: entity where
  "shop_entity = \<lparr>e_name = ''user'', e_join_keys = [(''user_id'', TString)]\<rparr>"

definition shop_view :: feature_view where
  "shop_view = \<lparr>v_name = ''spend'', v_version = ''1.0.0'', v_entity = ''user'',
     v_features = [\<lparr>f_name = ''total'', f_dtype = TInt64, f_description = [], f_quality = None\<rparr>],
     v_batch_source = ''orders'', v_batch_sql = ''select'', v_stream_source = Some ''clicks'',
     v_ttl_seconds = Some 60, v_description = [], v_quality_policy = None\<rparr>"

definition shop_row :: "nat \<Rightarrow> object_spec \<Rightarrow> registry_record" where
  "shop_row n sp = \<lparr>r_id = n, r_kind = spec_kind sp, r_name = spec_name sp, r_version = spec_version sp,
     r_fingerprint = [], r_spec = sp, r_created = Aware 0 0\<rparr>"

definition shop_registry :: registry where
  "shop_registry = \<lparr>reg_rows =
     [shop_row 0 (SEntity shop_entity),
      shop_row 1 (SBatch \<lparr>bs_name = ''orders'', bs_uri = ''s3://orders'', bs_timestamp_field = ''event_timestamp''\<rparr>),
      shop_row 2 (SStream \<lparr>ss_name = ''clicks'', ss_topic = ''clicks'', ss_dead_letter = None\<rparr>),
      shop_row 3 (SView shop_view)],
     reg_lives = [], reg_next = 4\<rparr>"

lemma shop_lookups [simp]:
  "feature_view_of shop_registry ''spend@1.0.0'' = Inr shop_view"
  "entity_of shop_registry ''user'' = Inr shop_entity"
  "batch_source_of shop_registry ''orders'' = Inr \<lparr>bs_name = ''orders'', bs_uri = ''s3://orders'', bs_timestamp_field = ''event_timestamp''\<rparr>"
  "stream_source_of shop_registry ''clicks'' = Inr \<lparr>ss_name = ''clicks'', ss_topic = ''clicks'', ss_dead_letter = None\<rparr>"
  by (simp_all add: feature_view_of_def entity_of_def batch_source_of_def stream_source_of_def parse_view_ref_def
      get_record_def find_record_def record_key_def as_view_def as_entity_def as_batch_def as_stream_def
      shop_registry_def shop_row_def shop_view_def shop_entity_def)

definition shop_event :: "string \<Rightarrow> int \<Rightarrow> int \<Rightarrow> stream_event" where
  "shop_event i t n = \<lparr>ev_id = i, ev_view = ''spend@1.0.0'', ev_entity = [(''user_id'', VStr ''ada'')],
     ev_time = Aware t 0, ev_values = [(''total'', VInt n)]\<rparr>"

end
