(* ===== verification/Json.thy ===== *)
theory Json
  imports Values
begin

section \<open>Reading JSON: \<open>json.loads\<close>\<close>

text \<open>
  The decoder of Python's \<open>json\<close> module on the characters of the model: white space, the
  literals with \<open>NaN\<close> and the infinities, the number grammar, strings with their escapes,
  arrays and objects (a repeated key keeps its first position and its last value). The decoder
  recurses with fuel; nested calls consume characters, so twice the length of the text plus one
  is enough for every text (\<open>json_loads_fuel\<close>). \<open>json_loads_dumps\<close> is the round trip the online store and the event ledger rely on.
\<close>

subsection \<open>Tokens\<close>

fun skip_ws :: "string \<Rightarrow> string" where
  "skip_ws [] = []"
| "skip_ws (c # s) = (if c = CHR '' '' \<or> c = CHR 0x09 \<or> c = CHR 0x0A \<or> c = CHR 0x0D then skip_ws s else c # s)"

definition hex_val :: "char \<Rightarrow> nat option" where
  "hex_val c =
     (let n = of_char c :: nat in
      if 48 \<le> n \<and> n \<le> 57 then Some (n - 48)
      else if 97 \<le> n \<and> n \<le> 102 then Some (n - 87)
      else if 65 \<le> n \<and> n \<le> 70 then Some (n - 55)
      else None)"

text \<open>The code point of four hexadecimal digits; a character of the model has one below 256.\<close>

definition hex_code :: "char \<Rightarrow> char \<Rightarrow> char \<Rightarrow> char \<Rightarrow> char option" where
  "hex_code a b c d =
     (case (hex_val a, hex_val b, hex_val c, hex_val d) of
        (Some 0, Some 0, Some h, Some l) \<Rightarrow> Some (char_of (16 * h + l))
      | _ \<Rightarrow> None)"

definition escape_of :: "char \<Rightarrow> char option" where
  "escape_of c =
     (if c = CHR 0x22 then Some (CHR 0x22)
      else if c = CHR 0x5C then Some (CHR 0x5C)
      else if c = CHR ''/'' then Some (CHR ''/'')
      else if c = CHR ''n'' then Some (CHR 0x0A)
      else if c = CHR ''r'' then Some (CHR 0x0D)
      else if c = CHR ''t'' then Some (CHR 0x09)
      else if c = CHR ''f'' then Some (CHR 0x0C)
      else if c = CHR ''b'' then Some (CHR 0x08)
      else None)"

definition with_char :: "char option \<Rightarrow> (string \<times> string) option \<Rightarrow> (string \<times> string) option" where
  "with_char c p =
     (case c of None \<Rightarrow> None | Some x \<Rightarrow> (case p of None \<Rightarrow> None | Some (t, r) \<Rightarrow> Some (x # t, r)))"

text \<open>The body of a string after its opening quote, up to the closing one.\<close>

fun parse_str :: "string \<Rightarrow> (string \<times> string) option" where
  "parse_str [] = None"
| "parse_str (c # s) =
     (if c = CHR 0x22 then Some ([], s)
      else if c = CHR 0x5C then
        (case s of
           [] \<Rightarrow> None
         | e # t \<Rightarrow> if e = CHR ''u'' then
             (case t of h1 # h2 # h3 # h4 # u \<Rightarrow> with_char (hex_code h1 h2 h3 h4) (parse_str u) | _ \<Rightarrow> None)
           else with_char (escape_of e) (parse_str t))
      else if (of_char c :: nat) < 32 then None
      else with_char (Some c) (parse_str s))"

text \<open>The number grammar: an integer part, an optional fraction, an optional exponent.\<close>

definition scan_nat :: "string \<Rightarrow> string \<Rightarrow> (string \<times> string) option" where
  "scan_nat sign t =
     (let ds = takeWhile is_digit t
      in if ds = [] then None
         else if hd ds = CHR ''0'' then Some (sign @ ''0'', tl t)
         else Some (sign @ ds, dropWhile is_digit t))"

definition scan_int :: "string \<Rightarrow> (string \<times> string) option" where
  "scan_int s = (case s of
       c # t \<Rightarrow> if c = CHR ''-'' then scan_nat ''-'' t else scan_nat [] s
     | [] \<Rightarrow> None)"

definition scan_frac :: "string \<Rightarrow> string \<times> string" where
  "scan_frac s = (case s of
       c # t \<Rightarrow> if c = CHR ''.'' \<and> takeWhile is_digit t \<noteq> []
         then (c # takeWhile is_digit t, dropWhile is_digit t) else ([], s)
     | [] \<Rightarrow> ([], s))"

definition scan_exp :: "string \<Rightarrow> string \<times> string" where
  "scan_exp s = (case s of
       c # t \<Rightarrow>
         (let sign = (case t of d # _ \<Rightarrow> if d = CHR ''+'' \<or> d = CHR ''-'' then [d] else [] | [] \<Rightarrow> []);
              u = drop (length sign) t
          in if (c = CHR ''e'' \<or> c = CHR ''E'') \<and> takeWhile is_digit u \<noteq> []
             then (c # sign @ takeWhile is_digit u, dropWhile is_digit u) else ([], s))
     | [] \<Rightarrow> ([], s))"

text \<open>Whether the longest number at the front is a float, its text, and what follows.\<close>

definition scan_number :: "string \<Rightarrow> (bool \<times> string \<times> string) option" where
  "scan_number s = (case scan_int s of
       None \<Rightarrow> None
     | Some (i, t) \<Rightarrow> (let (f, u) = scan_frac t; (e, w) = scan_exp u
         in Some (f @ e \<noteq> [], i @ f @ e, w)))"

definition parse_number :: "pyenv \<Rightarrow> string \<Rightarrow> (pyval \<times> string) option" where
  "parse_number env s = (case scan_number s of
       None \<Rightarrow> None
     | Some (is_float, tok, r) \<Rightarrow>
         Some (if is_float then VFloat (env_float_of env tok) else VInt (int_of_text tok), r))"

definition literals :: "(string \<times> pyval) list" where
  "literals = [(''null'', VNone), (''true'', VBool True), (''false'', VBool False),
     (''NaN'', VFloat NotANumber), (''Infinity'', VFloat PosInf), (''-Infinity'', VFloat NegInf)]"

definition parse_atom :: "pyenv \<Rightarrow> string \<Rightarrow> (pyval \<times> string) option" where
  "parse_atom env s =
     (case find (\<lambda>kv. starts_with (fst kv) s) literals of
        Some kv \<Rightarrow> Some (snd kv, drop (length (fst kv)) s)
      | None \<Rightarrow> parse_number env s)"

subsection \<open>Values\<close>

fun parse_value :: "pyenv \<Rightarrow> nat \<Rightarrow> string \<Rightarrow> (pyval \<times> string) option"
  and parse_items :: "pyenv \<Rightarrow> nat \<Rightarrow> string \<Rightarrow> (pyval list \<times> string) option"
  and parse_pairs :: "pyenv \<Rightarrow> nat \<Rightarrow> string \<Rightarrow> ((string \<times> pyval) list \<times> string) option" where
  "parse_value env 0 s = None"
| "parse_value env (Suc n) s = (case s of
       [] \<Rightarrow> None
     | c # t \<Rightarrow>
         if c = CHR 0x22 then map_option (\<lambda>(x, r). (VStr x, r)) (parse_str t)
         else if c = CHR ''['' then
           (case skip_ws t of
              [] \<Rightarrow> None
            | d # r \<Rightarrow> if d = CHR '']'' then Some (VList [], r)
                else map_option (\<lambda>(xs, r). (VList xs, r)) (parse_items env n (d # r)))
         else if c = CHR ''{'' then
           (case skip_ws t of
              [] \<Rightarrow> None
            | d # r \<Rightarrow> if d = CHR ''}'' then Some (VDict [], r)
                else map_option (\<lambda>(kvs, r). (VDict (fold (\<lambda>(k, v) d. dict_set d k v) kvs []), r))
                       (parse_pairs env n (d # r)))
         else parse_atom env s)"
| "parse_items env 0 s = None"
| "parse_items env (Suc n) s = (case parse_value env n s of
       None \<Rightarrow> None
     | Some (v, r) \<Rightarrow> (case skip_ws r of
           [] \<Rightarrow> None
         | c # t \<Rightarrow> if c = CHR '']'' then Some ([v], t)
             else if c = CHR '','' then map_option (\<lambda>(vs, u). (v # vs, u)) (parse_items env n (skip_ws t))
             else None))"
| "parse_pairs env 0 s = None"
| "parse_pairs env (Suc n) s = (case s of
       [] \<Rightarrow> None
     | q # s' \<Rightarrow> if q \<noteq> CHR 0x22 then None else
         (case parse_str s' of
            None \<Rightarrow> None
          | Some (k, r) \<Rightarrow> (case skip_ws r of
                [] \<Rightarrow> None
              | c # t \<Rightarrow> if c \<noteq> CHR '':'' then None else
                  (case parse_value env n (skip_ws t) of
                     None \<Rightarrow> None
                   | Some (v, u) \<Rightarrow> (case skip_ws u of
                         [] \<Rightarrow> None
                       | d # w \<Rightarrow> if d = CHR ''}'' then Some ([(k, v)], w)
                           else if d = CHR '','' then
                             map_option (\<lambda>(kvs, x). ((k, v) # kvs, x)) (parse_pairs env n (skip_ws w))
                           else None)))))"

definition json_loads :: "pyenv \<Rightarrow> string \<Rightarrow> pyval result" where
  "json_loads env s = (case parse_value env (2 * length s + 1) (skip_ws s) of
       Some (v, r) \<Rightarrow> if skip_ws r = [] then Inr v else Inl (ValueError ''Extra data'')
     | None \<Rightarrow> Inl (ValueError ''Expecting value''))"


subsection \<open>Reading back what was written\<close>

lemma hex_val_hex_char: "d < 16 \<Longrightarrow> hex_val (hex_char d) = Some d"
proof -
  have "\<forall>d \<in> set [0..<16]. hex_val (hex_char d) = Some d"
    by (simp add: hex_val_def hex_char_def upt_rec)
  then show "d < 16 \<Longrightarrow> hex_val (hex_char d) = Some d" by simp
qed

lemma hex_code_char:
  "hex_code (CHR ''0'') (CHR ''0'') (hex_char (of_char c div 16)) (hex_char (of_char c mod 16)) = Some c"
proof -
  have "of_char c div 16 < (16 :: nat)" "of_char c mod 16 < (16 :: nat)"
    using nat_of_char_less_256 [of c] by (simp_all add: less_mult_imp_div_less)
  moreover have "hex_val (CHR ''0'') = Some 0" by (simp add: hex_val_def)
  moreover have "16 * (of_char c div 16) + of_char c mod 16 = (of_char c :: nat)" by simp
  ultimately show ?thesis by (simp add: hex_code_def hex_val_hex_char)
qed

lemma parse_str_short:
  "e \<noteq> CHR ''u'' \<Longrightarrow> parse_str (CHR 0x5C # e # t) = with_char (escape_of e) (parse_str t)"
  by simp

lemma parse_str_hex:
  "parse_str (CHR 0x5C # CHR ''u'' # a # b # c # d # t) = with_char (hex_code a b c d) (parse_str t)"
  by simp

lemma parse_str_plain:
  "c \<noteq> CHR 0x22 \<Longrightarrow> c \<noteq> CHR 0x5C \<Longrightarrow> \<not> (of_char c :: nat) < 32 \<Longrightarrow>
     parse_str (c # s) = with_char (Some c) (parse_str s)"
  by simp

lemma parse_str_escape:
  "parse_str (escape_char ascii c @ s) = with_char (Some c) (parse_str s)"
proof (cases "c \<in> {CHR 0x22, CHR 0x5C, CHR 0x0A, CHR 0x0D, CHR 0x09, CHR 0x0C, CHR 0x08}")
  case True
  then consider "c = CHR 0x22" | "c = CHR 0x5C" | "c = CHR 0x0A" | "c = CHR 0x0D" | "c = CHR 0x09"
    | "c = CHR 0x0C" | "c = CHR 0x08" by blast
  then show ?thesis
    by cases (simp_all only: escape_char_def append_Cons append_Nil if_True if_False char.inject simp_thms
        parse_str_short, simp_all add: escape_of_def del: parse_str.simps)
next
  case False
  show ?thesis
  proof (cases "must_escape ascii c")
    case True
    then have "escape_char ascii c = [CHR 0x5C, CHR ''u'', CHR ''0'', CHR ''0'',
        hex_char (of_char c div 16), hex_char (of_char c mod 16)]"
      using False by (simp add: escape_char_def)
    then show ?thesis by (simp add: hex_code_char parse_str_hex del: parse_str.simps)
  next
    case nope: False
    then have "escape_char ascii c = [c]" using False by (simp add: escape_char_def)
    moreover have "\<not> (of_char c :: nat) < 32" using nope by (simp add: must_escape_def Let_def)
    ultimately show ?thesis using False by (simp add: parse_str_plain del: parse_str.simps)
  qed
qed

lemma parse_str_quote:
  "parse_str (concat (map (escape_char ascii) t) @ CHR 0x22 # r) = Some (t, r)"
proof (induction t)
  case (Cons c t)
  then show ?case by (simp add: parse_str_escape with_char_def del: parse_str.simps)
qed simp


text \<open>What the code relies on from \<open>float\<close>: its text is one JSON number and reads back.\<close>

definition float_reads_ok :: "pyenv \<Rightarrow> bool" where
  "float_reads_ok env \<longleftrightarrow>
     (\<forall>q. env_float_of env (env_float_repr env q) = Fin q) \<and>
     (\<forall>q r. closed_tail r \<longrightarrow> scan_number (env_float_repr env q @ r) = Some (True, env_float_repr env q, r))"

lemma nat_str_no_zero: "0 < n \<Longrightarrow> hd (nat_str n) \<noteq> CHR ''0''"
proof (induction n rule: nat_str.induct)
  case (1 n)
  show ?case
  proof (cases "n < 10")
    case True
    then have "digit_char n \<noteq> digit_char 0" using 1(2) by (simp add: digit_char_inj)
    then show ?thesis using True by (simp add: nat_str.simps [of n] digit_char_eval)
  next
    case False
    then have "hd (nat_str (n div 10)) \<noteq> CHR ''0''" using 1 by simp
    then show ?thesis using False by (simp add: nat_str.simps [of n])
  qed
qed

definition no_digit :: "string \<Rightarrow> bool" where
  "no_digit r \<longleftrightarrow> (case r of [] \<Rightarrow> True | c # _ \<Rightarrow> \<not> is_digit c)"

lemma closed_no_digit: "closed_tail r \<Longrightarrow> no_digit r"
  by (cases r) (auto simp: no_digit_def is_closing_def is_digit_def)

lemma no_digit_while: "no_digit r \<Longrightarrow> takeWhile is_digit r = [] \<and> dropWhile is_digit r = r"
  by (cases r) (auto simp: no_digit_def)

lemma scan_digits:
  assumes "no_digit r"
  shows "takeWhile is_digit (nat_str n @ r) = nat_str n" "dropWhile is_digit (nat_str n @ r) = r"
  using no_digit_while [OF assms] nat_str_digits [of _ n] by (simp_all add: takeWhile_append2 dropWhile_append2)

lemma nat_str_hd_tl: "nat_str n = CHR ''0'' # t \<Longrightarrow> n = 0 \<and> t = []"
  using nat_str_no_zero [of n] by (cases "n = 0") (auto simp: nat_str.simps [of 0] digit_char_eval)

lemma scan_nat_text:
  assumes "no_digit r"
  shows "scan_nat sign (nat_str n @ r) = Some (sign @ nat_str n, r)"
proof -
  obtain c t where ct: "nat_str n = c # t" by (cases "nat_str n") (use nat_str_nonempty in auto)
  then show ?thesis using scan_digits [OF assms, of n] nat_str_hd_tl [of n t] by (auto simp: scan_nat_def)
qed

lemma nat_str_hd_minus: "nat_str n = c # t \<Longrightarrow> c \<noteq> CHR ''-''"
  using hd_nat_str [of n] by force

lemma scan_int_text:
  assumes "no_digit r"
  shows "scan_int (int_str i @ r) = Some (int_str i, r)"
proof (cases "i < 0")
  case True
  then show ?thesis by (simp add: int_str_def scan_int_def scan_nat_text [OF assms])
next
  case False
  obtain c t where ct: "nat_str (nat i) = c # t" by (cases "nat_str (nat i)") (use nat_str_nonempty in auto)
  then have "c \<noteq> CHR ''-''" by (rule nat_str_hd_minus)
  then show ?thesis using False scan_nat_text [OF assms, of "[]" "nat i"] ct by (simp add: int_str_def scan_int_def)
qed

lemma scan_rest_closed: "closed_tail r \<Longrightarrow> scan_frac r = ([], r)" "closed_tail r \<Longrightarrow> scan_exp r = ([], r)"
  by (cases r; auto simp: scan_frac_def scan_exp_def is_closing_def Let_def)+

lemma parse_number_int: "closed_tail r \<Longrightarrow> parse_number env (int_str i @ r) = Some (VInt i, r)"
  by (simp add: parse_number_def scan_number_def scan_int_text scan_rest_closed closed_no_digit)

lemma starts_withE: "starts_with p s \<Longrightarrow> \<exists>t. s = p @ t"
  by (metis append_take_drop_id starts_with_def)

lemma literal_not_number:
  assumes "kv \<in> set literals" "starts_with (fst kv) s"
  shows "scan_number s = None"
proof -
  obtain t where "s = fst kv @ t" using starts_withE [OF assms(2)] by blast
  then show ?thesis
    using assms(1) by (auto simp: literals_def scan_number_def scan_int_def scan_nat_def is_digit_def)
qed

lemma parse_atom_number:
  assumes "scan_number s \<noteq> None"
  shows "parse_atom env s = parse_number env s"
proof -
  have "find (\<lambda>kv. starts_with (fst kv) s) literals = None"
    using assms literal_not_number by (auto simp: find_None_iff)
  then show ?thesis by (simp add: parse_atom_def)
qed

lemma parse_atom_text:
  assumes "is_atom v" "float_reads_ok env" "closed_tail r"
  shows "parse_atom env (render env opt v @ r) = Some (v, r)"
proof (cases v)
  case (VInt i)
  have "scan_number (int_str i @ r) \<noteq> None" using scan_int_text [OF closed_no_digit [OF assms(3)]] scan_rest_closed [OF assms(3)] by (simp add: scan_number_def)
  then show ?thesis using VInt assms(3) by (simp add: parse_atom_number parse_number_int)
next
  case (VFloat f)
  show ?thesis
  proof (cases f)
    case (Fin q)
    have "scan_number (env_float_repr env q @ r) = Some (True, env_float_repr env q, r)"
      "env_float_of env (env_float_repr env q) = Fin q"
      using assms(2,3) by (simp_all add: float_reads_ok_def)
    then show ?thesis using VFloat Fin by (simp add: parse_atom_number parse_number_def)
  qed (use VFloat in \<open>simp_all add: parse_atom_def literals_def starts_with_def\<close>)
qed (use assms(1) in \<open>auto simp: parse_atom_def literals_def starts_with_def\<close>)

definition json_sep_ok :: "json_opts \<Rightarrow> bool" where
  "json_sep_ok opt \<longleftrightarrow> (opt_item_sep opt = '','' \<or> opt_item_sep opt = '', '') \<and>
     (opt_key_sep opt = '':'' \<or> opt_key_sep opt = '': '')"

lemma json_sep_ok_opts [simp]: "json_sep_ok compact_opts" "json_sep_ok unicode_opts" "json_sep_ok spaced_opts"
  by (simp_all add: json_sep_ok_def compact_opts_def unicode_opts_def spaced_opts_def)

definition atom_start :: "char \<Rightarrow> bool" where
  "atom_start c \<longleftrightarrow> is_digit c \<or> c \<in> set ''-ntfIN''"

lemma scan_number_start:
  assumes "scan_number s = Some x"
  shows "\<exists>c t. s = c # t \<and> atom_start c"
proof (cases s)
  case Nil
  then show ?thesis using assms by (simp add: scan_number_def scan_int_def)
next
  case (Cons c t)
  have "c = CHR ''-'' \<or> is_digit c"
    using assms Cons by (auto simp: scan_number_def scan_int_def scan_nat_def Let_def split: if_splits)
  then show ?thesis using Cons by (auto simp: atom_start_def)
qed

lemma atom_hd_start:
  assumes "is_atom v" "float_reads_ok env"
  shows "\<exists>c t. render env opt v = c # t \<and> atom_start c"
proof (cases v)
  case (VInt i)
  have "scan_number (int_str i @ []) \<noteq> None"
    using scan_int_text [of "[]" i] scan_rest_closed [of "[]"] by (simp add: scan_number_def no_digit_def)
  then show ?thesis using scan_number_start [of "int_str i"] VInt by auto
next
  case (VFloat f)
  show ?thesis
  proof (cases f)
    case (Fin q)
    have "scan_number (env_float_repr env q @ []) = Some (True, env_float_repr env q, [])"
      using assms(2) unfolding float_reads_ok_def by (metis closed_tail_simps(1))
    then show ?thesis using scan_number_start [of "env_float_repr env q"] VFloat Fin by simp
  qed (use VFloat in \<open>auto simp: atom_start_def\<close>)
qed (use assms(1) in \<open>auto simp: atom_start_def\<close>)

lemma atom_start_plain:
  "atom_start c \<Longrightarrow> c \<noteq> CHR 0x22 \<and> c \<noteq> CHR ''['' \<and> c \<noteq> CHR ''{'' \<and> c \<noteq> CHR '']'' \<and>
     c \<noteq> CHR '' '' \<and> c \<noteq> CHR 0x09 \<and> c \<noteq> CHR 0x0A \<and> c \<noteq> CHR 0x0D"
  by (intro conjI notI) (simp_all add: atom_start_def is_digit_def)

lemma value_hd:
  assumes "jsonable v" "float_reads_ok env"
  shows "\<exists>c t. render env opt v = c # t \<and> c \<noteq> CHR '']'' \<and>
     c \<noteq> CHR '' '' \<and> c \<noteq> CHR 0x09 \<and> c \<noteq> CHR 0x0A \<and> c \<noteq> CHR 0x0D"
proof (cases "is_atom v")
  case True
  then show ?thesis using atom_hd_start [OF True assms(2)] atom_start_plain by blast
next
  case False
  then show ?thesis
    using assms(1) by (cases v) (auto simp: quote_str_def neq_Nil_conv elim: list.exhaust, (case_tac x7; auto), (case_tac x8; auto))
qed

lemma skip_ws_value:
  "jsonable v \<Longrightarrow> float_reads_ok env \<Longrightarrow> skip_ws (render env opt v @ s) = render env opt v @ s"
  using value_hd [of v env opt] by auto

lemma skip_ws_quote: "skip_ws (quote_str ascii k @ s) = quote_str ascii k @ s"
  by (simp add: quote_str_def)

definition reads_back :: "pyenv \<Rightarrow> json_opts \<Rightarrow> pyval \<Rightarrow> bool" where
  "reads_back env opt v \<longleftrightarrow> (\<forall>n r. closed_tail r \<longrightarrow> length (render env opt v) < n \<longrightarrow>
     parse_value env n (render env opt v @ r) = Some (v, r))"

lemma atom_reads_back:
  assumes "is_atom v" "float_reads_ok env"
  shows "reads_back env opt v"
  unfolding reads_back_def
proof (intro allI impI)
  fix n r assume r: "closed_tail r" and len: "length (render env opt v) < n"
  then obtain m where n: "n = Suc m" by (cases n) auto
  obtain c t where ct: "render env opt v = c # t" "atom_start c" using atom_hd_start [OF assms] by blast
  have "parse_value env n (render env opt v @ r) = parse_atom env (render env opt v @ r)"
    using atom_start_plain [OF ct(2)] by (simp add: n ct(1))
  then show "parse_value env n (render env opt v @ r) = Some (v, r)"
    using parse_atom_text [OF assms r] by simp
qed

lemma parse_items_text:
  assumes opt: "json_sep_ok opt" "seps_ok opt" and fl: "float_reads_ok env"
  shows "\<forall>y \<in> set (x # xs). jsonable y \<and> reads_back env opt y \<Longrightarrow>
     length (render env opt x @ render_more env opt xs) < n \<Longrightarrow>
     parse_items env n (render env opt x @ render_more env opt xs @ r) = Some (x # xs, r)"
proof (induction xs arbitrary: x n)
  case Nil
  obtain m where n: "n = Suc m" using Nil.prems(2) by (cases n) auto
  have "parse_value env m (render env opt x @ CHR '']'' # r) = Some (x, CHR '']'' # r)"
    using Nil.prems n by (simp add: reads_back_def)
  then show ?case by (simp add: n)
next
  case (Cons y ys)
  obtain m where n: "n = Suc m" using Cons.prems(2) by (cases n) auto
  have sep: "opt_item_sep opt = '','' \<or> opt_item_sep opt = '', ''" using opt(1) by (simp add: json_sep_ok_def)
  let ?more = "render_more env opt (y # ys) @ r"
  have "closed_tail ?more" by (rule closed_render_more [OF opt(2)])
  moreover have "length (render env opt x) < m" using Cons.prems(2) n sep by auto
  ultimately have v: "parse_value env m (render env opt x @ ?more) = Some (x, ?more)"
    using Cons.prems(1) unfolding reads_back_def by (metis list.set_intros(1))
  have ih: "parse_items env m (render env opt y @ render_more env opt ys @ r) = Some (y # ys, r)"
    using Cons.prems n sep by (intro Cons.IH) auto
  have skip: "skip_ws (render env opt y @ s) = render env opt y @ s" for s
    using Cons.prems(1) fl by (intro skip_ws_value) auto
  show ?case using sep v ih skip by (auto simp: n)
qed

lemma parse_pairs_text:
  assumes opt: "json_sep_ok opt" "seps_ok opt" and fl: "float_reads_ok env"
  shows "\<forall>y \<in> set (kv # d). jsonable (snd y) \<and> reads_back env opt (snd y) \<Longrightarrow>
     length (quote_str (opt_ascii opt) (fst kv) @ opt_key_sep opt @ render env opt (snd kv) @ render_pairs env opt d) < n \<Longrightarrow>
     parse_pairs env n (quote_str (opt_ascii opt) (fst kv) @ opt_key_sep opt @ render env opt (snd kv)
       @ render_pairs env opt d @ r) = Some (kv # d, r)"
proof (induction d arbitrary: kv n)
  case Nil
  obtain m where n: "n = Suc m" using Nil.prems(2) by (cases n) auto
  have key: "opt_key_sep opt = '':'' \<or> opt_key_sep opt = '': ''" using opt(1) by (simp add: json_sep_ok_def)
  have v: "parse_value env m (render env opt (snd kv) @ CHR ''}'' # r) = Some (snd kv, CHR ''}'' # r)"
    using Nil.prems n by (simp add: reads_back_def)
  have skip: "skip_ws (render env opt (snd kv) @ s) = render env opt (snd kv) @ s" for s
    using Nil.prems(1) fl by (intro skip_ws_value) auto
  show ?case using key v skip by (auto simp: n quote_str_def parse_str_quote)
next
  case (Cons kw d)
  obtain m where n: "n = Suc m" using Cons.prems(2) by (cases n) auto
  have key: "opt_key_sep opt = '':'' \<or> opt_key_sep opt = '': ''" and
    sep: "opt_item_sep opt = '','' \<or> opt_item_sep opt = '', ''" using opt(1) by (simp_all add: json_sep_ok_def)
  let ?more = "render_pairs env opt (kw # d) @ r"
  have "closed_tail ?more" by (rule closed_render_pairs [OF opt(2)])
  moreover have "length (render env opt (snd kv)) < m" using Cons.prems(2) n sep by auto
  ultimately have v: "parse_value env m (render env opt (snd kv) @ ?more) = Some (snd kv, ?more)"
    using Cons.prems(1) unfolding reads_back_def by (metis list.set_intros(1))
  have ih: "parse_pairs env m (quote_str (opt_ascii opt) (fst kw) @ opt_key_sep opt @ render env opt (snd kw)
       @ render_pairs env opt d @ r) = Some (kw # d, r)"
    using Cons.prems n sep by (intro Cons.IH) auto
  have skip: "skip_ws (render env opt (snd kv) @ s) = render env opt (snd kv) @ s" for s
    using Cons.prems(1) fl by (intro skip_ws_value) auto
  show ?case
    using key sep v ih skip by (auto simp: n quote_str_def parse_str_quote)
qed

lemma fold_dict_set:
  "distinct (map fst kvs) \<Longrightarrow> fst ` set kvs \<inter> fst ` set d = {} \<Longrightarrow>
     fold (\<lambda>(k, v) d. dict_set d k v) kvs d = d @ kvs"
proof (induction kvs arbitrary: d)
  case (Cons kv kvs)
  have "dict_set d (fst kv) (snd kv) = d @ [kv]"
    using Cons.prems(2) by (induction d) auto
  then show ?case using Cons by (simp add: case_prod_beta)
qed simp

lemma render_reads_back:
  assumes opt: "json_sep_ok opt" "seps_ok opt" and fl: "float_reads_ok env"
  shows "jsonable v \<Longrightarrow> keys_ok v \<Longrightarrow> reads_back env opt v"
proof (induction v)
  case (VStr s)
  show ?case unfolding reads_back_def
  proof (intro allI impI)
    fix n r assume "length (render env opt (VStr s)) < n"
    then obtain m where "n = Suc m" by (cases n) auto
    then show "parse_value env n (render env opt (VStr s) @ r) = Some (VStr s, r)"
      by (simp add: quote_str_def parse_str_quote)
  qed
next
  case (VList xs)
  show ?case unfolding reads_back_def
  proof (intro allI impI)
    fix n r assume r: "closed_tail r" and len: "length (render env opt (VList xs)) < n"
    then obtain m where n: "n = Suc m" by (cases n) auto
    show "parse_value env n (render env opt (VList xs) @ r) = Some (VList xs, r)"
    proof (cases xs)
      case Nil
      then show ?thesis by (simp add: n)
    next
      case (Cons x ys)
      have all: "\<forall>y \<in> set (x # ys). jsonable y \<and> reads_back env opt y" using VList Cons by auto
      obtain c t where hd: "render env opt x = c # t" "c \<noteq> CHR '']''" "skip_ws (c # t @ s) = c # t @ s" for s
        using value_hd [of x env opt] all fl by auto
      have "parse_items env m (render env opt x @ render_more env opt ys @ r) = Some (x # ys, r)"
        using len Cons n by (intro parse_items_text [OF opt fl all]) simp
      then show ?thesis using hd by (simp add: n Cons del: skip_ws.simps)
    qed
  qed
next
  case (VDict d)
  show ?case unfolding reads_back_def
  proof (intro allI impI)
    fix n r assume r: "closed_tail r" and len: "length (render env opt (VDict d)) < n"
    then obtain m where n: "n = Suc m" by (cases n) auto
    show "parse_value env n (render env opt (VDict d) @ r) = Some (VDict d, r)"
    proof (cases d)
      case Nil
      then show ?thesis by (simp add: n)
    next
      case (Cons kv e)
      have "reads_back env opt (snd kw) \<and> jsonable (snd kw)" if "kw \<in> set d" for kw
      proof -
        have "jsonable (snd kw)" "keys_ok (snd kw)" using VDict.prems that by auto
        then show ?thesis using VDict.IH [OF that, of "snd kw"] by (cases kw) auto
      qed
      then have all: "\<forall>y \<in> set (kv # e). jsonable (snd y) \<and> reads_back env opt (snd y)" using Cons by auto
      have "parse_pairs env m (quote_str (opt_ascii opt) (fst kv) @ opt_key_sep opt @ render env opt (snd kv)
          @ render_pairs env opt e @ r) = Some (kv # e, r)"
        using len Cons n by (intro parse_pairs_text [OF opt fl all]) simp
      moreover have "fold (\<lambda>(k, v) d. dict_set d k v) (kv # e) [] = kv # e"
        using VDict.prems Cons fold_dict_set [of "kv # e" "[]"] by simp
      ultimately show ?thesis by (simp add: n Cons quote_str_def del: fold_simps)
    qed
  qed
qed (use atom_reads_back [OF _ fl] in simp_all)


lemma json_loads_render:
  assumes "json_sep_ok opt" "seps_ok opt" "float_reads_ok env" "jsonable v" "keys_ok v"
  shows "json_loads env (render env opt v) = Inr v"
proof -
  have "length (render env opt v) < 2 * length (render env opt v) + 1" by simp
  then have "parse_value env (2 * length (render env opt v) + 1) (render env opt v @ []) = Some (v, [])"
    using render_reads_back [OF assms] unfolding reads_back_def by (metis closed_tail_simps(1))
  moreover have "skip_ws (render env opt v) = render env opt v"
    using skip_ws_value [OF assms(4,3), of opt "[]"] by simp
  ultimately show ?thesis by (simp add: json_loads_def)
qed

text \<open>
  JSON round trip: decoding the text that \<open>json.dumps\<close> writes gives the value back, for
  every JSON value whose dictionaries have distinct keys and for each of the separator settings
  the code uses.
\<close>

theorem json_loads_dumps:
  assumes "float_reads_ok env" "jsonable v" "keys_ok v"
    and "opt = compact_opts \<or> opt = unicode_opts \<or> opt = spaced_opts"
  shows "json_loads env (render env opt v) = Inr v"
  using assms json_loads_render [of opt env v] by auto

lemma demo_float_reads_ok [simp]: "float_reads_ok demo_env"
  unfolding float_reads_ok_def
proof (intro conjI allI impI)
  fix q
  obtain a b where ab: "quotient_of q = (a, b)" by (metis surj_pair)
  have "split_once (CHR ''.'') (int_str a @ CHR ''.'' # int_str b) = Some (int_str a, int_str b)"
    by (simp add: split_once_Some int_str_no_point)
  then have "env_float_of demo_env (env_float_repr demo_env q) = Fin (of_int a / of_int b)"
    by (simp add: demo_env_def fraction_text_def ab text_fraction_def)
  then show "env_float_of demo_env (env_float_repr demo_env q) = Fin q"
    using quotient_of_div [OF ab] by simp
next
  fix q and r :: string assume r: "closed_tail r"
  obtain a b where ab: "quotient_of q = (a, b)" by (metis surj_pair)
  have "0 < b" using quotient_of_denom_pos [OF ab] .
  then have b: "int_str b = nat_str (nat b)" by (simp add: int_str_def)
  have repr: "env_float_repr demo_env q = int_str a @ CHR ''.'' # nat_str (nat b)"
    by (simp add: demo_env_def fraction_text_def ab b)
  have "scan_int (int_str a @ CHR ''.'' # nat_str (nat b) @ r) = Some (int_str a, CHR ''.'' # nat_str (nat b) @ r)"
    by (rule scan_int_text) (simp add: no_digit_def is_digit_def)
  moreover have "scan_frac (CHR ''.'' # nat_str (nat b) @ r) = (CHR ''.'' # nat_str (nat b), r)"
    using scan_digits [OF closed_no_digit [OF r], of "nat b"] by (simp add: scan_frac_def)
  ultimately show "scan_number (env_float_repr demo_env q @ r) = Some (True, env_float_repr demo_env q, r)"
    using scan_rest_closed(2) [OF r] by (simp add: scan_number_def repr)
qed

lemma json_loads_dumps_witness:
  "json_loads demo_env (render demo_env compact_opts (VDict [(''a'', VList [VInt (-7), VNone]), (''b'', VStr ''x'')]))
     = Inr (VDict [(''a'', VList [VInt (-7), VNone]), (''b'', VStr ''x'')])"
  by (rule json_loads_dumps) simp_all

subsection \<open>The fuel is enough\<close>

lemma parse_str_shorter: "parse_str s = Some (t, r) \<Longrightarrow> length r < length s"
proof (induction s arbitrary: t r rule: parse_str.induct)
  case (2 c s)
  then show ?case
    by (auto simp: with_char_def split: if_splits list.splits option.splits) fastforce+
qed simp

lemma skip_ws_length: "length (skip_ws s) \<le> length s"
  by (induction s) auto

lemma skip_ws_Cons: "skip_ws s = c # t \<Longrightarrow> length t < length s"
  using skip_ws_length [of s] by simp

lemma scan_number_shorter:
  assumes "scan_number s = Some (b, tok, r)"
  shows "length r < length s"
proof -
  have nat: "scan_nat sign t = Some (i, u) \<Longrightarrow> length u < length t" for sign t i u
    by (cases t) (auto simp: scan_nat_def Let_def length_dropWhile_le le_imp_less_Suc split: if_splits)
  have int: "scan_int s = Some (i, u) \<Longrightarrow> length u < length s" for i u
    using nat by (cases s) (auto simp: scan_int_def split: if_splits dest!: nat)
  have frac: "length (snd (scan_frac u)) \<le> length u" for u
    by (cases u) (auto simp: scan_frac_def length_dropWhile_le le_SucI)
  have exp: "length (snd (scan_exp u)) \<le> length u" for u
    by (cases u) (auto simp: scan_exp_def Let_def intro!: le_trans [OF length_dropWhile_le] split: list.splits)
  obtain i t where i: "scan_int s = Some (i, t)" using assms by (auto simp: scan_number_def split: option.splits)
  then have "r = snd (scan_exp (snd (scan_frac t)))"
    using assms by (auto simp: scan_number_def split: prod.splits)
  then show ?thesis using int [OF i] frac [of t] exp [of "snd (scan_frac t)"] by simp
qed

lemma parse_atom_shorter: "parse_atom env s = Some (v, r) \<Longrightarrow> length r < length s"
proof -
  assume p: "parse_atom env s = Some (v, r)"
  show "length r < length s"
  proof (cases "find (\<lambda>kv. starts_with (fst kv) s) literals")
    case None
    then show ?thesis using p scan_number_shorter
      by (auto simp: parse_atom_def parse_number_def split: option.splits)
  next
    case (Some kv)
    then have kv: "kv \<in> set literals" "starts_with (fst kv) s" by (auto simp: find_Some_iff)
    then have "0 < length (fst kv)" by (auto simp: literals_def)
    moreover have "length (fst kv) \<le> length s" using starts_withE [OF kv(2)] by auto
    ultimately have "length (drop (length (fst kv)) s) < length s"
      unfolding length_drop by linarith
    moreover have "r = drop (length (fst kv)) s" using p Some by (simp add: parse_atom_def split: prod.splits)
    ultimately show ?thesis by simp
  qed
qed

lemma parse_items_SucD:
  assumes "parse_items env (Suc n) s = Some (vs, u)"
  obtains v r c t where "parse_value env n s = Some (v, r)" "skip_ws r = c # t"
    "u = t \<or> (\<exists>vs'. parse_items env n (skip_ws t) = Some (vs', u))"
  using assms by (auto split: option.splits list.splits if_splits)

lemma parse_pairs_SucD:
  assumes "parse_pairs env (Suc n) s = Some (kvs, x)"
  obtains q s' k r c t v u d w where "s = q # s'" "parse_str s' = Some (k, r)" "skip_ws r = c # t"
    "parse_value env n (skip_ws t) = Some (v, u)" "skip_ws u = d # w"
    "x = w \<or> (\<exists>kvs'. parse_pairs env n (skip_ws w) = Some (kvs', x))"
proof -
  obtain q s' where s: "s = q # s'" using assms by (cases s) auto
  obtain k r where k: "parse_str s' = Some (k, r)" using assms s by (cases "parse_str s'") (auto split: if_splits)
  obtain c t where c: "skip_ws r = c # t" using assms s k by (cases "skip_ws r") (auto split: if_splits)
  obtain v u where v: "parse_value env n (skip_ws t) = Some (v, u)"
    using assms s k c by (cases "parse_value env n (skip_ws t)") (auto split: if_splits)
  obtain d w where d: "skip_ws u = d # w" using assms s k c v by (cases "skip_ws u") (auto split: if_splits)
  have "x = w \<or> (\<exists>kvs'. parse_pairs env n (skip_ws w) = Some (kvs', x))"
    using assms s k c v d by (auto split: if_splits)
  then show thesis using that s k c v d by blast
qed

lemma parse_value_SucD:
  assumes "parse_value env (Suc n) s = Some (v, u)"
  obtains (str) c t x where "s = c # t" "parse_str t = Some (x, u)"
  | (empty) c t d where "s = c # t" "skip_ws t = d # u"
  | (items) c t d r xs where "s = c # t" "skip_ws t = d # r" "parse_items env n (d # r) = Some (xs, u)"
  | (pairs) c t d r kvs where "s = c # t" "skip_ws t = d # r" "parse_pairs env n (d # r) = Some (kvs, u)"
  | (atom) "parse_atom env s = Some (v, u)"
proof (cases s)
  case Nil
  then show thesis using assms by simp
next
  case (Cons c t)
  consider "c = CHR 0x22" | "c = CHR ''[''" | "c = CHR ''{''"
    | "c \<noteq> CHR 0x22" "c \<noteq> CHR ''[''" "c \<noteq> CHR ''{''" by blast
  then show thesis
  proof cases
    case 1
    then show thesis using assms Cons str by auto
  next
    case 2
    then obtain d r where d: "skip_ws t = d # r" using assms Cons by (cases "skip_ws t") auto
    then show thesis using assms Cons 2 empty [OF Cons, of d] items [OF Cons d] by (auto split: if_splits)
  next
    case 3
    then obtain d r where d: "skip_ws t = d # r" using assms Cons by (cases "skip_ws t") auto
    then show thesis using assms Cons 3 empty [OF Cons, of d] pairs [OF Cons d] by (auto split: if_splits)
  next
    case 4
    then show thesis using assms Cons atom by simp
  qed
qed

lemma parse_shorter_all:
  "(\<forall>s v r. parse_value env n s = Some (v, r) \<longrightarrow> length r < length s) \<and>
   (\<forall>s vs r. parse_items env n s = Some (vs, r) \<longrightarrow> length r < length s) \<and>
   (\<forall>s kvs r. parse_pairs env n s = Some (kvs, r) \<longrightarrow> length r < length s)"
proof (induction n)
  case 0
  show ?case by simp
next
  case (Suc n)
  then have val: "parse_value env n s = Some (v, r) \<Longrightarrow> length r < length s"
    and items: "parse_items env n s = Some (vs, r) \<Longrightarrow> length r < length s"
    and pairs: "parse_pairs env n s = Some (kvs, r) \<Longrightarrow> length r < length s" for s v r vs kvs
    by blast+
  have "length u < length s" if "parse_value env (Suc n) s = Some (v, u)" for s v u
    using that
  proof (cases rule: parse_value_SucD)
    case (items c t d r xs)
    then show ?thesis using \<open>parse_items env n (d # r) = _\<close> [THEN Suc.IH [THEN conjunct2, THEN conjunct1, rule_format]]
        skip_ws_length [of t] by simp
  next
    case (pairs c t d r kvs)
    then show ?thesis using \<open>parse_pairs env n (d # r) = _\<close> [THEN Suc.IH [THEN conjunct2, THEN conjunct2, rule_format]]
        skip_ws_length [of t] by simp
  qed (use parse_str_shorter skip_ws_Cons parse_atom_shorter in \<open>fastforce+\<close>)
  moreover have "length u < length s" if "parse_items env (Suc n) s = Some (vs, u)" for s vs u
    using that
  proof (cases rule: parse_items_SucD)
    case (1 v r c t)
    have "length t < length s" using val [OF 1(1)] skip_ws_Cons [OF 1(2)] by simp
    moreover have "parse_items env n (skip_ws t) = Some (vs', u) \<Longrightarrow> length u < length t" for vs'
      using items [of "skip_ws t" vs' u] skip_ws_length [of t] by simp
    ultimately show ?thesis using 1(3) by fastforce
  qed
  moreover have "length u < length s" if "parse_pairs env (Suc n) s = Some (kvs, u)" for s kvs u
    using that
  proof (cases rule: parse_pairs_SucD)
    case (1 q s' k r c t v x d w)
    have "length w < length s"
      using 1(1) parse_str_shorter [OF 1(2)] skip_ws_Cons [OF 1(3)] skip_ws_length [of t] val [OF 1(4)]
        skip_ws_Cons [OF 1(5)] by simp
    moreover have "parse_pairs env n (skip_ws w) = Some (kvs', u) \<Longrightarrow> length u < length w" for kvs'
      using pairs [of "skip_ws w" kvs' u] skip_ws_length [of w] by simp
    ultimately show ?thesis using 1(6) by fastforce
  qed
  ultimately show ?case by blast
qed

lemma parse_value_shorter: "parse_value env n s = Some (v, r) \<Longrightarrow> length r < length s"
  using parse_shorter_all by blast

text \<open>Two amounts of fuel that are both enough for the text give the same result.\<close>

lemma parse_fuel_all:
  "(\<forall>s m. 2 * length s + 1 \<le> n \<longrightarrow> 2 * length s + 1 \<le> m \<longrightarrow> parse_value env n s = parse_value env m s) \<and>
   (\<forall>s m. 2 * length s + 2 \<le> n \<longrightarrow> 2 * length s + 2 \<le> m \<longrightarrow> parse_items env n s = parse_items env m s) \<and>
   (\<forall>s m. 2 * length s + 2 \<le> n \<longrightarrow> 2 * length s + 2 \<le> m \<longrightarrow> parse_pairs env n s = parse_pairs env m s)"
proof (induction n)
  case 0
  show ?case by simp
next
  case (Suc n)
  then have val: "2 * length s + 1 \<le> n \<Longrightarrow> 2 * length s + 1 \<le> m \<Longrightarrow> parse_value env n s = parse_value env m s"
    and items: "2 * length s + 2 \<le> n \<Longrightarrow> 2 * length s + 2 \<le> m \<Longrightarrow> parse_items env n s = parse_items env m s"
    and pairs: "2 * length s + 2 \<le> n \<Longrightarrow> 2 * length s + 2 \<le> m \<Longrightarrow> parse_pairs env n s = parse_pairs env m s"
    for s m by blast+
  have "parse_value env (Suc n) s = parse_value env m s"
    if len: "2 * length s + 1 \<le> Suc n" "2 * length s + 1 \<le> m" for s m
  proof -
    obtain k where m: "m = Suc k" using len(2) by (cases m) auto
    show ?thesis
    proof (cases s)
      case (Cons c t)
      have sub: "length (skip_ws t) \<le> length t" by (rule skip_ws_length)
      have "parse_items env n (skip_ws t) = parse_items env k (skip_ws t)"
        "parse_pairs env n (skip_ws t) = parse_pairs env k (skip_ws t)"
        using len m Cons sub by (auto intro!: items pairs)
      then show ?thesis by (cases "skip_ws t") (simp_all add: m Cons)
    qed (simp add: m)
  qed
  moreover have "parse_items env (Suc n) s = parse_items env m s"
    if len: "2 * length s + 2 \<le> Suc n" "2 * length s + 2 \<le> m" for s m
  proof -
    obtain k where m: "m = Suc k" using len(2) by (cases m) auto
    have v: "parse_value env n s = parse_value env k s" using len m by (intro val) auto
    show ?thesis
    proof (cases "parse_value env k s")
      case (Some x)
      obtain w r where x: "x = (w, r)" by fastforce
      have "length r < length s" using parse_value_shorter Some x by blast
      then have "skip_ws r = c # t \<Longrightarrow> parse_items env n (skip_ws t) = parse_items env k (skip_ws t)" for c t
        using len m skip_ws_Cons [of r c t] skip_ws_length [of t] by (intro items) auto
      then show ?thesis by (cases "skip_ws r") (simp_all add: m v Some x)
    qed (simp add: m v)
  qed
  moreover have "parse_pairs env (Suc n) s = parse_pairs env m s"
    if len: "2 * length s + 2 \<le> Suc n" "2 * length s + 2 \<le> m" for s m
  proof -
    obtain k where m: "m = Suc k" using len(2) by (cases m) auto
    show ?thesis
    proof (cases s)
      case (Cons q s')
      show ?thesis
      proof (cases "parse_str s'")
        case (Some x)
        obtain key r where x: "x = (key, r)" by fastforce
        have r: "length r < length s'" using parse_str_shorter Some x by blast
        have v: "parse_value env n (skip_ws t) = parse_value env k (skip_ws t)" if "skip_ws r = c # t" for c t
          using len m Cons r skip_ws_Cons [OF that] skip_ws_length [of t] by (intro val) auto
        have p: "parse_pairs env n (skip_ws w) = parse_pairs env k (skip_ws w)"
          if "skip_ws r = c # t" "parse_value env k (skip_ws t) = Some (y, u)" "skip_ws u = d # w" for c t y u d w
          using len m Cons r skip_ws_Cons [OF that(1)] skip_ws_length [of t] parse_value_shorter [OF that(2)]
            skip_ws_Cons [OF that(3)] skip_ws_length [of w] by (intro pairs) auto
        show ?thesis
        proof (cases "skip_ws r")
          case (Cons c t)
          note ct = this
          show ?thesis
          proof (cases "parse_value env k (skip_ws t)")
            case (Some y)
            obtain w u where y: "y = (w, u)" by fastforce
            show ?thesis
              using v [OF ct] p [OF ct, of w u] Some y ct \<open>s = q # s'\<close> \<open>parse_str s' = Some x\<close> x
              by (cases "skip_ws u") (simp_all add: m)
          qed (use v [OF ct] ct \<open>s = q # s'\<close> \<open>parse_str s' = Some x\<close> x in \<open>simp add: m\<close>)
        qed (simp add: m Cons Some x)
      qed (simp add: m Cons)
    qed (simp add: m)
  qed
  ultimately show ?case by blast
qed

lemma parse_value_fuel:
  "2 * length s + 1 \<le> n \<Longrightarrow> parse_value env n s = parse_value env (2 * length s + 1) s"
  using parse_fuel_all [of n env] by blast

text \<open>
  The decoder has a verdict on every text: any larger amount of fuel gives the same value or
  the same error, so \<open>json_loads\<close> never rejects a text for want of fuel.
\<close>

theorem json_loads_fuel:
  assumes "2 * length s + 1 \<le> n"
  shows "json_loads env s = (case parse_value env n (skip_ws s) of
       Some (v, r) \<Rightarrow> if skip_ws r = [] then Inr v else Inl (ValueError ''Extra data'')
     | None \<Rightarrow> Inl (ValueError ''Expecting value''))"
proof -
  have "parse_value env (2 * length s + 1) (skip_ws s) = parse_value env n (skip_ws s)"
    using assms skip_ws_length [of s] parse_fuel_all [of "2 * length s + 1" env] by auto
  then show ?thesis unfolding json_loads_def by (simp only:)
qed

lemma json_loads_fuel_witness:
  "json_loads demo_env ''[1]'' = (case parse_value demo_env 100 (skip_ws ''[1]'') of
       Some (v, r) \<Rightarrow> if skip_ws r = [] then Inr v else Inl (ValueError ''Extra data'')
     | None \<Rightarrow> Inl (ValueError ''Expecting value''))"
  by (rule json_loads_fuel) simp

end
