(* ===== verification/Latest.thy ===== *)
theory Latest
  imports Prelude
begin

section \<open>The newest of many\<close>

text \<open>
  Three parts of the code keep the newest of several rows by event time and then event id: the
  compare-and-set script of the online store, \<open>ROW_NUMBER() ... = 1\<close> of the point-in-time
  join and the same window in materialization. Their interface is the locale
  \<open>picks_newest\<close>: a choice that is built one row at a time and moves only to a strictly
  larger stamp. What the clients use is proved in it once: the choice has the largest stamp, and
  it depends only on the set of rows when stamps identify them.
\<close>

definition newest :: "('a \<Rightarrow> 'k::linorder) \<Rightarrow> 'a list \<Rightarrow> 'a option" where
  "newest stamp xs =
     fold (\<lambda>x best. case best of None \<Rightarrow> Some x | Some y \<Rightarrow> if stamp y < stamp x then Some x else Some y) xs None"

locale picks_newest =
  fixes stamp :: "'a \<Rightarrow> 'k::linorder"
    and pick :: "'a list \<Rightarrow> 'a option"
  assumes pick_Nil: "pick [] = None"
    and pick_snoc: "pick (xs @ [x]) =
      (case pick xs of None \<Rightarrow> Some x | Some y \<Rightarrow> if stamp y < stamp x then Some x else Some y)"
begin

lemma pick_None: "pick xs = None \<longleftrightarrow> xs = []"
  by (cases xs rule: rev_cases) (auto simp: pick_Nil pick_snoc split: option.splits)

lemma pick_SomeD: "pick xs = Some y \<Longrightarrow> y \<in> set xs \<and> (\<forall>x \<in> set xs. stamp x \<le> stamp y)"
proof (induction xs arbitrary: y rule: rev_induct)
  case Nil
  then show ?case by (simp add: pick_Nil)
next
  case (snoc x xs)
  show ?case
  proof (cases "pick xs")
    case None
    then have "pick (xs @ [x]) = Some x" and "xs = []" by (simp_all add: pick_snoc) (simp add: pick_None)
    then show ?thesis using snoc.prems by simp
  next
    case (Some z)
    then show ?thesis using snoc.prems snoc.IH [OF Some]
      by (auto simp: pick_snoc split: if_splits intro: less_imp_le order.trans)
  qed
qed

lemma pick_in: "xs \<noteq> [] \<Longrightarrow> \<exists>y \<in> set xs. pick xs = Some y"
  using pick_None pick_SomeD by (cases "pick xs") blast+

lemma pick_eqI:
  assumes "y \<in> set xs" "\<And>x. x \<in> set xs \<Longrightarrow> stamp x \<le> stamp y" "inj_on stamp (set xs)"
  shows "pick xs = Some y"
proof -
  obtain z where z: "pick xs = Some z" using pick_in [of xs] assms(1) by force
  then have "stamp z = stamp y" using pick_SomeD [OF z] assms(1,2) by (meson antisym)
  then show ?thesis using z pick_SomeD [OF z] assms(1,3) by (auto dest: inj_onD)
qed

lemma pick_set:
  assumes "set xs = set ys" "inj_on stamp (set xs)"
  shows "pick xs = pick ys"
proof (cases "pick ys")
  case None
  then show ?thesis using assms(1) pick_None [of ys] pick_None [of xs] by simp
next
  case (Some y)
  then show ?thesis using pick_SomeD [OF Some] assms pick_eqI [of y xs] by simp
qed

end

interpretation newest: picks_newest stamp "newest stamp" for stamp :: "'a \<Rightarrow> 'k::linorder"
  by unfold_locales (simp_all add: newest_def)

lemma newest_Nil [simp]: "newest stamp [] = None"
  by (simp add: newest_def)

lemma newest_snoc:
  "newest stamp (xs @ [x]) =
     (case newest stamp xs of None \<Rightarrow> Some x | Some y \<Rightarrow> if stamp y < stamp x then Some x else Some y)"
  by (rule newest.pick_snoc)

lemma newest_map:
  assumes "\<And>x y. rank (g x) < rank (g y) \<longleftrightarrow> stamp x < stamp y"
  shows "newest rank (map g xs) = map_option g (newest stamp xs)"
  by (induction xs rule: rev_induct) (auto simp: newest_snoc assms split: option.splits)

end
