(* ===== verification/Online.thy ===== *)
theory Online
  imports Events Json Latest
begin

section \<open>The online store\<close>

text \<open>
  \<open>online.py\<close>: the key of an entity, the compare-and-set script that Redis runs, \<open>upsert\<close>
  and \<open>read\<close>. Redis is a parameter, the record \<open>redis\<close> of the three hash commands the code
  issues; what the code relies on is the locale \<open>redis_laws\<close>, and \<open>mem_redis\<close>, hashes as
  association lists, is an instance of it. The request counters and the histograms are left out.
\<close>

subsection \<open>Redis\<close>

record 's redis =
  rd_hget :: "'s \<Rightarrow> string \<Rightarrow> string \<Rightarrow> string option"
  rd_hset :: "'s \<Rightarrow> string \<Rightarrow> string \<Rightarrow> string \<Rightarrow> 's"
  rd_hgetall :: "'s \<Rightarrow> string \<Rightarrow> (string \<times> string) list"

locale redis_laws =
  fixes R :: "'s redis"
  assumes hget_hset: "rd_hget R (rd_hset R s k f v) k' f'
      = (if k = k' \<and> f = f' then Some v else rd_hget R s k' f')"
    and hgetall_hget: "map_of (rd_hgetall R s k) f = rd_hget R s k f"

type_synonym hashes = "(string \<times> (string \<times> string) list) list"

definition mem_hash :: "hashes \<Rightarrow> string \<Rightarrow> (string \<times> string) list" where
  "mem_hash s k = (case map_of s k of None \<Rightarrow> [] | Some h \<Rightarrow> h)"

definition mem_redis :: "hashes redis" where
  "mem_redis = \<lparr>rd_hget = (\<lambda>s k f. map_of (mem_hash s k) f),
     rd_hset = (\<lambda>s k f v. dict_set s k (dict_set (mem_hash s k) f v)),
     rd_hgetall = mem_hash\<rparr>"

interpretation mem: redis_laws mem_redis
  by unfold_locales (auto simp: mem_redis_def mem_hash_def)

subsection \<open>Writing\<close>

text \<open>\<open>entity_key\<close>.\<close>

definition entity_key :: "pyenv \<Rightarrow> string \<Rightarrow> row \<Rightarrow> string" where
  "entity_key env ref vals =
     ''fs:'' @ ref @ CHR '':'' # env_sha256 env (json_dumps env compact_opts (VDict vals))"

definition ts_field :: string where "ts_field = ''__event_timestamp''"

definition id_field :: string where "id_field = ''__event_id''"

text \<open>One \<open>HSET\<close> of several fields, and the script: \<open>True\<close> stands for the reply 1.\<close>

definition hset_all :: "'s redis \<Rightarrow> string \<Rightarrow> (string \<times> string) list \<Rightarrow> 's \<Rightarrow> 's" where
  "hset_all R k fvs s = fold (\<lambda>(f, v) s. rd_hset R s k f v) fvs s"

definition write_hash :: "'s redis \<Rightarrow> string \<Rightarrow> string \<Rightarrow> string \<Rightarrow> (string \<times> string) list \<Rightarrow> 's \<Rightarrow> 's" where
  "write_hash R k ts i fvs s = hset_all R k fvs (hset_all R k [(ts_field, ts), (id_field, i)] s)"

definition upsert_script ::
    "'s redis \<Rightarrow> string \<Rightarrow> string \<Rightarrow> string \<Rightarrow> (string \<times> string) list \<Rightarrow> 's \<Rightarrow> (bool \<times> 's) result" where
  "upsert_script R k ts i fvs s =
     (case rd_hget R s k ts_field of
        None \<Rightarrow> Inr (True, write_hash R k ts i fvs s)
      | Some old \<Rightarrow>
          if ts < old then Inr (False, s)
          else if old = ts then
            (case rd_hget R s k id_field of
               None \<Rightarrow> Inl (RuntimeError ''attempt to compare string with boolean'')
             | Some old_id \<Rightarrow>
                 if i \<le> old_id then Inr (False, s) else Inr (True, write_hash R k ts i fvs s))
          else Inr (True, write_hash R k ts i fvs s))"

text \<open>
  \<open>event_timestamp.astimezone(UTC).isoformat(timespec="microseconds")\<close>: an instant outside
  the years of \<open>datetime\<close> raises.
\<close>

definition utc_text :: "datetime \<Rightarrow> string result" where
  "utc_text d = (if in_range (instant d) then Inr (iso_us (instant d))
     else Inl (OverflowError ''date value out of range''))"

definition event_args :: "pyenv \<Rightarrow> stream_event \<Rightarrow> (string \<times> string) list" where
  "event_args env e =
     map (\<lambda>kv. (fst kv, render env compact_opts (snd kv))) (sort_key fst (ev_values e))"

definition upsert :: "pyenv \<Rightarrow> 's redis \<Rightarrow> stream_event \<Rightarrow> 's \<Rightarrow> (bool \<times> 's) result" where
  "upsert env R e s =
     bind_result (utc_text (ev_time e)) (\<lambda>ts.
     upsert_script R (entity_key env (ev_view e) (ev_entity e)) ts (ev_id e) (event_args env e) s)"

fun upsert_all :: "pyenv \<Rightarrow> 's redis \<Rightarrow> stream_event list \<Rightarrow> 's \<Rightarrow> 's result" where
  "upsert_all env R [] s = Inr s"
| "upsert_all env R (e # es) s = bind_result (upsert env R e s) (\<lambda>(_, s'). upsert_all env R es s')"

subsection \<open>Reading\<close>

text \<open>
  The references grouped by view, in the order of their first appearance; the same loop opens
  \<open>HistoricalRetriever._query_table\<close>.
\<close>

definition add_group :: "string \<times> string \<Rightarrow> (string \<times> string list) list \<Rightarrow> (string \<times> string list) list" where
  "add_group vf g = dict_set g (fst vf) ((case map_of g (fst vf) of None \<Rightarrow> [] | Some ns \<Rightarrow> ns) @ [snd vf])"

definition group_refs :: "string list \<Rightarrow> (string \<times> string list) list result" where
  "group_refs refs = bind_result (traverse split_feature_ref refs) (\<lambda>ps. Inr (fold add_group ps []))"

definition key_values :: "entity \<Rightarrow> row \<Rightarrow> row" where
  "key_values en vals = map (\<lambda>kt. (fst kt, dict_get vals (fst kt))) (e_join_keys en)"

definition missing_keys :: "entity \<Rightarrow> row \<Rightarrow> string list" where
  "missing_keys en vals = filter (\<lambda>k. k \<notin> fst ` set vals) (map fst (e_join_keys en))"

definition stored_time_ok :: "pyenv \<Rightarrow> string option \<Rightarrow> unit result" where
  "stored_time_ok env raw =
     (case raw of None \<Rightarrow> Inr ()
      | Some t \<Rightarrow> (case env_fromiso env t of
          None \<Rightarrow> Inl (ValueError ''Invalid isoformat string'') | Some d \<Rightarrow> Inr ()))"

definition read_feature :: "pyenv \<Rightarrow> feature_view \<Rightarrow> (string \<times> string) list \<Rightarrow> string \<Rightarrow> row \<Rightarrow> row result" where
  "read_feature env v stored f out =
     (case map_of stored f of
        None \<Rightarrow> Inr (dict_set out (output_name v f) VNone)
      | Some raw \<Rightarrow> bind_result (json_loads env raw) (\<lambda>x. Inr (dict_set out (output_name v f) x)))"

fun read_features :: "pyenv \<Rightarrow> feature_view \<Rightarrow> (string \<times> string) list \<Rightarrow> string list \<Rightarrow> row \<Rightarrow> row result" where
  "read_features env v stored [] out = Inr out"
| "read_features env v stored (f # fs) out =
     bind_result (read_feature env v stored f out) (read_features env v stored fs)"

definition status_name :: "feature_view \<Rightarrow> string" where
  "status_name v = v_name v @ ''__status''"

definition read_group ::
    "pyenv \<Rightarrow> 's redis \<Rightarrow> 's \<Rightarrow> registry \<Rightarrow> row \<Rightarrow> string \<times> string list \<Rightarrow> row \<Rightarrow> row result" where
  "read_group env R s reg vals g out =
     bind_result (feature_view_of reg (fst g)) (\<lambda>v.
     bind_result (entity_of reg (v_entity v)) (\<lambda>en.
       if missing_keys en vals \<noteq> []
       then Inl (ValueError (''missing entity keys for '' @ fst g))
       else (let stored = rd_hgetall R s (entity_key env (fst g) (key_values en vals));
                 out = dict_set out (status_name v) (VStr (if stored \<noteq> [] then ''present'' else ''missing''))
             in bind_result (stored_time_ok env (map_of stored ts_field)) (\<lambda>_.
                read_features env v stored (snd g) out))))"

fun read_groups ::
    "pyenv \<Rightarrow> 's redis \<Rightarrow> 's \<Rightarrow> registry \<Rightarrow> row \<Rightarrow> (string \<times> string list) list \<Rightarrow> row \<Rightarrow> row result" where
  "read_groups env R s reg vals [] out = Inr out"
| "read_groups env R s reg vals (g # gs) out =
     bind_result (read_group env R s reg vals g out) (read_groups env R s reg vals gs)"

definition online_read ::
    "pyenv \<Rightarrow> 's redis \<Rightarrow> 's \<Rightarrow> registry \<Rightarrow> row list \<Rightarrow> string list \<Rightarrow> string option \<Rightarrow> query_response result" where
  "online_read env R s reg entities features service =
     bind_result (resolve_features reg features service) (\<lambda>resolved.
     bind_result (warnings_for_query reg features service) (\<lambda>ws.
       if entities = [] then Inr \<lparr>qr_features = resolved, qr_rows = [], qr_warnings = ws\<rparr>
       else bind_result (group_refs resolved) (\<lambda>gs.
         bind_result (traverse (\<lambda>vals. read_groups env R s reg vals gs vals) entities) (\<lambda>rows.
         Inr \<lparr>qr_features = resolved, qr_rows = rows, qr_warnings = ws\<rparr>))))"

end
