(* ===== verification/OnlineLaws.thy ===== *)
theory OnlineLaws
  imports Online
begin

section \<open>What the online store promises\<close>

text \<open>
  Last write wins: whatever the order in which the events of one entity arrive, and however
  often each of them is delivered, the stored hash is the newest event's (\<open>upsert_keeps_newest\<close>,
  \<open>upsert_order_irrelevant\<close>), an older event changes nothing (\<open>upsert_effect\<close>), and a
  read returns the values that were written (\<open>read_after_upsert\<close>). The last lemmas state two
  behaviours of the code that its callers have to know: an entity value beyond the join keys makes
  an event unreadable, and a feature called \<open>status\<close> takes the place of the status column.
\<close>

subsection \<open>Hashes after a write\<close>

context redis_laws
begin

lemma hget_hset_all:
  "rd_hget R (hset_all R k fvs s) k' f
    = (if k = k' then (case map_of (rev fvs) f of Some v \<Rightarrow> Some v | None \<Rightarrow> rd_hget R s k' f)
       else rd_hget R s k' f)"
proof (induction fvs arbitrary: s)
  case Nil
  show ?case by (simp add: hset_all_def)
next
  case (Cons fv fvs)
  obtain g v where fv: "fv = (g, v)" by fastforce
  have "rd_hget R (hset_all R k (fv # fvs) s) k' f = rd_hget R (hset_all R k fvs (rd_hset R s k g v)) k' f"
    by (simp add: hset_all_def fv)
  then show ?case using Cons.IH by (simp add: fv hget_hset map_add_def split: option.splits)
qed

lemma hget_write_hash:
  assumes "distinct (map fst fvs)" "ts_field \<notin> fst ` set fvs" "id_field \<notin> fst ` set fvs"
  shows "rd_hget R (write_hash R k ts i fvs s) k' f
    = (if k = k' then
         if f = ts_field then Some ts else if f = id_field then Some i
         else (case map_of fvs f of Some v \<Rightarrow> Some v | None \<Rightarrow> rd_hget R s k' f)
       else rd_hget R s k' f)"
proof -
  have "map_of (rev fvs) = map_of fvs"
    using assms(1) by (intro map_of_inject_set [THEN iffD2]) (simp_all add: rev_map [symmetric])
  then show ?thesis using assms(2,3)
    by (auto simp: write_hash_def hget_hset_all ts_field_def id_field_def map_of_eq_None_iff [symmetric]
        split: option.splits)
qed

end

subsection \<open>The event a hash holds\<close>

definition event_stamp :: "stream_event \<Rightarrow> int \<times> string" where
  "event_stamp e = (instant (ev_time e), ev_id e)"

definition event_key :: "pyenv \<Rightarrow> stream_event \<Rightarrow> string" where
  "event_key env e = entity_key env (ev_view e) (ev_entity e)"

definition storable :: "stream_event \<Rightarrow> bool" where
  "storable e \<longleftrightarrow> in_range (instant (ev_time e)) \<and> distinct (map fst (ev_values e)) \<and>
     ts_field \<notin> fst ` set (ev_values e) \<and> id_field \<notin> fst ` set (ev_values e)"

definition stored_field :: "pyenv \<Rightarrow> stream_event \<Rightarrow> string \<Rightarrow> string option" where
  "stored_field env e f =
     (if f = ts_field then Some (iso_us (instant (ev_time e)))
      else if f = id_field then Some (ev_id e)
      else map_option (render env compact_opts) (map_of (ev_values e) f))"

definition holds :: "pyenv \<Rightarrow> 's redis \<Rightarrow> 's \<Rightarrow> string \<Rightarrow> stream_event \<Rightarrow> bool" where
  "holds env R s k e \<longleftrightarrow> (\<forall>f. rd_hget R s k f = stored_field env e f)"

definition same_key_elsewhere :: "'s redis \<Rightarrow> string \<Rightarrow> 's \<Rightarrow> 's \<Rightarrow> bool" where
  "same_key_elsewhere R k s s' \<longleftrightarrow> (\<forall>k' f. k' \<noteq> k \<longrightarrow> rd_hget R s' k' f = rd_hget R s k' f)"

lemma map_of_sorted:
  assumes "distinct (map fst d)"
  shows "map_of (sort_key fst d) = map_of (d :: (string \<times> 'v) list)"
proof (rule map_of_inject_set [THEN iffD2])
  show "distinct (map fst (sort_key fst d))"
    using assms by (simp only: distinct_map distinct_sort set_sort)
qed (use assms in simp_all)

lemma map_of_event_args:
  "distinct (map fst (ev_values e)) \<Longrightarrow>
     map_of (event_args env e) f = map_option (render env compact_opts) (map_of (ev_values e) f)"
proof -
  assume d: "distinct (map fst (ev_values e))"
  have "map_of (event_args env e) f = map_option (render env compact_opts) (map_of (sort_key fst (ev_values e)) f)"
    unfolding event_args_def using map_of_map [of "render env compact_opts" "sort_key fst (ev_values e)"]
    by (simp add: case_prod_unfold)
  then show ?thesis by (simp only: map_of_sorted [OF d])
qed

lemma event_args_names: "fst ` set (event_args env e) = fst ` set (ev_values e)"
  unfolding event_args_def by force

lemma event_args_distinct: "distinct (map fst (ev_values e)) \<Longrightarrow> distinct (map fst (event_args env e))"
  by (simp add: event_args_def o_def) (simp only: distinct_map distinct_sort set_sort)

context redis_laws
begin

lemma write_event:
  fixes env :: pyenv and e :: stream_event and k :: string and s :: 's
  assumes "storable e"
  defines "s' \<equiv> write_hash R k (iso_us (instant (ev_time e))) (ev_id e) (event_args env e) s"
  shows "(\<And>f. f \<notin> fst ` set (ev_values e) \<Longrightarrow> f \<noteq> ts_field \<Longrightarrow> f \<noteq> id_field \<Longrightarrow> rd_hget R s k f = None) \<Longrightarrow>
      holds env R s' k e"
    and "same_key_elsewhere R k s s'"
proof -
  have hget: "rd_hget R s' k' f = (if k = k' then
       if f = ts_field then Some (iso_us (instant (ev_time e))) else if f = id_field then Some (ev_id e)
         else (case map_of (event_args env e) f of Some v \<Rightarrow> Some v | None \<Rightarrow> rd_hget R s k' f)
       else rd_hget R s k' f)" for k' f
    unfolding s'_def using assms(1)
    by (intro hget_write_hash) (simp_all add: storable_def event_args_names event_args_distinct)
  show "same_key_elsewhere R k s s'" by (simp add: same_key_elsewhere_def hget)
  assume other: "\<And>f. f \<notin> fst ` set (ev_values e) \<Longrightarrow> f \<noteq> ts_field \<Longrightarrow> f \<noteq> id_field \<Longrightarrow> rd_hget R s k f = None"
  have args: "map_of (event_args env e) f = map_option (render env compact_opts) (map_of (ev_values e) f)" for f
    using assms(1) map_of_event_args by (simp add: storable_def)
  show "holds env R s' k e"
    unfolding holds_def hget stored_field_def args using other
    by (auto simp: map_of_eq_None_iff split: option.splits)
qed

lemma upsert_empty:
  assumes "storable e" "\<forall>f. rd_hget R s (event_key env e) f = None"
  shows "\<exists>s'. upsert env R e s = Inr (True, s') \<and> holds env R s' (event_key env e) e \<and>
    same_key_elsewhere R (event_key env e) s s'"
  using assms write_event [OF assms(1), where s = s and k = "event_key env e" and env = env]
  by (auto simp: upsert_def utc_text_def upsert_script_def storable_def event_key_def)

lemma upsert_held:
  assumes st: "storable e" "storable e0" and held: "holds env R s (event_key env e) e0"
    and names: "fst ` set (ev_values e) = fst ` set (ev_values e0)"
  shows "upsert env R e s = Inr (event_stamp e0 < event_stamp e,
      if event_stamp e0 < event_stamp e
      then write_hash R (event_key env e) (iso_us (instant (ev_time e))) (ev_id e) (event_args env e) s else s)"
    and "event_stamp e0 < event_stamp e \<Longrightarrow>
      holds env R (write_hash R (event_key env e) (iso_us (instant (ev_time e))) (ev_id e) (event_args env e) s)
        (event_key env e) e"
proof -
  have r: "in_range (instant (ev_time e))" "in_range (instant (ev_time e0))" using st by (simp_all add: storable_def)
  have old: "rd_hget R s (event_key env e) ts_field = Some (iso_us (instant (ev_time e0)))"
    "rd_hget R s (event_key env e) id_field = Some (ev_id e0)"
    using held by (simp_all add: holds_def stored_field_def ts_field_def id_field_def)
  show "upsert env R e s = Inr (event_stamp e0 < event_stamp e,
      if event_stamp e0 < event_stamp e
      then write_hash R (event_key env e) (iso_us (instant (ev_time e))) (ev_id e) (event_args env e) s else s)"
    using old r iso_us_less [OF r] iso_us_less [OF r(2,1)] iso_us_eq [OF r(2,1)]
    by (auto simp: upsert_def utc_text_def upsert_script_def event_key_def event_stamp_def not_le not_less)
  have "rd_hget R s (event_key env e) f = None"
    if "f \<notin> fst ` set (ev_values e)" "f \<noteq> ts_field" "f \<noteq> id_field" for f
    using held that names by (simp add: holds_def stored_field_def map_of_eq_None_iff)
  then show "event_stamp e0 < event_stamp e \<Longrightarrow>
      holds env R (write_hash R (event_key env e) (iso_us (instant (ev_time e))) (ev_id e) (event_args env e) s)
        (event_key env e) e"
    using write_event(1) [OF st(1)] by blast
qed

lemma upsert_all_newest:
  assumes "es \<noteq> []"
    and "\<And>e. e \<in> set es \<Longrightarrow> storable e \<and> event_key env e = k \<and> fst ` set (ev_values e) = names"
    and "\<forall>f. rd_hget R s k f = None"
  shows "\<exists>s' e. upsert_all env R es s = Inr s' \<and> newest event_stamp es = Some e \<and>
    holds env R s' k e \<and> same_key_elsewhere R k s s'"
  using assms
proof (induction es rule: rev_induct)
  case (snoc e es)
  have step: "upsert_all env R (xs @ [x]) s = bind_result (upsert_all env R xs s) (\<lambda>s'. bind_result (upsert env R x s') (\<lambda>(_, t). Inr t))"
    for xs x s
    by (induction xs arbitrary: s) (auto simp: bind_result_def split: sum.splits)
  have e: "storable e" "event_key env e = k" "fst ` set (ev_values e) = names" using snoc.prems(2) by auto
  show ?case
  proof (cases "es = []")
    case True
    then show ?thesis using upsert_empty [OF e(1), where s = s and env = env] e(2) snoc.prems(3)
      by (auto simp: newest.pick_snoc [of _ "[]", simplified])
  next
    case False
    then obtain s1 e0 where s1: "upsert_all env R es s = Inr s1" "newest event_stamp es = Some e0"
      "holds env R s1 k e0" "same_key_elsewhere R k s s1"
      using snoc.IH snoc.prems by auto
    then have e0: "storable e0" "fst ` set (ev_values e) = fst ` set (ev_values e0)"
      using newest.pick_SomeD [OF s1(2)] snoc.prems(2) e(3) by auto
    have e0_held: "holds env R s1 (event_key env e) e0" using s1(3) e(2) by simp
    note up = upsert_held [OF e(1) e0(1) e0_held e0(2)]
    show ?thesis
      using s1 up write_event(2) [OF e(1), where s = s1 and k = k and env = env] e(2)
      by (auto simp: step newest.pick_snoc same_key_elsewhere_def)
  qed
qed simp

end

subsection \<open>Last write wins\<close>

text \<open>
  C9. Last write wins: after any sequence of events of one entity that carry the same features,
  the hash of the entity holds exactly the event with the largest event time (and then id), field
  by field; no call of the sequence fails and no other key changes.
\<close>

theorem upsert_keeps_newest:
  assumes "redis_laws R" "es \<noteq> []"
    and "\<forall>e \<in> set es. storable e \<and> event_key env e = k \<and> fst ` set (ev_values e) = names"
    and "\<forall>f. rd_hget R s k f = None"
  shows "\<exists>s' e. upsert_all env R es s = Inr s' \<and> newest event_stamp es = Some e \<and>
    (\<forall>f. rd_hget R s' k f = stored_field env e f) \<and>
    (\<forall>k' f. k' \<noteq> k \<longrightarrow> rd_hget R s' k' f = rd_hget R s k' f)"
  using redis_laws.upsert_all_newest [OF assms(1,2), of env k names s] assms(3,4)
  by (auto simp: holds_def same_key_elsewhere_def)

text \<open>
  The order of delivery and repeated deliveries do not matter: two sequences of the same
  events lead to the same hash, when the time and id of an event identify it.
\<close>

theorem upsert_order_irrelevant:
  assumes "redis_laws R" "es \<noteq> []" "set es = set es'" "inj_on event_stamp (set es)"
    and "\<forall>e \<in> set es. storable e \<and> event_key env e = k \<and> fst ` set (ev_values e) = names"
    and "\<forall>f. rd_hget R s k f = None"
  shows "\<exists>a b. upsert_all env R es s = Inr a \<and> upsert_all env R es' s = Inr b \<and>
    (\<forall>k f. rd_hget R a k f = rd_hget R b k f)"
proof -
  have es': "es' \<noteq> []" "\<forall>e \<in> set es'. storable e \<and> event_key env e = k \<and> fst ` set (ev_values e) = names"
    using assms(2,3,5) by auto
  obtain a x where a: "upsert_all env R es s = Inr a" "newest event_stamp es = Some x"
    "holds env R a k x" "same_key_elsewhere R k s a"
    using redis_laws.upsert_all_newest [OF assms(1,2), of env k names s] assms(5,6) by auto
  obtain b y where b: "upsert_all env R es' s = Inr b" "newest event_stamp es' = Some y"
    "holds env R b k y" "same_key_elsewhere R k s b"
    using redis_laws.upsert_all_newest [OF assms(1) es'(1), of env k names s] es'(2) assms(6) by auto
  have "x = y" using newest.pick_set [OF assms(3,4)] a(2) b(2) by simp
  then have "rd_hget R a k' f = rd_hget R b k' f" for k' f
    using a(3,4) b(3,4) by (cases "k' = k") (simp_all add: holds_def same_key_elsewhere_def)
  then show ?thesis using a(1) b(1) by blast
qed

text \<open>
  An upsert on a hash that holds an event reports and stores the new event exactly when its
  stamp is larger; an older event, or the same one again, is skipped and changes nothing at all.
\<close>

theorem upsert_effect:
  assumes "redis_laws R" "storable e" "storable e0" "fst ` set (ev_values e) = fst ` set (ev_values e0)"
    and "\<forall>f. rd_hget R s (event_key env e) f = stored_field env e0 f"
  shows "\<exists>s'. upsert env R e s = Inr (event_stamp e0 < event_stamp e, s') \<and>
    (if event_stamp e0 < event_stamp e
     then \<forall>f. rd_hget R s' (event_key env e) f = stored_field env e f else s' = s)"
  using redis_laws.upsert_held [OF assms(1-3) _ assms(4), of env s] assms(5) by (auto simp: holds_def)

subsection \<open>Reading back\<close>

lemma read_features_stored:
  assumes "\<And>f. f \<in> set fs \<Longrightarrow> \<exists>raw. map_of stored f = Some raw \<and> json_loads env raw = Inr (val f)"
    and "distinct fs"
  shows "\<exists>out'. read_features env v stored fs out = Inr out' \<and>
    (\<forall>f \<in> set fs. map_of out' (output_name v f) = Some (val f)) \<and>
    (\<forall>n. n \<notin> output_name v ` set fs \<longrightarrow> map_of out' n = map_of out n)"
  using assms
proof (induction fs arbitrary: out)
  case (Cons f fs)
  obtain raw where raw: "map_of stored f = Some raw" "json_loads env raw = Inr (val f)"
    using Cons.prems(1) by force
  obtain out' where out': "read_features env v stored fs (dict_set out (output_name v f) (val f)) = Inr out'"
    "\<forall>g \<in> set fs. map_of out' (output_name v g) = Some (val g)"
    "\<forall>n. n \<notin> output_name v ` set fs \<longrightarrow> map_of out' n = map_of (dict_set out (output_name v f) (val f)) n"
    using Cons.IH [of "dict_set out (output_name v f) (val f)"] Cons.prems by fastforce
  have "output_name v f \<notin> output_name v ` set fs" using Cons.prems(2) by (auto simp: output_name_def)
  then show ?case using out' raw by (auto simp: read_feature_def)
qed simp

lemma output_name_status: "output_name v f = status_name v \<longleftrightarrow> f = ''status''"
  by (simp add: output_name_def status_name_def)

definition readable_event :: "pyenv \<Rightarrow> stream_event \<Rightarrow> bool" where
  "readable_event env e \<longleftrightarrow> storable e \<and> (\<forall>kv \<in> set (ev_values e). jsonable (snd kv) \<and> keys_ok (snd kv)) \<and>
     env_fromiso env (iso_us (instant (ev_time e))) \<noteq> None"

text \<open>
  C10. Round trip through the online store: once an event is stored, reading its features for the
  same entity gives \<open>present\<close> and, for each feature, the value that was written.
\<close>

theorem read_after_upsert:
  assumes "redis_laws R" "float_reads_ok env" "readable_event env e"
    and "\<forall>f. rd_hget R s (event_key env e) f = None"
    and "feature_view_of reg (ev_view e) = Inr v" "entity_of reg (v_entity v) = Inr en"
    and "missing_keys en vals = []" "entity_key env (ev_view e) (key_values en vals) = event_key env e"
    and "distinct fs" "set fs \<subseteq> fst ` set (ev_values e)" "''status'' \<notin> set fs"
  shows "\<exists>s' out'. upsert env R e s = Inr (True, s') \<and>
    read_group env R s' reg vals (ev_view e, fs) out = Inr out' \<and>
    map_of out' (status_name v) = Some (VStr ''present'') \<and>
    (\<forall>f \<in> set fs. map_of out' (output_name v f) = map_of (ev_values e) f)"
proof -
  let ?k = "event_key env e"
  have st: "storable e" using assms(3) by (simp add: readable_event_def)
  obtain s' where s': "upsert env R e s = Inr (True, s')" "holds env R s' ?k e"
    using redis_laws.upsert_empty [OF assms(1) st assms(4)] by blast
  have stored: "map_of (rd_hgetall R s' ?k) f = stored_field env e f" for f
    using redis_laws.hgetall_hget [OF assms(1)] s'(2) by (simp add: holds_def)
  have ne: "rd_hgetall R s' ?k \<noteq> []" using stored [of ts_field] by (auto simp: stored_field_def)
  have plain: "f \<noteq> ts_field \<and> f \<noteq> id_field" if "f \<in> set fs" for f
    using that assms(10) st by (auto simp: storable_def)
  have field: "\<exists>raw. map_of (rd_hgetall R s' ?k) f = Some raw \<and> json_loads env raw = Inr (the (map_of (ev_values e) f))"
    if f: "f \<in> set fs" for f
  proof -
    obtain x where x: "map_of (ev_values e) f = Some x" using f assms(10) by (force simp: map_of_eq_None_iff)
    then have "jsonable x" "keys_ok x" using assms(3) map_of_SomeD [OF x] by (force simp: readable_event_def)+
    then have "json_loads env (render env compact_opts x) = Inr x" using assms(2) json_loads_dumps by blast
    then show ?thesis using x plain [OF f] by (simp add: stored stored_field_def)
  qed
  obtain out' where out': "read_features env v (rd_hgetall R s' ?k) fs (dict_set out (status_name v) (VStr ''present'')) = Inr out'"
    "\<forall>f \<in> set fs. map_of out' (output_name v f) = Some (the (map_of (ev_values e) f))"
    "\<forall>n. n \<notin> output_name v ` set fs \<longrightarrow> map_of out' n = map_of (dict_set out (status_name v) (VStr ''present'')) n"
    using read_features_stored [OF field assms(9), of v "dict_set out (status_name v) (VStr ''present'')"] by auto
  have status: "status_name v \<notin> output_name v ` set fs" using assms(11) output_name_status by (metis imageE)
  have time: "stored_time_ok env (map_of (rd_hgetall R s' ?k) ts_field) = Inr ()"
    using assms(3) by (auto simp: stored stored_field_def stored_time_ok_def readable_event_def)
  have read: "read_group env R s' reg vals (ev_view e, fs) out = Inr out'"
    using assms(5-8) ne time out'(1) by (simp add: read_group_def event_key_def)
  have vals: "map_of out' (output_name v f) = map_of (ev_values e) f" if "f \<in> set fs" for f
    using out'(2) that assms(10) by (auto simp: map_of_eq_None_iff split: option.splits)
       (metis (no_types, lifting) domD domIff map_of_eq_None_iff option.sel subsetD)
  show ?thesis using s'(1) read out'(3) status vals by simp
qed

subsection \<open>Two behaviours callers have to know\<close>

lemma read_features_value:
  assumes "read_features env v stored fs out = Inr out'" "f \<in> set fs"
  shows "map_of out' (output_name v f)
    = Some (case map_of stored f of None \<Rightarrow> VNone | Some raw \<Rightarrow> projr (json_loads env raw))"
proof -
  have keep: "read_features env v stored gs o1 = Inr o2 \<Longrightarrow> map_of o1 (output_name v f) = Some
      (case map_of stored f of None \<Rightarrow> VNone | Some raw \<Rightarrow> projr (json_loads env raw)) \<Longrightarrow>
      map_of o2 (output_name v f) = Some (case map_of stored f of None \<Rightarrow> VNone | Some raw \<Rightarrow> projr (json_loads env raw))"
    for gs o1 o2
  proof (induction gs arbitrary: o1)
    case (Cons g gs)
    then obtain o3 where o3: "read_feature env v stored g o1 = Inr o3" "read_features env v stored gs o3 = Inr o2"
      by (auto simp: bind_result_eq_Inr)
    have "map_of o3 (output_name v f) = Some (case map_of stored f of None \<Rightarrow> VNone | Some raw \<Rightarrow> projr (json_loads env raw))"
      using o3(1) Cons.prems(2)
      by (auto simp: read_feature_def bind_result_eq_Inr output_name_def split: option.splits)
    then show ?case using Cons.IH o3(2) by blast
  qed simp
  show ?thesis using assms
  proof (induction fs arbitrary: out)
    case (Cons g fs)
    then obtain o3 where o3: "read_feature env v stored g out = Inr o3" "read_features env v stored fs o3 = Inr out'"
      by (auto simp: bind_result_eq_Inr)
    show ?case
    proof (cases "g = f")
      case True
      then have "map_of o3 (output_name v f) = Some (case map_of stored f of None \<Rightarrow> VNone | Some raw \<Rightarrow> projr (json_loads env raw))"
        using o3(1) by (auto simp: read_feature_def bind_result_eq_Inr split: option.splits)
      then show ?thesis using keep o3(2) by blast
    next
      case False
      then show ?thesis using Cons.IH [OF o3(2)] Cons.prems(2) by simp
    qed
  qed simp
qed

lemma canon_keys: "canon (VDict d) = canon (VDict e) \<Longrightarrow> fst ` set d = fst ` set e"
proof -
  assume eq: "canon (VDict d) = canon (VDict e)"
  have keys: "fst ` set (sort_key fst (map (\<lambda>kv. (fst kv, canon (snd kv))) x)) = fst ` set x" for x :: row
    by (simp only: set_sort) force
  show ?thesis using eq keys [of d] keys [of e] by simp
qed

lemma entity_key_names:
  assumes "inj (env_sha256 env)" "float_texts_ok env" "jsonable (VDict a)" "jsonable (VDict b)"
    and "entity_key env ref a = entity_key env ref b"
  shows "fst ` set a = fst ` set b"
proof -
  have "json_dumps env compact_opts (VDict a) = json_dumps env compact_opts (VDict b)"
    using assms(1,5) by (simp add: entity_key_def inj_eq)
  then have "canon (VDict a) = canon (VDict b)" using json_dumps_inj [OF assms(2) _ assms(3,4)] by simp
  then show ?thesis by (rule canon_keys)
qed

lemma upsert_elsewhere:
  assumes "redis_laws R" "storable e" "upsert env R e s = Inr (b, s')" "k \<noteq> event_key env e"
  shows "rd_hget R s' k f = rd_hget R s k f"
proof -
  have r: "in_range (instant (ev_time e))" using assms(2) by (simp add: storable_def)
  then have "s' = s \<or> s' = write_hash R (event_key env e) (iso_us (instant (ev_time e))) (ev_id e) (event_args env e) s"
    using assms(3) by (auto simp: upsert_def utc_text_def upsert_script_def event_key_def split: option.splits if_splits)
  then show ?thesis
    using redis_laws.write_event(2) [OF assms(1,2), of "event_key env e" s env] assms(4)
    by (auto simp: same_key_elsewhere_def)
qed

text \<open>
  C11. An entity value beyond the join keys makes an event unreadable: the event is written under
  the key of all its entity values, a read asks under the key of the join keys alone, so the read
  still answers \<open>missing\<close> and null. The stream consumer accepts such events.
\<close>

theorem extra_entity_value_unreadable:
  assumes "redis_laws R" "inj (env_sha256 env)" "float_texts_ok env" "storable e"
    and "jsonable (VDict (ev_entity e))" "jsonable (VDict (key_values en vals))"
    and "fst ` set (ev_entity e) \<noteq> fst ` set (e_join_keys en)"
    and "upsert env R e s = Inr (b, s')"
    and "\<forall>f. rd_hget R s (entity_key env (ev_view e) (key_values en vals)) f = None"
    and "feature_view_of reg (ev_view e) = Inr v" "entity_of reg (v_entity v) = Inr en"
    and "missing_keys en vals = []" "''status'' \<notin> set fs" "distinct fs"
  shows "\<exists>out'. read_group env R s' reg vals (ev_view e, fs) out = Inr out' \<and>
    map_of out' (status_name v) = Some (VStr ''missing'') \<and>
    (\<forall>f \<in> set fs. map_of out' (output_name v f) = Some VNone)"
proof -
  let ?k = "entity_key env (ev_view e) (key_values en vals)"
  have "fst ` set (key_values en vals) = fst ` set (e_join_keys en)" by (force simp: key_values_def)
  then have "?k \<noteq> event_key env e"
    using entity_key_names [OF assms(2,3,6,5)] assms(7) unfolding event_key_def by metis
  then have none: "rd_hget R s' ?k f = None" for f
    using upsert_elsewhere [OF assms(1,4,8)] assms(9) by simp
  have empty: "rd_hgetall R s' ?k = []"
  proof (cases "rd_hgetall R s' ?k")
    case (Cons kv d)
    then have "map_of (rd_hgetall R s' ?k) (fst kv) \<noteq> None" by (simp add: case_prod_unfold)
    then show ?thesis using redis_laws.hgetall_hget [OF assms(1)] none by metis
  qed simp
  have null: "\<exists>out'. read_features env v [] gs o1 = Inr out' \<and>
      (\<forall>n. n \<notin> output_name v ` set gs \<longrightarrow> map_of out' n = map_of o1 n)" for gs o1
  proof (induction gs arbitrary: o1)
    case (Cons g gs)
    show ?case using Cons [of "dict_set o1 (output_name v g) VNone"] by (auto simp: read_feature_def)
  qed simp
  obtain out' where out': "read_features env v [] fs (dict_set out (status_name v) (VStr ''missing'')) = Inr out'"
    "\<forall>n. n \<notin> output_name v ` set fs \<longrightarrow> map_of out' n = map_of (dict_set out (status_name v) (VStr ''missing'')) n"
    using null by blast
  have "read_group env R s' reg vals (ev_view e, fs) out = Inr out'"
    using assms(10-12) out'(1) empty by (simp add: read_group_def stored_time_ok_def)
  moreover have "status_name v \<notin> output_name v ` set fs" using assms(13) output_name_status by (metis imageE)
  ultimately show ?thesis using out'(2) read_features_value [OF out'(1)] by simp
qed

text \<open>
  A feature called \<open>status\<close> takes the place of the status column: the answer shows the
  stored value where it promises \<open>present\<close> or \<open>missing\<close>.
\<close>

theorem status_feature_hides_status:
  assumes "read_group env R s reg vals (ref, fs) out = Inr out'" "''status'' \<in> set fs"
    and "feature_view_of reg ref = Inr v" "entity_of reg (v_entity v) = Inr en"
    and "map_of (rd_hgetall R s (entity_key env ref (key_values en vals))) ''status'' = Some raw"
    and "json_loads env raw = Inr x"
  shows "map_of out' (status_name v) = Some x"
proof -
  have "\<exists>o1. read_features env v (rd_hgetall R s (entity_key env ref (key_values en vals))) fs o1 = Inr out'"
    using assms(1,3,4) by (auto simp: read_group_def Let_def bind_result_eq_Inr split: if_splits)
  then obtain o1 where "read_features env v (rd_hgetall R s (entity_key env ref (key_values en vals))) fs o1 = Inr out'" ..
  from read_features_value [OF this assms(2)] show ?thesis
    using assms(5,6) output_name_status [of v "''status''"] by simp
qed

subsection \<open>Concrete runs\<close>

lemma shop_event_key [simp]: "event_key env (shop_event i t n) = entity_key env ''spend@1.0.0'' [(''user_id'', VStr ''ada'')]"
  by (simp add: event_key_def shop_event_def)

lemma shop_event_storable: "in_range t \<Longrightarrow> storable (shop_event i t n)"
  by (simp add: storable_def shop_event_def ts_field_def id_field_def)

lemma shop_event_names: "fst ` set (ev_values (shop_event i t n)) = {''total''}"
  by (simp add: shop_event_def)

lemma mem_empty [simp]: "rd_hget mem_redis [] k f = None"
  by (simp add: mem_redis_def mem_hash_def)

definition shop_events :: "stream_event list" where
  "shop_events = [shop_event ''b'' 7 30, shop_event ''a'' 5 10, shop_event ''b'' 7 30]"

lemma upsert_keeps_newest_witness:
  "\<exists>s' e. upsert_all demo_env mem_redis shop_events [] = Inr s' \<and> newest event_stamp shop_events = Some e \<and>
    (\<forall>f. rd_hget mem_redis s' (event_key demo_env (shop_event ''a'' 5 10)) f = stored_field demo_env e f) \<and>
    (\<forall>k' f. k' \<noteq> event_key demo_env (shop_event ''a'' 5 10) \<longrightarrow> rd_hget mem_redis s' k' f = rd_hget mem_redis [] k' f)"
  by (rule upsert_keeps_newest [where names = "{''total''}"])
    (use mem.redis_laws_axioms in \<open>auto simp: shop_events_def shop_event_names in_range_def intro!: shop_event_storable\<close>)

lemma shop_stamps: "inj_on event_stamp (set shop_events)"
  by (auto simp: inj_on_def shop_events_def event_stamp_def shop_event_def)

lemma upsert_order_irrelevant_witness:
  "\<exists>a b. upsert_all demo_env mem_redis shop_events [] = Inr a \<and>
    upsert_all demo_env mem_redis [shop_event ''a'' 5 10, shop_event ''b'' 7 30] [] = Inr b \<and>
    (\<forall>k f. rd_hget mem_redis a k f = rd_hget mem_redis b k f)"
  by (rule upsert_order_irrelevant [where names = "{''total''}", OF _ _ _ shop_stamps])
    (use mem.redis_laws_axioms in \<open>auto simp: shop_events_def shop_event_names in_range_def intro!: shop_event_storable\<close>)

lemma upsert_effect_witness:
  "\<exists>s s'. upsert demo_env mem_redis (shop_event ''a'' 5 10) [] = Inr (True, s) \<and>
    upsert demo_env mem_redis (shop_event ''a'' 4 99) s = Inr (False, s') \<and> s' = s"
proof -
  obtain s where s: "upsert demo_env mem_redis (shop_event ''a'' 5 10) [] = Inr (True, s)"
    "holds demo_env mem_redis s (event_key demo_env (shop_event ''a'' 5 10)) (shop_event ''a'' 5 10)"
    using mem.upsert_empty [of "shop_event ''a'' 5 10" "[]" demo_env] by (auto simp: shop_event_storable in_range_def)
  have "\<exists>s'. upsert demo_env mem_redis (shop_event ''a'' 4 99) s
      = Inr (event_stamp (shop_event ''a'' 5 10) < event_stamp (shop_event ''a'' 4 99), s') \<and>
    (if event_stamp (shop_event ''a'' 5 10) < event_stamp (shop_event ''a'' 4 99)
     then \<forall>f. rd_hget mem_redis s' (event_key demo_env (shop_event ''a'' 4 99)) f = stored_field demo_env (shop_event ''a'' 4 99) f
     else s' = s)"
    using s(2) by (intro upsert_effect mem.redis_laws_axioms)
      (simp_all add: shop_event_storable in_range_def shop_event_names holds_def)
  then show ?thesis using s(1) by (auto simp: event_stamp_def shop_event_def)
qed

definition time_env :: pyenv where
  "time_env = demo_env\<lparr>env_fromiso := (\<lambda>s. Some (Aware 5 0))\<rparr>"

lemma time_env_ok [simp]: "float_reads_ok time_env" "float_texts_ok time_env" "inj (env_sha256 time_env)"
  using demo_float_reads_ok demo_float_texts_ok
  by (simp_all add: time_env_def float_reads_ok_def float_texts_ok_def inj_def) (simp add: demo_env_def)

lemma shop_keys: "key_values shop_entity [(''user_id'', VStr ''ada'')] = [(''user_id'', VStr ''ada'')]"
  "missing_keys shop_entity [(''user_id'', VStr ''ada'')] = []"
  "v_entity shop_view = ''user''"
  by (simp_all add: key_values_def missing_keys_def shop_entity_def shop_view_def dict_get_def)

lemma read_after_upsert_witness:
  "\<exists>s' out'. upsert time_env mem_redis (shop_event ''a'' 5 10) [] = Inr (True, s') \<and>
    read_group time_env mem_redis s' shop_registry [(''user_id'', VStr ''ada'')] (ev_view (shop_event ''a'' 5 10), [''total'']) [] = Inr out' \<and>
    map_of out' (status_name shop_view) = Some (VStr ''present'') \<and>
    (\<forall>f \<in> set [''total'']. map_of out' (output_name shop_view f) = map_of (ev_values (shop_event ''a'' 5 10)) f)"
proof (rule read_after_upsert [where en = shop_entity, OF mem.redis_laws_axioms])
  show "readable_event time_env (shop_event ''a'' 5 10)"
    using shop_event_storable [of 5 "''a''" 10]
    by (simp add: readable_event_def in_range_def) (simp add: shop_event_def time_env_def)
qed (simp_all add: shop_keys, simp_all add: shop_event_def)

lemma extra_entity_value_unreadable_witness:
  "\<exists>s' out'. upsert demo_env mem_redis (shop_event ''a'' 5 10 \<lparr>ev_entity := [(''user_id'', VStr ''ada''), (''city'', VStr ''rome'')]\<rparr>) [] = Inr (True, s') \<and>
    read_group demo_env mem_redis s' shop_registry [(''user_id'', VStr ''ada'')] (''spend@1.0.0'', [''total'']) [] = Inr out' \<and>
    map_of out' (status_name shop_view) = Some (VStr ''missing'') \<and>
    (\<forall>f \<in> set [''total'']. map_of out' (output_name shop_view f) = Some VNone)"
proof -
  let ?e = "shop_event ''a'' 5 10 \<lparr>ev_entity := [(''user_id'', VStr ''ada''), (''city'', VStr ''rome'')]\<rparr>"
  have st: "storable ?e" using shop_event_storable [of 5 "''a''" 10] by (simp add: storable_def in_range_def)
  obtain s' where s': "upsert demo_env mem_redis ?e [] = Inr (True, s')"
    using mem.upsert_empty [OF st, of "[]" demo_env] by auto
  have "inj (env_sha256 demo_env)" by (simp add: inj_def demo_env_def)
  have view: "ev_view ?e = ''spend@1.0.0''" by (simp add: shop_event_def)
  have "\<exists>out'. read_group demo_env mem_redis s' shop_registry [(''user_id'', VStr ''ada'')] (ev_view ?e, [''total'']) [] = Inr out' \<and>
    map_of out' (status_name shop_view) = Some (VStr ''missing'') \<and>
    (\<forall>f \<in> set [''total'']. map_of out' (output_name shop_view f) = Some VNone)"
    by (rule extra_entity_value_unreadable [where en = shop_entity, OF mem.redis_laws_axioms \<open>inj (env_sha256 demo_env)\<close> _ st _ _ _ s'])
      (simp_all add: shop_keys view, simp_all add: shop_entity_def)
  then show ?thesis using s' view by auto
qed

lemma status_feature_hides_status_witness:
  "\<exists>out'. read_group demo_env mem_redis
      [(entity_key demo_env ''spend@1.0.0'' [(''user_id'', VStr ''ada'')], [(''status'', ''7'')])]
      shop_registry [(''user_id'', VStr ''ada'')] (''spend@1.0.0'', [''status'']) [] = Inr out' \<and>
    map_of out' (status_name shop_view) = Some (VInt 7)"
proof -
  have seven: "json_loads demo_env ''7'' = Inr (VInt 7)"
    using json_loads_dumps [of demo_env "VInt 7" compact_opts] by (simp add: int_str_def text_eval)
  let ?s = "[(entity_key demo_env ''spend@1.0.0'' [(''user_id'', VStr ''ada'')], [(''status'', ''7'')])]"
  obtain out' where out': "read_group demo_env mem_redis ?s shop_registry [(''user_id'', VStr ''ada'')] (''spend@1.0.0'', [''status'']) [] = Inr out'"
    using seven by (simp add: read_group_def shop_keys Let_def mem_redis_def mem_hash_def stored_time_ok_def read_feature_def ts_field_def)
  have "map_of out' (status_name shop_view) = Some (VInt 7)"
    by (rule status_feature_hides_status [OF out', where en = shop_entity and raw = "''7''"])
      (simp_all add: seven shop_keys mem_redis_def mem_hash_def)
  then show ?thesis using out' by blast
qed

end
