(* ===== verification/Database.thy ===== *)
theory Database
  imports Events
begin

section \<open>The shared database\<close>

text \<open>
  The tables of \<open>db.py\<close> that the job queue, the event ledger and the materialization watermarks
  share, with the settings of \<open>config.py\<close> they depend on. A timestamp column is the UTC instant
  it holds, in microseconds (\<open>_as_utc\<close> reads a naive value as UTC, so the instant is the whole
  value). The JSON payload of a job is kept as the datatype of the documents the code writes into
  it; \<open>payload_json\<close> is its document. Each table is an interpretation of \<open>keyed_table\<close>.
\<close>

subsection \<open>Settings\<close>

text \<open>The flush interval, a float of seconds in the code, is kept in microseconds like every duration.\<close>

record settings =
  st_bucket :: string
  st_inline_limit :: int
  st_result_ttl :: int
  st_lease :: int
  st_max_attempts :: int
  st_retry_base :: int
  st_retry_max :: int
  st_lookback :: int
  st_batch_size :: int
  st_flush :: int

definition default_settings :: settings where
  "default_settings = \<lparr>st_bucket = ''feature-store'', st_inline_limit = 10000, st_result_ttl = 86400,
     st_lease = 30, st_max_attempts = 3, st_retry_base = 5, st_retry_max = 60, st_lookback = 3600,
     st_batch_size = 500, st_flush = 2000000\<rparr>"

subsection \<open>Jobs\<close>

datatype job_kind = Backfill | Materialize | OfflineAppend | HistoricalQuery

datatype job_status = Pending | Running | Retrying | Succeeded | Failed | Exhausted | Cancelled

datatype failure_kind = Retryable | Terminal | LeaseExpired

fun job_kind_str :: "job_kind \<Rightarrow> string" where
  "job_kind_str Backfill = ''backfill''"
| "job_kind_str Materialize = ''materialize''"
| "job_kind_str OfflineAppend = ''offline_append''"
| "job_kind_str HistoricalQuery = ''historical_query''"

fun job_status_str :: "job_status \<Rightarrow> string" where
  "job_status_str Pending = ''pending''"
| "job_status_str Running = ''running''"
| "job_status_str Retrying = ''retrying''"
| "job_status_str Succeeded = ''succeeded''"
| "job_status_str Failed = ''failed''"
| "job_status_str Exhausted = ''exhausted''"
| "job_status_str Cancelled = ''cancelled''"

fun failure_kind_str :: "failure_kind \<Rightarrow> string" where
  "failure_kind_str Retryable = ''retryable''"
| "failure_kind_str Terminal = ''terminal''"
| "failure_kind_str LeaseExpired = ''lease_expired''"

text \<open>
  The payload documents: \<open>create\<close> dumps a \<open>JobRequest\<close> (view, start, end),
  \<open>create_incremental_materialization\<close> writes view, end and lookback, \<open>create_offline_append\<close>
  view and staging location, \<open>create_historical_query\<close> the size, references and warnings.
\<close>

datatype job_payload =
    RangePayload string string string
  | IncrementalPayload string string int
  | StagingPayload string string
  | QueryPayload int "string list" "pyval list"

fun payload_json :: "job_payload \<Rightarrow> row" where
  "payload_json (RangePayload view s e) =
     [(''feature_view'', VStr view), (''start'', VStr s), (''end'', VStr e)]"
| "payload_json (IncrementalPayload view e lookback) =
     [(''mode'', VStr ''incremental''), (''feature_view'', VStr view), (''end'', VStr e),
      (''lookback_seconds'', VInt lookback)]"
| "payload_json (StagingPayload view uri) =
     [(''feature_view'', VStr view), (''staging_uri'', VStr uri)]"
| "payload_json (QueryPayload n refs ws) =
     [(''observation_count'', VInt n), (''resolved_features'', VList (map VStr refs)), (''warnings'', VList ws)]"

record job =
  j_id :: string
  j_kind :: job_kind
  j_status :: job_status
  j_payload :: job_payload
  j_checkpoints :: "string list"
  j_error :: "string option"
  j_failure :: "failure_kind option"
  j_attempts :: int
  j_max :: int
  j_next :: "int option"
  j_worker :: "string option"
  j_token :: "string option"
  j_lease :: "int option"
  j_heartbeat :: "int option"
  j_created :: int
  j_started :: "int option"
  j_finished :: "int option"
  j_artifact :: "string option"
  j_result :: "string option"
  j_metadata :: "row option"
  j_expires :: "int option"
  j_cleaned :: "int option"

text \<open>A new row: every column the code does not set has its declared default.\<close>

definition new_job :: "string \<Rightarrow> job_kind \<Rightarrow> job_payload \<Rightarrow> string option \<Rightarrow> settings \<Rightarrow> int \<Rightarrow> job" where
  "new_job i k p art st now =
     \<lparr>j_id = i, j_kind = k, j_status = Pending, j_payload = p, j_checkpoints = [], j_error = None,
      j_failure = None, j_attempts = 0, j_max = st_max_attempts st, j_next = None, j_worker = None,
      j_token = None, j_lease = None, j_heartbeat = None, j_created = now, j_started = None,
      j_finished = None, j_artifact = art, j_result = None, j_metadata = None, j_expires = None,
      j_cleaned = None\<rparr>"

subsection \<open>Materialization states and stream events\<close>

record mat_state =
  ms_view :: string
  ms_watermark :: "int option"
  ms_freshness :: "int option"
  ms_active :: "string option"
  ms_last :: "string option"
  ms_updated :: int

definition new_state :: "string \<Rightarrow> int \<Rightarrow> mat_state" where
  "new_state view now = \<lparr>ms_view = view, ms_watermark = None, ms_freshness = None, ms_active = None,
     ms_last = None, ms_updated = now\<rparr>"

record event_record =
  er_id :: string
  er_view :: string
  er_event_id :: string
  er_fingerprint :: string
  er_payload :: pyval
  er_state :: event_state
  er_topic :: "string option"
  er_partition :: "int option"
  er_offset :: "int option"
  er_job :: "string option"
  er_created :: int
  er_updated :: int
  er_staged :: "int option"
  er_applied :: "int option"

record database =
  db_jobs :: "job list"
  db_states :: "mat_state list"
  db_events :: "event_record list"

definition empty_db :: database where
  "empty_db = \<lparr>db_jobs = [], db_states = [], db_events = []\<rparr>"

subsection \<open>Lookups\<close>

definition event_row_key :: "event_record \<Rightarrow> string \<times> string" where
  "event_row_key r = (er_view r, er_event_id r)"

definition find_job :: "database \<Rightarrow> string \<Rightarrow> job option" where
  "find_job db i = find (\<lambda>j. j_id j = i) (db_jobs db)"

definition find_state :: "database \<Rightarrow> string \<Rightarrow> mat_state option" where
  "find_state db view = find (\<lambda>s. ms_view s = view) (db_states db)"

definition find_event :: "database \<Rightarrow> string \<times> string \<Rightarrow> event_record option" where
  "find_event db k = find (\<lambda>r. event_row_key r = k) (db_events db)"

definition append_job :: "job \<Rightarrow> database \<Rightarrow> database" where
  "append_job j db = db\<lparr>db_jobs := db_jobs db @ [j]\<rparr>"

definition append_state :: "mat_state \<Rightarrow> database \<Rightarrow> database" where
  "append_state s db = db\<lparr>db_states := db_states db @ [s]\<rparr>"

definition append_event :: "event_record \<Rightarrow> database \<Rightarrow> database" where
  "append_event r db = db\<lparr>db_events := db_events db @ [r]\<rparr>"

interpretation jobs: keyed_table j_id db_jobs find_job append_job
  by unfold_locales (simp_all add: find_job_def append_job_def)

interpretation states: keyed_table ms_view db_states find_state append_state
  by unfold_locales (simp_all add: find_state_def append_state_def)

interpretation events: keyed_table event_row_key db_events find_event append_event
  by unfold_locales (simp_all add: find_event_def append_event_def)

text \<open>\<open>session.add\<close> and flush: the primary key of a new job must be free.\<close>

definition add_job :: "job \<Rightarrow> database \<Rightarrow> database result" where
  "add_job j db =
     (if find_job db (j_id j) = None then Inr (append_job j db)
      else Inl (IntegrityError ''UNIQUE constraint failed: jobs.id''))"

definition job_ids_unique :: "database \<Rightarrow> bool" where
  "job_ids_unique db \<longleftrightarrow> distinct (map j_id (db_jobs db))"

definition state_views_unique :: "database \<Rightarrow> bool" where
  "state_views_unique db \<longleftrightarrow> distinct (map ms_view (db_states db))"

lemma add_job_Inr: "add_job j db = Inr db' \<longleftrightarrow> find_job db (j_id j) = None \<and> db' = append_job j db"
  by (auto simp: add_job_def)

lemma append_job_simps [simp]:
  "db_jobs (append_job j db) = db_jobs db @ [j]"
  "db_states (append_job j db) = db_states db" "db_events (append_job j db) = db_events db"
  "db_jobs (append_state s db) = db_jobs db" "db_states (append_state s db) = db_states db @ [s]"
  "db_events (append_state s db) = db_events db"
  "db_jobs (append_event r db) = db_jobs db" "db_states (append_event r db) = db_states db"
  "db_events (append_event r db) = db_events db @ [r]"
  by (simp_all add: append_job_def append_state_def append_event_def)

subsection \<open>ISO text without a fixed precision\<close>

text \<open>\<open>isoformat()\<close> of a UTC value leaves the microseconds out when they are zero.\<close>

definition iso_text :: "int \<Rightarrow> string" where
  "iso_text t = (if t mod 1000000 = 0 then take 19 (iso_us t) @ ''+00:00'' else iso_us t)"

end
