(* ===== verification/Ledger.thy ===== *)
theory Ledger
  imports Database
begin

section \<open>The ledger of stream events\<close>

text \<open>
  \<open>ledger.py\<close>: the canonical payload of an event and its fingerprint, registration under the
  identity (feature view, event id) with its three verdicts, the pending events in arrival order,
  the event a row stands for, and the hand-over of rows to an append job. The rows live in the
  shared database; the new row's id and the clock are arguments.
\<close>

datatype registration_result = RNew | RDuplicate | RConflict

record registration =
  rg_result :: registration_result
  rg_record :: event_record

definition canonical_event_payload :: "pyenv \<Rightarrow> stream_event \<Rightarrow> pyval result" where
  "canonical_event_payload env e =
     (if in_range (instant (ev_time e))
      then Inr (VDict [(''event_id'', VStr (ev_id e)), (''feature_view'', VStr (ev_view e)),
        (''entity_values'', json_mode env (VDict (ev_entity e))),
        (''event_timestamp'', VStr (iso_us (instant (ev_time e)))),
        (''values'', json_mode env (VDict (ev_values e)))])
      else Inl (OverflowError ''date value out of range''))"

definition payload_fingerprint :: "pyenv \<Rightarrow> pyval \<Rightarrow> string" where
  "payload_fingerprint env p = env_sha256 env (json_dumps env unicode_opts p)"

type_synonym position = "string option \<times> int option \<times> int option"

definition pending_record :: "string \<Rightarrow> int \<Rightarrow> stream_event \<Rightarrow> string \<Rightarrow> pyval \<Rightarrow> position \<Rightarrow> event_record" where
  "pending_record i now e fp p pos =
     \<lparr>er_id = i, er_view = ev_view e, er_event_id = ev_id e, er_fingerprint = fp, er_payload = p,
      er_state = EPending, er_topic = fst pos, er_partition = fst (snd pos), er_offset = snd (snd pos),
      er_job = None, er_created = now, er_updated = now, er_staged = None, er_applied = None\<rparr>"

definition register ::
    "pyenv \<Rightarrow> string \<Rightarrow> int \<Rightarrow> position \<Rightarrow> stream_event \<Rightarrow> database \<Rightarrow> (registration \<times> database) result" where
  "register env i now pos e db =
     bind_result (canonical_event_payload env e) (\<lambda>p.
       (case find_event db (ev_view e, ev_id e) of
          Some r \<Rightarrow>
            Inr (\<lparr>rg_result = (if er_fingerprint r = payload_fingerprint env p then RDuplicate else RConflict),
                  rg_record = r\<rparr>, db)
        | None \<Rightarrow>
            if i \<in> er_id ` set (db_events db)
            then Inl (IntegrityError ''UNIQUE constraint failed: stream_events.id'')
            else (let r = pending_record i now e (payload_fingerprint env p) p pos
              in Inr (\<lparr>rg_result = RNew, rg_record = r\<rparr>, append_event r db))))"

definition pending :: "database \<Rightarrow> event_record list" where
  "pending db = sort_key (\<lambda>r. (er_created r, er_id r)) (filter (\<lambda>r. er_state r = EPending) (db_events db))"

definition ledger_event :: "pyenv \<Rightarrow> event_record \<Rightarrow> stream_event result" where
  "ledger_event env r = parse_event env (er_payload r)"

definition mark_staged :: "int \<Rightarrow> event_record list \<Rightarrow> string \<Rightarrow> database \<Rightarrow> database" where
  "mark_staged now rs job db =
     db\<lparr>db_events := sql_update (\<lambda>r. er_id r \<in> er_id ` set rs)
       (\<lambda>r. r\<lparr>er_state := EStaged, er_job := Some job, er_staged := Some now, er_updated := now\<rparr>)
       (db_events db)\<rparr>"

subsection \<open>The rows of a sound ledger\<close>

definition event_row_ok :: "pyenv \<Rightarrow> event_record \<Rightarrow> bool" where
  "event_row_ok env r \<longleftrightarrow> jsonable (er_payload r) \<and> er_fingerprint r = payload_fingerprint env (er_payload r) \<and>
     (er_job r = None \<longleftrightarrow> er_state r = EPending) \<and> (er_staged r = None \<longleftrightarrow> er_state r = EPending) \<and>
     (er_applied r \<noteq> None \<longleftrightarrow> er_state r = EApplied)"

definition ledger_ok :: "pyenv \<Rightarrow> database \<Rightarrow> bool" where
  "ledger_ok env db \<longleftrightarrow> distinct (map event_row_key (db_events db)) \<and> distinct (map er_id (db_events db)) \<and>
     (\<forall>r \<in> set (db_events db). event_row_ok env r)"

lemma canonical_payload_jsonable: "canonical_event_payload env e = Inr p \<Longrightarrow> jsonable p"
  by (auto simp: canonical_event_payload_def split: if_splits)

lemma payload_fingerprint_eq:
  assumes "inj (env_sha256 env)" "float_texts_ok env" "jsonable p" "jsonable q"
  shows "payload_fingerprint env p = payload_fingerprint env q \<longleftrightarrow> canon p = canon q"
  using assms(1) json_dumps_inj [OF assms(2) _ assms(3,4), of unicode_opts]
  by (simp add: payload_fingerprint_def inj_eq)

lemma pending_record_ok:
  "canonical_event_payload env e = Inr p \<Longrightarrow> event_row_ok env (pending_record i now e (payload_fingerprint env p) p pos)"
  by (simp add: event_row_ok_def pending_record_def canonical_payload_jsonable)

lemma empty_ledger_ok: "ledger_ok env empty_db"
  by (simp add: ledger_ok_def empty_db_def)

lemma register_cases:
  assumes "register env i now pos e db = Inr (reg, db')"
  obtains (old) p r where "canonical_event_payload env e = Inr p" "find_event db (ev_view e, ev_id e) = Some r"
      "rg_record reg = r" "db' = db"
      "rg_result reg = (if er_fingerprint r = payload_fingerprint env p then RDuplicate else RConflict)"
  | (new) p where "canonical_event_payload env e = Inr p" "find_event db (ev_view e, ev_id e) = None"
      "i \<notin> er_id ` set (db_events db)" "rg_result reg = RNew"
      "rg_record reg = pending_record i now e (payload_fingerprint env p) p pos" "db' = append_event (rg_record reg) db"
proof -
  obtain p where p: "canonical_event_payload env e = Inr p"
    using assms by (auto simp: register_def bind_result_eq_Inr)
  show thesis
  proof (cases "find_event db (ev_view e, ev_id e)")
    case (Some r)
    then show thesis using assms old [OF p Some] by (simp add: register_def p) force
  next
    case None
    then show thesis using assms new [OF p None] by (auto simp: register_def p Let_def split: if_splits)
  qed
qed

lemma register_keeps_ledger_ok:
  assumes "ledger_ok env db" "register env i now pos e db = Inr (reg, db')"
  shows "ledger_ok env db'"
  using assms(2)
proof (cases rule: register_cases)
  case (new p)
  have "distinct (map event_row_key (db_events db'))"
    using new assms(1) events.add_keeps_unique [of db "rg_record reg"]
    by (simp add: ledger_ok_def event_row_key_def pending_record_def)
  moreover have "distinct (map er_id (db_events db'))"
    using new assms(1) by (simp add: ledger_ok_def pending_record_def)
  moreover have "\<forall>r \<in> set (db_events db'). event_row_ok env r"
    using new assms(1) pending_record_ok [OF new(1)] by (simp add: ledger_ok_def)
  ultimately show ?thesis by (simp add: ledger_ok_def)
qed (use assms in simp)

text \<open>
  C18. The verdict of a registration: new exactly when the identity is unused, a duplicate exactly
  when it was used for the same event up to the order of dictionary keys, a conflict exactly when
  it was used for another one. Only a new event changes the ledger, by one pending row.
\<close>

theorem register_verdict:
  assumes "ledger_ok env db" "inj (env_sha256 env)" "float_texts_ok env"
    and "register env i now pos e db = Inr (reg, db')" "canonical_event_payload env e = Inr p"
  shows "case find_event db (ev_view e, ev_id e) of
       None \<Rightarrow> rg_result reg = RNew \<and> db' = append_event (rg_record reg) db \<and>
         er_state (rg_record reg) = EPending \<and> er_payload (rg_record reg) = p
     | Some r \<Rightarrow> db' = db \<and> rg_record reg = r \<and>
         rg_result reg = (if canon (er_payload r) = canon p then RDuplicate else RConflict)"
  using assms(4)
proof (cases rule: register_cases)
  case (old q r)
  then have "event_row_ok env r" using assms(1) events.lookup_SomeD [OF old(2)] by (simp add: ledger_ok_def)
  then have "er_fingerprint r = payload_fingerprint env p \<longleftrightarrow> canon (er_payload r) = canon p"
    using payload_fingerprint_eq [OF assms(2,3) _ canonical_payload_jsonable [OF assms(5)]]
    by (simp add: event_row_ok_def)
  then show ?thesis using old assms(5) by simp
next
  case (new q)
  then show ?thesis using assms(5) by (simp add: pending_record_def)
qed

text \<open>
  A delivery is idempotent: registering the event of a new row again, at any later time and
  from any position, finds that row as a duplicate and changes nothing.
\<close>

theorem register_twice:
  assumes "register env i now pos e db = Inr (reg, db')" "rg_result reg = RNew"
  shows "register env i' now' pos' e db' = Inr (\<lparr>rg_result = RDuplicate, rg_record = rg_record reg\<rparr>, db')"
  using assms(1)
proof (cases rule: register_cases)
  case (old p r)
  then show ?thesis using assms(2) by (simp split: if_splits)
next
  case (new p)
  have "find_event db' (ev_view e, ev_id e) = Some (rg_record reg)"
    using new events.lookup_add [of "rg_record reg" db "(ev_view e, ev_id e)"]
    by (simp add: event_row_key_def pending_record_def)
  then show ?thesis using new by (simp add: register_def) (simp add: pending_record_def)
qed

text \<open>
  A row gives back its event: the payload of a pending row validates to the event that was
  registered, with its time in UTC and its untyped values in their JSON form.
\<close>

theorem ledger_event_roundtrip:
  assumes "register env i now pos e db = Inr (reg, db')" "rg_result reg = RNew" "valid_event e"
    and "env_parse_time env (VStr (iso_us (instant (ev_time e)))) = Some (as_utc (ev_time e))"
    and "jsonable (VDict (ev_entity e))" "jsonable (VDict (ev_values e))"
  shows "ledger_event env (rg_record reg) = Inr (e\<lparr>ev_time := as_utc (ev_time e)\<rparr>)"
  using assms(1)
proof (cases rule: register_cases)
  case (old p r)
  then show ?thesis using assms(2) by (simp split: if_splits)
next
  case (new p)
  have id: "json_mode env (VDict (ev_entity e)) = VDict (ev_entity e)"
    "json_mode env (VDict (ev_values e)) = VDict (ev_values e)" using assms(5,6) json_mode_id by blast+
  have p: "er_payload (rg_record reg) = p" using new by (simp add: pending_record_def)
  show ?thesis using new(1) assms(3,4) unfolding canonical_event_payload_def id
    by (auto simp: ledger_event_def p parse_event_def event_fields_def dict_get_def mk_event_def valid_event_def
        simp del: json_mode.simps split: if_splits)
qed

subsection \<open>Concrete runs\<close>

definition parse_env :: pyenv where
  "parse_env = demo_env\<lparr>env_parse_time := (\<lambda>v. if v = VStr (iso_us 5) then Some (Aware 5 0) else None)\<rparr>"

lemma demo_sha_inj [simp]: "inj (env_sha256 demo_env)"
  by (simp add: inj_def demo_env_def)

lemma shop_register:
  "\<exists>reg db. register env ''r1'' 9 (None, None, None) (shop_event ''a'' 5 10) empty_db = Inr (reg, db) \<and> rg_result reg = RNew"
  by (simp add: register_def canonical_event_payload_def shop_event_def in_range_def find_event_def empty_db_def Let_def)

lemma register_verdict_witness:
  "\<exists>reg db p. register demo_env ''r1'' 9 (None, None, None) (shop_event ''a'' 5 10) empty_db = Inr (reg, db) \<and>
    rg_result reg = RNew \<and> er_state (rg_record reg) = EPending \<and> er_payload (rg_record reg) = p"
proof -
  obtain reg db where r: "register demo_env ''r1'' 9 (None, None, None) (shop_event ''a'' 5 10) empty_db = Inr (reg, db)"
    using shop_register by blast
  obtain p where p: "canonical_event_payload demo_env (shop_event ''a'' 5 10) = Inr p"
    using r by (auto simp: register_def bind_result_eq_Inr)
  show ?thesis
    using register_verdict [OF empty_ledger_ok demo_sha_inj demo_float_texts_ok r p] r
    by (simp add: find_event_def empty_db_def)
qed

lemma register_twice_witness:
  "\<exists>reg db. register demo_env ''r1'' 9 (None, None, None) (shop_event ''a'' 5 10) empty_db = Inr (reg, db) \<and>
    register demo_env ''r2'' 11 (Some ''clicks'', Some 0, Some 7) (shop_event ''a'' 5 10) db
      = Inr (\<lparr>rg_result = RDuplicate, rg_record = rg_record reg\<rparr>, db)"
  using shop_register [of demo_env] register_twice by blast

lemma ledger_event_roundtrip_witness:
  "\<exists>reg db. register parse_env ''r1'' 9 (None, None, None) (shop_event ''a'' 5 10) empty_db = Inr (reg, db) \<and>
    ledger_event parse_env (rg_record reg) = Inr (shop_event ''a'' 5 10)"
proof -
  obtain reg db where r: "register parse_env ''r1'' 9 (None, None, None) (shop_event ''a'' 5 10) empty_db = Inr (reg, db)"
    "rg_result reg = RNew" using shop_register by blast
  have "ledger_event parse_env (rg_record reg)
      = Inr ((shop_event ''a'' 5 10)\<lparr>ev_time := as_utc (ev_time (shop_event ''a'' 5 10))\<rparr>)"
    by (rule ledger_event_roundtrip [OF r])
      (simp_all add: valid_event_def shop_event_def parse_env_def)
  then show ?thesis using r(1) by (auto simp: shop_event_def)
qed

end
