(* ===== verification/Jobs.thy ===== *)
theory Jobs
  imports Database
begin

section \<open>The job queue\<close>

text \<open>
  \<open>JobService\<close> and the queue operations of \<open>JobExecutor\<close> in \<open>jobs.py\<close>: creation, the
  reservation of incremental materializations, cancellation, retry, claiming with a lease,
  heartbeats, and the guarded updates by which a worker persists checkpoints, success and failure.
  Each operation takes the clock reading and the random identifiers of the code as arguments and
  returns the new database, or the exception after which nothing is committed. An \<open>UPDATE ...
  WHERE\<close> is \<open>sql_update\<close> with the condition of its row count.
\<close>

subsection \<open>Creating jobs\<close>

definition create_job ::
    "pyenv \<Rightarrow> settings \<Rightarrow> string \<Rightarrow> int \<Rightarrow> job_kind \<Rightarrow> job_request \<Rightarrow> database \<Rightarrow> (job \<times> database) result" where
  "create_job env st i now k req db =
     (let j = new_job i k (RangePayload (jr_view req) (env_dump_time env (jr_start req))
                (env_dump_time env (jr_end req))) None st now
      in bind_result (add_job j db) (\<lambda>db'. Inr (j, db')))"

definition create_offline_append ::
    "settings \<Rightarrow> string \<Rightarrow> int \<Rightarrow> string \<Rightarrow> string \<Rightarrow> database \<Rightarrow> (job \<times> database) result" where
  "create_offline_append st i now view uri db =
     (let j = new_job i OfflineAppend (StagingPayload view uri) None st now
      in bind_result (add_job j db) (\<lambda>db'. Inr (j, db')))"

definition create_query_job ::
    "settings \<Rightarrow> string \<Rightarrow> int \<Rightarrow> string \<Rightarrow> int \<Rightarrow> string list \<Rightarrow> pyval list \<Rightarrow> database \<Rightarrow> (job \<times> database) result" where
  "create_query_job st i now uri n refs ws db =
     (let j = new_job i HistoricalQuery (QueryPayload n refs ws) (Some uri) st now
      in bind_result (add_job j db) (\<lambda>db'. Inr (j, db')))"

definition active :: "job \<Rightarrow> bool" where
  "active j \<longleftrightarrow> j_status j = Pending \<or> j_status j = Retrying \<or> j_status j = Running"

definition is_incremental :: "job \<Rightarrow> bool" where
  "is_incremental j \<longleftrightarrow> j_kind j = Materialize \<and>
     (case j_payload j of IncrementalPayload _ _ _ \<Rightarrow> True | _ \<Rightarrow> False)"

fun payload_view :: "job_payload \<Rightarrow> string" where
  "payload_view (RangePayload view _ _) = view"
| "payload_view (IncrementalPayload view _ _) = view"
| "payload_view (StagingPayload view _) = view"
| "payload_view (QueryPayload _ _ _) = []"

definition set_state :: "string \<Rightarrow> (mat_state \<Rightarrow> mat_state) \<Rightarrow> database \<Rightarrow> database" where
  "set_state view f db = db\<lparr>db_states := sql_update (\<lambda>s. ms_view s = view) f (db_states db)\<rparr>"

text \<open>
  The row a reservation points at, when it is still active; a stale reservation is dropped
  before the watermark is looked at.
\<close>

definition reserved_job :: "database \<Rightarrow> string \<Rightarrow> job option" where
  "reserved_job db view =
     (case find_state db view of
        None \<Rightarrow> None
      | Some s \<Rightarrow> (case ms_active s of
            None \<Rightarrow> None
          | Some i \<Rightarrow> if i = [] then None
              else (case find_job db i of
                  None \<Rightarrow> None | Some j \<Rightarrow> if active j then Some j else None)))"

definition ensure_state :: "string \<Rightarrow> int \<Rightarrow> database \<Rightarrow> database" where
  "ensure_state view now db =
     (case find_state db view of None \<Rightarrow> append_state (new_state view now) db | Some _ \<Rightarrow> db)"

definition before_watermark :: "database \<Rightarrow> string \<Rightarrow> int \<Rightarrow> bool" where
  "before_watermark db view cutoff =
     (case find_state db view of
        None \<Rightarrow> False
      | Some s \<Rightarrow> (case ms_watermark s of None \<Rightarrow> False | Some w \<Rightarrow> cutoff < w))"

definition request_lookback :: "settings \<Rightarrow> incremental_request \<Rightarrow> int" where
  "request_lookback st req = (case ir_lookback req of None \<Rightarrow> st_lookback st | Some s \<Rightarrow> s)"

definition request_cutoff :: "incremental_request \<Rightarrow> int \<Rightarrow> int" where
  "request_cutoff req now = (case ir_end req of None \<Rightarrow> now | Some d \<Rightarrow> instant d)"

text \<open>
  \<open>create_incremental_materialization\<close>: an active job of the view is returned as it is. The
  retry of the loop answers a concurrent insert of the same state row, which one session alone
  does not see.
\<close>

definition create_incremental ::
    "settings \<Rightarrow> string \<Rightarrow> int \<Rightarrow> incremental_request \<Rightarrow> database \<Rightarrow> (job \<times> database) result" where
  "create_incremental st i now req db =
     (let view = ir_view req; cutoff = request_cutoff req now in
      (case reserved_job db view of
         Some j \<Rightarrow> Inr (j, db)
       | None \<Rightarrow>
           if before_watermark db view cutoff
           then Inl (ValueError ''end cannot precede the successful materialization watermark'')
           else (let j = new_job i Materialize
                       (IncrementalPayload view (iso_text cutoff) (request_lookback st req)) None st now
             in bind_result (add_job j (ensure_state view now db)) (\<lambda>db'.
                Inr (j, set_state view (\<lambda>s. s\<lparr>ms_active := Some i, ms_updated := now\<rparr>) db')))))"

subsection \<open>Reading jobs\<close>

definition get_job :: "string \<Rightarrow> database \<Rightarrow> job result" where
  "get_job i db = (case find_job db i of Some j \<Rightarrow> Inr j | None \<Rightarrow> Inl (KeyError (''unknown job: '' @ i)))"

definition list_jobs :: "nat \<Rightarrow> database \<Rightarrow> job list" where
  "list_jobs limit db = take limit (sort_key (\<lambda>j. - j_created j) (db_jobs db))"

subsection \<open>Updates\<close>

definition update_jobs :: "(job \<Rightarrow> bool) \<Rightarrow> (job \<Rightarrow> job) \<Rightarrow> database \<Rightarrow> database" where
  "update_jobs P f db = db\<lparr>db_jobs := sql_update P f (db_jobs db)\<rparr>"

definition no_lease :: "job \<Rightarrow> job" where
  "no_lease j = j\<lparr>j_worker := None, j_token := None, j_lease := None, j_heartbeat := None\<rparr>"

text \<open>\<open>_release_incremental_reservation\<close>.\<close>

definition release_reservation :: "int \<Rightarrow> job \<Rightarrow> database \<Rightarrow> database" where
  "release_reservation now j db =
     (if is_incremental j
      then db\<lparr>db_states := sql_update
             (\<lambda>s. ms_view s = payload_view (j_payload j) \<and> ms_active s = Some (j_id j))
             (\<lambda>s. s\<lparr>ms_active := None, ms_updated := now\<rparr>) (db_states db)\<rparr>
      else db)"

text \<open>The retention deadline that a finished historical query gets.\<close>

definition expiry :: "settings \<Rightarrow> int \<Rightarrow> job \<Rightarrow> int option" where
  "expiry st now j = (if j_kind j = HistoricalQuery then Some (now + seconds (st_result_ttl st)) else j_expires j)"

definition cancelled :: "settings \<Rightarrow> int \<Rightarrow> job \<Rightarrow> job \<Rightarrow> job" where
  "cancelled st now seen j =
     (no_lease j)\<lparr>j_status := Cancelled, j_finished := Some now, j_expires := expiry st now seen,
       j_next := None\<rparr>"

definition cancel_error :: py_error where
  "cancel_error = ValueError ''only pending, retrying, or running jobs can be cancelled''"

definition cancel :: "settings \<Rightarrow> int \<Rightarrow> string \<Rightarrow> database \<Rightarrow> (job \<times> database) result" where
  "cancel st now i db =
     bind_result (get_job i db) (\<lambda>j.
       if \<not> active j then Inl cancel_error
       else (let P = (\<lambda>r. j_id r = i \<and> active r) in
         if rowcount P (db_jobs db) = 0 then Inl cancel_error
         else (let db' = release_reservation now j (update_jobs P (cancelled st now j) db)
           in bind_result (get_job i db') (\<lambda>j'. Inr (j', db')))))"

definition retryable :: "job \<Rightarrow> bool" where
  "retryable j \<longleftrightarrow> j_status j = Failed \<or> j_status j = Exhausted \<or>
     (j_status j = Cancelled \<and> (j_kind j = HistoricalQuery \<or> is_incremental j))"

definition artifacts_expired :: "int \<Rightarrow> job \<Rightarrow> bool" where
  "artifacts_expired now j \<longleftrightarrow> j_cleaned j \<noteq> None \<or>
     (case j_expires j of None \<Rightarrow> False | Some t \<Rightarrow> t \<le> now)"

text \<open>A retried incremental job takes the reservation of its view back, unless another one is active.\<close>

definition other_active :: "database \<Rightarrow> job \<Rightarrow> bool" where
  "other_active db j =
     (case find_state db (payload_view (j_payload j)) of
        None \<Rightarrow> False
      | Some s \<Rightarrow> (case ms_active s of
            None \<Rightarrow> False
          | Some i \<Rightarrow> i \<noteq> j_id j \<and> (case find_job db i of None \<Rightarrow> False | Some a \<Rightarrow> active a)))"

definition rereserve :: "int \<Rightarrow> job \<Rightarrow> database \<Rightarrow> database result" where
  "rereserve now j db =
     (if \<not> is_incremental j then Inr db
      else if other_active db j
      then Inl (ValueError ''another incremental materialization is active'')
      else Inr (set_state (payload_view (j_payload j)) (\<lambda>s. s\<lparr>ms_active := Some (j_id j), ms_updated := now\<rparr>)
                 (ensure_state (payload_view (j_payload j)) now db)))"

definition restarted :: "settings \<Rightarrow> job \<Rightarrow> job" where
  "restarted st j =
     (no_lease j)\<lparr>j_status := Pending, j_error := None, j_failure := None, j_attempts := 0,
       j_max := st_max_attempts st, j_next := None, j_started := None, j_finished := None,
       j_expires := None, j_cleaned := None, j_result := None, j_metadata := None\<rparr>"

definition retry_error :: py_error where
  "retry_error = ValueError ''only failed or exhausted jobs can be retried''"

definition retry :: "settings \<Rightarrow> int \<Rightarrow> string \<Rightarrow> database \<Rightarrow> (job \<times> database) result" where
  "retry st now i db =
     bind_result (get_job i db) (\<lambda>j.
       if \<not> retryable j then Inl retry_error
       else if artifacts_expired now j
       then Inl (ValueError ''job artifacts have expired and the job cannot be retried'')
       else bind_result (rereserve now j db) (\<lambda>db1.
         let P = (\<lambda>r. j_id r = i \<and> (j_status r = Failed \<or> j_status r = Exhausted \<or> j_status r = Cancelled)) in
         if rowcount P (db_jobs db1) = 0 then Inl retry_error
         else (let db' = update_jobs P (restarted st) db1
           in bind_result (get_job i db') (\<lambda>j'. Inr (j', db')))))"

subsection \<open>Claiming\<close>

definition eligible :: "int \<Rightarrow> job \<Rightarrow> bool" where
  "eligible now j \<longleftrightarrow>
     j_status j = Pending \<or>
     (j_status j = Retrying \<and> (case j_next j of None \<Rightarrow> True | Some t \<Rightarrow> t \<le> now)) \<or>
     (j_status j = Running \<and> (case j_lease j of None \<Rightarrow> True | Some t \<Rightarrow> t \<le> now))"

text \<open>\<open>ORDER BY created_at, id LIMIT 1\<close>.\<close>

definition candidate :: "int \<Rightarrow> job list \<Rightarrow> job option" where
  "candidate now js =
     (case sort_key (\<lambda>j. (j_created j, j_id j)) (filter (eligible now) js) of [] \<Rightarrow> None | j # _ \<Rightarrow> Some j)"

definition spent :: "job \<Rightarrow> bool" where
  "spent j \<longleftrightarrow> j_max j \<le> j_attempts j"

definition or_text :: "string option \<Rightarrow> string \<Rightarrow> string option" where
  "or_text x d = (case x of None \<Rightarrow> Some d | Some s \<Rightarrow> if s = [] then Some d else Some s)"

definition exhausted :: "settings \<Rightarrow> int \<Rightarrow> job \<Rightarrow> job \<Rightarrow> job" where
  "exhausted st now c j =
     (no_lease j)\<lparr>j_status := Exhausted,
       j_failure := (if j_status c = Running then Some LeaseExpired
                     else Some (case j_failure c of None \<Rightarrow> Retryable | Some k \<Rightarrow> k)),
       j_error := or_text (j_error c)
         (if j_status c = Running then ''job lease expired after the final attempt''
          else ''job attempt budget was exhausted''),
       j_finished := Some now, j_expires := expiry st now c, j_next := None\<rparr>"

definition exhaust_candidate :: "settings \<Rightarrow> int \<Rightarrow> job \<Rightarrow> database \<Rightarrow> database" where
  "exhaust_candidate st now c db =
     (let P = (\<lambda>r. j_id r = j_id c \<and> eligible now r \<and> spent r);
          db' = update_jobs P (exhausted st now c) db
      in if rowcount P (db_jobs db) = 0 then db' else release_reservation now c db')"

definition claimed :: "settings \<Rightarrow> string \<Rightarrow> string \<Rightarrow> int \<Rightarrow> job \<Rightarrow> job \<Rightarrow> job" where
  "claimed st owner token now c j =
     j\<lparr>j_status := Running, j_attempts := j_attempts j + 1, j_started := Some now, j_finished := None,
       j_next := None, j_worker := Some owner, j_token := Some token,
       j_lease := Some (now + seconds (st_lease st)), j_heartbeat := Some now,
       j_failure := (if j_status c = Running then Some LeaseExpired else j_failure c)\<rparr>"

lemma candidate_SomeD:
  assumes "candidate now js = Some c"
  shows "c \<in> set js" "eligible now c"
    "\<And>j. j \<in> set js \<Longrightarrow> eligible now j \<Longrightarrow> (j_created c, j_id c) \<le> (j_created j, j_id j)"
proof -
  let ?s = "sort_key (\<lambda>j. (j_created j, j_id j)) (filter (eligible now) js)"
  obtain rest where s: "?s = c # rest" using assms by (auto simp: candidate_def split: list.splits)
  have set: "set ?s = {j \<in> set js. eligible now j}" by simp
  then show "c \<in> set js" "eligible now c" using s by auto
  have "sorted (map (\<lambda>j. (j_created j, j_id j)) ?s)" by (rule sorted_sort_key)
  then have "\<forall>j \<in> set ?s. (j_created c, j_id c) \<le> (j_created j, j_id j)" using s by auto
  then show "\<And>j. j \<in> set js \<Longrightarrow> eligible now j \<Longrightarrow> (j_created c, j_id c) \<le> (j_created j, j_id j)"
    using set by blast
qed

lemma candidate_None: "candidate now js = None \<longleftrightarrow> (\<forall>j \<in> set js. \<not> eligible now j)"
proof -
  have "candidate now js = None \<longleftrightarrow> sort_key (\<lambda>j. (j_created j, j_id j)) (filter (eligible now) js) = []"
    by (auto simp: candidate_def split: list.splits)
  also have "\<dots> \<longleftrightarrow> filter (eligible now) js = []" by (metis set_empty set_sort)
  finally show ?thesis by (simp add: filter_empty_conv)
qed

lemma not_eligible_exhausted [simp]: "\<not> eligible now (exhausted st now' c j)"
  by (simp add: eligible_def exhausted_def)

lemma rowcount_update_less:
  assumes "c \<in> set js" "P c" "E c" "\<And>r. \<not> E (f r)"
  shows "rowcount E (sql_update P f js) < rowcount E js"
  using assms(1)
proof (induction js)
  case (Cons r js)
  have le: "rowcount E (sql_update P f xs) \<le> rowcount E xs" for xs
    by (induction xs) (auto simp: rowcount_def assms(4))
  show ?case
  proof (cases "r = c")
    case True
    then show ?thesis using le [of js] assms by (simp add: rowcount_def)
  next
    case False
    then show ?thesis using Cons assms(4) by (auto simp: rowcount_def)
  qed
qed simp

lemma exhaust_candidate_jobs:
  "db_jobs (exhaust_candidate st now c db)
    = sql_update (\<lambda>r. j_id r = j_id c \<and> eligible now r \<and> spent r) (exhausted st now c) (db_jobs db)"
  by (simp add: exhaust_candidate_def Let_def update_jobs_def release_reservation_def)

text \<open>
  \<open>claim_next\<close>: jobs whose attempts are used up are closed on the way to the first one that
  can run. Every turn of the loop removes an eligible job, so it ends.
\<close>

function claim_next :: "settings \<Rightarrow> string \<Rightarrow> string \<Rightarrow> int \<Rightarrow> database \<Rightarrow> job option \<times> database" where
  "claim_next st owner token now db =
     (case candidate now (db_jobs db) of
        None \<Rightarrow> (None, db)
      | Some c \<Rightarrow>
          if spent c then claim_next st owner token now (exhaust_candidate st now c db)
          else (let db' = update_jobs (\<lambda>r. j_id r = j_id c \<and> eligible now r \<and> \<not> spent r)
                            (claimed st owner token now c) db
            in (find_job db' (j_id c), db')))"
  by pat_completeness auto
termination
proof (relation "measure (\<lambda>(st, owner, token, now, db). rowcount (eligible now) (db_jobs db))", goal_cases)
  case (2 st owner token now db c)
  then have "c \<in> set (db_jobs db)" "eligible now c" using candidate_SomeD by blast+
  then have "rowcount (eligible now) (db_jobs (exhaust_candidate st now c db)) < rowcount (eligible now) (db_jobs db)"
    unfolding exhaust_candidate_jobs using 2(2)
    by (intro rowcount_update_less [where c = c]) simp_all
  then show ?case by simp
qed simp

declare claim_next.simps [simp del]

subsection \<open>The guarded updates of a worker\<close>

text \<open>The condition every write of a worker carries: the row is still leased to this token.\<close>

definition leased :: "string \<Rightarrow> string \<Rightarrow> int \<Rightarrow> job \<Rightarrow> bool" where
  "leased i token now j \<longleftrightarrow> j_id j = i \<and> j_status j = Running \<and> j_token j = Some token \<and>
     (case j_lease j of None \<Rightarrow> False | Some t \<Rightarrow> now < t)"

definition owns :: "string \<Rightarrow> string \<Rightarrow> int \<Rightarrow> database \<Rightarrow> bool" where
  "owns i token now db \<longleftrightarrow> rowcount (leased i token now) (db_jobs db) \<noteq> 0"

definition require_ownership :: "string \<Rightarrow> string \<Rightarrow> int \<Rightarrow> database \<Rightarrow> unit result" where
  "require_ownership i token now db =
     ensure (owns i token now db) (LeaseLostError (''job lease was lost: '' @ i))"

definition heartbeat :: "settings \<Rightarrow> string \<Rightarrow> string \<Rightarrow> int \<Rightarrow> database \<Rightarrow> bool \<times> database" where
  "heartbeat st i token now db =
     (owns i token now db,
      update_jobs (leased i token now)
        (\<lambda>j. j\<lparr>j_lease := Some (now + seconds (st_lease st)), j_heartbeat := Some now\<rparr>) db)"

definition commit_checkpoints :: "string \<Rightarrow> string \<Rightarrow> int \<Rightarrow> string list \<Rightarrow> database \<Rightarrow> database result" where
  "commit_checkpoints i token now cps db =
     (if \<not> owns i token now db then Inl (LeaseLostError (''job lease was lost before checkpoint: '' @ i))
      else Inr (update_jobs (leased i token now) (\<lambda>j. j\<lparr>j_checkpoints := cps\<rparr>) db))"

definition succeeded :: "settings \<Rightarrow> int \<Rightarrow> job \<Rightarrow> string option \<Rightarrow> row option \<Rightarrow> job \<Rightarrow> job" where
  "succeeded st now seen uri meta j =
     (no_lease j)\<lparr>j_status := Succeeded, j_error := None, j_failure := None, j_finished := Some now,
       j_next := None, j_result := uri, j_metadata := meta, j_expires := expiry st now seen\<rparr>"

text \<open>\<open>_mark_stream_events_applied\<close>.\<close>

definition mark_applied :: "int \<Rightarrow> string \<Rightarrow> database \<Rightarrow> database" where
  "mark_applied now i db =
     db\<lparr>db_events := sql_update (\<lambda>r. er_job r = Some i \<and> er_state r = EStaged)
       (\<lambda>r. r\<lparr>er_state := EApplied, er_applied := Some now, er_updated := now\<rparr>) (db_events db)\<rparr>"

text \<open>\<open>datetime.fromisoformat\<close> of a text the code wrote.\<close>

definition time_of_text :: "pyenv \<Rightarrow> string \<Rightarrow> int result" where
  "time_of_text env s = (case env_fromiso env s of
       None \<Rightarrow> Inl (ValueError ''Invalid isoformat string'') | Some d \<Rightarrow> Inr (instant d))"

definition metadata_freshness :: "pyenv \<Rightarrow> row option \<Rightarrow> int option result" where
  "metadata_freshness env meta =
     (case meta of None \<Rightarrow> Inr None
      | Some m \<Rightarrow> (case dict_get m ''source_freshness_at'' of
          VStr s \<Rightarrow> if s = [] then Inr None else bind_result (time_of_text env s) (\<lambda>t. Inr (Some t))
        | _ \<Rightarrow> Inr None))"

text \<open>The watermark of a finished incremental job; a lost reservation undoes the success.\<close>

definition advance_watermark :: "pyenv \<Rightarrow> int \<Rightarrow> job \<Rightarrow> row option \<Rightarrow> database \<Rightarrow> database result" where
  "advance_watermark env now seen meta db =
     (case j_payload seen of
        IncrementalPayload view e _ \<Rightarrow>
          bind_result (metadata_freshness env meta) (\<lambda>fresh.
          bind_result (time_of_text env e) (\<lambda>w.
            let P = (\<lambda>s. ms_view s = view \<and> ms_active s = Some (j_id seen)) in
            if rowcount P (db_states db) = 0
            then Inl (LeaseLostError (''incremental materialization reservation was lost: '' @ j_id seen))
            else Inr (db\<lparr>db_states := sql_update P
              (\<lambda>s. s\<lparr>ms_watermark := Some w, ms_freshness := fresh, ms_active := None,
                   ms_last := Some (j_id seen), ms_updated := now\<rparr>) (db_states db)\<rparr>)))
      | _ \<Rightarrow> Inr db)"

definition finalize_success ::
    "pyenv \<Rightarrow> settings \<Rightarrow> int \<Rightarrow> string \<Rightarrow> job \<Rightarrow> string option \<Rightarrow> row option \<Rightarrow> database \<Rightarrow> database result" where
  "finalize_success env st now token seen uri meta db =
     (if \<not> owns (j_id seen) token now db
      then Inl (LeaseLostError (''job lease was lost before success: '' @ j_id seen))
      else (let db1 = update_jobs (leased (j_id seen) token now) (succeeded st now seen uri meta) db
        in bind_result (if is_incremental seen then advance_watermark env now seen meta db1 else Inr db1) (\<lambda>db2.
           Inr (if j_kind seen = OfflineAppend then mark_applied now (j_id seen) db2 else db2))))"

text \<open>
  \<open>_is_terminal_failure\<close>: the exceptions that a new attempt cannot repair; \<open>DataError\<close> stands for
  those of Arrow, DuckDB and Delta Lake that the code lists.
\<close>

fun is_terminal_failure :: "py_error \<Rightarrow> bool" where
  "is_terminal_failure (RegistryNotFoundError _) = True"
| "is_terminal_failure (RegistryConflictError _) = True"
| "is_terminal_failure (ValidationError _) = True"
| "is_terminal_failure (ValueError _) = True"
| "is_terminal_failure (KeyError _) = True"
| "is_terminal_failure (TypeError _) = True"
| "is_terminal_failure (DataError _) = True"
| "is_terminal_failure _ = False"

definition retry_delay :: "settings \<Rightarrow> int \<Rightarrow> int" where
  "retry_delay st attempts = min (st_retry_base st * 2 ^ nat (attempts - 1)) (st_retry_max st)"

definition failure_outcome :: "settings \<Rightarrow> int \<Rightarrow> job \<Rightarrow> py_error \<Rightarrow> job_status \<times> failure_kind \<times> int option \<times> int option" where
  "failure_outcome st now seen e =
     (if is_terminal_failure e then (Failed, Terminal, None, Some now)
      else if spent seen then (Exhausted, Retryable, None, Some now)
      else (Retrying, Retryable, Some (now + seconds (retry_delay st (j_attempts seen))), None))"

definition failed :: "settings \<Rightarrow> int \<Rightarrow> job \<Rightarrow> py_error \<Rightarrow> string \<Rightarrow> row option \<Rightarrow> job \<Rightarrow> job" where
  "failed st now seen e trace meta j =
     (case failure_outcome st now seen e of (status, kind, next, fin) \<Rightarrow>
       (no_lease j)\<lparr>j_status := status, j_error := Some trace, j_failure := Some kind, j_next := next,
         j_finished := fin,
         j_expires := (if j_kind seen = HistoricalQuery \<and> fin \<noteq> None
                       then Some (now + seconds (st_result_ttl st)) else None),
         j_metadata := meta\<rparr>)"

definition finalize_failure ::
    "settings \<Rightarrow> int \<Rightarrow> string \<Rightarrow> job \<Rightarrow> py_error \<Rightarrow> string \<Rightarrow> row option \<Rightarrow> database \<Rightarrow> database" where
  "finalize_failure st now token seen e trace meta db =
     (if \<not> owns (j_id seen) token now db then db
      else (let db1 = update_jobs (leased (j_id seen) token now) (failed st now seen e trace meta) db
        in if fst (failure_outcome st now seen e) = Retrying then db1
           else release_reservation now seen db1))"

subsection \<open>Expired artifacts\<close>

definition finished_status :: "job \<Rightarrow> bool" where
  "finished_status j \<longleftrightarrow> j_status j \<in> {Succeeded, Failed, Exhausted, Cancelled}"

definition expired_query :: "int \<Rightarrow> job \<Rightarrow> bool" where
  "expired_query now j \<longleftrightarrow> j_kind j = HistoricalQuery \<and> finished_status j \<and>
     (case j_expires j of None \<Rightarrow> False | Some t \<Rightarrow> t \<le> now) \<and> j_cleaned j = None"

text \<open>
  \<open>cleanup_expired_artifacts\<close>; deleting the files of a job is the argument, and an error
  there leaves the rows as they were.
\<close>

fun cleanup_loop ::
    "(string \<Rightarrow> 'f \<Rightarrow> 'f result) \<Rightarrow> int \<Rightarrow> job list \<Rightarrow> 'f \<Rightarrow> database \<Rightarrow> nat \<Rightarrow> (nat \<times> 'f \<times> database) result" where
  "cleanup_loop del now [] fs db n = Inr (n, fs, db)"
| "cleanup_loop del now (j # js) fs db n =
     bind_result (del (j_id j) fs) (\<lambda>fs'.
       let P = (\<lambda>r. j_id r = j_id j \<and> j_cleaned r = None) in
       cleanup_loop del now js fs' (update_jobs P (\<lambda>r. r\<lparr>j_cleaned := Some now\<rparr>) db)
         (n + rowcount P (db_jobs db)))"

definition cleanup_expired_artifacts ::
    "(string \<Rightarrow> 'f \<Rightarrow> 'f result) \<Rightarrow> int \<Rightarrow> 'f \<Rightarrow> database \<Rightarrow> (nat \<times> 'f \<times> database) result" where
  "cleanup_expired_artifacts del now fs db =
     cleanup_loop del now (filter (expired_query now) (db_jobs db)) fs db 0"

end
