(* ===== verification/JobSteps.thy ===== *)
theory JobSteps
  imports Jobs
begin

section \<open>The job queue as a state machine\<close>

text \<open>
  The queue with its clock and the lease tokens handed out so far. A step is one committed
  operation of a service, a worker or the clock: time only moves forward, the identifiers are
  fresh (\<open>uuid4\<close>), and a worker works on the row it was handed. \<open>queue_ok\<close> is the invariant of
  the reachable queues: the shape of every row in every status, unique keys, and the reservation
  of incremental materializations, stated as equality of two sets.
\<close>

subsection \<open>Rows\<close>

fun payload_kind_ok :: "job_kind \<Rightarrow> job_payload \<Rightarrow> bool" where
  "payload_kind_ok Backfill (RangePayload _ _ _) = True"
| "payload_kind_ok Materialize (RangePayload _ _ _) = True"
| "payload_kind_ok Materialize (IncrementalPayload _ _ _) = True"
| "payload_kind_ok OfflineAppend (StagingPayload _ _) = True"
| "payload_kind_ok HistoricalQuery (QueryPayload _ _ _) = True"
| "payload_kind_ok _ _ = False"

definition lease_shape :: "job \<Rightarrow> bool" where
  "lease_shape j \<longleftrightarrow>
     (j_token j \<noteq> None \<longleftrightarrow> j_status j = Running) \<and> (j_worker j \<noteq> None \<longleftrightarrow> j_status j = Running) \<and>
     (j_lease j \<noteq> None \<longleftrightarrow> j_status j = Running) \<and> (j_heartbeat j \<noteq> None \<longleftrightarrow> j_status j = Running)"

definition attempts_shape :: "job \<Rightarrow> bool" where
  "attempts_shape j \<longleftrightarrow> 0 \<le> j_attempts j \<and> j_attempts j \<le> j_max j \<and>
     (j_status j = Running \<longrightarrow> 1 \<le> j_attempts j) \<and> (j_status j = Retrying \<longrightarrow> j_attempts j < j_max j)"

definition outcome_shape :: "job \<Rightarrow> bool" where
  "outcome_shape j \<longleftrightarrow>
     (j_finished j \<noteq> None \<longleftrightarrow> finished_status j) \<and> (j_next j \<noteq> None \<longleftrightarrow> j_status j = Retrying) \<and>
     (j_status j = Succeeded \<longrightarrow> j_error j = None \<and> j_failure j = None) \<and>
     (j_status j \<in> {Failed, Exhausted, Retrying} \<longrightarrow> j_error j \<noteq> None \<and> j_failure j \<noteq> None)"

definition artifact_shape :: "job \<Rightarrow> bool" where
  "artifact_shape j \<longleftrightarrow>
     (j_expires j \<noteq> None \<longleftrightarrow> j_kind j = HistoricalQuery \<and> finished_status j) \<and>
     (j_cleaned j \<noteq> None \<longrightarrow> j_kind j = HistoricalQuery \<and> finished_status j)"

definition job_ok :: "job \<Rightarrow> bool" where
  "job_ok j \<longleftrightarrow> j_id j \<noteq> [] \<and> payload_kind_ok (j_kind j) (j_payload j) \<and> lease_shape j \<and>
     attempts_shape j \<and> outcome_shape j \<and> artifact_shape j"

lemmas job_shapes = job_ok_def lease_shape_def attempts_shape_def outcome_shape_def artifact_shape_def

subsection \<open>Reservations\<close>

definition active_increments :: "database \<Rightarrow> (string \<times> string) set" where
  "active_increments db = {(payload_view (j_payload j), j_id j) | j. j \<in> set (db_jobs db) \<and> is_incremental j \<and> active j}"

definition reservations :: "database \<Rightarrow> (string \<times> string) set" where
  "reservations db = {(ms_view s, i) | s i. s \<in> set (db_states db) \<and> ms_active s = Some i}"

definition db_ok :: "database \<Rightarrow> bool" where
  "db_ok db \<longleftrightarrow> job_ids_unique db \<and> state_views_unique db \<and> (\<forall>j \<in> set (db_jobs db). job_ok j) \<and>
     active_increments db = reservations db"

subsection \<open>Steps\<close>

record queue =
  q_db :: database
  q_now :: int
  q_tokens :: "string set"

text \<open>
  What a worker knows of its job: the row it was handed. Identity, kind and payload never change;
  attempts and deadlines do not change while the row keeps its token.
\<close>

definition snapshot :: "string \<Rightarrow> job \<Rightarrow> database \<Rightarrow> bool" where
  "snapshot token seen db \<longleftrightarrow> (\<exists>r \<in> set (db_jobs db). j_id r = j_id seen \<and> j_kind r = j_kind seen \<and>
     j_payload r = j_payload seen \<and>
     (j_token r = Some token \<longrightarrow> j_attempts r = j_attempts seen \<and> j_max r = j_max seen \<and> j_expires r = j_expires seen))"

inductive queue_step :: "pyenv \<Rightarrow> settings \<Rightarrow> queue \<Rightarrow> queue \<Rightarrow> bool" for env st where
  tick: "q_now q \<le> t \<Longrightarrow> queue_step env st q (q\<lparr>q_now := t\<rparr>)"
| create: "k = Backfill \<or> k = Materialize \<Longrightarrow> i \<noteq> [] \<Longrightarrow>
     create_job env st i (q_now q) k req (q_db q) = Inr (j, db) \<Longrightarrow> queue_step env st q (q\<lparr>q_db := db\<rparr>)"
| append_events: "i \<noteq> [] \<Longrightarrow> create_offline_append st i (q_now q) view uri (q_db q) = Inr (j, db) \<Longrightarrow>
     queue_step env st q (q\<lparr>q_db := db\<rparr>)"
| query: "i \<noteq> [] \<Longrightarrow> create_query_job st i (q_now q) uri n refs ws (q_db q) = Inr (j, db) \<Longrightarrow>
     queue_step env st q (q\<lparr>q_db := db\<rparr>)"
| incremental: "i \<noteq> [] \<Longrightarrow> create_incremental st i (q_now q) ireq (q_db q) = Inr (j, db) \<Longrightarrow>
     queue_step env st q (q\<lparr>q_db := db\<rparr>)"
| cancel_job: "cancel st (q_now q) i (q_db q) = Inr (j, db) \<Longrightarrow> queue_step env st q (q\<lparr>q_db := db\<rparr>)"
| retry_job: "retry st (q_now q) i (q_db q) = Inr (j, db) \<Longrightarrow> queue_step env st q (q\<lparr>q_db := db\<rparr>)"
| claim: "token \<notin> q_tokens q \<Longrightarrow> claim_next st owner token (q_now q) (q_db q) = (jo, db) \<Longrightarrow>
     queue_step env st q (q\<lparr>q_db := db, q_tokens := insert token (q_tokens q)\<rparr>)"
| beat: "heartbeat st i token (q_now q) (q_db q) = (b, db) \<Longrightarrow> queue_step env st q (q\<lparr>q_db := db\<rparr>)"
| checkpoint: "commit_checkpoints i token (q_now q) cps (q_db q) = Inr db \<Longrightarrow> queue_step env st q (q\<lparr>q_db := db\<rparr>)"
| success: "snapshot token seen (q_db q) \<Longrightarrow>
     finalize_success env st (q_now q) token seen uri' meta (q_db q) = Inr db \<Longrightarrow> queue_step env st q (q\<lparr>q_db := db\<rparr>)"
| failure: "snapshot token seen (q_db q) \<Longrightarrow>
     finalize_failure st (q_now q) token seen e trace meta (q_db q) = db \<Longrightarrow> queue_step env st q (q\<lparr>q_db := db\<rparr>)"
| cleanup: "cleanup_expired_artifacts del (q_now q) fs (q_db q) = Inr (m, (fs' :: unit), db) \<Longrightarrow>
     queue_step env st q (q\<lparr>q_db := db\<rparr>)"

inductive reachable_queue :: "pyenv \<Rightarrow> settings \<Rightarrow> queue \<Rightarrow> bool" for env st where
  start: "reachable_queue env st \<lparr>q_db = empty_db, q_now = t, q_tokens = {}\<rparr>"
| more: "reachable_queue env st q \<Longrightarrow> queue_step env st q q' \<Longrightarrow> reachable_queue env st q'"

definition settings_ok :: "settings \<Rightarrow> bool" where
  "settings_ok st \<longleftrightarrow> 0 \<le> st_max_attempts st"

subsection \<open>Updates of single rows\<close>

definition fixed_fields :: "(job \<Rightarrow> job) \<Rightarrow> bool" where
  "fixed_fields f \<longleftrightarrow> (\<forall>r. j_id (f r) = j_id r \<and> j_kind (f r) = j_kind r \<and> j_payload (f r) = j_payload r)"

lemma fixed_fieldsD:
  assumes "fixed_fields f"
  shows "j_id (f r) = j_id r" "j_kind (f r) = j_kind r" "j_payload (f r) = j_payload r"
    "is_incremental (f r) = is_incremental r"
  using assms by (simp_all add: fixed_fields_def is_incremental_def)

lemma fixed_fields_intros [simp, intro]:
  "fixed_fields (cancelled st now c)" "fixed_fields (restarted st)" "fixed_fields (exhausted st now c)"
  "fixed_fields (claimed st owner token now c)" "fixed_fields (succeeded st now c uri meta)"
  "fixed_fields (failed st now c e trace meta)"
  "fixed_fields (\<lambda>j. j\<lparr>j_lease := l, j_heartbeat := h\<rparr>)" "fixed_fields (\<lambda>j. j\<lparr>j_checkpoints := cps\<rparr>)"
  "fixed_fields (\<lambda>j. j\<lparr>j_cleaned := x\<rparr>)"
  by (simp_all add: fixed_fields_def cancelled_def restarted_def exhausted_def claimed_def succeeded_def
      failed_def no_lease_def split: prod.splits)

lemma update_jobs_simps [simp]:
  "db_jobs (update_jobs P f db) = sql_update P f (db_jobs db)" "db_states (update_jobs P f db) = db_states db"
  "db_events (update_jobs P f db) = db_events db"
  by (simp_all add: update_jobs_def)

lemma set_state_simps [simp]:
  "db_jobs (set_state view f db) = db_jobs db" "db_events (set_state view f db) = db_events db"
  by (simp_all add: set_state_def)

lemma release_simps [simp]:
  "db_jobs (release_reservation now j db) = db_jobs db" "db_events (release_reservation now j db) = db_events db"
  by (simp_all add: release_reservation_def)

lemma ids_update: "fixed_fields f \<Longrightarrow> job_ids_unique (update_jobs P f db) = job_ids_unique db"
  unfolding job_ids_unique_def update_jobs_simps
  by (subst sql_update_keeps_map) (simp_all add: fixed_fieldsD)

lemma row_of_id:
  "job_ids_unique db \<Longrightarrow> r \<in> set (db_jobs db) \<Longrightarrow> r' \<in> set (db_jobs db) \<Longrightarrow> j_id r = j_id r' \<Longrightarrow> r = r'"
  by (auto simp: job_ids_unique_def distinct_map inj_on_def)

lemma find_job_row:
  "job_ids_unique db \<Longrightarrow> find_job db i = Some j \<longleftrightarrow> j \<in> set (db_jobs db) \<and> j_id j = i"
  by (simp add: job_ids_unique_def jobs.lookup_unique)

lemma rows_update:
  assumes "\<And>r. r \<in> set (db_jobs db) \<Longrightarrow> Q r" "\<And>r. r \<in> set (db_jobs db) \<Longrightarrow> P r \<Longrightarrow> Q r \<Longrightarrow> Q (f r)"
  shows "\<forall>r \<in> set (db_jobs (update_jobs P f db)). Q r"
  using assms by (auto simp: set_sql_update)

definition increment_of :: "job \<Rightarrow> (string \<times> string) set" where
  "increment_of j = (if is_incremental j \<and> active j then {(payload_view (j_payload j), j_id j)} else {})"

lemma active_increments_Union: "active_increments db = (\<Union>j \<in> set (db_jobs db). increment_of j)"
  by (auto simp: active_increments_def increment_of_def)

lemma increments_keep:
  assumes "fixed_fields f" "\<And>r. r \<in> set (db_jobs db) \<Longrightarrow> P r \<Longrightarrow> active (f r) = active r"
  shows "active_increments (update_jobs P f db) = active_increments db"
proof -
  have "increment_of (if P r then f r else r) = increment_of r" if "r \<in> set (db_jobs db)" for r
    using fixed_fieldsD [OF assms(1), of r] assms(2) [OF that] by (simp add: increment_of_def)
  then have "(\<Union>r \<in> set (db_jobs db). increment_of (if P r then f r else r)) = active_increments db"
    unfolding active_increments_Union by (intro SUP_cong refl)
  then show ?thesis
    by (simp only: active_increments_Union [of "update_jobs P f db"] update_jobs_simps set_sql_update image_image)
qed

lemma reservations_update_jobs [simp]: "reservations (update_jobs P f db) = reservations db"
  by (simp add: reservations_def)

lemma state_views_update_jobs [simp]: "state_views_unique (update_jobs P f db) = state_views_unique db"
  by (simp add: state_views_unique_def)

text \<open>An update that keeps the activity of its rows keeps the invariant.\<close>

lemma db_ok_update:
  assumes "db_ok db" "fixed_fields f"
    and "\<And>r. r \<in> set (db_jobs db) \<Longrightarrow> P r \<Longrightarrow> job_ok r \<Longrightarrow> job_ok (f r) \<and> active (f r) = active r"
  shows "db_ok (update_jobs P f db)"
proof -
  have "\<forall>r \<in> set (db_jobs (update_jobs P f db)). job_ok r"
    using assms(1,3) by (intro rows_update) (auto simp: db_ok_def)
  moreover have "active_increments (update_jobs P f db) = active_increments db"
    using assms by (intro increments_keep) (auto simp: db_ok_def)
  ultimately show ?thesis
    using assms(1) ids_update [OF assms(2)] by (simp add: db_ok_def del: update_jobs_simps(1))
qed

subsection \<open>Reservations under the operations\<close>

lemma reservations_release:
  "reservations (release_reservation now c db)
    = (if is_incremental c then reservations db - {(payload_view (j_payload c), j_id c)} else reservations db)"
proof (cases "is_incremental c")
  case True
  let ?P = "\<lambda>s. ms_view s = payload_view (j_payload c) \<and> ms_active s = Some (j_id c)"
  have "x \<in> reservations (release_reservation now c db) \<longleftrightarrow> x \<in> reservations db - {(payload_view (j_payload c), j_id c)}" for x
  proof
    assume "x \<in> reservations (release_reservation now c db)"
    then obtain s i where s: "s \<in> set (db_states db)" "x = (ms_view s, i)" "\<not> ?P s" "ms_active s = Some i"
      using True by (auto simp: reservations_def release_reservation_def set_sql_update split: if_splits)
    then show "x \<in> reservations db - {(payload_view (j_payload c), j_id c)}" by (auto simp: reservations_def)
  next
    assume x: "x \<in> reservations db - {(payload_view (j_payload c), j_id c)}"
    then obtain s i where s: "s \<in> set (db_states db)" "x = (ms_view s, i)" "ms_active s = Some i"
      by (auto simp: reservations_def)
    then have "\<not> ?P s" using x by auto
    then have "s \<in> set (db_states (release_reservation now c db))"
      using s(1) True by (force simp: release_reservation_def set_sql_update)
    then show "x \<in> reservations (release_reservation now c db)" using s(2,3) by (auto simp: reservations_def)
  qed
  then show ?thesis using True by (simp only: if_True) blast
qed (simp add: release_reservation_def)

lemma increments_append [simp]: "active_increments (append_job j db) = active_increments db \<union> increment_of j"
  by (auto simp: active_increments_Union)

lemma increments_states [simp]:
  "active_increments (set_state view f db) = active_increments db"
  "active_increments (release_reservation now c db) = active_increments db"
  "active_increments (append_state s db) = active_increments db"
  by (simp_all add: active_increments_Union)

lemma increments_remove:
  assumes "job_ids_unique db" "fixed_fields f" "j \<in> set (db_jobs db)"
    and "\<And>r. r \<in> set (db_jobs db) \<Longrightarrow> P r \<longleftrightarrow> r = j" "\<not> active (f j)"
  shows "active_increments (update_jobs P f db) = active_increments db - increment_of j"
proof -
  have "increment_of (if P r then f r else r) = increment_of r - increment_of j" if r: "r \<in> set (db_jobs db)" for r
  proof (cases "r = j")
    case True
    then show ?thesis using assms(4) [OF r] assms(5) by (simp add: increment_of_def)
  next
    case False
    then have "j_id r \<noteq> j_id j" using row_of_id [OF assms(1) r assms(3)] by blast
    then show ?thesis using assms(4) [OF r] False by (simp add: increment_of_def)
  qed
  then have "(\<Union>r \<in> set (db_jobs db). increment_of (if P r then f r else r))
      = (\<Union>r \<in> set (db_jobs db). increment_of r - increment_of j)" by (intro SUP_cong refl)
  then show ?thesis
    by (simp only: active_increments_Union update_jobs_simps set_sql_update image_image) blast
qed

lemma state_views_release [simp]: "state_views_unique (release_reservation now c db) = state_views_unique db"
  unfolding state_views_unique_def release_reservation_def by (simp add: sql_update_keeps_map)

lemma job_ids_states [simp]:
  "job_ids_unique (release_reservation now c db) = job_ids_unique db"
  "job_ids_unique (set_state view f db) = job_ids_unique db"
  "job_ids_unique (append_state s db) = job_ids_unique db"
  by (simp_all add: job_ids_unique_def)

text \<open>Closing an active row together with its reservation keeps the invariant.\<close>

lemma db_ok_close:
  assumes ok: "db_ok db" and f: "fixed_fields f" and j: "j \<in> set (db_jobs db)" "active j"
    and P: "\<And>r. r \<in> set (db_jobs db) \<Longrightarrow> P r \<longleftrightarrow> r = j"
    and closed: "job_ok (f j)" "\<not> active (f j)"
    and c: "j_id c = j_id j" "j_kind c = j_kind j" "j_payload c = j_payload j"
  shows "db_ok (release_reservation now c (update_jobs P f db))"
proof -
  have uniq: "job_ids_unique db" using ok by (simp add: db_ok_def)
  have rows: "\<forall>r \<in> set (db_jobs (update_jobs P f db)). job_ok r"
    using ok P closed(1) by (intro rows_update) (auto simp: db_ok_def)
  have incr: "active_increments (update_jobs P f db) = active_increments db - increment_of j"
    by (rule increments_remove [OF uniq f j(1) P closed(2)])
  have "is_incremental c = is_incremental j" using c by (simp add: is_incremental_def)
  then have "reservations (release_reservation now c (update_jobs P f db)) = reservations db - increment_of j"
    using c j(2) by (simp add: reservations_release increment_of_def)
  then show ?thesis
    using ok rows incr ids_update [OF f, of P db] by (simp add: db_ok_def del: update_jobs_simps(1))
qed

lemma find_state_ensure:
  "\<exists>s. find_state (ensure_state view now db) view = Some s"
  using states.lookup_add [of "new_state view now" db view]
  by (auto simp: ensure_state_def new_state_def split: option.splits)

lemma ensure_state_simps [simp]:
  "db_jobs (ensure_state view now db) = db_jobs db" "db_events (ensure_state view now db) = db_events db"
  by (simp_all add: ensure_state_def split: option.splits)

lemma ensure_state_ok:
  "state_views_unique db \<Longrightarrow> state_views_unique (ensure_state view now db)"
  "reservations (ensure_state view now db) = reservations db"
  using states.add_keeps_unique [of db "new_state view now"]
  by (auto simp: ensure_state_def state_views_unique_def new_state_def reservations_def split: option.splits)

lemma increments_ensure [simp]: "active_increments (ensure_state view now db) = active_increments db"
  by (simp add: active_increments_Union)

lemma job_ids_ensure [simp]: "job_ids_unique (ensure_state view now db) = job_ids_unique db"
  by (simp add: job_ids_unique_def)

lemma state_views_set [simp]:
  "(\<And>s. ms_view (f s) = ms_view s) \<Longrightarrow> state_views_unique (set_state view f db) = state_views_unique db"
  by (simp add: state_views_unique_def set_state_def sql_update_keeps_map)

lemma reservations_reserve:
  assumes "find_state db view = Some s0"
  shows "reservations (set_state view (\<lambda>s. s\<lparr>ms_active := Some i, ms_updated := now\<rparr>) db)
    = {x \<in> reservations db. fst x \<noteq> view} \<union> {(view, i)}"
proof -
  let ?f = "\<lambda>s. s\<lparr>ms_active := Some i, ms_updated := now\<rparr>"
  have s0: "s0 \<in> set (db_states db)" "ms_view s0 = view" using states.lookup_SomeD [OF assms] by simp_all
  have "x \<in> reservations (set_state view ?f db) \<longleftrightarrow> x \<in> {x \<in> reservations db. fst x \<noteq> view} \<union> {(view, i)}" for x
  proof
    assume "x \<in> reservations (set_state view ?f db)"
    then obtain s k where "s \<in> set (db_states db)" "x = (ms_view s, k)"
        "if ms_view s = view then k = i else ms_active s = Some k"
      by (auto simp: reservations_def set_state_def set_sql_update split: if_splits)
    then show "x \<in> {x \<in> reservations db. fst x \<noteq> view} \<union> {(view, i)}"
      by (auto simp: reservations_def split: if_splits)
  next
    assume "x \<in> {x \<in> reservations db. fst x \<noteq> view} \<union> {(view, i)}"
    then consider "x \<in> reservations db" "fst x \<noteq> view" | "x = (view, i)" by auto
    then show "x \<in> reservations (set_state view ?f db)"
    proof cases
      case 1
      then obtain s k where s: "s \<in> set (db_states db)" "x = (ms_view s, k)" "ms_active s = Some k" "ms_view s \<noteq> view"
        by (auto simp: reservations_def)
      then have "s \<in> set (db_states (set_state view ?f db))" by (force simp: set_state_def set_sql_update)
      then show ?thesis using s by (auto simp: reservations_def)
    next
      case 2
      have "?f s0 \<in> set (db_states (set_state view ?f db))" using s0 by (force simp: set_state_def set_sql_update)
      moreover have "ms_view (?f s0) = view" "ms_active (?f s0) = Some i" using s0 by simp_all
      ultimately show ?thesis unfolding reservations_def 2 by (metis (mono_tags, lifting) mem_Collect_eq)
    qed
  qed
  then show ?thesis by blast
qed

end
