(* ===== verification/JobInvariant.thy ===== *)
theory JobInvariant
  imports JobSteps
begin

section \<open>The invariant of the job queue\<close>

text \<open>
  Every operation keeps \<open>db_ok\<close>, so every reachable queue has it (\<open>reachable_db_ok\<close>): the
  shape of each row in each status, one reservation per view held exactly by its active
  incremental job, and attempts within their budget.
\<close>

subsection \<open>Rows after each operation\<close>

lemma new_job_simps [simp]:
  "j_id (new_job i k p art st now) = i" "j_kind (new_job i k p art st now) = k"
  "j_payload (new_job i k p art st now) = p" "active (new_job i k p art st now)"
  "is_incremental (new_job i k p art st now)
    \<longleftrightarrow> k = Materialize \<and> (case p of IncrementalPayload _ _ _ \<Rightarrow> True | _ \<Rightarrow> False)"
  by (simp_all add: new_job_def active_def is_incremental_def)

lemma job_ok_new:
  "i \<noteq> [] \<Longrightarrow> payload_kind_ok k p \<Longrightarrow> settings_ok st \<Longrightarrow> job_ok (new_job i k p art st now)"
  by (simp add: job_shapes new_job_def settings_ok_def finished_status_def)

lemma job_ok_cancelled: "job_ok j \<Longrightarrow> active j \<Longrightarrow> job_ok (cancelled st now j j)"
  by (simp add: job_shapes cancelled_def no_lease_def expiry_def finished_status_def active_def)

lemma job_ok_restarted: "job_ok j \<Longrightarrow> settings_ok st \<Longrightarrow> job_ok (restarted st j)"
  by (simp add: job_shapes restarted_def no_lease_def finished_status_def settings_ok_def)

lemma job_ok_exhausted: "job_ok j \<Longrightarrow> eligible now' j \<Longrightarrow> job_ok (exhausted st now j j)"
  by (cases "j_status j")
    (simp_all add: job_shapes exhausted_def no_lease_def expiry_def finished_status_def eligible_def or_text_def
      split: option.splits)

lemma job_ok_claimed: "job_ok j \<Longrightarrow> eligible now' j \<Longrightarrow> \<not> spent j \<Longrightarrow> job_ok (claimed st owner token now j j)"
  by (cases "j_status j") (simp_all add: job_shapes claimed_def finished_status_def eligible_def spent_def)

lemma active_results [simp]:
  "\<not> active (cancelled st now c j)" "active (restarted st j)" "\<not> active (exhausted st now c j)"
  "active (claimed st owner token now c j)" "\<not> active (succeeded st now c uri meta j)"
  by (simp_all add: active_def cancelled_def restarted_def exhausted_def claimed_def succeeded_def no_lease_def)

lemma eligible_active: "eligible now j \<Longrightarrow> active j"
  by (auto simp: eligible_def active_def)

lemma job_ok_succeeded:
  "job_ok j \<Longrightarrow> leased i token now j \<Longrightarrow> j_kind c = j_kind j \<Longrightarrow> j_expires c = j_expires j \<Longrightarrow>
     job_ok (succeeded st now c uri meta j)"
  by (simp add: job_shapes succeeded_def no_lease_def expiry_def finished_status_def leased_def)

lemma active_failed: "active (failed st now c e trace meta j) \<longleftrightarrow> fst (failure_outcome st now c e) = Retrying"
  by (simp add: active_def failed_def failure_outcome_def no_lease_def)

lemma job_ok_failed:
  assumes "job_ok j" "leased i token now j" "j_kind c = j_kind j" "j_attempts c = j_attempts j" "j_max c = j_max j"
  shows "job_ok (failed st now c e trace meta j)"
  using assms
  by (cases "j_kind j")
    (simp_all add: job_shapes failed_def failure_outcome_def no_lease_def finished_status_def leased_def spent_def)

lemma job_ok_leased:
  "job_ok j \<Longrightarrow> leased i token now j \<Longrightarrow> job_ok (j\<lparr>j_lease := Some l, j_heartbeat := Some h\<rparr>)"
  "job_ok j \<Longrightarrow> job_ok (j\<lparr>j_checkpoints := cps\<rparr>)"
  by (simp_all add: job_shapes leased_def finished_status_def)

lemma job_ok_cleaned:
  "job_ok j \<Longrightarrow> j_kind j = HistoricalQuery \<Longrightarrow> finished_status j \<Longrightarrow> job_ok (j\<lparr>j_cleaned := Some now\<rparr>)"
  by (simp add: job_shapes finished_status_def)

subsection \<open>Operations\<close>

lemma empty_db_ok: "db_ok empty_db"
  by (simp add: db_ok_def empty_db_def job_ids_unique_def state_views_unique_def active_increments_def reservations_def)

lemma reservations_append [simp]: "reservations (append_job j db) = reservations db"
  by (simp add: reservations_def)

lemma state_views_append [simp]: "state_views_unique (append_job j db) = state_views_unique db"
  by (simp add: state_views_unique_def)

lemma increment_of_new: "\<not> is_incremental j \<Longrightarrow> increment_of j = {}"
  by (simp add: increment_of_def)

lemma add_plain_job:
  assumes "db_ok db" "add_job j db = Inr db'" "job_ok j" "\<not> is_incremental j"
  shows "db_ok db'"
proof -
  have db': "db' = append_job j db" and fresh: "find_job db (j_id j) = None" using assms(2) by (simp_all add: add_job_Inr)
  have "job_ids_unique db'"
    using jobs.add_keeps_unique [of db j] assms(1) fresh by (simp add: db' db_ok_def job_ids_unique_def)
  moreover have "reservations db' = reservations db" by (simp add: db' reservations_def)
  ultimately show ?thesis
    using assms(1,3) increment_of_new [OF assms(4)] by (simp add: db' db_ok_def state_views_unique_def)
qed

lemma create_job_ok:
  assumes "db_ok db" "settings_ok st" "i \<noteq> []" "k = Backfill \<or> k = Materialize"
    and "create_job env st i now k req db = Inr (j, db')"
  shows "db_ok db'"
proof -
  have "add_job j db = Inr db'" using assms(5) by (auto simp: create_job_def Let_def bind_result_eq_Inr)
  then show ?thesis
    using assms by (intro add_plain_job [of db j db']) (auto simp: create_job_def Let_def bind_result_eq_Inr intro!: job_ok_new)
qed

lemma create_append_ok:
  assumes "db_ok db" "settings_ok st" "i \<noteq> []" "create_offline_append st i now view uri db = Inr (j, db')"
  shows "db_ok db'"
proof -
  have "add_job j db = Inr db'" using assms(4) by (auto simp: create_offline_append_def Let_def bind_result_eq_Inr)
  then show ?thesis
    using assms by (intro add_plain_job [of db j db']) (auto simp: create_offline_append_def Let_def bind_result_eq_Inr intro!: job_ok_new)
qed

lemma create_query_ok:
  assumes "db_ok db" "settings_ok st" "i \<noteq> []" "create_query_job st i now uri n refs ws db = Inr (j, db')"
  shows "db_ok db'"
proof -
  have "add_job j db = Inr db'" using assms(4) by (auto simp: create_query_job_def Let_def bind_result_eq_Inr)
  then show ?thesis
    using assms by (intro add_plain_job [of db j db']) (auto simp: create_query_job_def Let_def bind_result_eq_Inr intro!: job_ok_new)
qed

lemma reserved_job_None:
  assumes "db_ok db" "\<And>i. (view, i) \<notin> reservations db \<or> i \<noteq> []" "reserved_job db view = None"
  shows "(view, i) \<notin> reservations db"
proof
  assume r: "(view, i) \<in> reservations db"
  then obtain s where s: "s \<in> set (db_states db)" "ms_view s = view" "ms_active s = Some i"
    by (auto simp: reservations_def)
  then have f: "find_state db view = Some s"
    using assms(1) states.lookup_unique [of db view s] by (simp add: db_ok_def state_views_unique_def)
  have "(view, i) \<in> active_increments db" using r assms(1) by (simp add: db_ok_def)
  then obtain j where j: "j \<in> set (db_jobs db)" "j_id j = i" "active j" by (auto simp: active_increments_def)
  then have "find_job db i = Some j" using assms(1) by (simp add: db_ok_def find_job_row)
  then show False using assms(2) [of i] assms(3) f s(3) j(3) r by (simp add: reserved_job_def split: if_splits)
qed

lemma reservation_named: "db_ok db \<Longrightarrow> (view, i) \<in> reservations db \<Longrightarrow> i \<noteq> []"
proof -
  assume ok: "db_ok db" and r: "(view, i) \<in> reservations db"
  then have "(view, i) \<in> active_increments db" by (simp add: db_ok_def)
  then show "i \<noteq> []" using ok by (auto simp: active_increments_def db_ok_def job_ok_def)
qed

lemma create_incremental_ok:
  assumes "db_ok db" "settings_ok st" "i \<noteq> []" "create_incremental st i now req db = Inr (j, db')"
  shows "db_ok db'"
proof (cases "reserved_job db (ir_view req)")
  case (Some a)
  then show ?thesis using assms(1,4) by (simp add: create_incremental_def Let_def)
next
  case None
  let ?view = "ir_view req"
  let ?p = "IncrementalPayload ?view (iso_text (request_cutoff req now)) (request_lookback st req)"
  let ?j = "new_job i Materialize ?p None st now"
  let ?db = "ensure_state ?view now db"
  have fresh: "find_job ?db i = None" and db': "db' = set_state ?view (\<lambda>s. s\<lparr>ms_active := Some i, ms_updated := now\<rparr>) (append_job ?j ?db)"
    using assms(4) None by (auto simp: create_incremental_def Let_def bind_result_eq_Inr add_job_Inr split: if_splits)
  have free: "(?view, k) \<notin> reservations db" for k
    using reserved_job_None [OF assms(1) _ None] reservation_named [OF assms(1)] by blast
  obtain s0 where "find_state ?db ?view = Some s0" using find_state_ensure by blast
  then have "find_state (append_job ?j ?db) ?view = Some s0" by (simp add: find_state_def)
  from reservations_reserve [OF this, where i = i and now = now]
  have res: "reservations db' = reservations db \<union> {(?view, i)}"
    using free by (auto simp: db' reservations_append ensure_state_ok)
  have incr: "active_increments db' = active_increments db \<union> {(?view, i)}"
    by (simp add: db' increment_of_def)
  have "job_ids_unique db'"
    using jobs.add_keeps_unique [of ?db ?j] fresh assms(1)
    by (simp add: db' db_ok_def job_ids_unique_def)
  moreover have "state_views_unique db'"
    using assms(1) ensure_state_ok(1) [of db ?view now] by (simp add: db' db_ok_def)
  moreover have "\<forall>r \<in> set (db_jobs db'). job_ok r"
    using assms(1-3) job_ok_new by (simp add: db' db_ok_def)
  ultimately show ?thesis using res incr assms(1) by (simp add: db_ok_def)
qed

lemma get_job_row: "db_ok db \<Longrightarrow> get_job i db = Inr j \<longleftrightarrow> j \<in> set (db_jobs db) \<and> j_id j = i"
  using find_job_row [of db i j] by (auto simp: get_job_def db_ok_def split: option.splits)

lemma cancel_ok:
  assumes "db_ok db" "cancel st now i db = Inr (j', db')"
  shows "db_ok db'"
proof -
  obtain j where j: "get_job i db = Inr j" "active j"
    and db': "db' = release_reservation now j (update_jobs (\<lambda>r. j_id r = i \<and> active r) (cancelled st now j) db)"
    using assms(2) by (auto simp: cancel_def bind_result_eq_Inr Let_def split: if_splits)
  have row: "j \<in> set (db_jobs db)" "j_id j = i" using j(1) get_job_row [OF assms(1)] by simp_all
  have "job_ok j" using assms(1) row by (simp add: db_ok_def)
  have "job_ids_unique db" using assms(1) by (simp add: db_ok_def)
  have P: "(j_id r = i \<and> active r) = (r = j)" if "r \<in> set (db_jobs db)" for r
    using row_of_id [OF \<open>job_ids_unique db\<close> that row(1)] row(2) j(2) by metis
  show ?thesis unfolding db'
    by (rule db_ok_close [where f = "cancelled st now j", OF assms(1) _ row(1) j(2) P job_ok_cancelled [OF \<open>job_ok j\<close> j(2)]]) simp_all
qed

lemma exhaust_ok:
  assumes "db_ok db" "candidate now (db_jobs db) = Some c" "spent c"
  shows "db_ok (exhaust_candidate st now c db)"
proof -
  note c = candidate_SomeD [OF assms(2)]
  have uniq: "job_ids_unique db" and row: "job_ok c" using assms(1) c(1) by (simp_all add: db_ok_def)
  have P: "r \<in> set (db_jobs db) \<Longrightarrow> (j_id r = j_id c \<and> eligible now r \<and> spent r) = (r = c)" for r
    using row_of_id [OF uniq _ c(1)] c(2) assms(3) by blast
  then have "rowcount (\<lambda>r. j_id r = j_id c \<and> eligible now r \<and> spent r) (db_jobs db) \<noteq> 0"
    using c(1) by auto
  then have "exhaust_candidate st now c db
      = release_reservation now c (update_jobs (\<lambda>r. j_id r = j_id c \<and> eligible now r \<and> spent r) (exhausted st now c) db)"
    by (simp add: exhaust_candidate_def Let_def del: rowcount_0_iff)
  then show ?thesis
    using db_ok_close [OF assms(1) _ c(1) eligible_active [OF c(2)] P, of "exhausted st now c" c now]
      job_ok_exhausted [OF row c(2)] by simp
qed

lemma claim_update_ok:
  assumes "db_ok db" "candidate now (db_jobs db) = Some c" "\<not> spent c"
  shows "db_ok (update_jobs (\<lambda>r. j_id r = j_id c \<and> eligible now r \<and> \<not> spent r) (claimed st owner token now c) db)"
proof -
  note c = candidate_SomeD [OF assms(2)]
  have uniq: "job_ids_unique db" using assms(1) by (simp add: db_ok_def)
  show ?thesis
  proof (rule db_ok_update [OF assms(1)])
    fix r assume r: "r \<in> set (db_jobs db)" "j_id r = j_id c \<and> eligible now r \<and> \<not> spent r" "job_ok r"
    then have "r = c" using row_of_id [OF uniq r(1) c(1)] by blast
    then show "job_ok (claimed st owner token now c r) \<and> active (claimed st owner token now c r) = active r"
      using job_ok_claimed [OF _ c(2) assms(3)] r(3) eligible_active [OF c(2)] by simp
  qed simp
qed

lemma claim_next_ok:
  "db_ok db \<Longrightarrow> db_ok (snd (claim_next st owner token now db))"
proof (induction st owner token now db rule: claim_next.induct)
  case (1 st owner token now db)
  show ?case
  proof (cases "candidate now (db_jobs db)")
    case None
    then show ?thesis using 1(2) by (simp add: claim_next.simps)
  next
    case (Some c)
    then show ?thesis
      using 1 exhaust_ok [OF 1(2) Some, of st] claim_update_ok [OF 1(2) Some]
      by (subst claim_next.simps) (simp add: Let_def)
  qed
qed

lemma heartbeat_ok: "db_ok db \<Longrightarrow> db_ok (snd (heartbeat st i token now db))"
  unfolding heartbeat_def snd_conv
  by (rule db_ok_update) (auto intro: job_ok_leased(1) simp: active_def)

lemma checkpoint_ok: "db_ok db \<Longrightarrow> commit_checkpoints i token now cps db = Inr db' \<Longrightarrow> db_ok db'"
  unfolding commit_checkpoints_def
  by (clarsimp split: if_splits) (rule db_ok_update, auto intro: job_ok_leased(2) simp: active_def)

lemma rereserve_ok:
  assumes "db_ok db" "j \<in> set (db_jobs db)" "\<not> active j" "rereserve now j db = Inr db1"
  shows "job_ids_unique db1" "state_views_unique db1" "db_jobs db1 = db_jobs db"
    "reservations db1 = reservations db \<union> (if is_incremental j then {(payload_view (j_payload j), j_id j)} else {})"
proof -
  let ?view = "payload_view (j_payload j)"
  have uniq: "job_ids_unique db" "state_views_unique db" using assms(1) by (simp_all add: db_ok_def)
  consider "\<not> is_incremental j" "db1 = db"
    | "is_incremental j" "\<not> other_active db j"
      "db1 = set_state ?view (\<lambda>s. s\<lparr>ms_active := Some (j_id j), ms_updated := now\<rparr>) (ensure_state ?view now db)"
    using assms(4) by (auto simp: rereserve_def split: if_splits)
  then have "job_ids_unique db1 \<and> state_views_unique db1 \<and> db_jobs db1 = db_jobs db \<and>
    reservations db1 = reservations db \<union> (if is_incremental j then {(?view, j_id j)} else {})"
  proof cases
    case 1
    then show ?thesis using uniq by simp
  next
    case 2
    have free: "(?view, k) \<notin> reservations db" for k
    proof
      assume r: "(?view, k) \<in> reservations db"
      then obtain s where s: "s \<in> set (db_states db)" "ms_view s = ?view" "ms_active s = Some k"
        by (auto simp: reservations_def)
      then have f: "find_state db ?view = Some s"
        using uniq(2) states.lookup_unique [of db ?view s] by (simp add: state_views_unique_def)
      have "(?view, k) \<in> active_increments db" using r assms(1) by (simp add: db_ok_def)
      then obtain a where a: "a \<in> set (db_jobs db)" "j_id a = k" "active a" by (auto simp: active_increments_def)
      then have fa: "find_job db k = Some a" using uniq(1) by (simp add: find_job_row)
      have "k \<noteq> j_id j" using a assms(2,3) row_of_id [OF uniq(1) a(1) assms(2)] by auto
      then show False using 2(2) f s(3) fa a(3) by (simp add: other_active_def)
    qed
    obtain s0 where "find_state (ensure_state ?view now db) ?view = Some s0" using find_state_ensure by blast
    from reservations_reserve [OF this, where i = "j_id j" and now = now]
    have "reservations db1 = reservations db \<union> {(?view, j_id j)}"
      using free by (auto simp: 2(3) ensure_state_ok)
    then show ?thesis using 2 uniq ensure_state_ok(1) [OF uniq(2), of ?view now] by simp
  qed
  then show "job_ids_unique db1" "state_views_unique db1" "db_jobs db1 = db_jobs db"
    "reservations db1 = reservations db \<union> (if is_incremental j then {(?view, j_id j)} else {})" by simp_all
qed

lemma increments_restart:
  assumes "job_ids_unique db" "fixed_fields f" "j \<in> set (db_jobs db)" "\<not> active j" "active (f j)"
    and "\<And>r. r \<in> set (db_jobs db) \<Longrightarrow> P r \<longleftrightarrow> r = j"
  shows "active_increments (update_jobs P f db)
    = active_increments db \<union> (if is_incremental j then {(payload_view (j_payload j), j_id j)} else {})"
proof -
  let ?new = "if is_incremental j then {(payload_view (j_payload j), j_id j)} else {}"
  have fj: "increment_of (f j) = ?new" using fixed_fieldsD [OF assms(2), of j] assms(5) by (simp add: increment_of_def)
  have "increment_of (if P r then f r else r) = (if r = j then ?new else increment_of r)"
    if "r \<in> set (db_jobs db)" for r using assms(6) [OF that] fj by simp
  then have "(\<Union>r \<in> set (db_jobs db). increment_of (if P r then f r else r))
      = (\<Union>r \<in> set (db_jobs db). if r = j then ?new else increment_of r)" by (intro SUP_cong refl)
  also have "\<dots> = (\<Union>r \<in> set (db_jobs db). increment_of r) \<union> ?new"
    using assms(3,4) by (auto simp: increment_of_def split: if_splits)
  finally show ?thesis
    by (simp only: active_increments_Union update_jobs_simps set_sql_update image_image)
qed

lemma retry_ok:
  assumes "db_ok db" "settings_ok st" "retry st now i db = Inr (j', db')"
  shows "db_ok db'"
proof -
  let ?P = "\<lambda>r. j_id r = i \<and> (j_status r = Failed \<or> j_status r = Exhausted \<or> j_status r = Cancelled)"
  obtain j db1 where j: "get_job i db = Inr j" "retryable j" and db1: "rereserve now j db = Inr db1"
    and db': "db' = update_jobs ?P (restarted st) db1"
    using assms(3) by (auto simp: retry_def bind_result_eq_Inr Let_def split: if_splits)
  have row: "j \<in> set (db_jobs db)" "j_id j = i" using j(1) get_job_row [OF assms(1)] by simp_all
  have idle: "\<not> active j" using j(2) by (auto simp: retryable_def active_def)
  note r1 = rereserve_ok [OF assms(1) row(1) idle db1]
  have P: "r \<in> set (db_jobs db1) \<Longrightarrow> ?P r \<longleftrightarrow> r = j" for r
    using r1(1,3) row j(2) row_of_id [OF r1(1), of r j] by (auto simp: retryable_def)
  have j1: "j \<in> set (db_jobs db1)" using row(1) r1(3) by simp
  have "active_increments db' = active_increments db1 \<union> (if is_incremental j then {(payload_view (j_payload j), j_id j)} else {})"
    unfolding db' by (rule increments_restart [OF r1(1) _ j1 idle _ P]) simp_all
  moreover have "active_increments db1 = active_increments db" using r1(3) by (simp add: active_increments_Union)
  moreover have "\<forall>r \<in> set (db_jobs db'). job_ok r"
    unfolding db' using assms(1,2) r1(3) job_ok_restarted by (intro rows_update) (auto simp: db_ok_def)
  moreover have "reservations db' = reservations db1" by (simp add: db')
  ultimately show ?thesis
    using assms(1) r1 ids_update [of "restarted st" ?P db1] by (simp add: db_ok_def db' del: update_jobs_simps(1))
qed

text \<open>A worker's guarded write reaches exactly the row it was handed.\<close>

lemma leased_row:
  assumes "db_ok db" "snapshot token seen db" "owns (j_id seen) token now db"
  obtains r where "r \<in> set (db_jobs db)" "leased (j_id seen) token now r" "j_id r = j_id seen"
    "j_kind r = j_kind seen" "j_payload r = j_payload seen" "j_attempts r = j_attempts seen" "j_max r = j_max seen"
    "j_expires r = j_expires seen" "\<And>x. x \<in> set (db_jobs db) \<Longrightarrow> leased (j_id seen) token now x \<longleftrightarrow> x = r"
proof -
  have uniq: "job_ids_unique db" using assms(1) by (simp add: db_ok_def)
  obtain r where r: "r \<in> set (db_jobs db)" "leased (j_id seen) token now r"
    using assms(3) by (auto simp: owns_def)
  then have id: "j_id r = j_id seen" "j_token r = Some token" by (simp_all add: leased_def)
  obtain x where x: "x \<in> set (db_jobs db)" "j_id x = j_id seen" "j_kind x = j_kind seen" "j_payload x = j_payload seen"
    "j_token x = Some token \<longrightarrow> j_attempts x = j_attempts seen \<and> j_max x = j_max seen \<and> j_expires x = j_expires seen"
    using assms(2) by (auto simp: snapshot_def)
  have "x = r" using row_of_id [OF uniq x(1) r(1)] x(2) id(1) by simp
  moreover have "y \<in> set (db_jobs db) \<Longrightarrow> leased (j_id seen) token now y \<longleftrightarrow> y = r" for y
    using row_of_id [OF uniq _ r(1)] id(1) r(2) by (auto simp: leased_def)
  ultimately show thesis using that r id x by blast
qed

lemma sound_leased: "leased i token now r \<Longrightarrow> active r"
  by (simp add: leased_def active_def)

lemma reservations_advance:
  assumes "advance_watermark env now seen meta db = Inr db'" "is_incremental seen"
  shows "db_jobs db' = db_jobs db" "reservations db' = reservations (release_reservation now seen db)"
    "state_views_unique db' = state_views_unique db"
proof -
  obtain view e l where p: "j_payload seen = IncrementalPayload view e l"
    using assms(2) by (cases "j_payload seen") (auto simp: is_incremental_def)
  let ?P = "\<lambda>s. ms_view s = view \<and> ms_active s = Some (j_id seen)"
  obtain fresh w where db': "db' = db\<lparr>db_states := sql_update ?P
        (\<lambda>s. s\<lparr>ms_watermark := Some w, ms_freshness := fresh, ms_active := None,
             ms_last := Some (j_id seen), ms_updated := now\<rparr>) (db_states db)\<rparr>"
    using assms(1) by (auto simp: advance_watermark_def p bind_result_eq_Inr Let_def split: if_splits)
  show "db_jobs db' = db_jobs db" by (simp add: db')
  show "state_views_unique db' = state_views_unique db"
    by (simp add: db' state_views_unique_def sql_update_keeps_map)
  show "reservations db' = reservations (release_reservation now seen db)"
    using assms(2) by (auto simp: reservations_def db' release_reservation_def p set_sql_update)
qed

lemma db_ok_states:
  assumes "db_ok db" "db_jobs db' = db_jobs db" "reservations db' = reservations db" "state_views_unique db'"
  shows "db_ok db'"
  using assms by (simp add: db_ok_def job_ids_unique_def active_increments_Union)

lemma mark_applied_simps [simp]:
  "db_jobs (mark_applied now i db) = db_jobs db" "db_states (mark_applied now i db) = db_states db"
  by (simp_all add: mark_applied_def)

lemma mark_applied_ok: "db_ok db \<Longrightarrow> db_ok (mark_applied now i db)"
  using db_ok_states [of db "mark_applied now i db"]
  by (simp add: reservations_def state_views_unique_def db_ok_def)

lemma release_plain: "\<not> is_incremental j \<Longrightarrow> release_reservation now j db = db"
  by (simp add: release_reservation_def)

lemma success_ok:
  assumes "db_ok db" "snapshot token seen db" "finalize_success env st now token seen uri meta db = Inr db'"
  shows "db_ok db'"
proof -
  have own: "owns (j_id seen) token now db" using assms(3) by (simp add: finalize_success_def split: if_splits)
  obtain r where r: "r \<in> set (db_jobs db)" "leased (j_id seen) token now r" "j_id r = j_id seen"
    "j_kind r = j_kind seen" "j_payload r = j_payload seen" "j_expires r = j_expires seen"
    "\<And>x. x \<in> set (db_jobs db) \<Longrightarrow> leased (j_id seen) token now x \<longleftrightarrow> x = r"
    using leased_row [OF assms(1,2) own] by blast
  let ?db1 = "update_jobs (leased (j_id seen) token now) (succeeded st now seen uri meta) db"
  have "job_ok r" using assms(1) r(1) by (simp add: db_ok_def)
  then have ok: "job_ok (succeeded st now seen uri meta r)"
    using job_ok_succeeded r(2,4,6) by simp
  have closed: "db_ok (release_reservation now seen ?db1)"
    by (rule db_ok_close [where f = "succeeded st now seen uri meta", OF assms(1) _ r(1) sound_leased [OF r(2)] r(7) ok])
      (use r(3-5) in simp_all)
  obtain db2 where db2: "(if is_incremental seen then advance_watermark env now seen meta ?db1 else Inr ?db1) = Inr db2"
    and db': "db' = (if j_kind seen = OfflineAppend then mark_applied now (j_id seen) db2 else db2)"
    using assms(3) own by (auto simp: finalize_success_def Let_def bind_result_eq_Inr)
  have "db_ok db2"
  proof (cases "is_incremental seen")
    case True
    then have adv: "advance_watermark env now seen meta ?db1 = Inr db2" using db2 by simp
    have "state_views_unique ?db1" using assms(1) by (simp add: db_ok_def)
    then show ?thesis
      using db_ok_states [OF closed, of db2] reservations_advance [OF adv True] by simp
  next
    case False
    then show ?thesis using db2 closed release_plain [OF False] by simp
  qed
  then show ?thesis using mark_applied_ok by (simp add: db')
qed

lemma failure_ok:
  assumes "db_ok db" "snapshot token seen db"
  shows "db_ok (finalize_failure st now token seen e trace meta db)"
proof (cases "owns (j_id seen) token now db")
  case True
  obtain r where r: "r \<in> set (db_jobs db)" "leased (j_id seen) token now r" "j_id r = j_id seen"
    "j_kind r = j_kind seen" "j_payload r = j_payload seen" "j_attempts r = j_attempts seen" "j_max r = j_max seen"
    "\<And>x. x \<in> set (db_jobs db) \<Longrightarrow> leased (j_id seen) token now x \<longleftrightarrow> x = r"
    using leased_row [OF assms True] by blast
  let ?db1 = "update_jobs (leased (j_id seen) token now) (failed st now seen e trace meta) db"
  have "job_ok r" using assms(1) r(1) by (simp add: db_ok_def)
  then have ok: "job_ok (failed st now seen e trace meta r)" using job_ok_failed r(2,4,6,7) by simp
  show ?thesis
  proof (cases "fst (failure_outcome st now seen e) = Retrying")
    case True
    have "db_ok ?db1"
    proof (rule db_ok_update [OF assms(1)])
      fix x assume "x \<in> set (db_jobs db)" "leased (j_id seen) token now x"
      then have "x = r" using r(8) by blast
      then show "job_ok (failed st now seen e trace meta x) \<and> active (failed st now seen e trace meta x) = active x"
        using ok True sound_leased [OF r(2)] by (simp add: active_failed)
    qed simp
    then show ?thesis using \<open>owns _ _ _ _\<close> True by (simp add: finalize_failure_def)
  next
    case False
    have "db_ok (release_reservation now seen ?db1)"
      by (rule db_ok_close [where f = "failed st now seen e trace meta", OF assms(1) _ r(1) sound_leased [OF r(2)] r(8) ok])
        (use r(3-5) False in \<open>simp_all add: active_failed\<close>)
    then show ?thesis using \<open>owns _ _ _ _\<close> False by (simp add: finalize_failure_def Let_def)
  qed
qed (simp add: finalize_failure_def assms(1))

lemma cleanup_loop_ok:
  assumes "db_ok db" "\<forall>j \<in> set js. \<forall>r \<in> set (db_jobs db). j_id r = j_id j \<longrightarrow> j_kind r = HistoricalQuery \<and> finished_status r"
    and "cleanup_loop del now js fs db n = Inr (m, fs', db')"
  shows "db_ok db'"
  using assms
proof (induction js arbitrary: fs db n)
  case (Cons j js)
  let ?f = "\<lambda>r. r\<lparr>j_cleaned := Some now\<rparr>" and ?P = "\<lambda>r. j_id r = j_id j \<and> j_cleaned r = None"
  obtain fs1 where rest: "cleanup_loop del now js fs1 (update_jobs ?P ?f db) (n + rowcount ?P (db_jobs db)) = Inr (m, fs', db')"
    using Cons.prems(3) by (auto simp: bind_result_eq_Inr Let_def)
  have "db_ok (update_jobs ?P ?f db)"
    using Cons.prems(1,2) by (intro db_ok_update) (auto intro: job_ok_cleaned simp: active_def)
  moreover have "\<forall>j \<in> set js. \<forall>r \<in> set (db_jobs (update_jobs ?P ?f db)).
      j_id r = j_id j \<longrightarrow> j_kind r = HistoricalQuery \<and> finished_status r"
    using Cons.prems(2) by (auto simp: set_sql_update finished_status_def)
  ultimately show ?case using Cons.IH rest by blast
qed simp

lemma cleanup_ok:
  assumes "db_ok db" "cleanup_expired_artifacts del now fs db = Inr (m, fs', db')"
  shows "db_ok db'"
proof (rule cleanup_loop_ok [OF assms(1) _ assms(2) [unfolded cleanup_expired_artifacts_def]])
  have uniq: "job_ids_unique db" using assms(1) by (simp add: db_ok_def)
  show "\<forall>j \<in> set (filter (expired_query now) (db_jobs db)). \<forall>r \<in> set (db_jobs db).
      j_id r = j_id j \<longrightarrow> j_kind r = HistoricalQuery \<and> finished_status r"
    using row_of_id [OF uniq] by (auto simp: expired_query_def)
qed

subsection \<open>Reachable queues\<close>

lemma queue_step_ok:
  "queue_step env st q q' \<Longrightarrow> settings_ok st \<Longrightarrow> db_ok (q_db q) \<Longrightarrow> db_ok (q_db q')"
proof (induction rule: queue_step.induct)
  case (claim token q owner jo db)
  then show ?case using claim_next_ok [of "q_db q" st owner token "q_now q"] by simp
next
  case (beat i token q b db)
  then show ?case using heartbeat_ok [of "q_db q" st i token "q_now q"] by simp
qed (auto intro: create_job_ok create_append_ok create_query_ok create_incremental_ok cancel_ok retry_ok
    checkpoint_ok success_ok failure_ok cleanup_ok)

lemma reachable_db_ok: "reachable_queue env st q \<Longrightarrow> settings_ok st \<Longrightarrow> db_ok (q_db q)"
  by (induction rule: reachable_queue.induct) (auto intro: empty_db_ok queue_step_ok)

end
