(* ===== verification/JobLaws.thy ===== *)
theory JobLaws
  imports JobInvariant
begin

section \<open>What the job queue promises\<close>

text \<open>
  The properties of the queue: sound rows and one active incremental job per view in every
  reachable queue, fencing of workers that lost their lease, the order in which jobs are claimed,
  the outcome of a failure with its bounded backoff, and the coalescing of incremental requests.
\<close>

subsection \<open>Reachable queues\<close>

text \<open>
  C12. In every reachable queue each job row is consistent: a lease, a worker, a token and a
  heartbeat exactly while the job runs; attempts between zero and the budget, at least one while
  running and one left while retrying; a finish time exactly on finished jobs, no error on a
  success, an error and its kind on a failure; a retention deadline exactly on finished queries.
\<close>

theorem reachable_rows_sound:
  assumes "reachable_queue env st q" "settings_ok st" "j \<in> set (db_jobs (q_db q))"
  shows "(j_token j \<noteq> None \<longleftrightarrow> j_status j = Running) \<and> (j_worker j \<noteq> None \<longleftrightarrow> j_status j = Running) \<and>
    (j_lease j \<noteq> None \<longleftrightarrow> j_status j = Running) \<and>
    0 \<le> j_attempts j \<and> j_attempts j \<le> j_max j \<and> (j_status j = Running \<longrightarrow> 1 \<le> j_attempts j) \<and>
    (j_status j = Retrying \<longrightarrow> j_attempts j < j_max j \<and> j_next j \<noteq> None) \<and>
    (j_finished j \<noteq> None \<longleftrightarrow> finished_status j) \<and>
    (j_status j = Succeeded \<longrightarrow> j_error j = None \<and> j_failure j = None) \<and>
    (j_status j \<in> {Failed, Exhausted} \<longrightarrow> j_error j \<noteq> None \<and> j_failure j \<noteq> None) \<and>
    (j_expires j \<noteq> None \<longleftrightarrow> j_kind j = HistoricalQuery \<and> finished_status j)"
proof -
  have "job_ok j" using reachable_db_ok [OF assms(1,2)] assms(3) by (simp add: db_ok_def)
  then show ?thesis
    unfolding job_ok_def lease_shape_def attempts_shape_def outcome_shape_def artifact_shape_def by blast
qed

text \<open>
  C13. In every reachable queue a feature view has at most one active incremental
  materialization, and the view's reservation names exactly that job.
\<close>

theorem one_active_increment:
  assumes "reachable_queue env st q" "settings_ok st"
    and "j \<in> set (db_jobs (q_db q))" "is_incremental j" "active j"
  shows "(\<forall>k \<in> set (db_jobs (q_db q)). is_incremental k \<and> active k \<and>
        payload_view (j_payload k) = payload_view (j_payload j) \<longrightarrow> k = j) \<and>
    (\<exists>s. find_state (q_db q) (payload_view (j_payload j)) = Some s \<and> ms_active s = Some (j_id j))"
proof -
  let ?db = "q_db q"
  have ok: "db_ok ?db" using reachable_db_ok [OF assms(1,2)] .
  have uniq: "job_ids_unique ?db" "state_views_unique ?db" using ok by (simp_all add: db_ok_def)
  have reserved: "\<exists>s. find_state ?db (payload_view (j_payload k)) = Some s \<and> ms_active s = Some (j_id k)"
    if k: "k \<in> set (db_jobs ?db)" "is_incremental k" "active k" for k
  proof -
    have "(payload_view (j_payload k), j_id k) \<in> active_increments ?db" using k by (auto simp: active_increments_def)
    then have "(payload_view (j_payload k), j_id k) \<in> reservations ?db" using ok by (simp add: db_ok_def)
    then obtain s where s: "s \<in> set (db_states ?db)" "ms_view s = payload_view (j_payload k)" "ms_active s = Some (j_id k)"
      by (auto simp: reservations_def)
    then show ?thesis using uniq(2) states.lookup_unique [of ?db "ms_view s" s] by (simp add: state_views_unique_def)
  qed
  have "k = j" if k: "k \<in> set (db_jobs ?db)" "is_incremental k" "active k"
      "payload_view (j_payload k) = payload_view (j_payload j)" for k
    using reserved [OF k(1-3)] reserved [OF assms(3-5)] k(4) row_of_id [OF uniq(1) k(1) assms(3)] by auto
  then show ?thesis using reserved [OF assms(3-5)] by blast
qed

subsection \<open>Fencing\<close>

text \<open>The leases in force, as pairs of a job and a token.\<close>

definition lease_pairs :: "database \<Rightarrow> (string \<times> string) set" where
  "lease_pairs db = {(j_id r, t) | r t. r \<in> set (db_jobs db) \<and> j_token r = Some t}"

lemma lease_pairs_update:
  assumes "fixed_fields f" "\<And>r. P r \<Longrightarrow> j_token (f r) = None \<or> j_token (f r) = j_token r"
  shows "lease_pairs (update_jobs P f db) \<subseteq> lease_pairs db"
proof
  fix x assume "x \<in> lease_pairs (update_jobs P f db)"
  then obtain r t where r: "r \<in> set (db_jobs db)" "x = (j_id (if P r then f r else r), t)"
    "j_token (if P r then f r else r) = Some t" by (auto simp: lease_pairs_def set_sql_update)
  then show "x \<in> lease_pairs db"
    using fixed_fieldsD(1) [OF assms(1)] assms(2) [of r] by (auto simp: lease_pairs_def split: if_splits)
qed

lemma lease_pairs_same: "db_jobs db' = db_jobs db \<Longrightarrow> lease_pairs db' = lease_pairs db"
  by (simp add: lease_pairs_def)

lemma lease_pairs_le:
  assumes "db_jobs db' = db_jobs (update_jobs P f db)" "fixed_fields f" "\<And>r. j_token (f r) = None"
  shows "lease_pairs db' \<subseteq> lease_pairs db"
  using lease_pairs_same [OF assms(1)] lease_pairs_update [OF assms(2), of P db] assms(3) by simp

lemma no_tokens [simp]:
  "j_token (cancelled st now c j) = None" "j_token (restarted st j) = None" "j_token (exhausted st now c j) = None"
  "j_token (succeeded st now c uri meta j) = None" "j_token (failed st now c e trace meta j) = None"
  "j_token (claimed st owner token now c j) = Some token"
  by (simp_all add: cancelled_def restarted_def exhausted_def succeeded_def failed_def claimed_def no_lease_def
      split: prod.splits)

lemma lease_pairs_append: "j_token j = None \<Longrightarrow> lease_pairs (append_job j db) = lease_pairs db"
  by (auto simp: lease_pairs_def)

lemma new_job_token [simp]: "j_token (new_job i k p art st now) = None"
  by (simp add: new_job_def)

lemma lease_pairs_claim:
  "lease_pairs (snd (claim_next st owner token now db)) \<subseteq> lease_pairs db \<union> {(i, token) | i. True}"
proof (induction st owner token now db rule: claim_next.induct)
  case (1 st owner token now db)
  show ?case
  proof (cases "candidate now (db_jobs db)")
    case None
    then show ?thesis by (simp add: claim_next.simps)
  next
    case (Some c)
    have ex: "lease_pairs (exhaust_candidate st now c db) \<subseteq> lease_pairs db"
      using lease_pairs_update [of "exhausted st now c" "\<lambda>r. j_id r = j_id c \<and> eligible now r \<and> spent r" db]
      by (simp add: exhaust_candidate_def Let_def lease_pairs_def)
    have cl: "lease_pairs (update_jobs P (claimed st owner token now c) db) \<subseteq> lease_pairs db \<union> {(i, token) | i. True}" for P
      by (auto simp: lease_pairs_def set_sql_update split: if_splits)
    show ?thesis
    proof (cases "spent c")
      case True
      then show ?thesis using 1 [OF Some True] ex Some by (subst claim_next.simps) auto
    next
      case False
      then show ?thesis using cl Some by (subst claim_next.simps) (simp add: Let_def)
    qed
  qed
qed

lemma lease_pairs_cleanup:
  "cleanup_loop del now js fs db n = Inr (m, fs', db') \<Longrightarrow> lease_pairs db' \<subseteq> lease_pairs db"
proof (induction js arbitrary: fs db n)
  case (Cons j js)
  then obtain fs1 where "cleanup_loop del now js fs1
      (update_jobs (\<lambda>r. j_id r = j_id j \<and> j_cleaned r = None) (\<lambda>r. r\<lparr>j_cleaned := Some now\<rparr>) db)
      (n + rowcount (\<lambda>r. j_id r = j_id j \<and> j_cleaned r = None) (db_jobs db)) = Inr (m, fs', db')"
    by (auto simp: bind_result_eq_Inr Let_def)
  then have "lease_pairs db' \<subseteq> lease_pairs (update_jobs (\<lambda>r. j_id r = j_id j \<and> j_cleaned r = None) (\<lambda>r. r\<lparr>j_cleaned := Some now\<rparr>) db)"
    by (rule Cons.IH)
  also have "\<dots> \<subseteq> lease_pairs db" by (rule lease_pairs_update) auto
  finally show ?case .
qed simp

lemma failure_jobs:
  "db_jobs (finalize_failure st now token seen e trace meta db) = db_jobs db \<or>
   db_jobs (finalize_failure st now token seen e trace meta db)
     = db_jobs (update_jobs (leased (j_id seen) token now) (failed st now seen e trace meta) db)"
  by (simp add: finalize_failure_def Let_def)

lemma lease_pairs_step:
  assumes "queue_step env st q q'"
  shows "lease_pairs (q_db q') \<subseteq> lease_pairs (q_db q) \<union> {(i, t) | i t. t \<notin> q_tokens q \<and> t \<in> q_tokens q'}"
    and "q_tokens q \<subseteq> q_tokens q'"
proof -
  show "q_tokens q \<subseteq> q_tokens q'" using assms by cases auto
  show "lease_pairs (q_db q') \<subseteq> lease_pairs (q_db q) \<union> {(i, t) | i t. t \<notin> q_tokens q \<and> t \<in> q_tokens q'}"
    using assms
  proof cases
    case (create k i req j db)
    then have "lease_pairs db = lease_pairs (q_db q)"
      by (auto simp: create_job_def Let_def bind_result_eq_Inr add_job_Inr lease_pairs_append)
    then show ?thesis using create by simp
  next
    case (append_events i view uri j db)
    then have "lease_pairs db = lease_pairs (q_db q)"
      by (auto simp: create_offline_append_def Let_def bind_result_eq_Inr add_job_Inr lease_pairs_append)
    then show ?thesis using append_events by simp
  next
    case (query i uri n refs ws j db)
    then have "lease_pairs db = lease_pairs (q_db q)"
      by (auto simp: create_query_job_def Let_def bind_result_eq_Inr add_job_Inr lease_pairs_append)
    then show ?thesis using query by simp
  next
    case (incremental i ireq j db)
    then have "lease_pairs db = lease_pairs (q_db q)"
      by (auto simp: create_incremental_def Let_def bind_result_eq_Inr add_job_Inr lease_pairs_def split: option.splits if_splits)
    then show ?thesis using incremental by simp
  next
    case (cancel_job i j db)
    then obtain a P where "db_jobs db = db_jobs (update_jobs P (cancelled st (q_now q) a) (q_db q))"
      by (auto simp: cancel_def bind_result_eq_Inr Let_def split: if_splits)
    then have "lease_pairs db \<subseteq> lease_pairs (q_db q)" by (rule lease_pairs_le) simp_all
    then show ?thesis using cancel_job by auto
  next
    case (retry_job i j db)
    then obtain a db1 P where a: "rereserve (q_now q) a (q_db q) = Inr db1" "db = update_jobs P (restarted st) db1"
      by (auto simp: retry_def bind_result_eq_Inr Let_def split: if_splits)
    then have "db_jobs db1 = db_jobs (q_db q)" by (auto simp: rereserve_def split: if_splits)
    then have "db_jobs db = db_jobs (update_jobs P (restarted st) (q_db q))" using a(2) by simp
    then have "lease_pairs db \<subseteq> lease_pairs (q_db q)" by (rule lease_pairs_le) simp_all
    then show ?thesis using retry_job by auto
  next
    case (claim token owner jo db)
    have "lease_pairs db \<subseteq> lease_pairs (q_db q) \<union> {(i, token) | i. True}"
      using lease_pairs_claim [of st owner token "q_now q" "q_db q"] claim by simp
    then show ?thesis using claim by auto
  next
    case (beat i token b db)
    then have "db = update_jobs (leased i token (q_now q))
        (\<lambda>j. j\<lparr>j_lease := Some (q_now q + seconds (st_lease st)), j_heartbeat := Some (q_now q)\<rparr>) (q_db q)"
      by (simp add: heartbeat_def)
    then have "lease_pairs db \<subseteq> lease_pairs (q_db q)" by (simp only:) (rule lease_pairs_update, simp_all)
    then show ?thesis using beat by auto
  next
    case (checkpoint i token cps db)
    then have "db = update_jobs (leased i token (q_now q)) (\<lambda>j. j\<lparr>j_checkpoints := cps\<rparr>) (q_db q)"
      by (simp add: commit_checkpoints_def split: if_splits)
    then have "lease_pairs db \<subseteq> lease_pairs (q_db q)" by (simp only:) (rule lease_pairs_update, simp_all)
    then show ?thesis using checkpoint by auto
  next
    case (success token seen uri' meta db)
    then obtain db2 where
      "(if is_incremental seen then advance_watermark env (q_now q) seen meta
          (update_jobs (leased (j_id seen) token (q_now q)) (succeeded st (q_now q) seen uri' meta) (q_db q))
        else Inr (update_jobs (leased (j_id seen) token (q_now q)) (succeeded st (q_now q) seen uri' meta) (q_db q))) = Inr db2"
      "db_jobs db = db_jobs db2"
      by (auto simp: finalize_success_def Let_def bind_result_eq_Inr split: if_splits)
    then have "db_jobs db = db_jobs (update_jobs (leased (j_id seen) token (q_now q)) (succeeded st (q_now q) seen uri' meta) (q_db q))"
      using reservations_advance(1) by (auto split: if_splits)
    then have "lease_pairs db \<subseteq> lease_pairs (q_db q)" by (rule lease_pairs_le) simp_all
    then show ?thesis using success by auto
  next
    case (failure token seen e trace meta db)
    have "db_jobs db = db_jobs (q_db q) \<or>
        db_jobs db = db_jobs (update_jobs (leased (j_id seen) token (q_now q)) (failed st (q_now q) seen e trace meta) (q_db q))"
      unfolding failure(3) [symmetric] by (rule failure_jobs)
    then have "lease_pairs db \<subseteq> lease_pairs (q_db q)"
    proof
      assume "db_jobs db = db_jobs (q_db q)"
      from lease_pairs_same [OF this] show ?thesis by (rule equalityD1)
    next
      assume "db_jobs db = db_jobs (update_jobs (leased (j_id seen) token (q_now q)) (failed st (q_now q) seen e trace meta) (q_db q))"
      then show ?thesis by (rule lease_pairs_le) simp_all
    qed
    then show ?thesis using failure by auto
  next
    case (cleanup del fs m fs' db)
    from cleanup(2) have "lease_pairs db \<subseteq> lease_pairs (q_db q)"
      unfolding cleanup_expired_artifacts_def by (rule lease_pairs_cleanup)
    then show ?thesis using cleanup by auto
  qed simp
qed

lemma token_gone:
  assumes "(queue_step env st)\<^sup>*\<^sup>* q q'" "token \<in> q_tokens q" "(i, token) \<notin> lease_pairs (q_db q)"
  shows "(i, token) \<notin> lease_pairs (q_db q') \<and> token \<in> q_tokens q'"
  using assms
proof (induction rule: rtranclp_induct)
  case (step q1 q2)
  then show ?case using lease_pairs_step [OF step(2)] by blast
qed simp

lemma not_leased: "(i, token) \<notin> lease_pairs db \<Longrightarrow> \<not> owns i token now db"
  by (auto simp: owns_def leased_def lease_pairs_def)

lemma update_unowned: "\<not> owns i token now db \<Longrightarrow> update_jobs (leased i token now) f db = db"
  by (simp add: owns_def update_jobs_def sql_update_no_match)

text \<open>
  C14. Fencing: once a job is no longer leased to a token that was handed out (it was claimed again,
  cancelled, retried or finished), no later queue lets the holder of that token write: heartbeats
  answer false, checkpoints and success raise \<open>LeaseLostError\<close>, a failure report is dropped, and
  the database stays as it is. These four are what a worker writes into the queue; a write to a
  table that it has begun can still land (\<open>stalled_append_duplicates\<close> in \<open>Append\<close>).
\<close>

theorem stale_worker_writes_nothing:
  assumes "(queue_step env st)\<^sup>*\<^sup>* q q'" "token \<in> q_tokens q"
    and "\<forall>r \<in> set (db_jobs (q_db q)). j_id r = i \<longrightarrow> j_token r \<noteq> Some token" "j_id seen = i"
  shows "heartbeat st i token now (q_db q') = (False, q_db q') \<and>
    (\<exists>m. commit_checkpoints i token now cps (q_db q') = Inl (LeaseLostError m)) \<and>
    (\<exists>m. finalize_success env st now token seen uri meta (q_db q') = Inl (LeaseLostError m)) \<and>
    finalize_failure st now token seen e trace meta (q_db q') = q_db q'"
proof -
  have "(i, token) \<notin> lease_pairs (q_db q)" using assms(3) by (auto simp: lease_pairs_def)
  then have "\<not> owns i token now (q_db q')" using token_gone [OF assms(1,2)] not_leased by blast
  then show ?thesis using assms(4)
    by (simp add: heartbeat_def commit_checkpoints_def finalize_success_def finalize_failure_def update_unowned)
qed

subsection \<open>Claiming\<close>

definition claimable :: "int \<Rightarrow> job \<Rightarrow> bool" where
  "claimable now j \<longleftrightarrow> eligible now j \<and> \<not> spent j"

lemma exhaust_rows:
  assumes "spent c"
  shows "r \<in> set (db_jobs (exhaust_candidate st now c db)) \<and> claimable now r \<longleftrightarrow> r \<in> set (db_jobs db) \<and> claimable now r"
    and "r \<in> set (db_jobs db) \<Longrightarrow> \<not> eligible now r \<Longrightarrow> r \<in> set (db_jobs (exhaust_candidate st now c db))"
proof -
  let ?P = "\<lambda>r. j_id r = j_id c \<and> eligible now r \<and> spent r"
  have jobs: "set (db_jobs (exhaust_candidate st now c db)) = (\<lambda>r. if ?P r then exhausted st now c r else r) ` set (db_jobs db)"
    by (simp only: exhaust_candidate_jobs set_sql_update)
  have keep: "r \<in> set (db_jobs db) \<Longrightarrow> \<not> ?P r \<Longrightarrow> r \<in> set (db_jobs (exhaust_candidate st now c db))" for r
    unfolding jobs by (rule image_eqI [of _ _ r]) (simp_all only: if_False)
  show "r \<in> set (db_jobs db) \<Longrightarrow> \<not> eligible now r \<Longrightarrow> r \<in> set (db_jobs (exhaust_candidate st now c db))"
    using keep by blast
  have "r \<in> set (db_jobs (exhaust_candidate st now c db)) \<Longrightarrow> claimable now r \<Longrightarrow> r \<in> set (db_jobs db)"
    unfolding jobs by (auto simp: claimable_def split: if_splits)
  then show "r \<in> set (db_jobs (exhaust_candidate st now c db)) \<and> claimable now r \<longleftrightarrow> r \<in> set (db_jobs db) \<and> claimable now r"
    using keep [of r] by (auto simp: claimable_def)
qed

definition first_claim :: "settings \<Rightarrow> string \<Rightarrow> string \<Rightarrow> int \<Rightarrow> database \<Rightarrow> job option \<times> database \<Rightarrow> bool" where
  "first_claim st owner token now db r \<longleftrightarrow>
     (case fst r of
        None \<Rightarrow> \<forall>j \<in> set (db_jobs db). \<not> claimable now j
      | Some j \<Rightarrow> j \<in> set (db_jobs (snd r)) \<and>
          (\<exists>c \<in> set (db_jobs db). claimable now c \<and> j = claimed st owner token now c c \<and>
            (\<forall>x \<in> set (db_jobs db). claimable now x \<longrightarrow> (j_created c, j_id c) \<le> (j_created x, j_id x)))) \<and>
     (\<forall>x \<in> set (db_jobs db). \<not> eligible now x \<longrightarrow> x \<in> set (db_jobs (snd r)))"

lemma first_claim_exhaust:
  assumes "spent c" "first_claim st owner token now (exhaust_candidate st now c db) r"
  shows "first_claim st owner token now db r"
proof -
  let ?db = "exhaust_candidate st now c db"
  have claims: "(\<exists>r \<in> set (db_jobs ?db). claimable now r \<and> Q r) \<longleftrightarrow> (\<exists>r \<in> set (db_jobs db). claimable now r \<and> Q r)"
    "(\<forall>r \<in> set (db_jobs ?db). claimable now r \<longrightarrow> Q r) \<longleftrightarrow> (\<forall>r \<in> set (db_jobs db). claimable now r \<longrightarrow> Q r)"
    "(\<forall>r \<in> set (db_jobs ?db). \<not> claimable now r) \<longleftrightarrow> (\<forall>r \<in> set (db_jobs db). \<not> claimable now r)" for Q
    using exhaust_rows(1) [OF assms(1), of _ st now db] by blast+
  show ?thesis
    using assms(2) exhaust_rows(2) [OF assms(1), of _ db now st] unfolding first_claim_def claims
    by (auto split: option.splits)
qed

lemma claim_next_first:
  "db_ok db \<Longrightarrow> first_claim st owner token now db (claim_next st owner token now db)"
proof (induction st owner token now db rule: claim_next.induct)
  case (1 st owner token now db)
  show ?case
  proof (cases "candidate now (db_jobs db)")
    case None
    then show ?thesis using candidate_None [of now "db_jobs db"]
      by (simp add: claim_next.simps claimable_def first_claim_def)
  next
    case (Some c)
    note c = candidate_SomeD [OF Some]
    show ?thesis
    proof (cases "spent c")
      case True
      then show ?thesis
        using 1(1) [OF Some True exhaust_ok [OF 1(2) Some True]] first_claim_exhaust [OF True] Some
        by (subst claim_next.simps) simp
    next
      case False
      let ?P = "\<lambda>r. j_id r = j_id c \<and> eligible now r \<and> \<not> spent r"
      let ?db = "update_jobs ?P (claimed st owner token now c) db"
      have jobs: "set (db_jobs ?db) = (\<lambda>r. if ?P r then claimed st owner token now c r else r) ` set (db_jobs db)"
        by (simp only: update_jobs_simps set_sql_update)
      have row: "claimed st owner token now c c \<in> set (db_jobs ?db)"
        unfolding jobs using c(1,2) False by (intro image_eqI [of _ _ c]) simp_all
      have id: "j_id (claimed st owner token now c c) = j_id c" by (simp add: claimed_def)
      have "db_ok ?db" by (rule claim_update_ok [OF 1(2) Some False])
      then have found: "find_job ?db (j_id c) = Some (claimed st owner token now c c)"
        using row id find_job_row [of ?db "j_id c"] by (simp add: db_ok_def)
      have keep: "x \<in> set (db_jobs db) \<Longrightarrow> \<not> eligible now x \<Longrightarrow> x \<in> set (db_jobs ?db)" for x
        unfolding jobs by (rule image_eqI [of _ _ x]) simp_all
      have r: "claim_next st owner token now db = (find_job ?db (j_id c), ?db)"
        using Some False by (subst claim_next.simps) (simp add: Let_def)
      show ?thesis unfolding r first_claim_def fst_conv snd_conv found option.case
        using row c False keep unfolding claimable_def by blast
    qed
  qed
qed

text \<open>
  C15. A claim takes the first job that can run: with attempts left, and pending, due for its
  retry, or running with an expired lease; oldest creation first, then smallest id. It fails
  exactly when there is none. The job gets one more attempt, the caller's token and a fresh lease;
  a job with a live lease or not yet due keeps its row.
\<close>

theorem claim_takes_first:
  assumes "db_ok db" "claim_next st owner token now db = (jo, db')"
  shows "(jo = None \<longleftrightarrow> (\<forall>j \<in> set (db_jobs db). \<not> claimable now j)) \<and>
    (\<forall>j. jo = Some j \<longrightarrow> j \<in> set (db_jobs db') \<and>
      (\<exists>c \<in> set (db_jobs db). claimable now c \<and> j_id j = j_id c \<and> j_attempts j = j_attempts c + 1 \<and>
        j_status j = Running \<and> j_token j = Some token \<and> j_lease j = Some (now + seconds (st_lease st)) \<and>
        (\<forall>x \<in> set (db_jobs db). claimable now x \<longrightarrow> (j_created c, j_id c) \<le> (j_created x, j_id x)))) \<and>
    (\<forall>x \<in> set (db_jobs db). \<not> eligible now x \<longrightarrow> x \<in> set (db_jobs db'))"
proof -
  have f: "first_claim st owner token now db (jo, db')" using claim_next_first [OF assms(1)] assms(2) by metis
  have shape: "j_id (claimed st owner token now c c) = j_id c" "j_attempts (claimed st owner token now c c) = j_attempts c + 1"
    "j_status (claimed st owner token now c c) = Running" "j_token (claimed st owner token now c c) = Some token"
    "j_lease (claimed st owner token now c c) = Some (now + seconds (st_lease st))" for c
    by (simp_all add: claimed_def)
  show ?thesis
  proof (cases jo)
    case None
    then show ?thesis using f by (simp add: first_claim_def)
  next
    case (Some j)
    then obtain c where c: "c \<in> set (db_jobs db)" "claimable now c" "j = claimed st owner token now c c"
      "\<forall>x \<in> set (db_jobs db). claimable now x \<longrightarrow> (j_created c, j_id c) \<le> (j_created x, j_id x)"
      "j \<in> set (db_jobs db')" using f by (auto simp: first_claim_def)
    moreover have "\<forall>x \<in> set (db_jobs db). \<not> eligible now x \<longrightarrow> x \<in> set (db_jobs db')"
      using f by (simp add: first_claim_def)
    ultimately show ?thesis using Some shape [of c] by blast
  qed
qed

end
