(* ===== verification/JobOutcomes.thy ===== *)
theory JobOutcomes
  imports JobLaws
begin

section \<open>Outcomes of jobs\<close>

text \<open>
  What a worker's report does to its job: the exact outcome of a failure and its backoff, the
  watermark that a finished incremental materialization leaves, and what a new or a repeated
  request for one finds. The concrete runs at the end apply the properties of the queue.
\<close>

subsection \<open>Failures and backoff\<close>

text \<open>
  The outcome of a failure that the lease holder reports: a terminal exception fails the job,
  any other one exhausts it when no attempt is left and otherwise schedules a retry that no claim
  can take before the backoff has passed; every other row stays as it was.
\<close>

theorem failure_outcome_exact:
  assumes "db_ok db" "snapshot token seen db" "owns (j_id seen) token now db"
    and "finalize_failure st now token seen e trace meta db = db'"
  shows "(\<exists>r \<in> set (db_jobs db'). j_id r = j_id seen \<and> j_token r = None \<and> j_error r = Some trace \<and>
      (if is_terminal_failure e then j_status r = Failed \<and> j_failure r = Some Terminal \<and> j_finished r = Some now
       else if j_max seen \<le> j_attempts seen then j_status r = Exhausted \<and> j_failure r = Some Retryable \<and> j_finished r = Some now
       else j_status r = Retrying \<and> j_failure r = Some Retryable \<and>
         (\<forall>t < now + seconds (retry_delay st (j_attempts seen)). \<not> eligible t r))) \<and>
    (\<forall>x \<in> set (db_jobs db). j_id x \<noteq> j_id seen \<longrightarrow> x \<in> set (db_jobs db'))"
proof -
  obtain r where r: "r \<in> set (db_jobs db)" "leased (j_id seen) token now r" "j_id r = j_id seen"
    "\<And>x. x \<in> set (db_jobs db) \<Longrightarrow> leased (j_id seen) token now x \<longleftrightarrow> x = r"
    using leased_row [OF assms(1-3)] by blast
  have jobs: "db_jobs db' = sql_update (leased (j_id seen) token now) (failed st now seen e trace meta) (db_jobs db)"
    using assms(3,4) by (auto simp: finalize_failure_def Let_def)
  let ?f = "failed st now seen e trace meta r"
  have row: "?f \<in> set (db_jobs db')"
    unfolding jobs set_sql_update using r(1,2) by (intro image_eqI [of _ _ r]) simp_all
  have others: "x \<in> set (db_jobs db')" if "x \<in> set (db_jobs db)" "j_id x \<noteq> j_id seen" for x
    unfolding jobs set_sql_update using that r(3,4) by (intro image_eqI [of _ _ x]) auto
  have id: "j_id ?f = j_id seen" using fixed_fieldsD(1) [OF fixed_fields_intros(6)] r(3) by metis
  have "j_token ?f = None \<and> j_error ?f = Some trace \<and>
      (if is_terminal_failure e then j_status ?f = Failed \<and> j_failure ?f = Some Terminal \<and> j_finished ?f = Some now
       else if j_max seen \<le> j_attempts seen then j_status ?f = Exhausted \<and> j_failure ?f = Some Retryable \<and> j_finished ?f = Some now
       else j_status ?f = Retrying \<and> j_failure ?f = Some Retryable \<and>
         (\<forall>t < now + seconds (retry_delay st (j_attempts seen)). \<not> eligible t ?f))"
    by (simp add: failed_def failure_outcome_def no_lease_def spent_def eligible_def)
  then show ?thesis using row id others by blast
qed

text \<open>
  The backoff doubles from the base delay with every attempt, starts no earlier than the base
  and never exceeds the cap.
\<close>

theorem retry_delay_bounds:
  assumes "0 < st_retry_base st" "st_retry_base st \<le> st_retry_max st" "1 \<le> a"
  shows "st_retry_base st \<le> retry_delay st a \<and> retry_delay st a \<le> st_retry_max st \<and>
    retry_delay st (a + 1) = min (2 * retry_delay st a) (st_retry_max st)"
proof -
  define n where "n = nat (a - 1)"
  have n: "nat (a - 1) = n" "nat a = Suc n" using assms(3) by (simp_all add: n_def)
  have one: "(1 :: int) \<le> 2 ^ n" by simp
  have "st_retry_base st * 1 \<le> st_retry_base st * 2 ^ n"
    using assms(1) one by (intro mult_left_mono) simp_all
  then show ?thesis using assms(1,2) by (simp add: retry_delay_def n min_def)
qed

subsection \<open>Incremental materialization\<close>

lemma reserved_job_iff:
  assumes "db_ok db"
  shows "reserved_job db view = Some j \<longleftrightarrow> j \<in> set (db_jobs db) \<and> is_incremental j \<and> active j \<and> payload_view (j_payload j) = view"
proof
  have uniq: "job_ids_unique db" "state_views_unique db" using assms by (simp_all add: db_ok_def)
  have eq: "active_increments db = reservations db" using assms by (simp add: db_ok_def)
  show "j \<in> set (db_jobs db) \<and> is_incremental j \<and> active j \<and> payload_view (j_payload j) = view"
    if found: "reserved_job db view = Some j"
  proof -
    obtain s i where s: "find_state db view = Some s" "ms_active s = Some i" "find_job db i = Some j" "active j"
      using found by (auto simp: reserved_job_def split: option.splits if_splits)
    then have "(view, i) \<in> reservations db" using states.lookup_SomeD [OF s(1)] by (auto simp: reservations_def)
    then have "(view, i) \<in> active_increments db" by (simp add: eq)
    then obtain k where "k \<in> set (db_jobs db)" "is_incremental k" "payload_view (j_payload k) = view" "j_id k = i"
      by (auto simp: active_increments_def)
    then show ?thesis using s(3,4) row_of_id [OF uniq(1), of k j] find_job_row [OF uniq(1)] by auto
  qed
  show "reserved_job db view = Some j"
    if j: "j \<in> set (db_jobs db) \<and> is_incremental j \<and> active j \<and> payload_view (j_payload j) = view"
  proof -
    have "(view, j_id j) \<in> active_increments db" using j by (auto simp: active_increments_def)
    then have r: "(view, j_id j) \<in> reservations db" by (simp add: eq)
    then obtain s where s: "s \<in> set (db_states db)" "ms_view s = view" "ms_active s = Some (j_id j)"
      by (auto simp: reservations_def)
    then have "find_state db view = Some s" using uniq(2) states.lookup_unique [of db view s] by (simp add: state_views_unique_def)
    moreover have "find_job db (j_id j) = Some j" using j find_job_row [OF uniq(1)] by simp
    ultimately show ?thesis using j s(3) reservation_named [OF assms r] by (simp add: reserved_job_def)
  qed
qed

text \<open>
  Incremental requests coalesce: while a view has an active incremental job, a request returns
  that job and changes nothing; otherwise it is refused exactly when it ends before the watermark,
  and else it appends one pending job that holds the reservation of the view.
\<close>

theorem incremental_coalesces:
  assumes "db_ok db" "find_job db i = None"
  shows "case reserved_job db (ir_view req) of
      Some j \<Rightarrow> is_incremental j \<and> active j \<and> payload_view (j_payload j) = ir_view req \<and>
        create_incremental st i now req db = Inr (j, db)
    | None \<Rightarrow> \<not> (\<exists>j \<in> set (db_jobs db). is_incremental j \<and> active j \<and> payload_view (j_payload j) = ir_view req) \<and>
        (if before_watermark db (ir_view req) (request_cutoff req now)
         then \<exists>m. create_incremental st i now req db = Inl (ValueError m)
         else \<exists>j db'. create_incremental st i now req db = Inr (j, db') \<and> db_jobs db' = db_jobs db @ [j] \<and>
           j_id j = i \<and> j_status j = Pending \<and> is_incremental j \<and>
           (\<exists>s. find_state db' (ir_view req) = Some s \<and> ms_active s = Some i))"
proof (cases "reserved_job db (ir_view req)")
  case (Some j)
  then have "is_incremental j \<and> active j \<and> payload_view (j_payload j) = ir_view req"
    using reserved_job_iff [OF assms(1)] by blast
  then show ?thesis by (simp add: create_incremental_def Let_def Some)
next
  case None
  let ?view = "ir_view req"
  let ?j = "new_job i Materialize (IncrementalPayload ?view (iso_text (request_cutoff req now)) (request_lookback st req)) None st now"
  let ?f = "\<lambda>s. s\<lparr>ms_active := Some i, ms_updated := now\<rparr>"
  have none: "\<not> (\<exists>j \<in> set (db_jobs db). is_incremental j \<and> active j \<and> payload_view (j_payload j) = ?view)"
    using reserved_job_iff [OF assms(1), of ?view] None by auto
  obtain s where s: "find_state (ensure_state ?view now db) ?view = Some s" using find_state_ensure by blast
  have key: "ms_view s = ?view" using states.lookup_SomeD [OF s] by simp
  have "find_state (set_state ?view ?f (append_job ?j (ensure_state ?view now db))) ?view = Some (?f s)"
    using s find_sql_update [of ms_view ?f ?view ?view "db_states (ensure_state ?view now db)"]
    by (simp add: find_state_def set_state_def)
  moreover have "find_job (ensure_state ?view now db) i = None" using assms(2) by (simp add: find_job_def)
  ultimately show ?thesis using None none
    by (auto simp: create_incremental_def Let_def add_job_def)  (simp_all add: new_job_def)
qed

lemma success_watermark:
  assumes "db_ok db" "snapshot token seen db" "owns (j_id seen) token now db"
    and "j_kind seen = Materialize" "j_payload seen = IncrementalPayload view e lookback"
    and "time_of_text env e = Inr w" "metadata_freshness env meta = Inr fresh"
  shows "\<exists>db' s. finalize_success env st now token seen uri meta db = Inr db' \<and>
    find_state db' view = Some s \<and> ms_watermark s = Some w \<and> ms_freshness s = fresh \<and>
    ms_active s = None \<and> ms_last s = Some (j_id seen)"
proof -
  obtain r where r: "r \<in> set (db_jobs db)" "leased (j_id seen) token now r" "j_id r = j_id seen"
    "j_kind r = j_kind seen" "j_payload r = j_payload seen"
    using leased_row [OF assms(1-3)] by blast
  have inc: "is_incremental seen" using assms(4,5) by (simp add: is_incremental_def)
  have "(view, j_id seen) \<in> active_increments db"
    using r sound_leased [OF r(2)] inc assms(5) by (auto simp: active_increments_def is_incremental_def intro!: exI [of _ r])
  then have "(view, j_id seen) \<in> reservations db" using assms(1) by (simp add: db_ok_def)
  then obtain s where s: "s \<in> set (db_states db)" "ms_view s = view" "ms_active s = Some (j_id seen)"
    by (auto simp: reservations_def)
  have uniq: "distinct (map ms_view (db_states db))" using assms(1) by (simp add: db_ok_def state_views_unique_def)
  let ?db1 = "update_jobs (leased (j_id seen) token now) (succeeded st now seen uri meta) db"
  let ?P = "\<lambda>s. ms_view s = view \<and> ms_active s = Some (j_id seen)"
  let ?f = "\<lambda>s. s\<lparr>ms_watermark := Some w, ms_freshness := fresh, ms_active := None,
             ms_last := Some (j_id seen), ms_updated := now\<rparr>"
  let ?db2 = "?db1\<lparr>db_states := sql_update ?P ?f (db_states db)\<rparr>"
  have "rowcount ?P (db_states db) \<noteq> 0" using s by auto
  then have adv: "advance_watermark env now seen meta ?db1 = Inr ?db2"
    using assms(5-7) by (simp add: advance_watermark_def Let_def del: rowcount_0_iff)
  have fin: "finalize_success env st now token seen uri meta db = Inr ?db2"
    using assms(3,4) adv inc by (simp add: finalize_success_def Let_def)
  have views: "distinct (map ms_view (db_states ?db2))" using uniq by (simp add: sql_update_keeps_map)
  have "?f s \<in> set (db_states ?db2)" using s by (auto simp: set_sql_update intro!: image_eqI [of _ _ s])
  then have "find_state ?db2 view = Some (?f s)" using states.lookup_unique [OF views] s(2) by simp
  then show ?thesis using fin by auto
qed

text \<open>
  C16. A finished incremental job sets the watermark: the lease holder of an incremental job never
  finds its reservation lost, its success moves the watermark of the view to the end of the job,
  and the view is free again.
\<close>

theorem success_moves_watermark:
  assumes "db_ok db" "snapshot token seen db" "owns (j_id seen) token now db"
    and "j_kind seen = Materialize" "j_payload seen = IncrementalPayload view e lookback"
    and "time_of_text env e = Inr w" "metadata_freshness env meta = Inr fresh"
  shows "\<exists>db' s. finalize_success env st now token seen uri meta db = Inr db' \<and>
    find_state db' view = Some s \<and> ms_watermark s = Some w \<and> ms_freshness s = fresh \<and>
    ms_active s = None \<and> ms_last s = Some (j_id seen)"
  using success_watermark [OF assms] .

text \<open>
  C17. A retry is not held to the watermark: with no incremental job active, a new request that
  ends before the watermark is refused, yet a failed job with that same end can be retried. In any
  consistent queue in which a worker holds a job with its range, whatever happened since, success
  sets the watermark of the view to that end.
\<close>

theorem retry_ignores_watermark:
  assumes "db_ok db" "find_job db i = Some j" "j_status j = Failed" "j_kind j = Materialize"
    and "j_payload j = IncrementalPayload view e lookback" "time_of_text env e = Inr t"
    and "find_state db view = Some s" "ms_active s = None" "ms_watermark s = Some w" "t < w"
    and "ir_view req = view" "request_cutoff req now = t"
  shows "(\<exists>m. create_incremental st i2 now req db = Inl (ValueError m)) \<and>
    (\<exists>j' db'. retry st now i db = Inr (j', db') \<and> j_status j' = Pending) \<and>
    (\<forall>db2 token seen now2. db_ok db2 \<longrightarrow> snapshot token seen db2 \<longrightarrow> owns (j_id seen) token now2 db2 \<longrightarrow>
       j_kind seen = Materialize \<longrightarrow> j_payload seen = j_payload j \<longrightarrow>
       (\<exists>db3 s3. finalize_success env st now2 token seen None None db2 = Inr db3 \<and>
          find_state db3 view = Some s3 \<and> ms_watermark s3 = Some t))"
proof -
  have uniq: "job_ids_unique db" using assms(1) by (simp add: db_ok_def)
  have row: "j \<in> set (db_jobs db)" "j_id j = i" using jobs.lookup_SomeD [OF assms(2)] by simp_all
  have ok: "job_ok j" using assms(1) row(1) by (simp add: db_ok_def)
  have inc: "is_incremental j" using assms(4,5) by (simp add: is_incremental_def)
  have create: "\<exists>m. create_incremental st i2 now req db = Inl (ValueError m)"
    using assms(7-12) by (simp add: create_incremental_def Let_def reserved_job_def before_watermark_def)
  have other: "\<not> other_active db j" using assms(5,7,8) by (simp add: other_active_def)
  have fresh: "\<not> artifacts_expired now j"
    using ok assms(4) by (simp add: artifacts_expired_def job_ok_def artifact_shape_def)
  have "\<exists>db1. rereserve now j db = Inr db1" using other inc by (simp add: rereserve_def)
  then obtain db1 where db1: "rereserve now j db = Inr db1" ..
  have idle: "\<not> active j" using assms(3) by (simp add: active_def)
  note r1 = rereserve_ok [OF assms(1) row(1) idle db1]
  let ?P = "\<lambda>r. j_id r = i \<and> (j_status r = Failed \<or> j_status r = Exhausted \<or> j_status r = Cancelled)"
  have hit: "rowcount ?P (db_jobs db1) \<noteq> 0" using r1(3) row assms(3) by auto
  have "restarted st j \<in> set (db_jobs (update_jobs ?P (restarted st) db1))"
    using r1(3) row assms(3) by (auto simp: set_sql_update intro!: image_eqI [of _ _ j])
  moreover have "j_id (restarted st j) = i" using row(2) by (simp add: restarted_def no_lease_def)
  moreover have "job_ids_unique (update_jobs ?P (restarted st) db1)"
    using ids_update [of "restarted st" ?P db1] r1(1) by simp
  ultimately have "find_job (update_jobs ?P (restarted st) db1) i = Some (restarted st j)"
    using find_job_row [of "update_jobs ?P (restarted st) db1" i "restarted st j"] by blast
  then have found: "get_job i (update_jobs ?P (restarted st) db1) = Inr (restarted st j)"
    by (simp add: get_job_def)
  have "retry st now i db = Inr (restarted st j, update_jobs ?P (restarted st) db1)"
    using assms(2,3) fresh db1 hit found by (simp add: retry_def get_job_def retryable_def Let_def del: rowcount_0_iff)
  moreover have "j_status (restarted st j) = Pending" by (simp add: restarted_def)
  moreover have "\<exists>db3 s3. finalize_success env st now2 token seen None None db2 = Inr db3 \<and>
          find_state db3 view = Some s3 \<and> ms_watermark s3 = Some t"
    if "db_ok db2" "snapshot token seen db2" "owns (j_id seen) token now2 db2" "j_kind seen = Materialize"
      "j_payload seen = j_payload j" for db2 token seen now2
  proof -
    have p: "j_payload seen = IncrementalPayload view e lookback" using that(5) assms(5) by simp
    have m: "metadata_freshness env None = Inr None" by (simp add: metadata_freshness_def)
    show ?thesis using success_watermark [OF that(1-4) p assms(6) m] by blast
  qed
  ultimately show ?thesis using create by blast
qed

subsection \<open>Concrete runs\<close>

definition append1 :: job where
  "append1 = new_job ''j1'' OfflineAppend (StagingPayload ''spend@1.0.0'' ''s3://staging/1'') None default_settings 0"

definition append_db :: database where
  "append_db = append_job append1 empty_db"

lemma append_reachable:
  "reachable_queue env default_settings \<lparr>q_db = append_db, q_now = 0, q_tokens = {}\<rparr>"
proof -
  have "queue_step env default_settings \<lparr>q_db = empty_db, q_now = 0, q_tokens = {}\<rparr>
      (\<lparr>q_db = empty_db, q_now = 0, q_tokens = {}\<rparr>\<lparr>q_db := append_db\<rparr>)"
    by (rule queue_step.append_events [where i = "''j1''" and view = "''spend@1.0.0''" and uri = "''s3://staging/1''"])
      (auto simp: create_offline_append_def add_job_def find_job_def append_db_def append1_def empty_db_def Let_def)
  then have "queue_step env default_settings \<lparr>q_db = empty_db, q_now = 0, q_tokens = {}\<rparr>
      \<lparr>q_db = append_db, q_now = 0, q_tokens = {}\<rparr>" by simp
  then show ?thesis using reachable_queue.start reachable_queue.more by blast
qed

lemma default_settings_ok [simp]: "settings_ok default_settings"
  by (simp add: settings_ok_def default_settings_def)

lemma reachable_rows_sound_witness:
  "j_token append1 = None \<and> j_attempts append1 = 0 \<and> j_finished append1 = None \<and> j_status append1 = Pending"
  using reachable_rows_sound [OF append_reachable default_settings_ok, where j = append1]
  by (simp add: append_db_def empty_db_def) (simp add: append1_def new_job_def finished_status_def)

definition spend_request :: incremental_request where
  "spend_request = \<lparr>ir_view = ''spend@1.0.0'', ir_end = Some (Aware 20 0), ir_lookback = None\<rparr>"

definition spend_job :: "string \<Rightarrow> int \<Rightarrow> job" where
  "spend_job i t = new_job i Materialize (IncrementalPayload ''spend@1.0.0'' (iso_text t) 3600) None default_settings 0"

definition spend_state :: mat_state where
  "spend_state = (new_state ''spend@1.0.0'' 0)\<lparr>ms_active := Some ''m1''\<rparr>"

definition spend_db :: database where
  "spend_db = \<lparr>db_jobs = [spend_job ''m1'' 20], db_states = [spend_state], db_events = []\<rparr>"

lemma spend_create:
  "create_incremental default_settings ''m1'' 0 spend_request empty_db = Inr (spend_job ''m1'' 20, spend_db)"
  by (simp add: create_incremental_def reserved_job_def before_watermark_def ensure_state_def find_state_def
      add_job_def find_job_def spend_request_def empty_db_def spend_db_def spend_job_def spend_state_def Let_def
      request_cutoff_def request_lookback_def set_state_def append_state_def append_job_def)
     (simp add: default_settings_def new_state_def)

lemma spend_reachable:
  "reachable_queue env default_settings \<lparr>q_db = spend_db, q_now = 0, q_tokens = {}\<rparr>"
proof -
  have "queue_step env default_settings \<lparr>q_db = empty_db, q_now = 0, q_tokens = {}\<rparr>
      (\<lparr>q_db = empty_db, q_now = 0, q_tokens = {}\<rparr>\<lparr>q_db := spend_db\<rparr>)"
    by (rule queue_step.incremental [where i = "''m1''" and ireq = spend_request]) (simp_all add: spend_create)
  then have "queue_step env default_settings \<lparr>q_db = empty_db, q_now = 0, q_tokens = {}\<rparr>
      \<lparr>q_db = spend_db, q_now = 0, q_tokens = {}\<rparr>" by simp
  then show ?thesis using reachable_queue.start reachable_queue.more by blast
qed

lemma spend_db_ok: "db_ok spend_db"
  using reachable_db_ok [OF spend_reachable default_settings_ok] by simp

lemma one_active_increment_witness:
  "\<exists>s. find_state spend_db ''spend@1.0.0'' = Some s \<and> ms_active s = Some ''m1''"
  using one_active_increment [OF spend_reachable default_settings_ok, where j = "spend_job ''m1'' 20"]
  by (simp add: spend_db_def) (simp add: spend_job_def)

lemma stale_worker_writes_nothing_witness:
  "heartbeat default_settings ''j1'' ''t1'' 5 \<lparr>db_jobs = [claimed default_settings ''w2'' ''t2'' 4 append1 append1], db_states = [], db_events = []\<rparr>
    = (False, \<lparr>db_jobs = [claimed default_settings ''w2'' ''t2'' 4 append1 append1], db_states = [], db_events = []\<rparr>)"
  using stale_worker_writes_nothing [of demo_env default_settings
      "\<lparr>q_db = \<lparr>db_jobs = [claimed default_settings ''w2'' ''t2'' 4 append1 append1], db_states = [], db_events = []\<rparr>,
         q_now = 4, q_tokens = {''t1'', ''t2''}\<rparr>"
      "\<lparr>q_db = \<lparr>db_jobs = [claimed default_settings ''w2'' ''t2'' 4 append1 append1], db_states = [], db_events = []\<rparr>,
         q_now = 4, q_tokens = {''t1'', ''t2''}\<rparr>" "''t1''" "''j1''" append1 5]
  by (simp add: append1_def)

lemma append_db_ok: "db_ok append_db"
  using reachable_db_ok [OF append_reachable default_settings_ok] by simp

lemma claim_takes_first_witness:
  "\<exists>j db'. claim_next default_settings ''w1'' ''t1'' 3 append_db = (Some j, db') \<and> j \<in> set (db_jobs db') \<and>
    j_id j = ''j1'' \<and> j_attempts j = 1 \<and> j_status j = Running"
proof -
  obtain jo db' where r: "claim_next default_settings ''w1'' ''t1'' 3 append_db = (jo, db')" by fastforce
  have "claimable 3 append1"
    by (simp add: claimable_def eligible_def spent_def append1_def new_job_def default_settings_def)
  moreover have "set (db_jobs append_db) = {append1}" by (simp add: append_db_def empty_db_def)
  ultimately show ?thesis using claim_takes_first [OF append_db_ok r] r
    by (auto simp: append1_def new_job_def)
qed

definition held_job :: job where
  "held_job = claimed default_settings ''w1'' ''t1'' 4 (spend_job ''m1'' 20) (spend_job ''m1'' 20)"

definition held_db :: database where
  "held_db = \<lparr>db_jobs = [held_job], db_states = [spend_state], db_events = []\<rparr>"

lemma held_run: "claim_next default_settings ''w1'' ''t1'' 4 spend_db = (Some held_job, held_db)"
  by (subst claim_next.simps)
    (simp add: candidate_def spend_db_def held_db_def held_job_def eligible_def spent_def spend_job_def new_job_def
      default_settings_def claimed_def update_jobs_def find_job_def)

lemma held_db_ok: "db_ok held_db"
  using claim_next_ok [OF spend_db_ok, of default_settings "''w1''" "''t1''" 4] by (simp add: held_run)

lemma held_facts:
  "snapshot ''t1'' held_job held_db" "owns ''m1'' ''t1'' 5 held_db" "j_id held_job = ''m1''" "j_kind held_job = Materialize"
  "j_payload held_job = IncrementalPayload ''spend@1.0.0'' (iso_text 20) 3600" "j_attempts held_job = 1" "j_max held_job = 3"
  by (simp_all add: snapshot_def held_db_def owns_def rowcount_def leased_def held_job_def claimed_def spend_job_def
      new_job_def default_settings_def seconds_def)

lemma failure_outcome_exact_witness:
  "\<exists>r \<in> set (db_jobs (finalize_failure default_settings 5 ''t1'' held_job (RuntimeError ''redis'') ''trace'' None held_db)).
    j_id r = ''m1'' \<and> j_status r = Retrying \<and> j_error r = Some ''trace''"
  using failure_outcome_exact [OF held_db_ok held_facts(1), of 5 default_settings "RuntimeError ''redis''" "''trace''" None]
  by (auto simp: held_facts)

lemma retry_delay_bounds_witness:
  "retry_delay default_settings 1 = 5 \<and> retry_delay default_settings (1 + 1) = min (2 * retry_delay default_settings 1) 60"
  using retry_delay_bounds [of default_settings 1] by (simp add: default_settings_def retry_delay_def)

lemma incremental_coalesces_witness:
  "\<exists>j. create_incremental default_settings ''m2'' 9 spend_request spend_db = Inr (j, spend_db) \<and> is_incremental j"
proof -
  have "find_job spend_db ''m2'' = None" by (simp add: find_job_def spend_db_def spend_job_def)
  moreover have "reserved_job spend_db (ir_view spend_request) = Some (spend_job ''m1'' 20)"
    by (simp add: reserved_job_def find_state_def find_job_def spend_db_def spend_state_def spend_request_def
        new_state_def spend_job_def)
  ultimately show ?thesis using incremental_coalesces [OF spend_db_ok, of "''m2''" spend_request 9 default_settings] by auto
qed

definition clock_env :: pyenv where
  "clock_env = demo_env\<lparr>env_fromiso := (\<lambda>s. if s = iso_text 20 then Some (Aware 20 0) else None)\<rparr>"

lemma clock_text: "time_of_text clock_env (iso_text 20) = Inr 20"
  by (simp add: time_of_text_def clock_env_def)

lemma success_moves_watermark_witness:
  "\<exists>db' s. finalize_success clock_env default_settings 5 ''t1'' held_job None None held_db = Inr db' \<and>
    find_state db' ''spend@1.0.0'' = Some s \<and> ms_watermark s = Some 20 \<and> ms_active s = None"
proof -
  have "metadata_freshness clock_env None = Inr None" by (simp add: metadata_freshness_def)
  then show ?thesis
    using success_moves_watermark [OF held_db_ok held_facts(1) _ held_facts(4,5) clock_text, where now = 5 and meta = None and st = default_settings and uri = None]
    by (auto simp: held_facts)
qed

definition late_job :: job where
  "late_job = failed default_settings 5 held_job (ValueError ''bad row'') ''trace'' None held_job"

definition late_db :: database where
  "late_db = \<lparr>db_jobs = [late_job],
     db_states = [(new_state ''spend@1.0.0'' 0)\<lparr>ms_watermark := Some 30\<rparr>], db_events = []\<rparr>"

lemma late_job_simps:
  "j_id late_job = ''m1''" "j_kind late_job = Materialize" "j_status late_job = Failed" "\<not> active late_job"
  "j_payload late_job = IncrementalPayload ''spend@1.0.0'' (iso_text 20) 3600" "job_ok late_job"
proof -
  have "job_ok held_job" using held_db_ok by (simp add: db_ok_def held_db_def)
  moreover have "leased ''m1'' ''t1'' 5 held_job" using held_facts(2) by (simp add: owns_def held_db_def rowcount_def split: if_splits)
  ultimately show "job_ok late_job" unfolding late_job_def by (rule job_ok_failed) simp_all
  show "j_id late_job = ''m1''" "j_kind late_job = Materialize" "j_status late_job = Failed" "\<not> active late_job"
    "j_payload late_job = IncrementalPayload ''spend@1.0.0'' (iso_text 20) 3600"
    by (simp_all add: late_job_def failed_def failure_outcome_def no_lease_def held_facts active_def)
qed

lemma late_db_ok: "db_ok late_db"
  using late_job_simps
  by (simp add: db_ok_def late_db_def job_ids_unique_def state_views_unique_def active_increments_def reservations_def new_state_def)

lemma retry_ignores_watermark_witness:
  "(\<exists>m. create_incremental default_settings ''m2'' 40 spend_request late_db = Inl (ValueError m)) \<and>
   (\<exists>j' db'. retry default_settings 40 ''m1'' late_db = Inr (j', db') \<and> j_status j' = Pending)"
proof -
  have find: "find_job late_db ''m1'' = Some late_job"
    "find_state late_db ''spend@1.0.0'' = Some ((new_state ''spend@1.0.0'' 0)\<lparr>ms_watermark := Some 30\<rparr>)"
    by (simp_all add: find_job_def find_state_def late_db_def late_job_simps new_state_def)
  show ?thesis
    using retry_ignores_watermark [OF late_db_ok find(1) late_job_simps(3,2,5) clock_text find(2),
        where w = 30 and req = spend_request and now = 40 and st = default_settings and ?i2.0 = "''m2''"]
    by (simp add: new_state_def spend_request_def request_cutoff_def)
qed

end
