(* ===== verification/Offline.thy ===== *)
theory Offline
  imports Values "HOL-Library.AList" "HOL-Library.Multiset"
begin

section \<open>The offline store\<close>

text \<open>
  \<open>offline.py\<close>: the locations of feature views and quarantined rows, and the reads and writes of
  Delta tables. The Delta Lake library is a parameter, the record \<open>delta\<close>; what the code relies
  on is the locale \<open>delta_laws\<close>, and \<open>mem_delta\<close>, tables as an association list, is an
  instance of it. A table is its column names and its rows as \<open>to_pylist\<close> lists them; row order
  is not part of what a table promises, so the laws speak of multisets.
\<close>

subsection \<open>Tables and Delta Lake\<close>

record table =
  tb_cols :: "string list"
  tb_rows :: "row list"

datatype write_mode = WAppend | WError | WOverwrite string

text \<open>A filter of \<open>to_pyarrow_table\<close>: a column and an instant it must not precede, or must precede.\<close>

datatype scan_filter = NotBefore string int | Before string int

record 'd delta =
  dl_exists :: "string \<Rightarrow> 'd \<Rightarrow> bool"
  dl_load :: "string \<Rightarrow> 'd \<Rightarrow> table result"
  dl_scan :: "scan_filter list \<Rightarrow> string \<Rightarrow> 'd \<Rightarrow> table result"
  dl_write :: "write_mode \<Rightarrow> string option \<Rightarrow> string \<Rightarrow> table \<Rightarrow> 'd \<Rightarrow> 'd result"
  dl_delete :: "string \<Rightarrow> 'd \<Rightarrow> 'd result"
  dl_matches :: "string \<Rightarrow> row \<Rightarrow> bool"

definition time_of :: "row \<Rightarrow> string \<Rightarrow> int option" where
  "time_of r c = (case dict_get r c of VTime d \<Rightarrow> Some (instant d) | _ \<Rightarrow> None)"

fun passes :: "scan_filter \<Rightarrow> row \<Rightarrow> bool" where
  "passes (NotBefore c t) r = (case time_of r c of None \<Rightarrow> False | Some u \<Rightarrow> t \<le> u)"
| "passes (Before c t) r = (case time_of r c of None \<Rightarrow> False | Some u \<Rightarrow> u < t)"

locale delta_laws =
  fixes D :: "'d delta"
  assumes load_exists: "dl_exists D u d \<longleftrightarrow> (\<exists>t. dl_load D u d = Inr t)"
    and scan_load: "dl_load D u d = Inr t \<Longrightarrow> \<exists>t'. dl_scan D fs u d = Inr t' \<and> tb_cols t' = tb_cols t \<and>
        mset (tb_rows t') = mset (filter (\<lambda>r. \<forall>f \<in> set fs. passes f r) (tb_rows t))"
    and append_load: "dl_write D WAppend p u new d = Inr d' \<Longrightarrow> dl_load D u d = Inr t \<Longrightarrow>
        \<exists>t'. dl_load D u d' = Inr t' \<and> tb_cols t' = tb_cols t \<and> mset (tb_rows t') = mset (tb_rows t) + mset (tb_rows new)"
    and create_load: "dl_write D WError p u new d = Inr d' \<Longrightarrow> \<not> dl_exists D u d \<and>
        (\<exists>t'. dl_load D u d' = Inr t' \<and> tb_cols t' = tb_cols new \<and> mset (tb_rows t') = mset (tb_rows new))"
    and write_elsewhere: "dl_write D m p u new d = Inr d' \<Longrightarrow> u' \<noteq> u \<Longrightarrow> dl_load D u' d' = dl_load D u' d"

text \<open>
  Overwriting with a predicate replaces the rows that satisfy it; the code writes only predicates
  that select one date.
\<close>

definition date_predicate :: "string \<Rightarrow> string" where
  "date_predicate d = ''event_date = '' @ CHR 0x27 # d @ [CHR 0x27]"

locale delta_partitions = delta_laws +
  assumes date_matches: "dl_matches D (date_predicate d0) r \<longleftrightarrow> dict_get r ''event_date'' = VStr d0"
    and overwrite_load: "dl_write D (WOverwrite p) part u new d = Inr d' \<Longrightarrow> dl_load D u d = Inr t \<Longrightarrow>
        \<exists>t'. dl_load D u d' = Inr t' \<and> tb_cols t' = tb_cols t \<and>
          mset (tb_rows t') = mset (filter (\<lambda>r. \<not> dl_matches D p r) (tb_rows t)) + mset (tb_rows new)"

subsection \<open>An instance in memory\<close>

type_synonym lake = "(string \<times> table) list"

definition mem_matches :: "string \<Rightarrow> row \<Rightarrow> bool" where
  "mem_matches p r = (case dict_get r ''event_date'' of VStr d \<Rightarrow> p = date_predicate d | _ \<Rightarrow> False)"

definition mem_write :: "write_mode \<Rightarrow> string option \<Rightarrow> string \<Rightarrow> table \<Rightarrow> lake \<Rightarrow> lake result" where
  "mem_write m p u new d =
     (case (m, map_of d u) of
        (WAppend, Some t) \<Rightarrow> Inr (dict_set d u (t\<lparr>tb_rows := tb_rows t @ tb_rows new\<rparr>))
      | (WAppend, None) \<Rightarrow> Inr (dict_set d u new)
      | (WError, None) \<Rightarrow> Inr (dict_set d u new)
      | (WError, Some _) \<Rightarrow> Inl (DataError ''table already exists'')
      | (WOverwrite _, None) \<Rightarrow> Inr (dict_set d u new)
      | (WOverwrite q, Some t) \<Rightarrow>
          Inr (dict_set d u (t\<lparr>tb_rows := filter (\<lambda>r. \<not> mem_matches q r) (tb_rows t) @ tb_rows new\<rparr>)))"

definition mem_load :: "string \<Rightarrow> lake \<Rightarrow> table result" where
  "mem_load u d = (case map_of d u of None \<Rightarrow> Inl (DataError ''no table'') | Some t \<Rightarrow> Inr t)"

definition mem_delta :: "lake delta" where
  "mem_delta = \<lparr>dl_exists = (\<lambda>u d. map_of d u \<noteq> None), dl_load = mem_load,
     dl_scan = (\<lambda>fs u d. map_sum id (\<lambda>t. t\<lparr>tb_rows := filter (\<lambda>r. \<forall>f \<in> set fs. passes f r) (tb_rows t)\<rparr>) (mem_load u d)),
     dl_write = mem_write, dl_delete = (\<lambda>u d. Inr (AList.delete u d)),
     dl_matches = mem_matches\<rparr>"

interpretation lake: delta_partitions mem_delta
proof unfold_locales
  show "dl_matches mem_delta (date_predicate d0) r \<longleftrightarrow> dict_get r ''event_date'' = VStr d0" for d0 r
    by (auto simp: mem_delta_def mem_matches_def date_predicate_def split: pyval.splits)
qed (auto simp: mem_delta_def mem_load_def mem_write_def split: option.splits write_mode.splits)

subsection \<open>Locations\<close>

definition view_uri :: "string \<Rightarrow> string \<Rightarrow> string" where
  "view_uri bucket ref = ''s3://'' @ bucket @ ''/views/'' @ replace_char (CHR ''@'') ''/'' ref"

definition quarantine_uri :: "string \<Rightarrow> string \<Rightarrow> string \<Rightarrow> string" where
  "quarantine_uri bucket ref job =
     ''s3://'' @ bucket @ ''/quarantine/'' @ replace_char (CHR ''@'') ''/'' ref @ CHR ''/'' # job"

text \<open>\<open>normalize_uri\<close>; resolving a local path is the argument.\<close>

definition normalize_uri :: "(string \<Rightarrow> string) \<Rightarrow> string \<Rightarrow> string" where
  "normalize_uri resolve uri = (if starts_with ''file://'' uri then resolve (drop 7 uri) else uri)"

subsection \<open>Operations\<close>

definition load_range :: "'d delta \<Rightarrow> string \<Rightarrow> string \<Rightarrow> int option \<Rightarrow> int \<Rightarrow> 'd \<Rightarrow> table result" where
  "load_range D uri c s e d =
     dl_scan D ((case s of None \<Rightarrow> [] | Some t \<Rightarrow> [NotBefore c t]) @ [Before c e]) uri d"

definition append_rows :: "'d delta \<Rightarrow> string \<Rightarrow> table \<Rightarrow> string option \<Rightarrow> 'd \<Rightarrow> 'd result" where
  "append_rows D uri t part d =
     (if dl_exists D uri d then dl_write D WAppend None uri t d
      else dl_write D WError (case part of None \<Rightarrow> None | Some p \<Rightarrow> if p = [] then None else Some p) uri t d)"

definition overwrite_partition :: "'d delta \<Rightarrow> string \<Rightarrow> table \<Rightarrow> string \<Rightarrow> 'd \<Rightarrow> 'd result" where
  "overwrite_partition D uri t pred d = dl_write D (WOverwrite pred) (Some ''event_date'') uri t d"

text \<open>\<open>delete\<close> answers whether it worked and swallows every error.\<close>

definition delete_uri :: "'d delta \<Rightarrow> string \<Rightarrow> 'd \<Rightarrow> bool \<times> 'd" where
  "delete_uri D uri d = (case dl_delete D uri d of Inl _ \<Rightarrow> (False, d) | Inr d' \<Rightarrow> (True, d'))"

definition stored_rows :: "'d delta \<Rightarrow> string \<Rightarrow> 'd \<Rightarrow> row list" where
  "stored_rows D uri d = (case dl_load D uri d of Inl _ \<Rightarrow> [] | Inr t \<Rightarrow> tb_rows t)"

text \<open>What an append leaves, whether it creates the table or extends it.\<close>

context delta_laws
begin

lemma append_rows_stored:
  assumes "append_rows D uri t part d = Inr d'"
  shows "mset (stored_rows D uri d') = mset (stored_rows D uri d) + mset (tb_rows t)"
    and "dl_exists D uri d'"
    and "u \<noteq> uri \<Longrightarrow> dl_load D u d' = dl_load D u d"
proof -
  have "mset (stored_rows D uri d') = mset (stored_rows D uri d) + mset (tb_rows t) \<and> dl_exists D uri d' \<and>
      (u \<noteq> uri \<longrightarrow> dl_load D u d' = dl_load D u d)"
  proof (cases "dl_exists D uri d")
    case True
    then obtain t0 where t0: "dl_load D uri d = Inr t0" using load_exists by blast
    have w: "dl_write D WAppend None uri t d = Inr d'" using assms True by (simp add: append_rows_def)
    show ?thesis using append_load [OF w t0] write_elsewhere [OF w] load_exists t0
      by (auto simp: stored_rows_def)
  next
    case False
    then obtain p where w: "dl_write D WError p uri t d = Inr d'" using assms by (auto simp: append_rows_def)
    have none: "\<exists>e. dl_load D uri d = Inl e" using False load_exists by (cases "dl_load D uri d") auto
    show ?thesis using create_load [OF w] write_elsewhere [OF w] load_exists none
      by (auto simp: stored_rows_def)
  qed
  then show "mset (stored_rows D uri d') = mset (stored_rows D uri d) + mset (tb_rows t)"
    and "dl_exists D uri d'" and "u \<noteq> uri \<Longrightarrow> dl_load D u d' = dl_load D u d" by blast+
qed

end

end
