(* ===== verification/Pit.thy ===== *)
theory Pit
  imports Offline Online Latest
begin

section \<open>Point-in-time retrieval\<close>

text \<open>
  \<open>pit.py\<close>: \<open>validate\<close>, \<open>_query_table\<close> and the as-of join that \<open>_join_view\<close> writes as SQL.
  The statement is modelled clause by clause: the left join of every observation with the feature
  rows of its entity that are not later, one row kept per \<open>_row_id\<close> partition by event time and
  event id, the partitions in the order of their ids. \<open>join_view_rows\<close> says that this is one as-of
  lookup per observation when the row ids are the indexes the code assigns. What the engine does
  when the statement names a column twice is the parameter \<open>clash\<close>; the age column, dropped
  after it has fed a histogram, and the metrics are left out. Observations are taken to carry the
  same entity columns, as \<open>pa.Table.from_pylist\<close> takes them from the first row.
\<close>

subsection \<open>The as-of join\<close>

text \<open>SQL equality: null equals nothing, and DuckDB's \<open>NaN\<close> equals itself.\<close>

definition sql_eq :: "pyval \<Rightarrow> pyval \<Rightarrow> bool" where
  "sql_eq v w \<longleftrightarrow> v \<noteq> VNone \<and> w \<noteq> VNone \<and>
     (py_eq v w \<or> v = VFloat NotANumber \<and> w = VFloat NotANumber)"

definition same_entity :: "string list \<Rightarrow> row \<Rightarrow> row \<Rightarrow> bool" where
  "same_entity keys o' f \<longleftrightarrow> list_all (\<lambda>k. sql_eq (dict_get o' k) (dict_get f k)) keys"

definition ts_col :: string where "ts_col = ''event_timestamp''"

definition joins :: "string list \<Rightarrow> row \<Rightarrow> row \<Rightarrow> bool" where
  "joins keys o' f \<longleftrightarrow> same_entity keys o' f \<and>
     (case (time_of f ts_col, time_of o' ts_col) of (Some t, Some u) \<Rightarrow> t \<le> u | _ \<Rightarrow> False)"

text \<open>\<open>ORDER BY f.event_timestamp DESC NULLS LAST, f.event_id DESC NULLS LAST\<close>.\<close>

definition id_rank :: "pyval \<Rightarrow> nat \<times> string" where
  "id_rank v = (case v of VStr s \<Rightarrow> (1, s) | _ \<Rightarrow> (0, []))"

definition row_stamp :: "row \<Rightarrow> int \<times> nat \<times> string" where
  "row_stamp f = (case time_of f ts_col of None \<Rightarrow> 0 | Some t \<Rightarrow> t, id_rank (dict_get f ''event_id''))"

definition matches :: "string list \<Rightarrow> row list \<Rightarrow> row \<Rightarrow> row list" where
  "matches keys fs o' = filter (joins keys o') fs"

text \<open>\<open>observations o LEFT JOIN feature_rows f\<close>.\<close>

type_synonym joined = "row \<times> row option"

fun left_join :: "string list \<Rightarrow> row list \<Rightarrow> row list \<Rightarrow> joined list" where
  "left_join keys fs [] = []"
| "left_join keys fs (o' # os) =
     (case matches keys fs o' of [] \<Rightarrow> [(o', None)] | ms \<Rightarrow> map (\<lambda>f. (o', Some f)) ms) @ left_join keys fs os"

text \<open>
  \<open>QUALIFY ROW_NUMBER() OVER (PARTITION BY o._row_id ORDER BY ...) = 1 ORDER BY o._row_id\<close>.
\<close>

definition row_id_col :: string where "row_id_col = ''_row_id''"

definition part_id :: "joined \<Rightarrow> pyval" where
  "part_id p = dict_get (fst p) row_id_col"

definition join_rank :: "joined \<Rightarrow> nat \<times> int \<times> nat \<times> string" where
  "join_rank p = (case snd p of None \<Rightarrow> (0, 0, 0, []) | Some f \<Rightarrow> (1, row_stamp f))"

definition id_order :: "pyval \<Rightarrow> int \<times> string" where
  "id_order v = (case v of VInt n \<Rightarrow> (n, []) | VStr s \<Rightarrow> (0, s) | _ \<Rightarrow> (0, []))"

definition top_of :: "joined list \<Rightarrow> pyval \<Rightarrow> joined list" where
  "top_of ps i = (case newest join_rank (filter (\<lambda>p. part_id p = i) ps) of None \<Rightarrow> [] | Some p \<Rightarrow> [p])"

definition qualify :: "joined list \<Rightarrow> joined list" where
  "qualify ps = concat (map (top_of ps) (sort_key id_order (remdups (map part_id ps))))"

definition ttl_expired :: "int option \<Rightarrow> row \<Rightarrow> row \<Rightarrow> bool" where
  "ttl_expired ttl o' f =
     (case ttl of None \<Rightarrow> False
      | Some s \<Rightarrow> s \<noteq> 0 \<and> (case (time_of f ts_col, time_of o' ts_col) of
            (Some t, Some u) \<Rightarrow> t < u - seconds s | _ \<Rightarrow> False))"

datatype query_status = QPresent | QMissing | QExpired

fun query_status_str :: "query_status \<Rightarrow> string" where
  "query_status_str QPresent = ''present''"
| "query_status_str QMissing = ''missing''"
| "query_status_str QExpired = ''expired''"

definition join_status :: "int option \<Rightarrow> row \<Rightarrow> row option \<Rightarrow> query_status" where
  "join_status ttl o' m =
     (case m of None \<Rightarrow> QMissing | Some f \<Rightarrow> if ttl_expired ttl o' f then QExpired else QPresent)"

definition join_value :: "int option \<Rightarrow> row \<Rightarrow> row option \<Rightarrow> string \<Rightarrow> pyval" where
  "join_value ttl o' m name =
     (case m of None \<Rightarrow> VNone | Some f \<Rightarrow> if ttl_expired ttl o' f then VNone else dict_get f name)"

definition column :: "string \<Rightarrow> string \<Rightarrow> string" where
  "column view name = view @ ''__'' @ name"

definition add_columns :: "string \<Rightarrow> query_status \<Rightarrow> (string \<Rightarrow> pyval) \<Rightarrow> string list \<Rightarrow> row \<Rightarrow> row" where
  "add_columns view status val names o' =
     fold (\<lambda>name r. dict_set r (column view name) (val name)) names
       (dict_set o' (column view ''status'') (VStr (query_status_str status)))"

definition project :: "string \<Rightarrow> string list \<Rightarrow> int option \<Rightarrow> joined \<Rightarrow> row" where
  "project view names ttl p =
     add_columns view (join_status ttl (fst p) (snd p)) (join_value ttl (fst p) (snd p)) names (fst p)"

definition column_names :: "row list \<Rightarrow> string list" where
  "column_names rows = (case rows of [] \<Rightarrow> [] | r # _ \<Rightarrow> map fst r)"

definition age_column :: "string \<Rightarrow> string" where
  "age_column view = ''__feature_store_age__'' @ view"

definition columns_clash :: "string \<Rightarrow> string list \<Rightarrow> row list \<Rightarrow> bool" where
  "columns_clash view names os \<longleftrightarrow>
     \<not> distinct (column_names os @ column view ''status'' # map (column view) names @ [age_column view])"

text \<open>\<open>_join_view\<close>; naming a column the feature table lacks is an error of the engine.\<close>

type_synonym clash = "string \<Rightarrow> string list \<Rightarrow> string list \<Rightarrow> int option \<Rightarrow> table \<Rightarrow> row list \<Rightarrow> row list result"

definition join_view ::
    "clash \<Rightarrow> string \<Rightarrow> string list \<Rightarrow> string list \<Rightarrow> int option \<Rightarrow> table \<Rightarrow> row list \<Rightarrow> row list result" where
  "join_view clash view names keys ttl ft os =
     (if \<not> set (keys @ names @ [ts_col, ''event_id'']) \<subseteq> set (tb_cols ft)
      then Inl (DataError ''Binder Error: column not found'')
      else if columns_clash view names os then clash view names keys ttl ft os
      else Inr (map (project view names ttl) (qualify (left_join keys (tb_rows ft) os))))"

text \<open>\<open>_append_missing\<close>.\<close>

definition append_missing :: "string \<Rightarrow> string list \<Rightarrow> row list \<Rightarrow> row list" where
  "append_missing view names os = map (add_columns view QMissing (\<lambda>_. VNone) names) os"

subsection \<open>The query\<close>

fun check_observations :: "entity \<Rightarrow> observation list \<Rightarrow> unit result" where
  "check_observations en [] = Inr ()"
| "check_observations en (ob # obs) =
     (if missing_keys en (ob_entity ob) \<noteq> []
      then Inl (ValueError ''missing observation entity keys'')
      else check_observations en obs)"

fun check_refs :: "registry \<Rightarrow> observation list \<Rightarrow> string list \<Rightarrow> unit result" where
  "check_refs reg obs [] = Inr ()"
| "check_refs reg obs (ref # refs) =
     bind_result (split_feature_ref ref) (\<lambda>(view_ref, _).
     bind_result (feature_view_of reg view_ref) (\<lambda>v.
     bind_result (entity_of reg (v_entity v)) (\<lambda>en.
     bind_result (check_observations en obs) (\<lambda>_. check_refs reg obs refs))))"

definition validate_query :: "registry \<Rightarrow> observation list \<Rightarrow> string list \<Rightarrow> string option \<Rightarrow> string list result" where
  "validate_query reg obs features service =
     bind_result (resolve_features reg features service) (\<lambda>refs.
     bind_result (check_refs reg obs refs) (\<lambda>_. Inr refs))"

definition observation_row :: "nat \<Rightarrow> observation \<Rightarrow> row result" where
  "observation_row i ob =
     (if \<not> has_tz (ob_time ob) then Inl (ValueError ''observation timestamps must include a timezone'')
      else Inr (dict_set (fold (\<lambda>(k, v) r. dict_set r k v) (ob_entity ob) [(row_id_col, VInt (int i))])
                  ts_col (VTime (as_utc (ob_time ob)))))"

fun observation_rows :: "nat \<Rightarrow> observation list \<Rightarrow> row list result" where
  "observation_rows i [] = Inr []"
| "observation_rows i (ob # obs) =
     bind_result (observation_row i ob) (\<lambda>r. bind_result (observation_rows (Suc i) obs) (\<lambda>rs. Inr (r # rs)))"

definition query_group ::
    "clash \<Rightarrow> 'd delta \<Rightarrow> string \<Rightarrow> 'd \<Rightarrow> registry \<Rightarrow> string \<times> string list \<Rightarrow> row list \<Rightarrow> row list result" where
  "query_group clash D bucket d reg g rows =
     bind_result (feature_view_of reg (fst g)) (\<lambda>v.
     bind_result (entity_of reg (v_entity v)) (\<lambda>en.
       if \<not> set (map fst (e_join_keys en)) \<subseteq> set (column_names rows)
       then Inl (ValueError ''missing observation entity keys'')
       else if \<not> dl_exists D (view_uri bucket (fst g)) d
       then Inr (append_missing (v_name v) (snd g) rows)
       else bind_result (dl_load D (view_uri bucket (fst g)) d) (\<lambda>ft.
         if tb_rows ft = [] then Inr (append_missing (v_name v) (snd g) rows)
         else join_view clash (v_name v) (snd g) (map fst (e_join_keys en)) (v_ttl_seconds v) ft rows)))"

fun query_groups ::
    "clash \<Rightarrow> 'd delta \<Rightarrow> string \<Rightarrow> 'd \<Rightarrow> registry \<Rightarrow> (string \<times> string list) list \<Rightarrow> row list \<Rightarrow> row list result" where
  "query_groups clash D bucket d reg [] rows = Inr rows"
| "query_groups clash D bucket d reg (g # gs) rows =
     bind_result (query_group clash D bucket d reg g rows) (query_groups clash D bucket d reg gs)"

definition drop_column :: "string \<Rightarrow> row \<Rightarrow> row" where
  "drop_column c r = filter (\<lambda>kv. fst kv \<noteq> c) r"

definition query_table ::
    "clash \<Rightarrow> 'd delta \<Rightarrow> string \<Rightarrow> 'd \<Rightarrow> registry \<Rightarrow> observation list \<Rightarrow> string list \<Rightarrow> row list result" where
  "query_table clash D bucket d reg obs refs =
     (if obs = [] then Inr []
      else bind_result (observation_rows 0 obs) (\<lambda>rows.
        bind_result (group_refs refs) (\<lambda>gs.
        bind_result (query_groups clash D bucket d reg gs rows) (\<lambda>out.
        Inr (map (drop_column row_id_col) out)))))"

text \<open>\<open>HistoricalRetriever.query\<close>.\<close>

definition historical_response ::
    "clash \<Rightarrow> 'd delta \<Rightarrow> string \<Rightarrow> 'd \<Rightarrow> registry \<Rightarrow> observation list \<Rightarrow> string list \<Rightarrow> string option \<Rightarrow> query_response result" where
  "historical_response clash D bucket d reg obs features service =
     bind_result (validate_query reg obs features service) (\<lambda>refs.
     bind_result (query_table clash D bucket d reg obs refs) (\<lambda>rows.
     bind_result (warnings_for_query reg features service) (\<lambda>ws.
     Inr \<lparr>qr_features = refs, qr_rows = rows, qr_warnings = ws\<rparr>)))"

subsection \<open>One as-of lookup per observation\<close>

definition as_of :: "string list \<Rightarrow> row list \<Rightarrow> row \<Rightarrow> row option" where
  "as_of keys fs o' = newest row_stamp (matches keys fs o')"

definition join_row :: "string \<Rightarrow> string list \<Rightarrow> string list \<Rightarrow> int option \<Rightarrow> row list \<Rightarrow> row \<Rightarrow> row" where
  "join_row view names keys ttl fs o' = project view names ttl (o', as_of keys fs o')"

definition indexed :: "row list \<Rightarrow> bool" where
  "indexed os \<longleftrightarrow> map (\<lambda>r. dict_get r row_id_col) os = map (\<lambda>i. VInt (int i)) [0..<length os]"

lemma joins_time:
  assumes "joins keys o' f"
  obtains t u where "time_of f ts_col = Some t" "time_of o' ts_col = Some u" "t \<le> u"
  using assms by (auto simp: joins_def split: option.splits)

lemma map_of_add_columns:
  assumes "distinct names" "''status'' \<notin> set names"
  shows "map_of (add_columns view s val names o') c
    = (if \<exists>n \<in> set names. c = column view n then Some (val (drop (length view + 2) c))
       else if c = column view ''status'' then Some (VStr (query_status_str s)) else map_of o' c)"
  using assms(1)
proof (induction names rule: rev_induct)
  case Nil
  show ?case by (simp add: add_columns_def)
next
  case (snoc n names)
  have "drop (length view + 2) (column view n) = n" by (simp add: column_def)
  then show ?case using snoc by (auto simp: add_columns_def column_def)
qed

lemma column_inj [simp]: "column view a = column view b \<longleftrightarrow> a = b"
  by (simp add: column_def)

lemma drop_column_name [simp]: "drop (Suc (Suc (length view))) (column view n) = n"
proof -
  have "drop (length view + 2) (column view n) = n" by (simp add: column_def)
  then show ?thesis by simp
qed

text \<open>The blocks of the left join, and the row that the window keeps of each.\<close>

definition block :: "string list \<Rightarrow> row list \<Rightarrow> row \<Rightarrow> joined list" where
  "block keys fs o' = (case matches keys fs o' of [] \<Rightarrow> [(o', None)] | ms \<Rightarrow> map (\<lambda>f. (o', Some f)) ms)"

lemma left_join_blocks: "left_join keys fs os = concat (map (block keys fs) os)"
  by (induction os) (simp_all add: block_def)

lemma block_part: "p \<in> set (block keys fs o') \<Longrightarrow> part_id p = dict_get o' row_id_col"
  by (auto simp: block_def part_id_def split: list.splits)

lemma block_nonempty: "block keys fs o' \<noteq> []"
  by (simp add: block_def split: list.splits)

lemma filter_block:
  "filter (\<lambda>p. part_id p = i) (block keys fs o') = (if dict_get o' row_id_col = i then block keys fs o' else [])"
  using block_part by (auto simp: filter_empty_conv filter_id_conv)

lemma newest_block: "newest join_rank (block keys fs o') = Some (o', as_of keys fs o')"
proof (cases "matches keys fs o'")
  case Nil
  then show ?thesis by (simp add: block_def as_of_def newest_def)
next
  case (Cons f fs')
  then have "newest join_rank (block keys fs o') = map_option (\<lambda>f. (o', Some f)) (newest row_stamp (matches keys fs o'))"
    unfolding block_def by (simp del: list.map add: newest_map [where stamp = row_stamp] join_rank_def)
  then show ?thesis using Cons newest.pick_None [of row_stamp "matches keys fs o'"]
    by (cases "newest row_stamp (matches keys fs o')") (simp_all add: as_of_def)
qed

lemma top_of_left_join:
  assumes "distinct (map (\<lambda>r. dict_get r row_id_col) os)" "o' \<in> set os"
  shows "top_of (left_join keys fs os) (dict_get o' row_id_col) = [(o', as_of keys fs o')]"
proof -
  have "filter (\<lambda>p. part_id p = dict_get o' row_id_col) (left_join keys fs os) = block keys fs o'"
    using assms
  proof (induction os)
    case (Cons r os)
    have none: "filter (\<lambda>p. part_id p = i) (left_join keys fs rs) = []"
      if "i \<notin> (\<lambda>r. dict_get r row_id_col) ` set rs" for i rs
      using that by (auto simp: left_join_blocks filter_empty_conv dest: block_part)
    show ?case
    proof (cases "r = o'")
      case True
      then show ?thesis using Cons.prems none [of "dict_get o' row_id_col" os]
        by (simp add: left_join_blocks filter_block)
    next
      case False
      then have "o' \<in> set os" "dict_get r row_id_col \<noteq> dict_get o' row_id_col" using Cons.prems by force+
      then show ?thesis using Cons by (simp add: left_join_blocks filter_block)
    qed
  qed simp
  then show ?thesis by (simp add: top_of_def newest_block)
qed

lemma left_join_parts: "set (map part_id (left_join keys fs os)) = (\<lambda>r. dict_get r row_id_col) ` set os"
proof -
  have parts: "part_id ` set (block keys fs r) = {dict_get r row_id_col}" for r
  proof -
    have "part_id ` set (block keys fs r) \<subseteq> {dict_get r row_id_col}"
      by (rule image_subsetI) (simp add: block_part)
    moreover have "part_id ` set (block keys fs r) \<noteq> {}" using block_nonempty by simp
    ultimately show ?thesis by (simp only: subset_singleton_iff) simp
  qed
  have "(\<Union>r \<in> set os. part_id ` set (block keys fs r)) = (\<lambda>r. dict_get r row_id_col) ` set os"
    unfolding parts by blast
  moreover have "set (map part_id (left_join keys fs os)) = (\<Union>r \<in> set os. part_id ` set (block keys fs r))"
    unfolding left_join_blocks set_map set_concat by blast
  ultimately show ?thesis by simp
qed

lemma sort_indexes:
  assumes "distinct vs" "set vs = (\<lambda>i. VInt (int i)) ` {..<n}"
  shows "sort_key id_order vs = map (\<lambda>i. VInt (int i)) [0..<n]"
proof -
  let ?ws = "map (\<lambda>i. VInt (int i)) [0..<n]"
  have sets: "set (sort_key id_order vs) = set ?ws" using assms(2) by (simp add: atLeast_upt)
  have inj: "inj_on id_order (set ?ws)" by (auto simp: inj_on_def id_order_def)
  have "map id_order (sort_key id_order vs) = map id_order ?ws"
  proof (rule sorted_distinct_set_unique)
    show "sorted (map id_order (sort_key id_order vs))" by simp
    show "distinct (map id_order (sort_key id_order vs))"
      unfolding distinct_map using assms(1) inj sets by simp
    show "sorted (map id_order ?ws)"
      by (auto simp: id_order_def sorted_iff_nth_mono)
    show "distinct (map id_order ?ws)" using inj by (simp add: distinct_map inj_on_def)
    show "set (map id_order (sort_key id_order vs)) = set (map id_order ?ws)" using sets by (metis set_map)
  qed
  then show ?thesis using inj sets by (intro map_inj_on [of id_order]) auto
qed

lemma qualify_left_join:
  assumes "indexed os"
  shows "qualify (left_join keys fs os) = map (\<lambda>o'. (o', as_of keys fs o')) os"
proof -
  let ?id = "\<lambda>r. dict_get r row_id_col"
  have ids: "map ?id os = map (\<lambda>i. VInt (int i)) [0..<length os]" using assms by (simp add: indexed_def)
  then have dist: "distinct (map ?id os)" by (simp add: distinct_map inj_on_def)
  have "set (map ?id os) = (\<lambda>i. VInt (int i)) ` {..<length os}" unfolding ids by (simp add: atLeast_upt)
  then have parts: "set (remdups (map part_id (left_join keys fs os))) = (\<lambda>i. VInt (int i)) ` {..<length os}"
    unfolding set_remdups left_join_parts unfolding set_map .
  have "sort_key id_order (remdups (map part_id (left_join keys fs os))) = map ?id os"
    unfolding ids using sort_indexes [OF distinct_remdups parts] .
  then have "qualify (left_join keys fs os) = concat (map (\<lambda>o'. top_of (left_join keys fs os) (?id o')) os)"
    by (simp add: qualify_def o_def)
  also have "\<dots> = concat (map (\<lambda>o'. [(o', as_of keys fs o')]) os)"
    using top_of_left_join [OF dist] by (intro arg_cong [where f = concat] map_cong) simp_all
  finally show ?thesis by (simp add: concat_map_singleton)
qed

lemma join_view_rows:
  assumes "join_view clash view names keys ttl ft os = Inr out" "\<not> columns_clash view names os" "indexed os"
  shows "out = map (join_row view names keys ttl (tb_rows ft)) os"
  using assms by (auto simp: join_view_def qualify_left_join join_row_def split: if_splits)

lemma no_clash_names:
  "\<not> columns_clash view names os \<Longrightarrow> distinct names \<and> ''status'' \<notin> set names"
  by (auto simp: columns_clash_def distinct_map)

subsection \<open>What a point-in-time query promises\<close>

text \<open>
  C19. Correctness of the as-of join: the statement answers one row per observation, in order, and
  its status says whether a feature row of the entity exists at or before the observation and
  whether the newest such row is within the time to live; a present value is read from that newest
  row, by event time and then event id, and every other value is null. The observation's own
  columns are kept.
\<close>

theorem join_view_exact:
  assumes "join_view clash view names keys ttl ft os = Inr rows" "\<not> columns_clash view names os" "indexed os"
    and "i < length os" "o' = os ! i" "out = rows ! i"
  shows "length rows = length os \<and>
    (matches keys (tb_rows ft) o' = [] \<longrightarrow>
       map_of out (column view ''status'') = Some (VStr ''missing'') \<and>
       (\<forall>n \<in> set names. map_of out (column view n) = Some VNone)) \<and>
    (matches keys (tb_rows ft) o' \<noteq> [] \<longrightarrow>
       (\<exists>f \<in> set (matches keys (tb_rows ft) o'). (\<forall>g \<in> set (matches keys (tb_rows ft) o'). row_stamp g \<le> row_stamp f) \<and>
         map_of out (column view ''status'') = Some (VStr (if ttl_expired ttl o' f then ''expired'' else ''present'')) \<and>
         (\<forall>n \<in> set names. map_of out (column view n) = Some (if ttl_expired ttl o' f then VNone else dict_get f n)))) \<and>
    (\<forall>c. (\<forall>n. c \<noteq> column view n) \<longrightarrow> map_of out c = map_of o' c)"
proof -
  let ?ms = "matches keys (tb_rows ft) o'"
  have rows: "rows = map (join_row view names keys ttl (tb_rows ft)) os" using join_view_rows [OF assms(1-3)] .
  have names: "distinct names" "''status'' \<notin> set names" using no_clash_names [OF assms(2)] by blast+
  have out: "out = project view names ttl (o', as_of keys (tb_rows ft) o')"
    using rows assms(4-6) by (simp add: join_row_def)
  show ?thesis
  proof (cases "as_of keys (tb_rows ft) o'")
    case None
    then have m: "?ms = []" by (simp add: as_of_def newest.pick_None)
    have r: "out = add_columns view QMissing (\<lambda>_. VNone) names o'"
      using out by (simp add: project_def None join_status_def join_value_def [abs_def])
    show ?thesis using names(2) rows unfolding r m map_of_add_columns [OF names] by auto
  next
    case (Some f)
    have f: "f \<in> set ?ms" "\<forall>g \<in> set ?ms. row_stamp g \<le> row_stamp f"
      using newest.pick_SomeD [OF Some [unfolded as_of_def]] by auto
    have r: "out = add_columns view (if ttl_expired ttl o' f then QExpired else QPresent)
        (\<lambda>n. if ttl_expired ttl o' f then VNone else dict_get f n) names o'"
      using out by (simp add: project_def Some join_status_def join_value_def [abs_def])
    have props: "map_of out (column view ''status'')
           = Some (VStr (if ttl_expired ttl o' f then ''expired'' else ''present''))"
      "\<forall>n \<in> set names. map_of out (column view n) = Some (if ttl_expired ttl o' f then VNone else dict_get f n)"
      "\<forall>c. (\<forall>n. c \<noteq> column view n) \<longrightarrow> map_of out c = map_of o' c"
      using names(2) unfolding r map_of_add_columns [OF names] by auto
    show ?thesis using f props rows by (metis empty_iff length_map list.set(1))
  qed
qed

lemma left_join_past:
  assumes "\<forall>f \<in> set new. \<forall>o' \<in> set os. \<not> joins keys o' f"
  shows "left_join keys (fs @ new) os = left_join keys fs os"
proof -
  have "matches keys (fs @ new) o' = matches keys fs o'" if "o' \<in> set os" for o'
    using assms that by (simp add: matches_def filter_empty_conv)
  then show ?thesis unfolding left_join_blocks
    by (intro arg_cong [where f = concat] map_cong) (simp_all add: block_def)
qed

text \<open>
  C20. No future leakage: feature rows later than every observation do not change the answer. The
  result of a query at past times is the same before and after newer feature values arrive.
\<close>

theorem no_future_leakage:
  assumes "join_view clash view names keys ttl ft os = Inr out" "\<not> columns_clash view names os"
    and "\<forall>f \<in> set new. \<forall>o' \<in> set os. \<forall>t u. time_of f ts_col = Some t \<longrightarrow> time_of o' ts_col = Some u \<longrightarrow> u < t"
  shows "join_view clash view names keys ttl (ft\<lparr>tb_rows := tb_rows ft @ new\<rparr>) os = Inr out"
proof -
  have "\<not> joins keys o' f" if "f \<in> set new" "o' \<in> set os" for f o'
  proof
    assume "joins keys o' f"
    then obtain t u where tu: "time_of f ts_col = Some t" "time_of o' ts_col = Some u" "t \<le> u" by (rule joins_time)
    then have "u < t" using assms(3) that by blast
    then show False using tu(3) by simp
  qed
  then have "left_join keys (tb_rows ft @ new) os = left_join keys (tb_rows ft) os" by (intro left_join_past) blast
  then show ?thesis using assms(1,2) by (simp add: join_view_def split: if_splits)
qed

lemma length_concat_singles: "(\<And>x. x \<in> set xs \<Longrightarrow> length (f x) = 1) \<Longrightarrow> length (concat (map f xs)) = length xs"
  by (induction xs) simp_all

lemma qualify_length: "length (qualify ps) = card (set (map part_id ps))"
proof -
  have "length (top_of ps i) = 1" if "i \<in> set (map part_id ps)" for i
  proof -
    have "filter (\<lambda>p. part_id p = i) ps \<noteq> []" using that by (auto simp: filter_empty_conv)
    then show ?thesis using newest.pick_in [of "filter (\<lambda>p. part_id p = i) ps" join_rank] by (auto simp: top_of_def)
  qed
  then have "length (qualify ps) = length (remdups (map part_id ps))"
    unfolding qualify_def by (subst length_concat_singles) simp_all
  then show ?thesis by (simp add: length_remdups_card_conv)
qed

text \<open>
  C21. The answer has one row per row id, not per observation. The ids are the indexes of the
  observations unless an observation has an entity value named \<open>_row_id\<close>, which replaces them:
  observations that share it are then answered by a single row.
\<close>

theorem join_view_row_count:
  assumes "join_view clash view names keys ttl ft os = Inr out" "\<not> columns_clash view names os"
  shows "length out = card ((\<lambda>r. dict_get r row_id_col) ` set os)"
  using assms by (auto simp: join_view_def qualify_length left_join_parts [unfolded set_map] split: if_splits)

lemma observation_rows_length: "observation_rows i obs = Inr rows \<Longrightarrow> length rows = length obs"
  by (induction obs arbitrary: i rows) (auto simp: bind_result_eq_Inr)

lemma fold_dict_set_other:
  "k \<notin> fst ` set d \<Longrightarrow> map_of (fold (\<lambda>(k, v) r. dict_set r k v) d r) k = map_of r k"
  by (induction d arbitrary: r) auto

text \<open>The rows of a query are indexed, when no entity value takes the name of the index.\<close>

lemma observation_rows_indexed:
  "observation_rows n obs = Inr rows \<Longrightarrow> \<forall>ob \<in> set obs. row_id_col \<notin> fst ` set (ob_entity ob) \<Longrightarrow>
     map (\<lambda>r. dict_get r row_id_col) rows = map (\<lambda>i. VInt (int (n + i))) [0..<length rows]"
proof (induction obs arbitrary: n rows)
  case (Cons ob obs)
  then obtain r rs where rs: "observation_row n ob = Inr r" "observation_rows (Suc n) obs = Inr rs" "rows = r # rs"
    by (auto simp: bind_result_eq_Inr)
  have "dict_get r row_id_col = VInt (int n)"
    using rs(1) Cons.prems(2) fold_dict_set_other [of row_id_col "ob_entity ob"]
    by (auto simp: observation_row_def dict_get_def ts_col_def row_id_col_def split: if_splits)
  moreover have "[0..<length rows] = 0 # map Suc [0..<length rs]"
    using rs(3) by (simp add: upt_conv_Cons map_Suc_upt del: upt_Suc)
  moreover have "map (\<lambda>r. dict_get r row_id_col) rs = map (\<lambda>i. VInt (int (Suc n + i))) [0..<length rs]"
    using Cons.IH [OF rs(2)] Cons.prems(2) by simp
  ultimately show ?case using rs(3) by (simp del: upt_Suc add: o_def)
qed simp

lemma query_rows_indexed:
  "observation_rows 0 obs = Inr rows \<Longrightarrow> \<forall>ob \<in> set obs. row_id_col \<notin> fst ` set (ob_entity ob) \<Longrightarrow> indexed rows"
  using observation_rows_indexed [of 0] by (simp add: indexed_def)

subsection \<open>Concrete runs\<close>

definition spend_row :: "string \<Rightarrow> int \<Rightarrow> int \<Rightarrow> row" where
  "spend_row i t n = [(''user_id'', VStr ''ada''), (ts_col, VTime (Aware t 0)), (''event_id'', VStr i), (''total'', VInt n)]"

definition ask_row :: "int \<Rightarrow> int \<Rightarrow> row" where
  "ask_row i t = [(row_id_col, VInt i), (''user_id'', VStr ''ada''), (ts_col, VTime (Aware t 0))]"

definition spend_table :: "row list \<Rightarrow> table" where
  "spend_table rs = \<lparr>tb_cols = [''user_id'', ts_col, ''event_id'', ''total''], tb_rows = rs\<rparr>"

definition refuse_clash :: clash where
  "refuse_clash = (\<lambda>_ _ _ _ _ _. Inl (DataError ''duplicate column''))"

lemmas pit_run = spend_row_def ask_row_def time_of_def dict_get_def ts_col_def row_id_col_def

lemma spend_joins: "joins [''user_id''] (ask_row i t) (spend_row e u n) \<longleftrightarrow> u \<le> t"
  by (simp add: joins_def same_entity_def sql_eq_def pit_run py_eq.simps)

lemma spend_no_clash: "\<not> columns_clash ''spend'' [''total''] (ask_row i t # os)"
  by (simp add: columns_clash_def column_names_def pit_run column_def age_column_def)

lemma spend_answers:
  "\<exists>rows. join_view refuse_clash ''spend'' [''total''] [''user_id''] ttl (spend_table rs) (ask_row i t # os) = Inr rows"
  using spend_no_clash by (simp add: join_view_def spend_table_def)

lemma join_view_exact_witness:
  "\<exists>rows. join_view refuse_clash ''spend'' [''total''] [''user_id''] (Some 60)
      (spend_table [spend_row ''a'' 3 10, spend_row ''b'' 4 20, spend_row ''c'' 9 30]) [ask_row 0 5] = Inr rows \<and>
    length rows = 1 \<and> map_of (rows ! 0) (column ''spend'' ''total'') = Some (VInt 20)"
proof -
  let ?fs = "[spend_row ''a'' 3 10, spend_row ''b'' 4 20, spend_row ''c'' 9 30]"
  obtain rows where rows: "join_view refuse_clash ''spend'' [''total''] [''user_id''] (Some 60) (spend_table ?fs) [ask_row 0 5] = Inr rows"
    using spend_answers by blast
  have m: "matches [''user_id''] (tb_rows (spend_table ?fs)) (ask_row 0 5) = [spend_row ''a'' 3 10, spend_row ''b'' 4 20]"
    by (simp add: matches_def spend_joins spend_table_def)
  have stamp: "row_stamp (spend_row ''a'' 3 10) < row_stamp (spend_row ''b'' 4 20)"
    by (simp add: row_stamp_def pit_run)
  have ttl: "\<not> ttl_expired (Some 60) (ask_row 0 5) f" if "f \<in> set [spend_row ''a'' 3 10, spend_row ''b'' 4 20]" for f
    using that by (auto simp: ttl_expired_def pit_run seconds_def)
  have val: "dict_get (spend_row ''b'' 4 20) ''total'' = VInt 20" by (simp add: pit_run)
  have ix: "indexed [ask_row 0 5]" by (simp add: indexed_def pit_run)
  have zero: "0 < length [ask_row 0 5]" "ask_row 0 5 = [ask_row 0 5] ! 0" by simp_all
  note exact = join_view_exact [OF rows spend_no_clash ix zero refl, unfolded m]
  have ne: "[spend_row ''a'' 3 10, spend_row ''b'' 4 20] \<noteq> []" by simp
  obtain f where f: "f \<in> set [spend_row ''a'' 3 10, spend_row ''b'' 4 20]"
    "\<forall>g \<in> set [spend_row ''a'' 3 10, spend_row ''b'' 4 20]. row_stamp g \<le> row_stamp f"
    "\<forall>n \<in> set [''total'']. map_of (rows ! 0) (column ''spend'' n)
      = Some (if ttl_expired (Some 60) (ask_row 0 5) f then VNone else dict_get f n)"
    using exact ne by blast
  have "f = spend_row ''b'' 4 20" using f(1,2) stamp by auto
  then have "map_of (rows ! 0) (column ''spend'' ''total'') = Some (VInt 20)" using f(3) ttl [OF f(1)] val by simp
  moreover have "length rows = 1" using exact [THEN conjunct1] by simp
  ultimately show ?thesis using rows by blast
qed

lemma no_future_leakage_witness:
  "\<exists>out. join_view refuse_clash ''spend'' [''total''] [''user_id''] None (spend_table [spend_row ''a'' 3 10]) [ask_row 0 5] = Inr out \<and>
    join_view refuse_clash ''spend'' [''total''] [''user_id''] None
      ((spend_table [spend_row ''a'' 3 10])\<lparr>tb_rows := tb_rows (spend_table [spend_row ''a'' 3 10]) @ [spend_row ''c'' 9 30]\<rparr>) [ask_row 0 5] = Inr out"
proof -
  obtain out where out: "join_view refuse_clash ''spend'' [''total''] [''user_id''] None (spend_table [spend_row ''a'' 3 10]) [ask_row 0 5] = Inr out"
    using spend_answers by blast
  show ?thesis using out no_future_leakage [OF out spend_no_clash, where new = "[spend_row ''c'' 9 30]"]
    by (simp add: pit_run)
qed

lemma join_view_row_count_witness:
  "\<exists>out. join_view refuse_clash ''spend'' [''total''] [''user_id''] None (spend_table [spend_row ''a'' 3 10])
      [ask_row 7 5, ask_row 7 6] = Inr out \<and> length out = 1"
proof -
  obtain out where out: "join_view refuse_clash ''spend'' [''total''] [''user_id''] None (spend_table [spend_row ''a'' 3 10])
      [ask_row 7 5, ask_row 7 6] = Inr out" using spend_answers by blast
  show ?thesis using out join_view_row_count [OF out spend_no_clash] by (simp add: pit_run)
qed

end
