(* ===== verification/Append.thy ===== *)
theory Append
  imports Jobs Offline
begin

section \<open>Offline append jobs\<close>

text \<open>
  The execution of an \<open>offline_append\<close> job in \<open>jobs.py\<close>: the canonical text of a row, the rows of
  a staging table that the target does not have yet, and the append with its ownership checks and
  checkpoint. An operation on the lake returns its result together with the lake, since an error
  after the write leaves the write in place. Appending is exactly once: see
  \<open>append_exactly_once\<close>.
\<close>

subsection \<open>Canonical rows\<close>

definition naive_text :: "int \<Rightarrow> string" where
  "naive_text t = take 26 (iso_us t)"

fun normalize_value :: "pyval \<Rightarrow> pyval" where
  "normalize_value (VTime d) =
     VStr (case d of Naive t \<Rightarrow> naive_text t | Aware _ _ \<Rightarrow> iso_us (instant d))"
| "normalize_value (VDict d) = VDict (sort_key fst (map (\<lambda>kv. (fst kv, normalize_value (snd kv))) d))"
| "normalize_value (VList xs) = VList (map normalize_value xs)"
| "normalize_value v = v"

definition canonical_row :: "pyenv \<Rightarrow> row \<Rightarrow> string" where
  "canonical_row env r = json_dumps env compact_opts (normalize_value (VDict r))"

definition id_text :: "pyenv \<Rightarrow> row \<Rightarrow> string" where
  "id_text env r = (case dict_get r ''event_id'' of VStr s \<Rightarrow> s | v \<Rightarrow> env_str env v)"

subsection \<open>The rows that are not there yet\<close>

text \<open>\<open>d.setdefault(k, v)\<close> and the comparison that follows it.\<close>

definition default_conflict :: "(string \<times> string) list \<Rightarrow> string \<Rightarrow> string \<Rightarrow> bool" where
  "default_conflict d k v = (case map_of d k of None \<Rightarrow> False | Some w \<Rightarrow> w \<noteq> v)"

definition set_default :: "(string \<times> string) list \<Rightarrow> string \<Rightarrow> string \<Rightarrow> (string \<times> string) list" where
  "set_default d k v = (case map_of d k of None \<Rightarrow> dict_set d k v | Some _ \<Rightarrow> d)"

fun index_rows :: "pyenv \<Rightarrow> row list \<Rightarrow> (string \<times> string) list \<Rightarrow> (string \<times> string) list result" where
  "index_rows env [] d = Inr d"
| "index_rows env (r # rs) d =
     (if default_conflict d (id_text env r) (canonical_row env r)
      then Inl (ValueError (''offline feature view contains conflicting rows for event_id '' @ id_text env r))
      else index_rows env rs (set_default d (id_text env r) (canonical_row env r)))"

fun scan_staging ::
    "pyenv \<Rightarrow> (string \<times> string) list \<Rightarrow> row list \<Rightarrow> (string \<times> string) list \<Rightarrow> row list \<Rightarrow> row list result" where
  "scan_staging env ex [] staged u = Inr u"
| "scan_staging env ex (r # rs) staged u =
     (let i = id_text env r; fp = canonical_row env r in
      if default_conflict staged i fp
      then Inl (ValueError (''staging contains conflicting rows for event_id '' @ i))
      else if i \<in> id_text env ` set u then scan_staging env ex rs (set_default staged i fp) u
      else (case map_of ex i of
          Some p \<Rightarrow> if p \<noteq> fp
            then Inl (ValueError (''event_id '' @ i @ '' conflicts with existing offline content''))
            else scan_staging env ex rs (set_default staged i fp) u
        | None \<Rightarrow> scan_staging env ex rs (set_default staged i fp) (u @ [r])))"

definition existing_index :: "pyenv \<Rightarrow> 'd delta \<Rightarrow> string \<Rightarrow> 'd \<Rightarrow> (string \<times> string) list result" where
  "existing_index env D target d =
     (if \<not> dl_exists D target d then Inr []
      else bind_result (dl_load D target d) (\<lambda>t.
        if ''event_id'' \<notin> set (tb_cols t)
        then Inl (ValueError ''offline feature view is missing event_id'')
        else index_rows env (tb_rows t) []))"

definition unseen_rows :: "pyenv \<Rightarrow> 'd delta \<Rightarrow> table \<Rightarrow> string \<Rightarrow> 'd \<Rightarrow> table result" where
  "unseen_rows env D staging target d =
     (if ''event_id'' \<notin> set (tb_cols staging)
      then Inl (ValueError ''offline append staging data is missing event_id'')
      else bind_result (existing_index env D target d) (\<lambda>ex.
        bind_result (scan_staging env ex (tb_rows staging) [] []) (\<lambda>u.
        Inr \<lparr>tb_cols = tb_cols staging, tb_rows = u\<rparr>)))"

subsection \<open>The job\<close>

text \<open>
  \<open>_offline_append\<close>. Every ownership check reads the job table at its own time, since other
  workers run in between: it takes a snapshot, a clock reading with the database of that moment.
\<close>

type_synonym snapshot = "int \<times> database"

definition check_owned :: "job \<Rightarrow> string \<Rightarrow> snapshot \<Rightarrow> unit result" where
  "check_owned job token s = require_ownership (j_id job) token (fst s) (snd s)"

definition append_checkpoints :: "table \<Rightarrow> table \<Rightarrow> string list" where
  "append_checkpoints staging u =
     [''appended:'' @ nat_str (length (tb_rows u)),
      ''duplicates:'' @ nat_str (length (tb_rows staging) - length (tb_rows u))]"

definition append_scan ::
    "pyenv \<Rightarrow> 'd delta \<Rightarrow> string \<Rightarrow> string \<Rightarrow> unit result \<Rightarrow> 'd \<Rightarrow> (table \<times> table) result" where
  "append_scan env D uri target owned d =
     bind_result owned (\<lambda>_.
     bind_result (dl_load D uri d) (\<lambda>staging.
     bind_result (unseen_rows env D staging target d) (\<lambda>u. Inr (staging, u))))"

definition append_step ::
    "'d delta \<Rightarrow> string \<Rightarrow> table \<Rightarrow> unit result \<Rightarrow> 'd \<Rightarrow> unit result \<times> 'd" where
  "append_step D target u owned d =
     (if tb_rows u = [] then (Inr (), d)
      else (case owned of
          Inl e \<Rightarrow> (Inl e, d)
        | Inr _ \<Rightarrow> (case append_rows D target u (Some ''event_date'') d of
              Inl e \<Rightarrow> (Inl e, d) | Inr d' \<Rightarrow> (Inr (), d'))))"

definition offline_append ::
    "pyenv \<Rightarrow> 'd delta \<Rightarrow> string \<Rightarrow> string \<Rightarrow> job \<Rightarrow> snapshot \<Rightarrow> snapshot \<Rightarrow> snapshot \<Rightarrow> 'd \<Rightarrow>
       (string \<times> database) result \<times> 'd" where
  "offline_append env D bucket token job s1 s2 s3 d =
     (case j_payload job of
        StagingPayload view uri \<Rightarrow>
          (case append_scan env D uri (view_uri bucket view) (check_owned job token s1) d of
             Inl e \<Rightarrow> (Inl e, d)
           | Inr (staging, u) \<Rightarrow>
               (case append_step D (view_uri bucket view) u (check_owned job token s2) d of
                  (Inl e, d') \<Rightarrow> (Inl e, d')
                | (Inr _, d') \<Rightarrow>
                    (bind_result (commit_checkpoints (j_id job) token (fst s3) (append_checkpoints staging u) (snd s3))
                       (\<lambda>db'. Inr (uri, db')), d')))
      | _ \<Rightarrow> (Inl (KeyError ''staging_uri''), d))"

subsection \<open>Indexes\<close>

lemma set_default_lookup:
  "\<not> default_conflict d k v \<Longrightarrow> map_of (set_default d k v) = (map_of d)(k \<mapsto> v)"
  by (auto simp: default_conflict_def set_default_def fun_eq_iff split: option.splits)

definition agrees :: "pyenv \<Rightarrow> (string \<times> string) list \<Rightarrow> row list \<Rightarrow> bool" where
  "agrees env d rs \<longleftrightarrow> (\<forall>r \<in> set rs. \<forall>p. map_of d (id_text env r) = Some p \<longrightarrow> p = canonical_row env r) \<and>
     (\<forall>a \<in> set rs. \<forall>b \<in> set rs. id_text env a = id_text env b \<longrightarrow> canonical_row env a = canonical_row env b)"

lemma agrees_Nil [simp]: "agrees env d []"
  by (simp add: agrees_def)

lemma agrees_Cons:
  "agrees env d (r # rs) \<longleftrightarrow> \<not> default_conflict d (id_text env r) (canonical_row env r) \<and>
     agrees env (set_default d (id_text env r) (canonical_row env r)) rs"
proof (cases "default_conflict d (id_text env r) (canonical_row env r)")
  case True
  then show ?thesis by (auto simp: agrees_def default_conflict_def split: option.splits)
next
  case False
  have look: "map_of (set_default d (id_text env r) (canonical_row env r)) = (map_of d)(id_text env r \<mapsto> canonical_row env r)"
    using set_default_lookup [OF False] .
  show ?thesis
  proof
    assume a: "agrees env d (r # rs)"
    have a1: "\<And>x p. x \<in> set (r # rs) \<Longrightarrow> map_of d (id_text env x) = Some p \<Longrightarrow> p = canonical_row env x"
      and a2: "\<And>x y. x \<in> set (r # rs) \<Longrightarrow> y \<in> set (r # rs) \<Longrightarrow> id_text env x = id_text env y \<Longrightarrow> canonical_row env x = canonical_row env y"
      using a unfolding agrees_def by blast+
    have "p = canonical_row env x"
      if x: "x \<in> set rs" and p: "((map_of d)(id_text env r \<mapsto> canonical_row env r)) (id_text env x) = Some p" for x p
    proof (cases "id_text env x = id_text env r")
      case True
      then have "p = canonical_row env r" using p by simp
      also have "\<dots> = canonical_row env x" using x True by (intro a2) simp_all
      finally show ?thesis .
    next
      case False
      then show ?thesis using x p by (intro a1) simp_all
    qed
    moreover have "canonical_row env x = canonical_row env y" if "x \<in> set rs" "y \<in> set rs" "id_text env x = id_text env y" for x y
      using that by (intro a2) simp_all
    ultimately show "\<not> default_conflict d (id_text env r) (canonical_row env r) \<and>
        agrees env (set_default d (id_text env r) (canonical_row env r)) rs"
      using False unfolding agrees_def look by blast
  next
    assume b: "\<not> default_conflict d (id_text env r) (canonical_row env r) \<and>
        agrees env (set_default d (id_text env r) (canonical_row env r)) rs"
    have b1: "\<And>x p. x \<in> set rs \<Longrightarrow> ((map_of d)(id_text env r \<mapsto> canonical_row env r)) (id_text env x) = Some p \<Longrightarrow> p = canonical_row env x"
      and b2: "\<And>x y. x \<in> set rs \<Longrightarrow> y \<in> set rs \<Longrightarrow> id_text env x = id_text env y \<Longrightarrow> canonical_row env x = canonical_row env y"
      using b unfolding agrees_def look by blast+
    have one: "canonical_row env x = canonical_row env r" if "x \<in> set rs" "id_text env x = id_text env r" for x
      using b1 [of x "canonical_row env r"] that by simp
    have here: "p = canonical_row env r" if "map_of d (id_text env r) = Some p" for p
      using False that by (simp add: default_conflict_def)
    have old: "p = canonical_row env x" if "x \<in> set rs" "map_of d (id_text env x) = Some p" for x p
    proof (cases "id_text env x = id_text env r")
      case True
      then show ?thesis using here [of p] one [of x] that by simp
    next
      case False
      then show ?thesis using that by (intro b1) simp_all
    qed
    show "agrees env d (r # rs)" unfolding agrees_def
    proof (intro conjI ballI allI impI)
      fix x p assume "x \<in> set (r # rs)" "map_of d (id_text env x) = Some p"
      then show "p = canonical_row env x" using here old by (cases "x = r") auto
    next
      fix x y assume xy: "x \<in> set (r # rs)" "y \<in> set (r # rs)" "id_text env x = id_text env y"
      then consider "x \<in> set rs" "y \<in> set rs" | "x = r" | "y = r" by auto
      then show "canonical_row env x = canonical_row env y"
      proof cases
        case 1
        then show ?thesis using b2 xy(3) by blast
      next
        case 2
        then show ?thesis using one [of y] xy by (cases "y = r") simp_all
      next
        case 3
        then show ?thesis using one [of x] xy by (cases "x = r") simp_all
      qed
    qed
  qed
qed

lemma index_rows_iff:
  "(\<exists>idx. index_rows env rs d = Inr idx) \<longleftrightarrow> agrees env d rs"
  by (induction rs arbitrary: d) (simp_all add: agrees_Cons)

lemma index_rows_lookup:
  "index_rows env rs d = Inr idx \<Longrightarrow> (\<forall>r \<in> set rs. map_of idx (id_text env r) = Some (canonical_row env r)) \<and>
     (\<forall>i p. map_of d i = Some p \<longrightarrow> map_of idx i = Some p) \<and>
     (\<forall>i. map_of idx i \<noteq> None \<longrightarrow> map_of d i \<noteq> None \<or> i \<in> id_text env ` set rs)"
proof (induction rs arbitrary: d)
  case (Cons r rs)
  let ?d = "set_default d (id_text env r) (canonical_row env r)"
  have ok: "\<not> default_conflict d (id_text env r) (canonical_row env r)" and rest: "index_rows env rs ?d = Inr idx"
    using Cons.prems by (simp_all split: if_splits)
  have look: "map_of ?d = (map_of d)(id_text env r \<mapsto> canonical_row env r)" using set_default_lookup [OF ok] .
  have keep: "map_of ?d i = Some p" if "map_of d i = Some p" for i p
    using ok that by (auto simp: look default_conflict_def)
  have "map_of ?d (id_text env r) = Some (canonical_row env r)" by (simp add: look)
  then show ?case using Cons.IH [OF rest] keep look by (auto split: if_splits)
qed simp

text \<open>The outcome of the scan, from what has been staged and chosen so far.\<close>

lemma scan_staging_ok:
  assumes "scan_staging env ex rs staged u = Inr res"
    and "distinct (map (id_text env) u)" "\<forall>r \<in> set u. map_of ex (id_text env r) = None"
  shows "distinct (map (id_text env) res) \<and> (\<forall>r \<in> set res. map_of ex (id_text env r) = None) \<and>
    set u \<subseteq> set res \<and> set res \<subseteq> set u \<union> set rs \<and>
    (\<forall>r \<in> set rs. map_of ex (id_text env r) \<noteq> None \<or> id_text env r \<in> id_text env ` set res)"
  using assms
proof (induction rs arbitrary: staged u)
  case (Cons r rs)
  let ?i = "id_text env r" and ?fp = "canonical_row env r"
  let ?staged = "set_default staged ?i ?fp"
  have ok: "\<not> default_conflict staged ?i ?fp" using Cons.prems(1) by (auto simp: Let_def split: if_splits)
  consider (chosen) "?i \<in> id_text env ` set u" "scan_staging env ex rs ?staged u = Inr res"
    | (present) "map_of ex ?i \<noteq> None" "scan_staging env ex rs ?staged u = Inr res"
    | (new) "?i \<notin> id_text env ` set u" "map_of ex ?i = None" "scan_staging env ex rs ?staged (u @ [r]) = Inr res"
    using Cons.prems(1) ok by (auto simp: Let_def split: if_splits option.splits)
  then show ?case
  proof cases
    case chosen
    then show ?thesis using Cons.IH [OF chosen(2) Cons.prems(2,3)] by auto
  next
    case present
    then show ?thesis using Cons.IH [OF present(2) Cons.prems(2,3)] by auto
  next
    case new
    have "distinct (map (id_text env) (u @ [r]))" "\<forall>x \<in> set (u @ [r]). map_of ex (id_text env x) = None"
      using new Cons.prems(2,3) by auto
    note ih = Cons.IH [OF new(3) this]
    then have "r \<in> set res" by simp
    then show ?thesis using ih by simp
  qed
qed auto

lemma scan_staging_iff:
  assumes "\<forall>r \<in> set u. map_of ex (id_text env r) = None"
  shows "(\<exists>res. scan_staging env ex rs staged u = Inr res) \<longleftrightarrow>
    agrees env staged rs \<and> (\<forall>r \<in> set rs. \<forall>p. map_of ex (id_text env r) = Some p \<longrightarrow> p = canonical_row env r)"
  using assms
proof (induction rs arbitrary: staged u)
  case (Cons r rs)
  let ?i = "id_text env r" and ?fp = "canonical_row env r"
  show ?case
  proof (cases "default_conflict staged ?i ?fp")
    case True
    then show ?thesis by (simp add: Let_def agrees_Cons)
  next
    case False
    have "scan_staging env ex (r # rs) staged u =
      (if ?i \<in> id_text env ` set u then scan_staging env ex rs (set_default staged ?i ?fp) u
       else (case map_of ex ?i of
          Some p \<Rightarrow> if p \<noteq> ?fp then Inl (ValueError (''event_id '' @ ?i @ '' conflicts with existing offline content''))
            else scan_staging env ex rs (set_default staged ?i ?fp) u
        | None \<Rightarrow> scan_staging env ex rs (set_default staged ?i ?fp) (u @ [r])))"
      using False by (simp add: Let_def)
    then show ?thesis
      using Cons.IH [OF Cons.prems, of "set_default staged ?i ?fp"] Cons.IH [of "u @ [r]" "set_default staged ?i ?fp"]
        Cons.prems False
      by (cases "map_of ex ?i") (auto simp: agrees_Cons)
  qed
qed simp

subsection \<open>What an append promises\<close>

text \<open>Rows that agree: the same event id only ever stands for the same content.\<close>

definition consistent :: "pyenv \<Rightarrow> row list \<Rightarrow> bool" where
  "consistent env rs \<longleftrightarrow> (\<forall>a \<in> set rs. \<forall>b \<in> set rs.
     id_text env a = id_text env b \<longrightarrow> canonical_row env a = canonical_row env b)"

lemma agrees_empty: "agrees env [] rs \<longleftrightarrow> consistent env rs"
  by (simp add: agrees_def consistent_def)

definition readable_target :: "'d delta \<Rightarrow> string \<Rightarrow> 'd \<Rightarrow> bool" where
  "readable_target D u d \<longleftrightarrow> \<not> dl_exists D u d \<or> (\<exists>t. dl_load D u d = Inr t \<and> ''event_id'' \<in> set (tb_cols t))"

lemma existing_index_iff:
  assumes "delta_laws D" "readable_target D u d"
  shows "(\<exists>ex. existing_index env D u d = Inr ex) \<longleftrightarrow> consistent env (stored_rows D u d)"
    and "existing_index env D u d = Inr ex \<Longrightarrow>
      (\<forall>r \<in> set (stored_rows D u d). map_of ex (id_text env r) = Some (canonical_row env r)) \<and>
      (\<forall>i. map_of ex i \<noteq> None \<longrightarrow> i \<in> id_text env ` set (stored_rows D u d))"
proof -
  have none: "dl_load D u d = Inr t \<Longrightarrow> dl_exists D u d" for t
    using delta_laws.load_exists [OF assms(1)] by blast
  consider (absent) "\<not> dl_exists D u d" "stored_rows D u d = []"
    | (there) t where "dl_exists D u d" "dl_load D u d = Inr t" "''event_id'' \<in> set (tb_cols t)" "stored_rows D u d = tb_rows t"
    using assms(2) none by (cases "dl_load D u d") (auto simp: readable_target_def stored_rows_def)
  then have "((\<exists>ex. existing_index env D u d = Inr ex) \<longleftrightarrow> consistent env (stored_rows D u d)) \<and>
    (\<forall>ex. existing_index env D u d = Inr ex \<longrightarrow>
      (\<forall>r \<in> set (stored_rows D u d). map_of ex (id_text env r) = Some (canonical_row env r)) \<and>
      (\<forall>i. map_of ex i \<noteq> None \<longrightarrow> i \<in> id_text env ` set (stored_rows D u d)))"
  proof cases
    case absent
    then show ?thesis by (simp add: existing_index_def consistent_def)
  next
    case (there t)
    then have idx: "existing_index env D u d = index_rows env (stored_rows D u d) []" by (simp add: existing_index_def)
    then show ?thesis
      using index_rows_iff [of env "stored_rows D u d" "[]"] index_rows_lookup [of env "stored_rows D u d" "[]"]
      unfolding idx agrees_empty by auto
  qed
  then show "(\<exists>ex. existing_index env D u d = Inr ex) \<longleftrightarrow> consistent env (stored_rows D u d)"
    and "existing_index env D u d = Inr ex \<Longrightarrow>
      (\<forall>r \<in> set (stored_rows D u d). map_of ex (id_text env r) = Some (canonical_row env r)) \<and>
      (\<forall>i. map_of ex i \<noteq> None \<longrightarrow> i \<in> id_text env ` set (stored_rows D u d))" by blast+
qed

lemma unseen_accepts:
  assumes "delta_laws D" "readable_target D u d" "''event_id'' \<in> set (tb_cols staging)"
  shows "(\<exists>new. unseen_rows env D staging u d = Inr new) \<longleftrightarrow>
    consistent env (stored_rows D u d @ tb_rows staging)"
proof
  assume "\<exists>new. unseen_rows env D staging u d = Inr new"
  then obtain ex res where ex: "existing_index env D u d = Inr ex" "scan_staging env ex (tb_rows staging) [] [] = Inr res"
    using assms(3) by (auto simp: unseen_rows_def bind_result_eq_Inr)
  have old: "consistent env (stored_rows D u d)" using existing_index_iff(1) [OF assms(1,2)] ex(1) by blast
  have look: "\<forall>r \<in> set (stored_rows D u d). map_of ex (id_text env r) = Some (canonical_row env r)"
    using existing_index_iff(2) [OF assms(1,2) ex(1)] by blast
  have new: "consistent env (tb_rows staging)"
    "\<forall>r \<in> set (tb_rows staging). \<forall>p. map_of ex (id_text env r) = Some p \<longrightarrow> p = canonical_row env r"
    using scan_staging_iff [of "[]" ex env "tb_rows staging" "[]"] ex(2) by (auto simp: agrees_empty)
  have mixed: "canonical_row env a = canonical_row env b"
    if "a \<in> set (stored_rows D u d)" "b \<in> set (tb_rows staging)" "id_text env a = id_text env b" for a b
    using that look new(2) by metis
  show "consistent env (stored_rows D u d @ tb_rows staging)"
    unfolding consistent_def
  proof (intro ballI impI)
    fix a b assume ab: "a \<in> set (stored_rows D u d @ tb_rows staging)" "b \<in> set (stored_rows D u d @ tb_rows staging)"
      "id_text env a = id_text env b"
    then show "canonical_row env a = canonical_row env b"
      using old new(1) mixed [of a b] mixed [of b a] unfolding consistent_def set_append by fastforce
  qed
next
  assume c: "consistent env (stored_rows D u d @ tb_rows staging)"
  then have "consistent env (stored_rows D u d)" "consistent env (tb_rows staging)"
    unfolding consistent_def set_append by blast+
  then obtain ex where ex: "existing_index env D u d = Inr ex" using existing_index_iff(1) [OF assms(1,2)] by blast
  note look = existing_index_iff(2) [OF assms(1,2) ex]
  have "p = canonical_row env r" if "r \<in> set (tb_rows staging)" "map_of ex (id_text env r) = Some p" for r p
  proof -
    have "map_of ex (id_text env r) \<noteq> None" using that(2) by simp
    then obtain a where a: "a \<in> set (stored_rows D u d)" "id_text env a = id_text env r" using look by (metis imageE)
    then have "p = canonical_row env a" using look that(2) by (metis option.inject)
    also have "\<dots> = canonical_row env r" using c a that(1) unfolding consistent_def by simp
    finally show ?thesis .
  qed
  then obtain res where "scan_staging env ex (tb_rows staging) [] [] = Inr res"
    using scan_staging_iff [of "[]" ex env "tb_rows staging" "[]"] \<open>consistent env (tb_rows staging)\<close>
    by (auto simp: agrees_empty)
  then show "\<exists>new. unseen_rows env D staging u d = Inr new" using assms(3) ex by (simp add: unseen_rows_def)
qed

lemma unseen_contents:
  assumes "delta_laws D" "readable_target D u d" "unseen_rows env D staging u d = Inr new"
  shows "distinct (map (id_text env) (tb_rows new))"
    "\<forall>r \<in> set (tb_rows new). r \<in> set (tb_rows staging) \<and> id_text env r \<notin> id_text env ` set (stored_rows D u d)"
    "\<forall>r \<in> set (tb_rows staging). id_text env r \<in> id_text env ` set (stored_rows D u d @ tb_rows new)"
proof -
  obtain ex res where ex: "existing_index env D u d = Inr ex" "scan_staging env ex (tb_rows staging) [] [] = Inr res"
      "tb_rows new = res"
    using assms(3) by (auto simp: unseen_rows_def bind_result_eq_Inr split: if_splits)
  note look = existing_index_iff(2) [OF assms(1,2) ex(1)]
  note scan = scan_staging_ok [OF ex(2), simplified]
  show "distinct (map (id_text env) (tb_rows new))" using scan ex(3) by simp
  show "\<forall>r \<in> set (tb_rows new). r \<in> set (tb_rows staging) \<and> id_text env r \<notin> id_text env ` set (stored_rows D u d)"
    using scan ex(3) look by auto
  have covered: "\<forall>r \<in> set (tb_rows staging). map_of ex (id_text env r) \<noteq> None \<or> id_text env r \<in> id_text env ` set (tb_rows new)"
    using scan ex(3) by auto
  have stored: "map_of ex i \<noteq> None \<Longrightarrow> i \<in> id_text env ` set (stored_rows D u d)" for i using look by blast
  show "\<forall>r \<in> set (tb_rows staging). id_text env r \<in> id_text env ` set (stored_rows D u d @ tb_rows new)"
    using covered stored unfolding set_append image_Un by blast
qed

text \<open>
  C22. A staging table is accepted exactly when the same event id never stands for two contents,
  within the table, within the target or between them; the rows to append are then staged rows with
  distinct ids the target does not have, and together with the target they cover every staged id.
\<close>

theorem unseen_rows_exact:
  assumes "delta_laws D" "readable_target D u d" "''event_id'' \<in> set (tb_cols staging)"
  shows "((\<exists>new. unseen_rows env D staging u d = Inr new) \<longleftrightarrow> consistent env (stored_rows D u d @ tb_rows staging)) \<and>
    (\<forall>new. unseen_rows env D staging u d = Inr new \<longrightarrow>
       distinct (map (id_text env) (tb_rows new)) \<and> set (tb_rows new) \<subseteq> set (tb_rows staging) \<and>
       (\<forall>r \<in> set (tb_rows new). id_text env r \<notin> id_text env ` set (stored_rows D u d)) \<and>
       id_text env ` set (tb_rows staging) \<subseteq> id_text env ` set (stored_rows D u d @ tb_rows new))"
  using unseen_accepts [OF assms] unseen_contents [OF assms(1,2)] by blast

text \<open>The rows a second scan finds when a first one has already been appended: none.\<close>

lemma unseen_again:
  assumes "delta_laws D" "readable_target D u d'" "unseen_rows env D staging u d' = Inr new"
    and "id_text env ` set (tb_rows staging) \<subseteq> id_text env ` set (stored_rows D u d')"
  shows "tb_rows new = []"
proof -
  have "r \<notin> set (tb_rows new)" for r using unseen_contents(2) [OF assms(1-3)] assms(4) by blast
  then show ?thesis by (cases "tb_rows new") auto
qed

lemma append_step_lake:
  "snd (append_step D target u owned d) = d \<or>
   (tb_rows u \<noteq> [] \<and> append_rows D target u (Some ''event_date'') d = Inr (snd (append_step D target u owned d)))"
  by (auto simp: append_step_def split: sum.splits)

lemma append_scan_Inr:
  "append_scan env D uri target owned d = Inr (staging, u) \<longleftrightarrow>
     (\<exists>x. owned = Inr x) \<and> dl_load D uri d = Inr staging \<and> unseen_rows env D staging target d = Inr u"
  by (auto simp: append_scan_def bind_result_eq_Inr)

lemma append_step_Inr:
  "append_step D target u owned d = (Inr x, d') \<Longrightarrow>
     if tb_rows u = [] then d' = d else append_rows D target u (Some ''event_date'') d = Inr d'"
  by (cases "tb_rows u = []") (auto simp: append_step_def split: sum.splits)

lemma offline_append_lake:
  assumes "j_payload job = StagingPayload view uri" "offline_append env D bucket token job s1 s2 s3 d = (res, d')"
  obtains (kept) "d' = d"
  | (written) staging u where "dl_load D uri d = Inr staging" "unseen_rows env D staging (view_uri bucket view) d = Inr u"
      "tb_rows u \<noteq> []" "append_rows D (view_uri bucket view) u (Some ''event_date'') d = Inr d'"
proof (cases "append_scan env D uri (view_uri bucket view) (check_owned job token s1) d")
  case (Inl e)
  then show thesis using assms kept by (simp add: offline_append_def)
next
  case (Inr p)
  obtain staging u where p: "p = (staging, u)" by fastforce
  have load: "dl_load D uri d = Inr staging" "unseen_rows env D staging (view_uri bucket view) d = Inr u"
    using append_scan_Inr [THEN iffD1, OF Inr [unfolded p]] by simp_all
  obtain r d1 where step: "append_step D (view_uri bucket view) u (check_owned job token s2) d = (r, d1)"
    by fastforce
  have "d' = d1" using assms Inr p step by (auto simp: offline_append_def split: sum.splits)
  then show thesis
    using append_step_lake [of D "view_uri bucket view" u "check_owned job token s2" d] step kept written load
    by auto
qed

lemma offline_append_success:
  assumes "j_payload job = StagingPayload view uri" "offline_append env D bucket token job s1 s2 s3 d = (Inr x, d')"
  obtains staging u where "dl_load D uri d = Inr staging" "unseen_rows env D staging (view_uri bucket view) d = Inr u"
    "if tb_rows u = [] then d' = d else append_rows D (view_uri bucket view) u (Some ''event_date'') d = Inr d'"
proof (cases "append_scan env D uri (view_uri bucket view) (check_owned job token s1) d")
  case (Inl e)
  then show thesis using assms by (simp add: offline_append_def)
next
  case (Inr p)
  obtain staging u where p: "p = (staging, u)" by fastforce
  have load: "dl_load D uri d = Inr staging" "unseen_rows env D staging (view_uri bucket view) d = Inr u"
    using append_scan_Inr [THEN iffD1, OF Inr [unfolded p]] by simp_all
  obtain r where step: "append_step D (view_uri bucket view) u (check_owned job token s2) d = (Inr r, d')"
    using assms Inr p by (auto simp: offline_append_def split: prod.splits sum.splits)
  show thesis using that [OF load append_step_Inr [OF step]] .
qed

text \<open>
  C23. Appending is exactly once: whatever becomes of a first run of an append job - finished, refused,
  or stopped after its write and before its checkpoint - when a later run of the same staging data
  succeeds, the target holds its old rows and each unseen staged row once, as a single run leaves it.
\<close>

theorem append_exactly_once:
  assumes "delta_laws D" "readable_target D target d" "target = view_uri bucket view" "uri \<noteq> target"
    and "j_payload job = StagingPayload view uri" "dl_load D uri d = Inr staging"
    and "unseen_rows env D staging target d = Inr new"
    and "offline_append env D bucket token job s1 s2 s3 d = (res, d1)"
    and "offline_append env D bucket token' job s1' s2' s3' d1 = (Inr x, d2)"
  shows "mset (stored_rows D target d2) = mset (stored_rows D target d) + mset (tb_rows new)"
proof -
  obtain staging' u where second: "dl_load D uri d1 = Inr staging'" "unseen_rows env D staging' target d1 = Inr u"
    "if tb_rows u = [] then d2 = d1 else append_rows D target u (Some ''event_date'') d1 = Inr d2"
    using offline_append_success [OF assms(5,9)] assms(3) by metis
  note stored = delta_laws.append_rows_stored [OF assms(1)]
  from assms(5,8) show ?thesis
  proof (cases rule: offline_append_lake)
    case kept
    then have "u = new" using second(1,2) assms(6,7) by simp
    then show ?thesis using second(3) stored(1) kept by (auto split: if_splits)
  next
    case (written staging1 u1)
    then have u1: "u1 = new" and w: "append_rows D target new (Some ''event_date'') d = Inr d1"
      using assms(3,6,7) by simp_all
    have rows: "mset (stored_rows D target d1) = mset (stored_rows D target d) + mset (tb_rows new)"
      using stored(1) [OF w] .
    then have rows_set: "set (stored_rows D target d1) = set (stored_rows D target d @ tb_rows new)"
      by (metis mset_append mset_eq_setD)
    have same: "staging' = staging" using second(1) stored(3) [OF w assms(4)] assms(6) by simp
    have target_ok: "readable_target D target d1"
    proof -
      obtain ex where ex: "existing_index env D target d1 = Inr ex"
        using second(2) by (auto simp: unseen_rows_def bind_result_eq_Inr split: if_splits)
      have "dl_exists D target d1" using stored(2) [OF w] .
      then show ?thesis using ex by (auto simp: existing_index_def readable_target_def bind_result_eq_Inr split: if_splits)
    qed
    have "id_text env ` set (tb_rows staging) \<subseteq> id_text env ` set (stored_rows D target d1)"
      using unseen_contents(3) [OF assms(1,2,7)] unfolding rows_set by blast
    then have "tb_rows u = []" using unseen_again [OF assms(1) target_ok second(2)] same by simp
    then show ?thesis using second(3) rows by simp
  qed
qed

text \<open>
  C24. The second ownership check and the write are two steps: a worker that stalls between them
  until its lease has run out and another worker has finished the job writes its rows a second
  time, and the target holds every unseen row twice.
\<close>

theorem stalled_append_duplicates:
  assumes "delta_laws D" "target = view_uri bucket view" "j_payload job = StagingPayload view uri"
    and "append_scan env D uri target (check_owned job token s1) d = Inr (staging, new)" "tb_rows new \<noteq> []"
    and "offline_append env D bucket token' job s1' s2' s3' d = (Inr x, d1)"
    and "append_step D target new (check_owned job token s2) d1 = (Inr (), d2)"
  shows "mset (stored_rows D target d2) = mset (stored_rows D target d) + mset (tb_rows new) + mset (tb_rows new)"
proof -
  note stored = delta_laws.append_rows_stored(1) [OF assms(1)]
  have scan: "dl_load D uri d = Inr staging" "unseen_rows env D staging target d = Inr new"
    using append_scan_Inr [THEN iffD1, OF assms(4)] by simp_all
  have "append_rows D target new (Some ''event_date'') d = Inr d1"
    using offline_append_success [OF assms(3,6)] scan assms(2,5) by (metis Inr_inject)
  moreover have "append_rows D target new (Some ''event_date'') d1 = Inr d2"
    using append_step_Inr [OF assms(7)] assms(5) by simp
  ultimately show ?thesis using stored by metis
qed

subsection \<open>Concrete runs\<close>

definition click_row :: "string \<Rightarrow> int \<Rightarrow> row" where
  "click_row i n = [(''user_id'', VStr ''ada''), (''event_id'', VStr i), (''total'', VInt n)]"

definition click_table :: "row list \<Rightarrow> table" where
  "click_table rs = \<lparr>tb_cols = [''user_id'', ''event_id'', ''total''], tb_rows = rs\<rparr>"

definition staged_lake :: lake where
  "staged_lake = [(''s3://lake/staging/1'', click_table [click_row ''a'' 1, click_row ''b'' 2, click_row ''a'' 1])]"

definition clicks_uri :: string where "clicks_uri = view_uri ''lake'' ''clicks@1.0.0''"

definition appended_lake :: lake where
  "appended_lake = staged_lake @ [(clicks_uri, click_table [click_row ''a'' 1, click_row ''b'' 2])]"

definition append_job1 :: "string \<Rightarrow> int \<Rightarrow> job" where
  "append_job1 token lease = (new_job ''j1'' OfflineAppend (StagingPayload ''clicks@1.0.0'' ''s3://lake/staging/1'') None default_settings 0)
     \<lparr>j_status := Running, j_token := Some token, j_lease := Some lease, j_attempts := 1\<rparr>"

definition append_run :: "string \<Rightarrow> int \<Rightarrow> database" where
  "append_run token lease = append_job (append_job1 token lease) empty_db"

lemma clicks_uri_text: "clicks_uri = ''s3://lake/views/clicks/1.0.0''"
  by (simp add: clicks_uri_def view_uri_def replace_char_def)

lemma id_click [simp]: "id_text env (click_row i n) = i"
  by (simp add: id_text_def click_row_def dict_get_def)

lemmas lake_run = staged_lake_def appended_lake_def mem_delta_def mem_load_def mem_write_def click_table_def

lemma load_staged:
  "dl_load mem_delta ''s3://lake/staging/1'' staged_lake = Inr (click_table [click_row ''a'' 1, click_row ''b'' 2, click_row ''a'' 1])"
  "dl_load mem_delta ''s3://lake/staging/1'' appended_lake = Inr (click_table [click_row ''a'' 1, click_row ''b'' 2, click_row ''a'' 1])"
  by (simp_all add: lake_run)

lemma clicks_absent: "dl_exists mem_delta clicks_uri staged_lake = False" "stored_rows mem_delta clicks_uri staged_lake = []"
  by (simp_all add: lake_run clicks_uri_text stored_rows_def)

lemma clicks_readable: "readable_target mem_delta clicks_uri staged_lake"
  by (simp add: readable_target_def clicks_absent)

lemma unseen_clicks:
  "unseen_rows env mem_delta (click_table [click_row ''a'' 1, click_row ''b'' 2, click_row ''a'' 1]) clicks_uri staged_lake
    = Inr (click_table [click_row ''a'' 1, click_row ''b'' 2])"
  by (simp add: unseen_rows_def existing_index_def clicks_absent)
     (simp add: click_table_def default_conflict_def set_default_def Let_def)

lemma unseen_rows_exact_witness:
  "unseen_rows demo_env mem_delta (click_table [click_row ''a'' 1, click_row ''b'' 2, click_row ''a'' 1]) clicks_uri staged_lake
     = Inr (click_table [click_row ''a'' 1, click_row ''b'' 2]) \<and>
   consistent demo_env (stored_rows mem_delta clicks_uri staged_lake @ [click_row ''a'' 1, click_row ''b'' 2, click_row ''a'' 1])"
proof -
  have "''event_id'' \<in> set (tb_cols (click_table [click_row ''a'' 1, click_row ''b'' 2, click_row ''a'' 1]))"
    by (simp add: click_table_def)
  from unseen_rows_exact [OF lake.delta_laws_axioms clicks_readable this, where env = demo_env]
  show ?thesis using unseen_clicks [of demo_env] by (auto simp: click_table_def)
qed

text \<open>
  A first run loses its lease between the write and the checkpoint, another worker runs the job
  again.
\<close>

lemma append_run_jobs [simp]: "db_jobs (append_run token lease) = [append_job1 token lease]"
  by (simp add: append_run_def empty_db_def)

lemma append_owned [simp]: "owns ''j1'' token now (append_run token lease) \<longleftrightarrow> now < lease"
  by (simp add: owns_def rowcount_def leased_def append_job1_def new_job_def)

lemma append_job1_fields [simp]:
  "j_id (append_job1 token lease) = ''j1''"
  "j_payload (append_job1 token lease) = StagingPayload ''clicks@1.0.0'' ''s3://lake/staging/1''"
  by (simp_all add: append_job1_def new_job_def)

lemma append_clicks:
  "append_rows mem_delta clicks_uri (click_table [click_row ''a'' 1, click_row ''b'' 2]) p staged_lake = Inr appended_lake"
  by (simp add: append_rows_def clicks_absent) (simp add: lake_run clicks_uri_text)

lemma first_run:
  "offline_append env mem_delta ''lake'' ''w1'' (append_job1 ''w1'' 5) (1, append_run ''w1'' 5) (2, append_run ''w1'' 5) (9, append_run ''w1'' 5) staged_lake
    = (Inl (LeaseLostError (''job lease was lost before checkpoint: '' @ ''j1'')), appended_lake)"
  using unseen_clicks append_clicks load_staged(1) unfolding clicks_uri_def
  by (simp add: offline_append_def append_scan_def check_owned_def require_ownership_def ensure_def append_step_def commit_checkpoints_def)
     (simp add: click_table_def)

lemma unseen_clicks_again:
  "unseen_rows env mem_delta (click_table [click_row ''a'' 1, click_row ''b'' 2, click_row ''a'' 1]) clicks_uri appended_lake
    = Inr (click_table [])"
proof -
  have there: "dl_exists mem_delta clicks_uri appended_lake"
    "dl_load mem_delta clicks_uri appended_lake = Inr (click_table [click_row ''a'' 1, click_row ''b'' 2])"
    by (simp_all add: lake_run clicks_uri_text)
  show ?thesis by (simp add: unseen_rows_def existing_index_def there)
    (simp add: click_table_def default_conflict_def set_default_def Let_def)
qed

lemma second_run:
  "\<exists>x. offline_append env mem_delta ''lake'' ''w2'' (append_job1 ''w1'' 5) (11, append_run ''w2'' 20) (12, append_run ''w2'' 20) (13, append_run ''w2'' 20) appended_lake
    = (Inr x, appended_lake)"
  using unseen_clicks_again load_staged(2) unfolding clicks_uri_def
  by (simp add: offline_append_def append_scan_def check_owned_def require_ownership_def ensure_def append_step_def commit_checkpoints_def)
     (simp add: click_table_def)

lemma append_exactly_once_witness:
  "mset (stored_rows mem_delta clicks_uri appended_lake) = {#click_row ''a'' 1, click_row ''b'' 2#}"
proof -
  obtain x where x: "offline_append demo_env mem_delta ''lake'' ''w2'' (append_job1 ''w1'' 5) (11, append_run ''w2'' 20) (12, append_run ''w2'' 20) (13, append_run ''w2'' 20) appended_lake
    = (Inr x, appended_lake)" using second_run by blast
  have ne: "''s3://lake/staging/1'' \<noteq> clicks_uri" by (simp add: clicks_uri_text)
  show ?thesis
    using append_exactly_once [OF lake.delta_laws_axioms clicks_readable clicks_uri_def ne append_job1_fields(2)
      load_staged(1) unseen_clicks first_run x]
    by (simp add: clicks_absent) (simp add: click_table_def)
qed

lemma other_run:
  "\<exists>x. offline_append env mem_delta ''lake'' ''w2'' (append_job1 ''w1'' 5) (11, append_run ''w2'' 20) (12, append_run ''w2'' 20) (13, append_run ''w2'' 20) staged_lake
    = (Inr x, appended_lake)"
  using unseen_clicks append_clicks load_staged(1) unfolding clicks_uri_def
  by (simp add: offline_append_def append_scan_def check_owned_def require_ownership_def ensure_def append_step_def commit_checkpoints_def)
     (simp add: click_table_def)

lemma stalled_append_duplicates_witness:
  "\<exists>d2. mset (stored_rows mem_delta clicks_uri d2)
     = {#click_row ''a'' 1, click_row ''b'' 2#} + {#click_row ''a'' 1, click_row ''b'' 2#}"
proof -
  obtain x where x: "offline_append demo_env mem_delta ''lake'' ''w2'' (append_job1 ''w1'' 5) (11, append_run ''w2'' 20) (12, append_run ''w2'' 20) (13, append_run ''w2'' 20) staged_lake
    = (Inr x, appended_lake)" using other_run by blast
  let ?new = "click_table [click_row ''a'' 1, click_row ''b'' 2]"
  have scan: "append_scan demo_env mem_delta ''s3://lake/staging/1'' clicks_uri
      (check_owned (append_job1 ''w1'' 5) ''w1'' (1, append_run ''w1'' 5)) staged_lake
    = Inr (click_table [click_row ''a'' 1, click_row ''b'' 2, click_row ''a'' 1], ?new)"
    using unseen_clicks load_staged(1) by (simp add: append_scan_def check_owned_def require_ownership_def ensure_def)
  have ne: "tb_rows ?new \<noteq> []" by (simp add: click_table_def)
  obtain d2 where d2: "append_step mem_delta clicks_uri ?new (check_owned (append_job1 ''w1'' 5) ''w1'' (2, append_run ''w1'' 5)) appended_lake
    = (Inr (), d2)"
    by (simp add: append_step_def ne check_owned_def require_ownership_def ensure_def append_rows_def)
       (simp add: lake_run clicks_uri_text)
  show ?thesis
    using stalled_append_duplicates [OF lake.delta_laws_axioms clicks_uri_def append_job1_fields(2) scan ne x d2]
    by (simp add: clicks_absent click_table_def) blast
qed

end
