(* ===== verification/Actions.thy ===== *)
theory Actions
  imports Prelude
begin

section \<open>Actions that keep their effects when they raise\<close>

text \<open>
  The stream consumer and the worker change several stores in one call, and an exception leaves
  behind what was done before it. An action takes a state and returns a result together with the
  state it leaves, also when the result is an exception; \<open>catch_act\<close> is \<open>try ... except\<close>. Actions
  are verified by triples with two postconditions, one for each way out; the rules of the
  constructors are collected in \<open>act_rules\<close>.
\<close>

named_theorems act_rules \<open>rules of the triples of composed actions\<close>

type_synonym ('a, 's) action = "'s \<Rightarrow> 'a result \<times> 's"

definition ret :: "'a \<Rightarrow> ('a, 's) action" where
  "ret x s = (Inr x, s)"

definition lift_act :: "'a result \<Rightarrow> ('a, 's) action" where
  "lift_act r s = (r, s)"

definition read_act :: "('s \<Rightarrow> 'a) \<Rightarrow> ('a, 's) action" where
  "read_act f s = (Inr (f s), s)"

definition change :: "('s \<Rightarrow> 's) \<Rightarrow> (unit, 's) action" where
  "change f s = (Inr (), f s)"

definition bind_act :: "('a, 's) action \<Rightarrow> ('a \<Rightarrow> ('b, 's) action) \<Rightarrow> ('b, 's) action" where
  "bind_act m f s = (case m s of (Inl e, s') \<Rightarrow> (Inl e, s') | (Inr x, s') \<Rightarrow> f x s')"

definition then_act :: "('a, 's) action \<Rightarrow> ('b, 's) action \<Rightarrow> ('b, 's) action" where
  "then_act m n = bind_act m (\<lambda>_. n)"

definition catch_act :: "('a, 's) action \<Rightarrow> (py_error \<Rightarrow> ('a, 's) action) \<Rightarrow> ('a, 's) action" where
  "catch_act m h s = (case m s of (Inl e, s') \<Rightarrow> h e s' | (Inr x, s') \<Rightarrow> (Inr x, s'))"

subsection \<open>Triples\<close>

definition triple :: "('s \<Rightarrow> bool) \<Rightarrow> ('a, 's) action \<Rightarrow> ('a \<Rightarrow> 's \<Rightarrow> bool) \<Rightarrow> ('s \<Rightarrow> bool) \<Rightarrow> bool" where
  "triple P m Q X \<longleftrightarrow>
     (\<forall>s. P s \<longrightarrow> (case m s of (Inl e, s') \<Rightarrow> X s' | (Inr x, s') \<Rightarrow> Q x s'))"

lemma tripleI:
  assumes "\<And>s x s'. P s \<Longrightarrow> m s = (Inr x, s') \<Longrightarrow> Q x s'"
    and "\<And>s e s'. P s \<Longrightarrow> m s = (Inl e, s') \<Longrightarrow> X s'"
  shows "triple P m Q X"
  using assms by (auto simp: triple_def split: prod.splits sum.splits)

lemma triple_Inr: "triple P m Q X \<Longrightarrow> P s \<Longrightarrow> m s = (Inr x, s') \<Longrightarrow> Q x s'"
  by (force simp: triple_def)

lemma triple_Inl: "triple P m Q X \<Longrightarrow> P s \<Longrightarrow> m s = (Inl e, s') \<Longrightarrow> X s'"
  by (force simp: triple_def)

lemma triple_end: "triple P m (\<lambda>_. X) X \<Longrightarrow> P s \<Longrightarrow> m s = (r, s') \<Longrightarrow> X s'"
  by (cases r) (auto dest: triple_Inr triple_Inl)

lemma triple_weaken:
  assumes "triple P' m Q' X'" "\<And>s. P s \<Longrightarrow> P' s" "\<And>x s. Q' x s \<Longrightarrow> Q x s" "\<And>s. X' s \<Longrightarrow> X s"
  shows "triple P m Q X"
  using assms unfolding triple_def by (fastforce split: prod.splits sum.splits)

lemma triple_ret [act_rules]: "(\<And>s. P s \<Longrightarrow> Q x s) \<Longrightarrow> triple P (ret x) Q X"
  by (simp add: triple_def ret_def)

lemma triple_lift [act_rules]:
  "(\<And>s x. P s \<Longrightarrow> r = Inr x \<Longrightarrow> Q x s) \<Longrightarrow> (\<And>s. P s \<Longrightarrow> X s) \<Longrightarrow> triple P (lift_act r) Q X"
  by (auto simp: triple_def lift_act_def split: sum.splits)

lemma triple_read [act_rules]: "(\<And>s. P s \<Longrightarrow> Q (f s) s) \<Longrightarrow> triple P (read_act f) Q X"
  by (simp add: triple_def read_act_def)

lemma triple_change [act_rules]: "(\<And>s. P s \<Longrightarrow> Q () (f s)) \<Longrightarrow> triple P (change f) Q X"
  by (simp add: triple_def change_def)

lemma triple_bind [act_rules]:
  assumes "triple P m R X" "\<And>x. triple (R x) (f x) Q X"
  shows "triple P (bind_act m f) Q X"
proof -
  have "case bind_act m f s of (Inl e, s') \<Rightarrow> X s' | (Inr x, s') \<Rightarrow> Q x s'" if "P s" for s
  proof (cases "m s")
    case (Pair r s')
    then show ?thesis
    proof (cases r)
      case (Inl e)
      then show ?thesis using Pair triple_Inl [OF assms(1) that] by (simp add: bind_act_def)
    next
      case (Inr x)
      then have "R x s'" using Pair triple_Inr [OF assms(1) that] by simp
      then show ?thesis using Pair Inr assms(2) [of x] by (simp add: bind_act_def triple_def)
    qed
  qed
  then show ?thesis by (simp add: triple_def)
qed

lemma triple_then [act_rules]:
  "triple P m (\<lambda>_. R) X \<Longrightarrow> triple R n Q X \<Longrightarrow> triple P (then_act m n) Q X"
  unfolding then_act_def by (rule triple_bind)

lemma triple_catch [act_rules]:
  assumes "triple P m Q Y" "\<And>e. triple Y (h e) Q X"
  shows "triple P (catch_act m h) Q X"
proof -
  have "case catch_act m h s of (Inl e, s') \<Rightarrow> X s' | (Inr x, s') \<Rightarrow> Q x s'" if "P s" for s
  proof (cases "m s")
    case (Pair r s')
    then show ?thesis
    proof (cases r)
      case (Inl e)
      then have "Y s'" using Pair triple_Inl [OF assms(1) that] by simp
      then show ?thesis using Pair Inl assms(2) [of e] by (simp add: catch_act_def triple_def)
    next
      case (Inr x)
      then show ?thesis using Pair triple_Inr [OF assms(1) that] by (simp add: catch_act_def)
    qed
  qed
  then show ?thesis by (simp add: triple_def)
qed

lemma triple_if [act_rules]:
  "(c \<Longrightarrow> triple P m Q X) \<Longrightarrow> (\<not> c \<Longrightarrow> triple P n Q X) \<Longrightarrow> triple P (if c then m else n) Q X"
  by simp

lemma triple_pre: "(\<And>s. P s \<Longrightarrow> P' s) \<Longrightarrow> triple P' m Q X \<Longrightarrow> triple P m Q X"
  by (rule triple_weaken)

lemma triple_pure: "(c \<Longrightarrow> triple P m Q X) \<Longrightarrow> triple (\<lambda>s. c \<and> P s) m Q X"
  by (simp add: triple_def)

text \<open>Binding a value that costs nothing: the assertion before it is kept.\<close>

lemma triple_bind_lift [act_rules]:
  "(\<And>x. r = Inr x \<Longrightarrow> triple P (f x) Q X) \<Longrightarrow> (\<And>s. P s \<Longrightarrow> X s) \<Longrightarrow> triple P (bind_act (lift_act r) f) Q X"
  by (cases r) (auto simp: triple_def bind_act_def lift_act_def)

lemma triple_then_lift [act_rules]:
  "triple P m Q X \<Longrightarrow> (\<And>s. P s \<Longrightarrow> X s) \<Longrightarrow> triple P (then_act (lift_act r) m) Q X"
  by (cases r) (auto simp: triple_def then_act_def bind_act_def lift_act_def)

lemma triple_bind_read [act_rules]:
  "(\<And>x. triple (\<lambda>s. P s \<and> x = f s) (g x) Q X) \<Longrightarrow> triple P (bind_act (read_act f) g) Q X"
  by (simp add: triple_def bind_act_def read_act_def)

text \<open>Naming a value of the starting state.\<close>

lemma triple_fix: "(\<And>y. triple (\<lambda>s. P s \<and> f s = y) m Q X) \<Longrightarrow> triple P m Q X"
  by (simp add: triple_def)

lemma triple_bind_same:
  "triple P m (\<lambda>_. P) X \<Longrightarrow> (\<And>x. triple P (f x) Q X) \<Longrightarrow> triple P (bind_act m f) Q X"
  by (rule triple_bind)

subsection \<open>Running composed actions\<close>

lemma run_simps [simp]:
  "ret x s = (Inr x, s)" "lift_act r s = (r, s)" "read_act f s = (Inr (f s), s)" "change g s = (Inr (), g s)"
  by (simp_all add: ret_def lift_act_def read_act_def change_def)

lemma run_bind:
  "m s = (Inr x, s') \<Longrightarrow> bind_act m f s = f x s'"
  "m s = (Inl e, s') \<Longrightarrow> bind_act m f s = (Inl e, s')"
  "m s = (Inr x, s') \<Longrightarrow> then_act m n s = n s'"
  "m s = (Inl e, s') \<Longrightarrow> then_act m n s = (Inl e, s')"
  "m s = (Inr x, s') \<Longrightarrow> catch_act m h s = (Inr x, s')"
  "m s = (Inl e, s') \<Longrightarrow> catch_act m h s = h e s'"
  by (simp_all add: bind_act_def then_act_def catch_act_def)

lemma bind_act_Inr:
  "bind_act m f s = (Inr y, s'') \<longleftrightarrow> (\<exists>x s'. m s = (Inr x, s') \<and> f x s' = (Inr y, s''))"
  by (auto simp: bind_act_def split: prod.splits sum.splits)

lemma then_act_Inr:
  "then_act m n s = (Inr y, s'') \<longleftrightarrow> (\<exists>x s'. m s = (Inr x, s') \<and> n s' = (Inr y, s''))"
  by (simp add: then_act_def bind_act_Inr)

end
