(* ===== verification/Streaming.thy ===== *)
theory Streaming
  imports Actions Ledger Online Offline Jobs Quality
begin

section \<open>The stream consumer\<close>

text \<open>
  \<open>streaming.py\<close>: the handling of one Kafka message with its checks and all its ways out, the
  buffers of events that wait for a flush, the flush that stages them for an append job, the
  dead-letter topic, the commits, and the recovery of pending events at the start. The state holds
  everything the consumer changes: the shared database, the online and offline stores, its buffers,
  the offsets it has committed, and its dead letters: those on their topics, those in the queue of
  the Kafka producer, and those the producer has given up. Random identifiers, clock readings and the outcomes of the calls
  to Kafka are functions of a counter that every draw advances. \<open>pa.Table.from_pylist\<close> and the
  text of an exception are parameters; counters, histograms and gauges are left out.
\<close>

subsection \<open>Messages and the consumer\<close>

record message =
  mg_topic :: "string option"
  mg_partition :: "int option"
  mg_offset :: "int option"
  mg_key :: "string option"
  mg_value :: "string option"
  mg_error :: bool

record buffered =
  bf_record :: string
  bf_event :: stream_event
  bf_messages :: "message list"

record dead_letter =
  dl_topic :: string
  dl_message :: message
  dl_header :: string
  dl_text :: string

datatype delivery = Delivered | StillQueued | GivenUp

type_synonym buffer = "(string \<times> buffered) list"

record ('s, 'd) consumer =
  cs_db :: database
  cs_redis :: 's
  cs_lake :: 'd
  cs_buffers :: "(string \<times> buffer) list"
  cs_commits :: "message list"
  cs_letters :: "dead_letter list"
  cs_outbox :: "dead_letter list"
  cs_dropped :: "dead_letter list"
  cs_draws :: nat
  cs_last_flush :: int

record ('s, 'd) stream_env =
  se_env :: pyenv
  se_settings :: settings
  se_redis :: "'s redis"
  se_delta :: "'d delta"
  se_registry :: registry
  se_uuid :: "nat \<Rightarrow> string"
  se_now :: "nat \<Rightarrow> int"
  se_monotonic :: "nat \<Rightarrow> int"
  se_commit :: "nat \<Rightarrow> unit result"
  se_produce :: "nat \<Rightarrow> unit result"
  se_deliver :: "nat \<Rightarrow> dead_letter \<Rightarrow> delivery"
  se_table :: "row list \<Rightarrow> table result"
  se_text :: "py_error \<Rightarrow> string"

datatype outcome =
  ConsumerError | Accepted | DuplicatePending | Duplicate | QualityRejected | QualityQuarantined | DeadLettered

type_synonym ('a, 's, 'd) stream_action = "('a, ('s, 'd) consumer) action"

definition draw :: "(nat \<Rightarrow> 'a) \<Rightarrow> ('a, 's, 'd) stream_action" where
  "draw f s = (Inr (f (cs_draws s)), s\<lparr>cs_draws := Suc (cs_draws s)\<rparr>)"

definition on_db :: "(database \<Rightarrow> ('a \<times> database) result) \<Rightarrow> ('a, 's, 'd) stream_action" where
  "on_db f s = (case f (cs_db s) of Inl e \<Rightarrow> (Inl e, s) | Inr (x, db) \<Rightarrow> (Inr x, s\<lparr>cs_db := db\<rparr>))"

definition on_redis :: "('s \<Rightarrow> ('a \<times> 's) result) \<Rightarrow> ('a, 's, 'd) stream_action" where
  "on_redis f s = (case f (cs_redis s) of Inl e \<Rightarrow> (Inl e, s) | Inr (x, r) \<Rightarrow> (Inr x, s\<lparr>cs_redis := r\<rparr>))"

definition on_lake :: "('d \<Rightarrow> 'd result) \<Rightarrow> (unit, 's, 'd) stream_action" where
  "on_lake f s = (case f (cs_lake s) of Inl e \<Rightarrow> (Inl e, s) | Inr d \<Rightarrow> (Inr (), s\<lparr>cs_lake := d\<rparr>))"

subsection \<open>Kafka\<close>

definition commit_message :: "('s, 'd) stream_env \<Rightarrow> message \<Rightarrow> (unit, 's, 'd) stream_action" where
  "commit_message E m =
     bind_act (draw (se_commit E)) (\<lambda>r.
     then_act (lift_act r) (change (\<lambda>s. s\<lparr>cs_commits := cs_commits s @ [m]\<rparr>)))"

text \<open>An f-string shows a missing topic as \<open>None\<close>.\<close>

definition opt_text :: "string option \<Rightarrow> string" where
  "opt_text x = (case x of None \<Rightarrow> ''None'' | Some t \<Rightarrow> t)"

definition letter_topic :: "object_spec \<Rightarrow> message \<Rightarrow> string option" where
  "letter_topic sp m =
     (case sp of
        SStream ss \<Rightarrow> if Some (ss_topic ss) = mg_topic m \<and> ss_dead_letter ss \<noteq> None \<and> ss_dead_letter ss \<noteq> Some []
          then ss_dead_letter ss else None
      | _ \<Rightarrow> None)"

fun first_topic :: "object_spec list \<Rightarrow> message \<Rightarrow> string" where
  "first_topic [] m = opt_text (mg_topic m) @ ''.dlq''"
| "first_topic (sp # sps) m = (case letter_topic sp m of Some t \<Rightarrow> t | None \<Rightarrow> first_topic sps m)"

definition dead_letter_topic :: "pyenv \<Rightarrow> registry \<Rightarrow> message \<Rightarrow> string result" where
  "dead_letter_topic env reg m =
     bind_result (list_records env reg (Some KStreamSource)) (\<lambda>ls.
     Inr (first_topic (map (\<lambda>l. r_spec (ls_record l)) ls) m))"

text \<open>
  \<open>produce\<close> puts a letter into the queue of the producer; \<open>flush(10)\<close> waits for the queue and returns how
  many letters are left in it. What became of each is up to Kafka: no delivery callback is installed.
\<close>

definition deliver :: "(dead_letter \<Rightarrow> delivery) \<Rightarrow> ('s, 'd) consumer \<Rightarrow> ('s, 'd) consumer" where
  "deliver f s = s\<lparr>cs_letters := cs_letters s @ filter (\<lambda>l. f l = Delivered) (cs_outbox s),
     cs_outbox := filter (\<lambda>l. f l = StillQueued) (cs_outbox s),
     cs_dropped := cs_dropped s @ filter (\<lambda>l. f l = GivenUp) (cs_outbox s)\<rparr>"

definition producer_flush :: "('s, 'd) stream_env \<Rightarrow> (nat, 's, 'd) stream_action" where
  "producer_flush E =
     bind_act (draw (se_deliver E)) (\<lambda>f. then_act (change (deliver f)) (read_act (\<lambda>s. length (cs_outbox s))))"

definition dead_letter :: "('s, 'd) stream_env \<Rightarrow> message \<Rightarrow> string \<Rightarrow> bool \<Rightarrow> (unit, 's, 'd) stream_action" where
  "dead_letter E m err quality =
     bind_act (lift_act (dead_letter_topic (se_env E) (se_registry E) m)) (\<lambda>topic.
     bind_act (draw (se_produce E)) (\<lambda>r.
     then_act (lift_act r) (
     then_act (change (\<lambda>s. s\<lparr>cs_outbox := cs_outbox s @
          [\<lparr>dl_topic = topic, dl_message = m,
            dl_header = (if quality then ''feature-store-quality-error'' else ''feature-store-error''),
            dl_text = take 500 err\<rparr>]\<rparr>))
       (bind_act (producer_flush E) (\<lambda>left. ret ())))))"

subsection \<open>Flushing\<close>

text \<open>\<open>event.entity_values[key]\<close>: subscripting a dictionary.\<close>

definition item :: "row \<Rightarrow> string \<Rightarrow> pyval result" where
  "item d k = (case map_of d k of None \<Rightarrow> Inl (KeyError k) | Some v \<Rightarrow> Inr v)"

definition utc_instant :: "datetime \<Rightarrow> int result" where
  "utc_instant d = (if in_range (instant d) then Inr (instant d) else Inl (OverflowError ''date value out of range''))"

definition set_all :: "(string \<times> pyval) list \<Rightarrow> row \<Rightarrow> row" where
  "set_all kvs r = fold (\<lambda>(k, v) r. dict_set r k v) kvs r"

definition staged_row :: "string list \<Rightarrow> string list \<Rightarrow> stream_event \<Rightarrow> row result" where
  "staged_row keys names e =
     bind_result (utc_instant (ev_time e)) (\<lambda>t.
     bind_result (traverse (item (ev_entity e)) keys) (\<lambda>ks.
     bind_result (traverse (item (ev_values e)) names) (\<lambda>vs.
     Inr (dict_set (set_all (zip names vs)
            (dict_set (dict_set (set_all (zip keys ks) []) ''event_timestamp'' (VTime (Aware t 0)))
              ''event_id'' (VStr (ev_id e))))
            ''event_date'' (VStr (take 10 (iso_us t)))))))"

definition staging_uri :: "string \<Rightarrow> string \<Rightarrow> string \<Rightarrow> string" where
  "staging_uri bucket view i =
     ''s3://'' @ bucket @ ''/staging/'' @ replace_char (CHR ''@'') ''/'' view @ CHR ''/'' # i"

definition to_stage :: "buffered list \<Rightarrow> database \<Rightarrow> event_record list" where
  "to_stage bs db = filter (\<lambda>r. er_id r \<in> bf_record ` set bs \<and> er_state r = EPending) (db_events db)"

text \<open>The transaction at the end of \<open>_flush_view\<close>: the append job and the staged rows together.\<close>

definition stage_records ::
    "settings \<Rightarrow> string \<Rightarrow> int \<Rightarrow> string \<Rightarrow> string \<Rightarrow> buffered list \<Rightarrow> database \<Rightarrow> (unit \<times> database) result" where
  "stage_records st i now view uri bs db =
     (if length (to_stage bs db) \<noteq> length bs
      then Inl (RuntimeError ''stream event state changed before staging'')
      else bind_result (create_offline_append st i now view uri db) (\<lambda>(job, db').
        Inr ((), mark_staged now (to_stage bs db) (j_id job) db')))"

definition flush_table :: "('s, 'd) stream_env \<Rightarrow> string \<Rightarrow> buffered list \<Rightarrow> table result" where
  "flush_table E view bs =
     bind_result (feature_view_of (se_registry E) view) (\<lambda>v.
     bind_result (entity_of (se_registry E) (v_entity v)) (\<lambda>en.
     bind_result (traverse (staged_row (map fst (e_join_keys en)) (feature_names v)) (map bf_event bs)) (\<lambda>rows.
     se_table E rows)))"

definition flush_view :: "('s, 'd) stream_env \<Rightarrow> string \<Rightarrow> buffered list \<Rightarrow> (message list, 's, 'd) stream_action" where
  "flush_view E view bs =
     bind_act (lift_act (flush_table E view bs)) (\<lambda>t.
     bind_act (draw (se_uuid E)) (\<lambda>u.
     let uri = staging_uri (st_bucket (se_settings E)) view u in
     then_act (on_lake (append_rows (se_delta E) uri t (Some ''event_date''))) (
     bind_act (draw (se_uuid E)) (\<lambda>i.
     bind_act (draw (se_now E)) (\<lambda>now.
     then_act (on_db (stage_records (se_settings E) i now view uri bs))
       (ret (concat (map bf_messages bs))))))))"

fun flush_views :: "('s, 'd) stream_env \<Rightarrow> (string \<times> buffer) list \<Rightarrow> message list \<Rightarrow> (message list, 's, 'd) stream_action" where
  "flush_views E [] ms = ret ms"
| "flush_views E ((view, buf) # bufs) ms =
     (if buf = [] then flush_views E bufs ms
      else bind_act (flush_view E view (map snd buf)) (\<lambda>new.
        then_act (change (\<lambda>s. s\<lparr>cs_buffers := dict_set (cs_buffers s) view []\<rparr>))
          (flush_views E bufs (ms @ new))))"

fun latest_by_partition ::
    "message list \<Rightarrow> ((string \<times> int) \<times> message) list \<Rightarrow> ((string \<times> int) \<times> message) list result" where
  "latest_by_partition [] d = Inr d"
| "latest_by_partition (m # ms) d =
     (case (mg_topic m, mg_partition m, mg_offset m) of
        (Some t, Some p, Some o') \<Rightarrow>
          (case map_of d (t, p) of
             None \<Rightarrow> latest_by_partition ms (dict_set d (t, p) m)
           | Some prev \<Rightarrow>
               if (case mg_offset prev of None \<Rightarrow> True | Some q \<Rightarrow> q < o')
               then latest_by_partition ms (dict_set d (t, p) m)
               else latest_by_partition ms d)
      | _ \<Rightarrow> Inl (ValueError ''Kafka message is missing topic, partition, or offset''))"

fun commit_all :: "('s, 'd) stream_env \<Rightarrow> message list \<Rightarrow> (unit, 's, 'd) stream_action" where
  "commit_all E [] = ret ()"
| "commit_all E (m # ms) = then_act (commit_message E m) (commit_all E ms)"

definition commit_latest :: "('s, 'd) stream_env \<Rightarrow> message list \<Rightarrow> (unit, 's, 'd) stream_action" where
  "commit_latest E ms =
     bind_act (lift_act (latest_by_partition ms [])) (\<lambda>d. commit_all E (map snd d))"

definition flush :: "('s, 'd) stream_env \<Rightarrow> (unit, 's, 'd) stream_action" where
  "flush E =
     bind_act (read_act cs_buffers) (\<lambda>bufs.
     bind_act (flush_views E bufs []) (\<lambda>ms.
     then_act (commit_latest E ms) (
     bind_act (draw (se_monotonic E)) (\<lambda>t. change (\<lambda>s. s\<lparr>cs_last_flush := t\<rparr>)))))"

definition buffered_count :: "(string \<times> buffer) list \<Rightarrow> nat" where
  "buffered_count bufs =
     sum_list (map (\<lambda>b. sum_list (map (\<lambda>kb. max 1 (length (bf_messages (snd kb)))) (snd b))) bufs)"

definition should_flush :: "settings \<Rightarrow> int \<Rightarrow> ('s, 'd) consumer \<Rightarrow> bool" where
  "should_flush st now s =
     (let n = int (buffered_count (cs_buffers s))
      in st_batch_size st \<le> n \<or> (0 < n \<and> st_flush st \<le> now - cs_last_flush s))"

subsection \<open>Handling a message\<close>

definition get_buffer :: "(string \<times> buffer) list \<Rightarrow> string \<Rightarrow> buffer" where
  "get_buffer bufs view = (case map_of bufs view of None \<Rightarrow> [] | Some b \<Rightarrow> b)"

definition add_message :: "message option \<Rightarrow> buffered \<Rightarrow> buffered" where
  "add_message m b = (case m of None \<Rightarrow> b | Some x \<Rightarrow> b\<lparr>bf_messages := bf_messages b @ [x]\<rparr>)"

text \<open>\<open>_buffer\<close>: \<open>True\<close> when the event was not in the buffer yet.\<close>

definition buffer_event :: "string \<Rightarrow> stream_event \<Rightarrow> message option \<Rightarrow> (bool, 's, 'd) stream_action" where
  "buffer_event i e m s =
     (let buf = get_buffer (cs_buffers s) (ev_view e);
          old = map_of buf (ev_id e);
          b = (case old of None \<Rightarrow> \<lparr>bf_record = i, bf_event = e, bf_messages = []\<rparr> | Some b \<Rightarrow> b)
      in (Inr (old = None),
          s\<lparr>cs_buffers := dict_set (cs_buffers s) (ev_view e) (dict_set buf (ev_id e) (add_message m b))\<rparr>))"

definition write_online :: "('s, 'd) stream_env \<Rightarrow> stream_event \<Rightarrow> (bool, 's, 'd) stream_action" where
  "write_online E e = on_redis (upsert (se_env E) (se_redis E) e)"

definition parse_message :: "pyenv \<Rightarrow> message \<Rightarrow> stream_event result" where
  "parse_message env m =
     (case mg_value m of
        None \<Rightarrow> Inl (ValueError ''message value is empty'')
      | Some raw \<Rightarrow> bind_result (json_loads env raw) (parse_event env))"

fun check_values :: "pyenv \<Rightarrow> row \<Rightarrow> feature list \<Rightarrow> unit result" where
  "check_values env vals [] = Inr ()"
| "check_values env vals (f # fs) =
     bind_result (item vals (f_name f)) (\<lambda>v.
     bind_result (validate_feature_value env (f_dtype f) v) (\<lambda>_. check_values env vals fs))"

text \<open>The checks of an event against the registry, up to its quality verdict.\<close>

definition check_event ::
    "pyenv \<Rightarrow> registry \<Rightarrow> message \<Rightarrow> stream_event \<Rightarrow> int \<Rightarrow> (feature_view \<times> quality_validation) result" where
  "check_event env reg m e now =
     bind_result (utc_instant (ev_time e)) (\<lambda>_.
     bind_result (feature_view_of reg (ev_view e)) (\<lambda>v.
     if v_stream_source v = None \<or> v_stream_source v = Some []
     then Inl (ValueError (view_ref v @ '' has no stream source''))
     else bind_result (stream_source_of reg (the (v_stream_source v))) (\<lambda>ss.
     if Some (ss_topic ss) \<noteq> mg_topic m
     then Inl (ValueError (view_ref v @ '' is not configured for topic '' @ opt_text (mg_topic m)))
     else bind_result (entity_of reg (v_entity v)) (\<lambda>en.
     if missing_keys en (ev_entity e) \<noteq> [] then Inl (ValueError ''missing entity keys'')
     else if fst ` set (ev_values e) \<noteq> set (feature_names v)
     then Inl (ValueError ''feature values must exactly match schema'')
     else bind_result (check_values env (ev_values e) (v_features v)) (\<lambda>_.
     bind_result (validate_quality_event env (ev_values e) (v_features v) (ev_time e) (Aware now 0)) (\<lambda>q.
     Inr (v, q)))))))"

definition settle :: "('s, 'd) stream_env \<Rightarrow> message \<Rightarrow> outcome \<Rightarrow> (outcome, 's, 'd) stream_action" where
  "settle E m out = then_act (flush E) (then_act (commit_message E m) (ret out))"

definition dead_letter_settle :: "('s, 'd) stream_env \<Rightarrow> message \<Rightarrow> string \<Rightarrow> bool \<Rightarrow> outcome \<Rightarrow> (outcome, 's, 'd) stream_action" where
  "dead_letter_settle E m err quality out = then_act (dead_letter E m err quality) (settle E m out)"

definition conflict_text :: "stream_event \<Rightarrow> string" where
  "conflict_text e = ''event identity '' @ ev_view e @ CHR '':'' # ev_id e @ '' was reused with different content''"

text \<open>The end of the \<open>try\<close> block, with the registration of the event.\<close>

definition take_event :: "('s, 'd) stream_env \<Rightarrow> message \<Rightarrow> stream_event \<Rightarrow> registration \<Rightarrow> (outcome, 's, 'd) stream_action" where
  "take_event E m e reg =
     (if rg_result reg = RConflict then dead_letter_settle E m (conflict_text e) False DeadLettered
      else if er_state (rg_record reg) \<noteq> EPending then settle E m Duplicate
      else bind_act (lift_act (ledger_event (se_env E) (rg_record reg))) (\<lambda>durable.
        bind_act (buffer_event (er_id (rg_record reg)) durable (Some m)) (\<lambda>created.
        then_act (if created then write_online E durable else ret False)
          (ret (if rg_result reg = RNew then Accepted else DuplicatePending)))))"

definition register_event :: "('s, 'd) stream_env \<Rightarrow> message \<Rightarrow> stream_event \<Rightarrow> (registration, 's, 'd) stream_action" where
  "register_event E m e =
     bind_act (draw (se_uuid E)) (\<lambda>i.
     bind_act (draw (se_now E)) (\<lambda>now.
     on_db (register (se_env E) i now (mg_topic m, mg_partition m, mg_offset m) e)))"

definition handle_valid :: "('s, 'd) stream_env \<Rightarrow> message \<Rightarrow> stream_event \<Rightarrow> (outcome, 's, 'd) stream_action" where
  "handle_valid E m e =
     bind_act (draw (se_now E)) (\<lambda>now.
     bind_act (lift_act (check_event (se_env E) (se_registry E) m e now)) (\<lambda>(v, q).
     if qv_violations q \<noteq> [] \<and> effective_policy v = Reject then settle E m QualityRejected
     else if qv_violations q \<noteq> [] \<and> effective_policy v = Quarantine
     then dead_letter_settle E m (bounded_message q) True QualityQuarantined
     else bind_act (register_event E m e) (take_event E m e)))"

text \<open>\<open>_handle\<close>; both \<open>except\<close> clauses do the same up to their metrics.\<close>

definition handle :: "('s, 'd) stream_env \<Rightarrow> message \<Rightarrow> (outcome, 's, 'd) stream_action" where
  "handle E m =
     (if mg_error m then ret ConsumerError
      else catch_act
        (bind_act (lift_act (parse_message (se_env E) m)) (handle_valid E m))
        (\<lambda>exc. dead_letter_settle E m (se_text E exc) False DeadLettered))"

subsection \<open>Starting and running\<close>

definition recover_one :: "('s, 'd) stream_env \<Rightarrow> event_record \<Rightarrow> (unit, 's, 'd) stream_action" where
  "recover_one E r =
     bind_act (lift_act (ledger_event (se_env E) r)) (\<lambda>e.
     bind_act (buffer_event (er_id r) e None) (\<lambda>created.
     then_act (if created then write_online E e else ret False) (ret ())))"

fun recover_all :: "('s, 'd) stream_env \<Rightarrow> event_record list \<Rightarrow> (unit, 's, 'd) stream_action" where
  "recover_all E [] = ret ()"
| "recover_all E (r # rs) = then_act (recover_one E r) (recover_all E rs)"

definition recover_pending :: "('s, 'd) stream_env \<Rightarrow> (nat, 's, 'd) stream_action" where
  "recover_pending E =
     bind_act (read_act (\<lambda>s. pending (cs_db s))) (\<lambda>rs.
     then_act (recover_all E rs) (
     then_act (if rs \<noteq> [] then flush E else ret ()) (ret (length rs))))"

text \<open>The topics to subscribe to: the sorted set of those of the registered sources.\<close>

definition topic_of :: "object_spec \<Rightarrow> string list" where
  "topic_of sp = (case sp of SStream ss \<Rightarrow> [ss_topic ss] | _ \<Rightarrow> [])"

definition subscribe_topics :: "pyenv \<Rightarrow> registry \<Rightarrow> string list result" where
  "subscribe_topics env reg =
     bind_result (list_records env reg (Some KStreamSource)) (\<lambda>ls.
       let ts = sort (remdups (concat (map (\<lambda>l. topic_of (r_spec (ls_record l))) ls)))
       in if ts = [] then Inl (RuntimeError ''no stream sources registered'') else Inr ts)"

text \<open>One turn of \<open>loop\<close> after \<open>poll\<close>, which may return nothing.\<close>

definition turn :: "('s, 'd) stream_env \<Rightarrow> message option \<Rightarrow> (unit, 's, 'd) stream_action" where
  "turn E m =
     then_act (case m of None \<Rightarrow> ret () | Some x \<Rightarrow> then_act (handle E x) (ret ()))
      (bind_act (draw (se_monotonic E)) (\<lambda>now.
       bind_act (read_act (should_flush (se_settings E) now)) (\<lambda>due.
       if due then flush E else ret ())))"

end
