(* ===== verification/StreamSafety.thy ===== *)
theory StreamSafety
  imports Streaming
begin

section \<open>No accepted message is lost\<close>

text \<open>
  A commit tells Kafka that everything up to an offset is dealt with. This theory shows that the
  consumer only commits when nothing it has accepted waits in a buffer, and that every message it has
  accepted is, at any time, recorded in the ledger beyond the pending state or waiting in a buffer
  whose ledger row exists. A message it has dead-lettered is on its topic, or the producer still has
  the letter, or the producer has given it up: the offset is committed in each of these cases. The
  invariant \<open>sound\<close> is carried through the code by triples, once for each of the two scopes.
\<close>

subsection \<open>Settled and waiting messages\<close>

definition message_key :: "pyenv \<Rightarrow> message \<Rightarrow> (string \<times> string) option" where
  "message_key env m = (case parse_message env m of Inl _ \<Rightarrow> None | Inr e \<Rightarrow> Some (ev_view e, ev_id e))"

definition event_done :: "database \<Rightarrow> string \<times> string \<Rightarrow> bool" where
  "event_done db k \<longleftrightarrow> (\<exists>r \<in> set (db_events db). event_row_key r = k \<and> er_state r \<noteq> EPending)"

definition handed_over :: "pyenv \<Rightarrow> ('s, 'd) consumer \<Rightarrow> message \<Rightarrow> bool" where
  "handed_over env s m \<longleftrightarrow> (\<exists>k. message_key env m = Some k \<and> event_done (cs_db s) k)"

definition on_topic :: "('s, 'd) consumer \<Rightarrow> message \<Rightarrow> bool" where
  "on_topic s m \<longleftrightarrow> m \<in> dl_message ` set (cs_letters s)"

text \<open>The letter of the message was produced and is not on its topic.\<close>

definition undelivered :: "('s, 'd) consumer \<Rightarrow> message \<Rightarrow> bool" where
  "undelivered s m \<longleftrightarrow> m \<in> dl_message ` (set (cs_outbox s) \<union> set (cs_dropped s))"

text \<open>The messages that were accepted, and those that were dead-lettered.\<close>

datatype scope = Ledgered | Lettered

definition settled :: "scope \<Rightarrow> pyenv \<Rightarrow> ('s, 'd) consumer \<Rightarrow> message \<Rightarrow> bool" where
  "settled sc env s m \<longleftrightarrow> (case sc of Ledgered \<Rightarrow> handed_over env s m | Lettered \<Rightarrow> on_topic s m \<or> undelivered s m)"

definition waiting :: "(string \<times> buffer) list \<Rightarrow> message \<Rightarrow> bool" where
  "waiting bufs m \<longleftrightarrow> (\<exists>vb \<in> set bufs. \<exists>ib \<in> set (snd vb). m \<in> set (bf_messages (snd ib)))"

definition held_back :: "scope \<Rightarrow> (string \<times> buffer) list \<Rightarrow> message \<Rightarrow> bool" where
  "held_back sc bufs m \<longleftrightarrow> sc = Ledgered \<and> waiting bufs m"

definition drained :: "('s, 'd) consumer \<Rightarrow> bool" where
  "drained s \<longleftrightarrow> (\<forall>vb \<in> set (cs_buffers s). snd vb = [])"

lemma drained_not_waiting: "drained s \<Longrightarrow> \<not> held_back sc (cs_buffers s) m"
  by (auto simp: drained_def waiting_def held_back_def)

lemmas settled_defs = settled_def handed_over_def on_topic_def undelivered_def

subsection \<open>The invariant\<close>

text \<open>A row names its event; a buffered event has a row, and its messages carry that event.\<close>

definition row_named :: "pyenv \<Rightarrow> event_record \<Rightarrow> bool" where
  "row_named env r \<longleftrightarrow> (\<forall>e. ledger_event env r = Inr e \<longrightarrow> event_row_key r = (ev_view e, ev_id e))"

definition events_ok :: "pyenv \<Rightarrow> database \<Rightarrow> bool" where
  "events_ok env db \<longleftrightarrow> distinct (map er_id (db_events db)) \<and> (\<forall>r \<in> set (db_events db). row_named env r)"

definition backed :: "database \<Rightarrow> string \<Rightarrow> string \<times> string \<Rightarrow> bool" where
  "backed db i k \<longleftrightarrow> (\<exists>r \<in> set (db_events db). er_id r = i \<and> event_row_key r = k)"

definition entry_ok :: "pyenv \<Rightarrow> database \<Rightarrow> string \<Rightarrow> string \<times> buffered \<Rightarrow> bool" where
  "entry_ok env db view ib \<longleftrightarrow> backed db (bf_record (snd ib)) (view, fst ib) \<and>
     (\<forall>m \<in> set (bf_messages (snd ib)). message_key env m = Some (view, fst ib))"

definition buffers_ok :: "pyenv \<Rightarrow> database \<Rightarrow> (string \<times> buffer) list \<Rightarrow> bool" where
  "buffers_ok env db bufs \<longleftrightarrow> distinct (map fst bufs) \<and>
     (\<forall>vb \<in> set bufs. \<forall>ib \<in> set (snd vb). entry_ok env db (fst vb) ib)"

definition stream_ok :: "pyenv \<Rightarrow> ('s, 'd) consumer \<Rightarrow> bool" where
  "stream_ok env s \<longleftrightarrow> events_ok env (cs_db s) \<and> buffers_ok env (cs_db s) (cs_buffers s)"

definition kept :: "scope \<Rightarrow> pyenv \<Rightarrow> message set \<Rightarrow> ('s, 'd) consumer \<Rightarrow> bool" where
  "kept sc env M s \<longleftrightarrow> (\<forall>m \<in> M. settled sc env s m \<or> held_back sc (cs_buffers s) m)"

text \<open>
  For the scope of \<open>C\<close>, and relative to a point with its commits where its old messages were settled: they
  still are, the messages \<open>M\<close> are kept, and if anything was committed since, the buffers are empty.
\<close>

record baseline =
  bs_commits :: "message list"
  bs_old :: "message set"
  bs_scope :: scope

definition sound :: "pyenv \<Rightarrow> baseline \<Rightarrow> message set \<Rightarrow> ('s, 'd) consumer \<Rightarrow> bool" where
  "sound env C M s \<longleftrightarrow> stream_ok env s \<and> kept (bs_scope C) env M s \<and> (\<forall>m \<in> bs_old C. settled (bs_scope C) env s m) \<and>
     (cs_commits s = bs_commits C \<or> drained s)"

lemma settled_unaffected [simp]:
  "settled sc env (s\<lparr>cs_draws := n\<rparr>) m = settled sc env s m" "settled sc env (s\<lparr>cs_redis := r\<rparr>) m = settled sc env s m"
  "settled sc env (s\<lparr>cs_lake := d\<rparr>) m = settled sc env s m" "settled sc env (s\<lparr>cs_last_flush := t\<rparr>) m = settled sc env s m"
  "settled sc env (s\<lparr>cs_buffers := bufs\<rparr>) m = settled sc env s m" "settled sc env (s\<lparr>cs_commits := ms\<rparr>) m = settled sc env s m"
  by (cases sc; simp add: settled_defs)+

lemma sound_unaffected [simp]:
  "sound env C M (s\<lparr>cs_draws := n\<rparr>) = sound env C M s"
  "sound env C M (s\<lparr>cs_redis := r\<rparr>) = sound env C M s"
  "sound env C M (s\<lparr>cs_lake := d\<rparr>) = sound env C M s"
  "sound env C M (s\<lparr>cs_last_flush := t\<rparr>) = sound env C M s"
  by (simp_all add: sound_def stream_ok_def kept_def drained_def)

lemma drained_unaffected [simp]:
  "drained (s\<lparr>cs_draws := n\<rparr>) = drained s" "drained (s\<lparr>cs_redis := r\<rparr>) = drained s"
  "drained (s\<lparr>cs_lake := d\<rparr>) = drained s" "drained (s\<lparr>cs_last_flush := t\<rparr>) = drained s"
  "drained (s\<lparr>cs_db := db\<rparr>) = drained s" "drained (s\<lparr>cs_commits := ms\<rparr>) = drained s"
  "drained (s\<lparr>cs_letters := ls\<rparr>) = drained s"
  by (simp_all add: drained_def)

lemma sound_mono: "sound env C M s \<Longrightarrow> N \<subseteq> M \<Longrightarrow> sound env C N s"
  by (auto simp: sound_def kept_def)

subsection \<open>Changes of the ledger\<close>

definition grows :: "database \<Rightarrow> database \<Rightarrow> bool" where
  "grows db db' \<longleftrightarrow> (\<forall>r \<in> set (db_events db). \<exists>r' \<in> set (db_events db').
     er_id r' = er_id r \<and> event_row_key r' = event_row_key r \<and> (er_state r \<noteq> EPending \<longrightarrow> er_state r' \<noteq> EPending))"

lemma grows_refl: "grows db db"
  by (auto simp: grows_def)

lemma grows_done: "grows db db' \<Longrightarrow> event_done db k \<Longrightarrow> event_done db' k"
  unfolding grows_def event_done_def by metis

lemma grows_backed: "grows db db' \<Longrightarrow> backed db i k \<Longrightarrow> backed db' i k"
  unfolding grows_def backed_def by metis

lemma grows_settled: "grows (cs_db s) db \<Longrightarrow> settled sc env s m \<Longrightarrow> settled sc env (s\<lparr>cs_db := db\<rparr>) m"
  using grows_done [of "cs_db s" db] by (auto simp: settled_defs split: scope.splits)

lemma grows_sound:
  assumes "sound env C M s" "grows (cs_db s) db" "events_ok env db"
  shows "sound env C M (s\<lparr>cs_db := db\<rparr>)"
proof -
  have "\<forall>m \<in> bs_old C. settled (bs_scope C) env (s\<lparr>cs_db := db\<rparr>) m"
    using assms(1) grows_settled [OF assms(2)] by (simp add: sound_def)
  moreover have "buffers_ok env db (cs_buffers s)"
    using assms(1) grows_backed [OF assms(2)] by (fastforce simp: sound_def stream_ok_def buffers_ok_def entry_ok_def)
  moreover have "kept (bs_scope C) env M (s\<lparr>cs_db := db\<rparr>)"
    using assms(1) grows_settled [OF assms(2)] by (auto simp: sound_def kept_def)
  ultimately show ?thesis using assms(1,3) by (simp add: sound_def stream_ok_def)
qed

lemma updated_events_grow:
  assumes "db_events db' = map f (db_events db)"
    and "\<And>r. er_id (f r) = er_id r \<and> event_row_key (f r) = event_row_key r \<and> er_payload (f r) = er_payload r"
    and "\<And>r. er_state r \<noteq> EPending \<Longrightarrow> er_state (f r) \<noteq> EPending"
  shows "grows db db'" and "events_ok env db \<Longrightarrow> events_ok env db'"
proof -
  show "grows db db'" using assms by (fastforce simp: grows_def)
  have ids: "map er_id (db_events db') = map er_id (db_events db)" using assms(1,2) by simp
  have "row_named env (f r) = row_named env r" for r
    using assms(2) by (simp add: row_named_def ledger_event_def)
  then show "events_ok env db \<Longrightarrow> events_ok env db'" unfolding events_ok_def ids using assms(1) by simp
qed

lemma pending_record_named:
  assumes "canonical_event_payload env e = Inr p"
  shows "row_named env (pending_record i now e fp p pos)"
proof -
  obtain d d' where d: "json_mode env (VDict (ev_entity e)) = VDict d" "json_mode env (VDict (ev_values e)) = VDict d'"
    by simp
  have p: "p = VDict [(''event_id'', VStr (ev_id e)), (''feature_view'', VStr (ev_view e)), (''entity_values'', VDict d),
      (''event_timestamp'', VStr (iso_us (instant (ev_time e)))), (''values'', VDict d')]"
    using assms unfolding canonical_event_payload_def d by (simp split: if_splits)
  have parse: "parse_event env p = (case env_parse_time env (VStr (iso_us (instant (ev_time e)))) of
      None \<Rightarrow> Inl (ValidationError ''StreamFeatureEvent: a field has the wrong type'')
    | Some t \<Rightarrow> mk_event (ev_id e) (ev_view e) d t d')"
    unfolding p by (simp add: parse_event_def event_fields_def dict_get_def split: option.split)
  show ?thesis unfolding row_named_def
  proof (intro allI impI)
    fix x assume "ledger_event env (pending_record i now e fp p pos) = Inr x"
    then have x: "parse_event env p = Inr x" by (simp add: ledger_event_def pending_record_def)
    then obtain t where "mk_event (ev_id e) (ev_view e) d t d' = Inr x"
      using parse by (cases "env_parse_time env (VStr (iso_us (instant (ev_time e))))") simp_all
    then have "ev_id x = ev_id e \<and> ev_view x = ev_view e" by (auto simp: mk_event_def split: if_splits)
    then show "event_row_key (pending_record i now e fp p pos) = (ev_view x, ev_id x)"
      by (simp add: pending_record_def event_row_key_def)
  qed
qed

lemma register_grows:
  assumes "events_ok env db" "register env i now pos e db = Inr (reg, db')"
  shows "grows db db' \<and> events_ok env db' \<and> rg_record reg \<in> set (db_events db') \<and>
    event_row_key (rg_record reg) = (ev_view e, ev_id e)"
  using assms(2)
proof (cases rule: register_cases)
  case (old p r)
  then show ?thesis using assms(1) events.lookup_SomeD [OF old(2)] grows_refl by auto
next
  case (new p)
  have "row_named env (rg_record reg)" using new pending_record_named by simp
  moreover have "er_id (rg_record reg) = i" "event_row_key (rg_record reg) = (ev_view e, ev_id e)"
    using new by (simp_all add: pending_record_def event_row_key_def)
  moreover have "grows db db'" using new by (auto simp: grows_def)
  ultimately show ?thesis using new assms(1) by (simp add: events_ok_def)
qed

text \<open>The rows that a flush stages: all of its buffer, when the counts agree.\<close>

lemma stage_records_done:
  assumes "events_ok env db" "stage_records st i now view uri bs db = Inr (u, db')"
  shows "grows db db' \<and> events_ok env db' \<and> (\<forall>b \<in> set bs. \<forall>k. backed db (bf_record b) k \<longrightarrow> event_done db' k)"
proof -
  let ?rs = "to_stage bs db"
  have len: "length ?rs = length bs" using assms(2) by (simp add: stage_records_def split: if_splits)
  obtain job db1 where job: "create_offline_append st i now view uri db = Inr (job, db1)" "db' = mark_staged now ?rs (j_id job) db1"
    using assms(2) len by (auto simp: stage_records_def bind_result_eq_Inr)
  have e1: "db_events db1 = db_events db"
    using job(1) by (auto simp: create_offline_append_def bind_result_eq_Inr add_job_Inr Let_def)
  let ?f = "\<lambda>r. if er_id r \<in> er_id ` set ?rs
      then r\<lparr>er_state := EStaged, er_job := Some (j_id job), er_staged := Some now, er_updated := now\<rparr> else r"
  have e': "db_events db' = map ?f (db_events db)" using job(2) e1 by (simp add: mark_staged_def sql_update_def)
  have "grows db db'" "events_ok env db'"
    using updated_events_grow [OF e'] assms(1) by (simp_all add: event_row_key_def)
  moreover have "event_done db' k" if b: "b \<in> set bs" and k: "backed db (bf_record b) k" for b k
  proof -
    have dist: "distinct (map er_id ?rs)" using assms(1) distinct_map_filter by (auto simp: events_ok_def to_stage_def)
    have "card (er_id ` set ?rs) = length bs" using distinct_card [OF dist] len by simp
    moreover have sub: "er_id ` set ?rs \<subseteq> bf_record ` set bs" by (auto simp: to_stage_def)
    moreover have "card (bf_record ` set bs) \<le> length bs" by (metis card_length length_map set_map)
    ultimately have all: "er_id ` set ?rs = bf_record ` set bs" by (intro card_seteq) simp_all
    obtain r where r: "r \<in> set (db_events db)" "er_id r = bf_record b" "event_row_key r = k"
      using k by (auto simp: backed_def)
    have "er_id r \<in> er_id ` set ?rs" using all b r(2) by simp
    then have "?f r \<in> set (db_events db')" "event_row_key (?f r) = k" "er_state (?f r) \<noteq> EPending"
      using r e' by (simp_all add: event_row_key_def)
    then show ?thesis unfolding event_done_def by blast
  qed
  ultimately show ?thesis by blast
qed

subsection \<open>Triples of the parts\<close>

lemma triple_bind_draw [act_rules]:
  assumes "\<And>s n. P s \<Longrightarrow> P (s\<lparr>cs_draws := n\<rparr>)" "\<And>x. triple P (g x) Q X"
  shows "triple P (bind_act (draw f) g) Q X"
  using assms by (simp add: triple_def draw_def bind_act_def)

lemma triple_on_db:
  assumes "\<And>s x db. P s \<Longrightarrow> f (cs_db s) = Inr (x, db) \<Longrightarrow> Q x (s\<lparr>cs_db := db\<rparr>)" "\<And>s. P s \<Longrightarrow> X s"
  shows "triple P (on_db f) Q X"
  using assms by (auto simp: triple_def on_db_def split: sum.splits)

lemma triple_on_redis [act_rules]:
  "(\<And>s x r. P s \<Longrightarrow> Q x (s\<lparr>cs_redis := r\<rparr>)) \<Longrightarrow> (\<And>s. P s \<Longrightarrow> X s) \<Longrightarrow> triple P (on_redis f) Q X"
  by (auto simp: triple_def on_redis_def split: sum.splits)

lemma triple_on_lake [act_rules]:
  "(\<And>s d. P s \<Longrightarrow> Q () (s\<lparr>cs_lake := d\<rparr>)) \<Longrightarrow> (\<And>s. P s \<Longrightarrow> X s) \<Longrightarrow> triple P (on_lake f) Q X"
  by (auto simp: triple_def on_lake_def split: sum.splits)

text \<open>Committing with empty buffers, and dead-lettering.\<close>

definition calm :: "pyenv \<Rightarrow> baseline \<Rightarrow> message set \<Rightarrow> ('s, 'd) consumer \<Rightarrow> bool" where
  "calm env C M s \<longleftrightarrow> sound env C M s \<and> drained s"

lemma calm_unaffected [simp]:
  "calm env C M (s\<lparr>cs_draws := n\<rparr>) = calm env C M s" "calm env C M (s\<lparr>cs_last_flush := t\<rparr>) = calm env C M s"
  by (simp_all add: calm_def)

lemma calm_sound: "calm env C M s \<Longrightarrow> sound env C M s"
  by (simp add: calm_def)

lemma calm_commit: "calm env C M s \<Longrightarrow> calm env C M (s\<lparr>cs_commits := ms\<rparr>)"
  by (simp add: calm_def sound_def stream_ok_def kept_def)

lemma triple_commit_message:
  "triple (calm env C M) (commit_message E m) (\<lambda>_. calm env C M) (calm env C M)"
  unfolding commit_message_def by (intro act_rules) (simp_all add: calm_commit)

text \<open>A dead letter counts for the messages of its scope, wherever the producer has it.\<close>

definition with_letter :: "baseline \<Rightarrow> message \<Rightarrow> message set \<Rightarrow> message set" where
  "with_letter C m M = (if bs_scope C = Lettered then insert m M else M)"

lemma letter_sound:
  "sound env C M s \<Longrightarrow> dl_message l = m \<Longrightarrow> sound env C (with_letter C m M) (s\<lparr>cs_outbox := cs_outbox s @ [l]\<rparr>)"
proof -
  assume l: "sound env C M s" "dl_message l = m"
  let ?s = "s\<lparr>cs_outbox := cs_outbox s @ [l]\<rparr>"
  have old: "settled sc env ?s x" if "settled sc env s x" for sc x
    using that by (cases sc) (auto simp: settled_defs)
  have new: "settled Lettered env ?s m" using l(2) by (simp add: settled_defs)
  have "kept (bs_scope C) env (with_letter C m M) ?s"
    using l(1) old new unfolding sound_def kept_def with_letter_def by auto
  then show "sound env C (with_letter C m M) ?s"
    using l(1) old by (simp add: sound_def stream_ok_def drained_def)
qed

lemma deliver_fields [simp]:
  "cs_db (deliver f s) = cs_db s" "cs_buffers (deliver f s) = cs_buffers s" "cs_commits (deliver f s) = cs_commits s"
  by (simp_all add: deliver_def)

lemma deliver_settled: "settled sc env s m \<Longrightarrow> settled sc env (deliver f s) m"
proof -
  have "f l = Delivered \<or> f l = StillQueued \<or> f l = GivenUp" for l by (cases "f l") simp_all
  then show "settled sc env s m \<Longrightarrow> settled sc env (deliver f s) m"
    by (auto simp: settled_defs deliver_def image_iff split: scope.splits)
qed

lemma deliver_sound: "sound env C M s \<Longrightarrow> sound env C M (deliver f s)"
  by (simp add: sound_def stream_ok_def kept_def drained_def) (meson deliver_settled)

lemma triple_dead_letter:
  "triple (sound env C M) (dead_letter E m err q) (\<lambda>_. sound env C (with_letter C m M)) (sound env C M)"
proof -
  have put: "triple (sound env C M) (change (\<lambda>s. s\<lparr>cs_outbox := cs_outbox s @ [l]\<rparr>)) (\<lambda>_. sound env C (with_letter C m M)) (sound env C M)"
    if "dl_message l = m" for l
    using letter_sound that by (intro triple_change) blast
  have flush: "triple (sound env C (with_letter C m M)) (bind_act (producer_flush E) (\<lambda>left. ret ()))
      (\<lambda>_. sound env C (with_letter C m M)) (sound env C (with_letter C m M))"
    unfolding producer_flush_def
    by (intro triple_bind_same triple_bind_draw triple_then triple_change triple_read triple_ret) (simp_all add: deliver_sound)
  have weak: "triple (sound env C (with_letter C m M)) (bind_act (producer_flush E) (\<lambda>left. ret ()))
      (\<lambda>_. sound env C (with_letter C m M)) (sound env C M)"
    by (rule triple_weaken [OF flush]) (auto simp: with_letter_def elim: sound_mono split: if_splits)
  show ?thesis unfolding dead_letter_def
    by (intro triple_bind_lift triple_bind_draw triple_then_lift triple_then [OF put] weak) simp_all
qed

subsection \<open>Flushing\<close>

lemma triple_flush_view:
  "triple (\<lambda>s. sound env C M s \<and> cs_buffers s = B \<and> (\<forall>ib \<in> set buf. backed (cs_db s) (bf_record (snd ib)) (view, fst ib)))
     (flush_view E ref (map snd buf))
     (\<lambda>ms s. sound env C M s \<and> cs_buffers s = B \<and> (\<forall>ib \<in> set buf. event_done (cs_db s) (view, fst ib)))
     (sound env C M)"
proof -
  let ?P = "\<lambda>s. sound env C M s \<and> cs_buffers s = B \<and> (\<forall>ib \<in> set buf. backed (cs_db s) (bf_record (snd ib)) (view, fst ib))"
  let ?Q = "\<lambda>s. sound env C M s \<and> cs_buffers s = B \<and> (\<forall>ib \<in> set buf. event_done (cs_db s) (view, fst ib))"
  have stage: "triple ?P (on_db (stage_records st i now ref uri (map snd buf))) (\<lambda>_. ?Q) (sound env C M)" for st i now uri
  proof (rule triple_on_db)
    fix s x db assume s: "?P s" and e: "stage_records st i now ref uri (map snd buf) (cs_db s) = Inr (x, db)"
    have "events_ok env (cs_db s)" using s by (simp add: sound_def stream_ok_def)
    note staged = stage_records_done [OF this e]
    have "sound env C M (s\<lparr>cs_db := db\<rparr>)" using grows_sound staged s by blast
    moreover have "event_done db (view, fst ib)" if "ib \<in> set buf" for ib
    proof -
      have "snd ib \<in> set (map snd buf)" using that by simp
      then show ?thesis using staged s that by blast
    qed
    ultimately show "?Q (s\<lparr>cs_db := db\<rparr>)" using s by simp
  qed simp
  have append: "triple ?P (on_lake f) (\<lambda>_. ?P) (sound env C M)" for f
    by (rule triple_on_lake) simp_all
  show ?thesis unfolding flush_view_def Let_def
    by (intro triple_bind_lift triple_bind_draw triple_then [OF append] triple_then [OF stage] triple_ret) simp_all
qed

text \<open>What is left to do in the loop over a snapshot of the buffers.\<close>

definition unflushed :: "(string \<times> buffer) list \<Rightarrow> ('s, 'd) consumer \<Rightarrow> bool" where
  "unflushed bufs s \<longleftrightarrow> distinct (map fst bufs) \<and> set bufs \<subseteq> set (cs_buffers s) \<and>
     (\<forall>vb \<in> set (cs_buffers s). snd vb = [] \<or> vb \<in> set bufs)"

lemma set_dict_set_distinct:
  "distinct (map fst d) \<Longrightarrow> set (dict_set d k v) = {p \<in> set d. fst p \<noteq> k} \<union> {(k, v)}"
  by (induction d k v rule: dict_set.induct) (auto simp: image_iff)

lemma clear_buffer:
  assumes "sound env C M s" "unflushed ((view, buf) # bufs) s" "\<forall>ib \<in> set buf. event_done (cs_db s) (view, fst ib)"
  shows "sound env C M (s\<lparr>cs_buffers := dict_set (cs_buffers s) view []\<rparr>) \<and>
    unflushed bufs (s\<lparr>cs_buffers := dict_set (cs_buffers s) view []\<rparr>)"
proof -
  let ?s = "s\<lparr>cs_buffers := dict_set (cs_buffers s) view []\<rparr>"
  have dist: "distinct (map fst (cs_buffers s))" using assms(1) by (simp add: sound_def stream_ok_def buffers_ok_def)
  note set = set_dict_set_distinct [OF dist, of view "[]"]
  have here: "(view, buf) \<in> set (cs_buffers s)" using assms(2) by (simp add: unflushed_def)
  have only: "vb = (view, buf)" if "vb \<in> set (cs_buffers s)" "fst vb = view" for vb
    using dist here that by (cases vb) (metis eq_key_imp_eq_value fst_conv)
  have bufs_ok: "buffers_ok env (cs_db s) (cs_buffers ?s)"
    using assms(1) set distinct_dict_set [OF dist] by (auto simp: sound_def stream_ok_def buffers_ok_def)
  let ?sc = "bs_scope C"
  have "settled ?sc env ?s m \<or> held_back ?sc (cs_buffers ?s) m" if "m \<in> M" for m
  proof -
    have "settled ?sc env s m \<or> held_back ?sc (cs_buffers s) m" using assms(1) that by (simp add: sound_def kept_def)
    then show ?thesis
    proof
      assume held: "held_back ?sc (cs_buffers s) m"
      then obtain vb ib where vb: "vb \<in> set (cs_buffers s)" "ib \<in> set (snd vb)" "m \<in> set (bf_messages (snd ib))"
        by (auto simp: held_back_def waiting_def)
      show ?thesis
      proof (cases "fst vb = view")
        case True
        then have v: "vb = (view, buf)" using only vb(1) by blast
        have "entry_ok env (cs_db s) view ib"
          using assms(1) vb(1,2) v by (auto simp: sound_def stream_ok_def buffers_ok_def)
        then have "message_key env m = Some (view, fst ib)" using vb(3) by (simp add: entry_ok_def)
        moreover have "event_done (cs_db s) (view, fst ib)" using assms(3) vb(2) v by simp
        ultimately show ?thesis using held by (auto simp: settled_defs held_back_def)
      next
        case False
        then have "vb \<in> set (cs_buffers ?s)" using vb(1) set by simp
        then show ?thesis using vb(2,3) held unfolding held_back_def waiting_def by blast
      qed
    qed simp
  qed
  moreover have "drained s \<Longrightarrow> drained ?s" using set by (auto simp: drained_def)
  ultimately have "sound env C M ?s" using assms(1) bufs_ok by (auto simp: sound_def stream_ok_def kept_def)
  moreover have "unflushed bufs ?s"
  proof -
    have d: "distinct (map fst bufs)" "view \<notin> fst ` set bufs" using assms(2) by (simp_all add: unflushed_def)
    have sub: "vb \<in> set (cs_buffers ?s)" if "vb \<in> set bufs" for vb
    proof -
      have "vb \<in> set (cs_buffers s)" using assms(2) that by (auto simp: unflushed_def)
      moreover have "fst vb \<noteq> view" using d(2) that by blast
      ultimately show ?thesis using set by simp
    qed
    have rest: "snd vb = [] \<or> vb \<in> set bufs" if "vb \<in> set (cs_buffers ?s)" for vb
    proof -
      have "vb \<in> {p \<in> set (cs_buffers s). fst p \<noteq> view} \<union> {(view, [])}" using that set by simp
      then consider "vb = (view, [])" | "vb \<in> set (cs_buffers s)" "fst vb \<noteq> view" by blast
      then show ?thesis
      proof cases
        case 2
        then have "snd vb = [] \<or> vb \<in> set ((view, buf) # bufs)" using assms(2) unfolding unflushed_def by blast
        then show ?thesis using 2(2) by auto
      qed simp
    qed
    show ?thesis unfolding unflushed_def using d(1) sub rest by blast
  qed
  ultimately show ?thesis by blast
qed

lemma triple_flush_views:
  "triple (\<lambda>s. sound env C M s \<and> unflushed bufs s) (flush_views E bufs ms) (\<lambda>_. calm env C M) (sound env C M)"
proof (induction E bufs ms rule: flush_views.induct)
  case (1 E ms)
  show ?case unfolding flush_views.simps by (rule triple_ret) (auto simp: calm_def unflushed_def drained_def)
next
  case (2 E view buf bufs ms)
  let ?P = "\<lambda>s. sound env C M s \<and> unflushed ((view, buf) # bufs) s"
  show ?case
  proof (cases "buf = []")
    case True
    have "sound env C M s \<and> unflushed bufs s" if "?P s" for s
      using that True by (auto simp: unflushed_def)
    moreover have "flush_views E ((view, buf) # bufs) ms = flush_views E bufs ms" using True by simp
    ultimately show ?thesis by (metis (no_types, lifting) triple_pre [OF _ 2(1) [OF True]])
  next
    case False
    have backed: "\<forall>ib \<in> set buf. backed (cs_db s) (bf_record (snd ib)) (view, fst ib)" if "?P s" for s
    proof -
      have "(view, buf) \<in> set (cs_buffers s)" using that by (simp add: unflushed_def)
      then show ?thesis using that by (fastforce simp: sound_def stream_ok_def buffers_ok_def entry_ok_def)
    qed
    let ?R = "\<lambda>s. sound env C M s \<and> unflushed ((view, buf) # bufs) s \<and> (\<forall>ib \<in> set buf. event_done (cs_db s) (view, fst ib))"
    have one: "triple ?P (flush_view E view (map snd buf)) (\<lambda>_. ?R) (sound env C M)"
    proof (rule triple_fix [where f = cs_buffers])
      fix B
      show "triple (\<lambda>s. ?P s \<and> cs_buffers s = B) (flush_view E view (map snd buf)) (\<lambda>_. ?R) (sound env C M)"
      proof (cases "distinct (map fst ((view, buf) # bufs)) \<and> set ((view, buf) # bufs) \<subseteq> set B \<and>
          (\<forall>vb \<in> set B. snd vb = [] \<or> vb \<in> set ((view, buf) # bufs))")
        case True
        then have "unflushed ((view, buf) # bufs) s" if "cs_buffers s = B" for s :: "('a, 'b) consumer"
          using that unfolding unflushed_def by blast
        then show ?thesis using backed
          by (intro triple_weaken [OF triple_flush_view [where B = B and buf = buf and view = view]]) blast+
      next
        case False
        then have "\<not> (?P s \<and> cs_buffers s = B)" for s unfolding unflushed_def by blast
        then show ?thesis unfolding triple_def by blast
      qed
    qed
    have clear: "triple ?R (change (\<lambda>s. s\<lparr>cs_buffers := dict_set (cs_buffers s) view []\<rparr>))
        (\<lambda>_ s. sound env C M s \<and> unflushed bufs s) (sound env C M)"
      using clear_buffer by (intro triple_change) blast
    show ?thesis using False
      by (simp, intro triple_bind [OF one] triple_then [OF clear] 2(2) [OF False])
  qed
qed

lemma triple_commit_all: "triple (calm env C M) (commit_all E ms) (\<lambda>_. calm env C M) (calm env C M)"
proof (induction ms)
  case Nil
  show ?case unfolding commit_all.simps by (rule triple_ret)
next
  case (Cons m ms)
  show ?case by (simp, intro triple_then [OF triple_commit_message] Cons.IH)
qed

lemma calm_weak: "triple (calm env C M) m Q (calm env C M) \<Longrightarrow> triple (calm env C M) m Q (sound env C M)"
  by (erule triple_weaken) (auto dest: calm_sound)

lemma triple_commit_latest: "triple (calm env C M) (commit_latest E ms) (\<lambda>_. calm env C M) (sound env C M)"
  unfolding commit_latest_def by (intro triple_bind_lift calm_weak [OF triple_commit_all]) (auto dest: calm_sound)

lemma triple_flush: "triple (sound env C M) (flush E) (\<lambda>_. calm env C M) (sound env C M)"
proof -
  have start: "unflushed (cs_buffers s) s" if "sound env C M s" for s
    using that by (auto simp: unflushed_def sound_def stream_ok_def buffers_ok_def)
  have views: "triple (\<lambda>s. sound env C M s \<and> bufs = cs_buffers s) (flush_views E bufs []) (\<lambda>_. calm env C M) (sound env C M)" for bufs
    by (rule triple_weaken [OF triple_flush_views]) (use start in auto)
  show ?thesis unfolding flush_def
    by (intro triple_bind_read triple_bind [OF views] triple_then [OF triple_commit_latest] triple_bind_draw triple_change)
      simp_all
qed

subsection \<open>Handling\<close>

lemma triple_settle: "triple (sound env C M) (settle E m out) (\<lambda>r s. r = out \<and> sound env C M s) (sound env C M)"
  unfolding settle_def
  by (intro triple_then [OF triple_flush] triple_then [OF calm_weak [OF triple_commit_message]] triple_ret)
    (auto dest: calm_sound)

lemma triple_dead_letter_settle:
  "triple (sound env C M) (dead_letter_settle E m err q out)
     (\<lambda>r s. r = out \<and> sound env C (with_letter C m M) s) (sound env C M)"
proof -
  have "triple (sound env C (with_letter C m M)) (settle E m out) (\<lambda>r s. r = out \<and> sound env C (with_letter C m M) s) (sound env C M)"
    by (rule triple_weaken [OF triple_settle [where M = "with_letter C m M"]]) (auto simp: with_letter_def elim: sound_mono split: if_splits)
  then show ?thesis unfolding dead_letter_settle_def by (intro triple_then [OF triple_dead_letter])
qed

text \<open>Putting an event into its buffer, with the message that brought it.\<close>

lemma dict_set_old: "(k', v') \<in> set d \<Longrightarrow> (k', v') \<in> set (dict_set d k v) \<or> k' = k \<and> map_of d k = Some v'"
  by (induction d k v rule: dict_set.induct) auto

lemma dict_set_new: "(k, v) \<in> set (dict_set d k v)"
  by (induction d k v rule: dict_set.induct) auto

lemma dict_set_sub: "set (dict_set d k v) \<subseteq> insert (k, v) (set d)"
  by (induction d k v rule: dict_set.induct) auto

definition put_event :: "string \<Rightarrow> stream_event \<Rightarrow> message option \<Rightarrow> (string \<times> buffer) list \<Rightarrow> (string \<times> buffer) list" where
  "put_event i e m bufs =
     (let buf = get_buffer bufs (ev_view e);
          b = (case map_of buf (ev_id e) of None \<Rightarrow> \<lparr>bf_record = i, bf_event = e, bf_messages = []\<rparr> | Some b \<Rightarrow> b)
      in dict_set bufs (ev_view e) (dict_set buf (ev_id e) (add_message m b)))"

lemma buffer_event_put:
  "buffer_event i e m s = (Inr (map_of (get_buffer (cs_buffers s) (ev_view e)) (ev_id e) = None),
     s\<lparr>cs_buffers := put_event i e m (cs_buffers s)\<rparr>)"
  by (simp add: buffer_event_def put_event_def Let_def)

lemma messages_add: "set (bf_messages (add_message m b)) = set (bf_messages b) \<union> set_option m"
  by (cases m) (auto simp: add_message_def)

lemma record_add [simp]: "bf_record (add_message m b) = bf_record b"
  by (cases m) (simp_all add: add_message_def)

lemma put_event_waiting:
  "waiting (put_event i e m bufs) x" if "waiting bufs x \<or> m = Some x"
proof -
  let ?buf = "get_buffer bufs (ev_view e)"
  let ?b = "case map_of ?buf (ev_id e) of None \<Rightarrow> \<lparr>bf_record = i, bf_event = e, bf_messages = []\<rparr> | Some b \<Rightarrow> b"
  let ?new = "dict_set ?buf (ev_id e) (add_message m ?b)"
  have new: "(ev_view e, ?new) \<in> set (put_event i e m bufs)"
    unfolding put_event_def Let_def by (rule dict_set_new)
  have newb: "(ev_id e, add_message m ?b) \<in> set ?new"
    by (rule dict_set_new)
  show ?thesis
  proof (cases "m = Some x")
    case True
    then have "x \<in> set (bf_messages (add_message m ?b))" using messages_add [of m ?b] by simp
    then show ?thesis using new newb unfolding waiting_def by force
  next
    case False
    then have "waiting bufs x" using that by blast
    then obtain vb ib where ib: "vb \<in> set bufs" "ib \<in> set (snd vb)" "x \<in> set (bf_messages (snd ib))"
      unfolding waiting_def by blast
    define v where "v = fst vb"
    define buf where "buf = snd vb"
    define k where "k = fst ib"
    define b where "b = snd ib"
    have b: "(v, buf) \<in> set bufs" "(k, b) \<in> set buf" "x \<in> set (bf_messages b)"
      using ib by (simp_all add: v_def buf_def k_def b_def)
    consider (other) "(v, buf) \<in> set (put_event i e m bufs)" | (same) "v = ev_view e" "?buf = buf"
    proof (cases "(v, buf) \<in> set (put_event i e m bufs)")
      case False
      then have "v = ev_view e \<and> map_of bufs (ev_view e) = Some buf"
        using dict_set_old [OF b(1)] unfolding put_event_def Let_def by blast
      then show thesis using same by (simp add: get_buffer_def)
    qed (rule other)
    then show ?thesis
    proof cases
      case other
      then show ?thesis using b unfolding waiting_def by force
    next
      case same
      consider (kept) "(k, b) \<in> set ?new" | (grown) "k = ev_id e" "map_of ?buf (ev_id e) = Some b"
        using dict_set_old [of k b ?buf] b(2) same by blast
      then show ?thesis
      proof cases
        case kept
        then show ?thesis using new b(3) unfolding waiting_def by force
      next
        case grown
        then have "x \<in> set (bf_messages (add_message m ?b))" using messages_add [of m ?b] b(3) by simp
        then show ?thesis using new newb unfolding waiting_def by force
      qed
    qed
  qed
qed

lemma put_event_ok:
  assumes "buffers_ok env db bufs" "backed db i (ev_view e, ev_id e)"
    and "\<And>x. m = Some x \<Longrightarrow> message_key env x = Some (ev_view e, ev_id e)"
  shows "buffers_ok env db (put_event i e m bufs)"
proof -
  let ?buf = "get_buffer bufs (ev_view e)"
  let ?b = "case map_of ?buf (ev_id e) of None \<Rightarrow> \<lparr>bf_record = i, bf_event = e, bf_messages = []\<rparr> | Some b \<Rightarrow> b"
  have old: "entry_ok env db (ev_view e) ib" if "ib \<in> set ?buf" for ib
  proof -
    have "(ev_view e, ?buf) \<in> set bufs" using that by (auto simp: get_buffer_def dest: map_of_SomeD split: option.splits)
    then show ?thesis using assms(1) that unfolding buffers_ok_def by fastforce
  qed
  have "entry_ok env db (ev_view e) (ev_id e, ?b)"
  proof (cases "map_of ?buf (ev_id e)")
    case None
    then show ?thesis using assms(2) by (simp add: entry_ok_def)
  next
    case (Some b)
    then show ?thesis using old [OF map_of_SomeD [OF Some]] by simp
  qed
  then have new: "entry_ok env db (ev_view e) (ev_id e, add_message m ?b)"
    using assms(3) messages_add [of m ?b] by (auto simp: entry_ok_def)
  have "entry_ok env db (fst vb) ib"
    if "vb \<in> set (put_event i e m bufs)" "ib \<in> set (snd vb)" for vb ib
  proof -
    have "vb \<in> insert (ev_view e, dict_set ?buf (ev_id e) (add_message m ?b)) (set bufs)"
      using that(1) dict_set_sub unfolding put_event_def Let_def by fast
    then consider (same) "vb = (ev_view e, dict_set ?buf (ev_id e) (add_message m ?b))" | (other) "vb \<in> set bufs" by blast
    then show ?thesis
    proof cases
      case same
      then have v: "fst vb = ev_view e" and "ib \<in> set (dict_set ?buf (ev_id e) (add_message m ?b))"
        using that(2) by simp_all
      then have "ib = (ev_id e, add_message m ?b) \<or> ib \<in> set ?buf" using dict_set_sub by fast
      then show ?thesis
      proof
        assume "ib = (ev_id e, add_message m ?b)"
        then show ?thesis using new v by (simp only:)
      next
        assume "ib \<in> set ?buf"
        then show ?thesis using old v by (simp only:)
      qed
    next
      case other
      then show ?thesis using assms(1) that(2) unfolding buffers_ok_def by blast
    qed
  qed
  moreover have "distinct (map fst (put_event i e m bufs))"
    unfolding put_event_def Let_def
    by (rule distinct_dict_set) (use assms(1) in \<open>simp add: buffers_ok_def\<close>)
  ultimately show ?thesis unfolding buffers_ok_def by blast
qed

text \<open>Before anything is committed: what the \<open>try\<close> block knows up to its end.\<close>

definition fresh :: "pyenv \<Rightarrow> baseline \<Rightarrow> message set \<Rightarrow> ('s, 'd) consumer \<Rightarrow> bool" where
  "fresh env C M s \<longleftrightarrow> sound env C M s \<and> cs_commits s = bs_commits C"

lemma fresh_unaffected [simp]:
  "fresh env C M (s\<lparr>cs_draws := n\<rparr>) = fresh env C M s"
  by (simp add: fresh_def)

lemma fresh_sound: "fresh env C M s \<Longrightarrow> sound env C M s"
  by (simp add: fresh_def)

definition accepted :: "baseline \<Rightarrow> message option \<Rightarrow> message set" where
  "accepted C m = (if bs_scope C = Ledgered then set_option m else {})"

lemma accepted_None [simp]: "accepted C None = {}"
  by (simp add: accepted_def)

lemma put_fresh:
  assumes "fresh env C M s" "backed (cs_db s) i (ev_view e, ev_id e)"
    and "\<And>x. m = Some x \<Longrightarrow> message_key env x = Some (ev_view e, ev_id e)"
  shows "fresh env C (M \<union> accepted C m) (s\<lparr>cs_buffers := put_event i e m (cs_buffers s)\<rparr>)"
proof -
  let ?s = "s\<lparr>cs_buffers := put_event i e m (cs_buffers s)\<rparr>"
  have "buffers_ok env (cs_db ?s) (cs_buffers ?s)"
    using assms put_event_ok by (simp add: fresh_def sound_def stream_ok_def)
  moreover have "settled (bs_scope C) env ?s x \<or> held_back (bs_scope C) (cs_buffers ?s) x" if x: "x \<in> M \<union> accepted C m" for x
  proof -
    consider "settled (bs_scope C) env s x" | "bs_scope C = Ledgered" "waiting (cs_buffers s) x \<or> m = Some x"
      using assms(1) x by (auto simp: fresh_def sound_def kept_def held_back_def accepted_def split: if_splits)
    then show ?thesis
    proof cases
      case 1
      then show ?thesis by simp
    next
      case 2
      then show ?thesis using put_event_waiting by (simp add: held_back_def)
    qed
  qed
  ultimately show ?thesis using assms(1) by (simp add: fresh_def sound_def stream_ok_def kept_def)
qed

lemma triple_buffer_event:
  assumes "\<And>x. m = Some x \<Longrightarrow> message_key env x = Some (ev_view e, ev_id e)"
  shows "triple (\<lambda>s. fresh env C M s \<and> backed (cs_db s) i (ev_view e, ev_id e)) (buffer_event i e m)
     (\<lambda>_. fresh env C (M \<union> accepted C m)) (sound env C M)"
proof (rule tripleI)
  fix s x s'
  assume s: "fresh env C M s \<and> backed (cs_db s) i (ev_view e, ev_id e)" and "buffer_event i e m s = (Inr x, s')"
  then have "s' = s\<lparr>cs_buffers := put_event i e m (cs_buffers s)\<rparr>" by (simp add: buffer_event_put)
  then show "fresh env C (M \<union> accepted C m) s'" using put_fresh [of env C M s i e m] s assms by blast
qed (simp add: buffer_event_put)

lemma triple_write_online: "triple (fresh env C M) (write_online E e) (\<lambda>_. fresh env C M) (fresh env C M)"
  unfolding write_online_def by (rule triple_on_redis) (simp_all add: fresh_def)

text \<open>The scope of a message by its outcome; rejected messages are dropped on purpose.\<close>

definition scope_of :: "outcome \<Rightarrow> scope option" where
  "scope_of out =
     (if out \<in> {Accepted, DuplicatePending, Duplicate} then Some Ledgered
      else if out \<in> {DeadLettered, QualityQuarantined} then Some Lettered else None)"

definition taken :: "scope \<Rightarrow> outcome \<Rightarrow> message \<Rightarrow> message set" where
  "taken sc out m = (if scope_of out = Some sc then {m} else {})"

definition registered :: "registration \<Rightarrow> stream_event \<Rightarrow> database \<Rightarrow> bool" where
  "registered reg e db \<longleftrightarrow> rg_record reg \<in> set (db_events db) \<and> event_row_key (rg_record reg) = (ev_view e, ev_id e)"

lemma triple_register_event:
  "triple (fresh env C M) (register_event E m e) (\<lambda>reg s. fresh env C M s \<and> registered reg e (cs_db s)) (sound env C M)"
  if "se_env E = env"
proof -
  have "triple (fresh env C M) (on_db (register (se_env E) i now pos e))
      (\<lambda>reg s. fresh env C M s \<and> registered reg e (cs_db s)) (sound env C M)" for i now pos
  proof (rule triple_on_db)
    fix s reg db assume s: "fresh env C M s" and r: "register (se_env E) i now pos e (cs_db s) = Inr (reg, db)"
    have "events_ok env (cs_db s)" using s by (simp add: fresh_def sound_def stream_ok_def)
    from register_grows [OF this r [unfolded that]]
    show "fresh env C M (s\<lparr>cs_db := db\<rparr>) \<and> registered reg e (cs_db (s\<lparr>cs_db := db\<rparr>))"
      using s grows_sound [of env C M s db] by (simp add: fresh_def registered_def)
  qed (simp add: fresh_def)
  then show ?thesis unfolding register_event_def by (intro triple_bind_draw) simp_all
qed

lemma triple_take_event:
  assumes "se_env E = env" "message_key env m = Some (ev_view e, ev_id e)"
  shows "triple (\<lambda>s. fresh env C M s \<and> registered reg e (cs_db s)) (take_event E m e reg)
     (\<lambda>out. sound env C (M \<union> taken (bs_scope C) out m)) (sound env C M)"
proof -
  let ?P = "\<lambda>s. fresh env C M s \<and> registered reg e (cs_db s)"
  let ?Q = "\<lambda>out. sound env C (M \<union> taken (bs_scope C) out m)"
  have letter: "triple ?P (dead_letter_settle E m err q DeadLettered) ?Q (sound env C M)" for err q
    by (rule triple_weaken [OF triple_dead_letter_settle]) (auto simp: fresh_def taken_def scope_of_def with_letter_def accepted_def elim: sound_mono split: if_splits)
  have dup: "triple ?P (settle E m Duplicate) ?Q (sound env C M)" if "er_state (rg_record reg) \<noteq> EPending"
  proof -
    have here: "sound env C (M \<union> accepted C (Some m)) s" if "?P s" for s
    proof -
      have "handed_over env s m"
        using that \<open>er_state (rg_record reg) \<noteq> EPending\<close> assms(2) unfolding handed_over_def event_done_def registered_def by blast
      then show ?thesis using that by (auto simp: fresh_def sound_def kept_def accepted_def settled_def)
    qed
    have same: "taken (bs_scope C) Duplicate m = accepted C (Some m)" by (auto simp: taken_def scope_of_def accepted_def)
    show ?thesis
      by (rule triple_weaken [OF triple_settle [where M = "M \<union> accepted C (Some m)"]], rule here)
        (auto simp: same elim: sound_mono)
  qed
  have buffer: "triple ?P (bind_act (buffer_event (er_id (rg_record reg)) durable (Some m)) (\<lambda>created.
        then_act (if created then write_online E durable else ret False)
          (ret (if rg_result reg = RNew then Accepted else DuplicatePending)))) ?Q (sound env C M)"
    if "ledger_event (se_env E) (rg_record reg) = Inr durable" for durable
  proof -
    have key: "(ev_view durable, ev_id durable) = (ev_view e, ev_id e)
        \<and> backed (cs_db s) (er_id (rg_record reg)) (ev_view durable, ev_id durable)" if "?P s" for s
    proof -
      have "row_named env (rg_record reg)"
        using that by (simp add: fresh_def sound_def stream_ok_def events_ok_def registered_def)
      then have "event_row_key (rg_record reg) = (ev_view durable, ev_id durable)"
        using \<open>ledger_event (se_env E) (rg_record reg) = Inr durable\<close> assms(1) by (simp add: row_named_def)
      then show ?thesis using that unfolding registered_def backed_def by auto
    qed
    show ?thesis
    proof (cases "(ev_view durable, ev_id durable) = (ev_view e, ev_id e)")
      case True
      let ?F = "fresh env C (M \<union> accepted C (Some m))"
      have "triple (\<lambda>s. fresh env C M s \<and> backed (cs_db s) (er_id (rg_record reg)) (ev_view durable, ev_id durable))
          (buffer_event (er_id (rg_record reg)) durable (Some m)) (\<lambda>_. fresh env C (M \<union> accepted C (Some m))) (sound env C M)"
        by (rule triple_buffer_event) (use True assms(2) in simp)
      then have buf: "triple ?P (buffer_event (er_id (rg_record reg)) durable (Some m)) (\<lambda>_. ?F) (sound env C M)"
        by (rule triple_weaken) (use key in auto)
      have online: "triple ?F (if c then write_online E durable else ret False) (\<lambda>_. ?F) (sound env C M)" for c
        by (intro triple_if triple_weaken [OF triple_write_online] triple_ret) (auto simp: fresh_def elim: sound_mono)
      show ?thesis by (intro triple_bind [OF buf] triple_then [OF online] triple_ret) (auto simp: fresh_def taken_def scope_of_def with_letter_def accepted_def elim: sound_mono split: if_splits)
    next
      case False
      then have "\<not> ?P s" for s using key by blast
      then show ?thesis unfolding triple_def by blast
    qed
  qed
  show ?thesis unfolding take_event_def
    by (intro triple_if letter dup triple_bind_lift buffer) (simp_all add: fresh_def)
qed

lemma triple_handle:
  assumes "se_env E = env"
  shows "triple (fresh env C M) (handle E m) (\<lambda>out. sound env C (M \<union> taken (bs_scope C) out m)) (sound env C M)"
proof -
  let ?Q = "\<lambda>out. sound env C (M \<union> taken (bs_scope C) out m)"
  have valid: "triple (fresh env C M) (handle_valid E m e) ?Q (sound env C M)"
    if "parse_message (se_env E) m = Inr e" for e
  proof -
    have key: "message_key env m = Some (ev_view e, ev_id e)" using that assms by (simp add: message_key_def)
    have reject: "triple (fresh env C M) (settle E m QualityRejected) ?Q (sound env C M)"
      by (rule triple_weaken [OF triple_settle]) (auto simp: fresh_def taken_def scope_of_def with_letter_def accepted_def elim: sound_mono split: if_splits)
    have quarantine: "triple (fresh env C M) (dead_letter_settle E m err q QualityQuarantined) ?Q (sound env C M)" for err q
      by (rule triple_weaken [OF triple_dead_letter_settle]) (auto simp: fresh_def taken_def scope_of_def with_letter_def accepted_def elim: sound_mono split: if_splits)
    have take: "triple (fresh env C M) (bind_act (register_event E m e) (take_event E m e)) ?Q (sound env C M)"
      by (rule triple_bind [OF triple_register_event [OF assms]]) (rule triple_take_event [OF assms key])
    show ?thesis unfolding handle_valid_def
      by (intro triple_bind_draw triple_bind_lift) (auto intro!: triple_if reject quarantine take simp: fresh_def)
  qed
  have letter: "triple (sound env C M) (dead_letter_settle E m err q DeadLettered) ?Q (sound env C M)" for err q
    by (rule triple_weaken [OF triple_dead_letter_settle]) (auto simp: taken_def scope_of_def with_letter_def elim: sound_mono split: if_splits)
  show ?thesis unfolding handle_def
    by (intro triple_if triple_ret triple_catch [OF _ letter] triple_bind_lift valid) (auto simp: fresh_def taken_def scope_of_def with_letter_def accepted_def elim: sound_mono split: if_splits)
qed

lemma triple_recover_all:
  assumes "se_env E = env"
  shows "triple (\<lambda>s. fresh env C M s \<and> set rs \<subseteq> set (db_events (cs_db s))) (recover_all E rs)
     (\<lambda>_. fresh env C M) (sound env C M)"
proof (induction rs)
  case Nil
  show ?case unfolding recover_all.simps by (rule triple_ret) simp
next
  case (Cons r rs)
  let ?P = "\<lambda>s. fresh env C M s \<and> set (r # rs) \<subseteq> set (db_events (cs_db s))"
  let ?R = "\<lambda>s. fresh env C M s \<and> set rs \<subseteq> set (db_events (cs_db s))"
  have body: "triple ?P (bind_act (buffer_event (er_id r) e None)
      (\<lambda>created. then_act (if created then write_online E e else ret False) (ret ()))) (\<lambda>_. ?R) (sound env C M)"
    if "ledger_event (se_env E) r = Inr e" for e
  proof -
    have buf: "triple ?P (buffer_event (er_id r) e None) (\<lambda>_. ?R) (sound env C M)"
    proof (rule tripleI)
      fix s x s' assume s: "?P s" and run: "buffer_event (er_id r) e None s = (Inr x, s')"
      have s': "s' = s\<lparr>cs_buffers := put_event (er_id r) e None (cs_buffers s)\<rparr>" using run by (simp add: buffer_event_put)
      have r: "r \<in> set (db_events (cs_db s))" using s by simp
      then have "row_named env r" using s by (simp add: fresh_def sound_def stream_ok_def events_ok_def)
      then have "event_row_key r = (ev_view e, ev_id e)"
        using \<open>ledger_event (se_env E) r = Inr e\<close> assms by (simp add: row_named_def)
      then have "backed (cs_db s) (er_id r) (ev_view e, ev_id e)" using r by (auto simp: backed_def)
      then have "fresh env C (M \<union> accepted C None) s'"
        unfolding s' using s by (intro put_fresh) simp_all
      then show "?R s'" using s s' by simp
    qed (simp add: buffer_event_put)
    have "triple ?R (if c then write_online E e else ret False) (\<lambda>_. ?R) (sound env C M)" for c
      unfolding write_online_def by (intro triple_if triple_on_redis triple_ret) (simp_all add: fresh_def)
    note online = this
    show ?thesis by (intro triple_bind [OF buf] triple_then [OF online] triple_ret)
  qed
  have "triple ?P (recover_one E r) (\<lambda>_. ?R) (sound env C M)"
    unfolding recover_one_def by (intro triple_bind_lift body) (simp_all add: fresh_def)
  then show ?case unfolding recover_all.simps by (rule triple_then) (rule Cons.IH)
qed

lemma triple_recover_pending:
  assumes "se_env E = env"
  shows "triple (fresh env C M) (recover_pending E) (\<lambda>_. sound env C M) (sound env C M)"
proof -
  have all: "triple (\<lambda>s. fresh env C M s \<and> rs = pending (cs_db s)) (recover_all E rs) (\<lambda>_. fresh env C M) (sound env C M)" for rs
    by (rule triple_weaken [OF triple_recover_all [OF assms]]) (auto simp: pending_def)
  have last: "triple (fresh env C M) (if rs \<noteq> [] then flush E else ret ()) (\<lambda>_. sound env C M) (sound env C M)" for rs :: "event_record list"
    by (intro triple_if triple_ret triple_weaken [OF triple_flush]) (auto simp: fresh_def dest: calm_sound)
  show ?thesis unfolding recover_pending_def
    by (intro triple_bind_read triple_then [OF all] triple_then [OF last] triple_ret)
qed

subsection \<open>Runs of the consumer\<close>

text \<open>
  The consumer with the messages it has accepted and dead-lettered, and those among them it had taken
  before its last commit. Between its steps the workers change the jobs and mark staged rows as
  applied, and the producer delivers or gives up letters of its queue. A crash loses the buffers and
  the queue of the producer; an accepted message that was not handed over is then redelivered, since
  it was not committed either. The registry, the settings and what Kafka and the clock answer may
  differ from step to step.
\<close>

record ('s, 'd) system =
  sy_state :: "('s, 'd) consumer"
  sy_seen :: "scope \<Rightarrow> message set"
  sy_safe :: "scope \<Rightarrow> message set"

definition after :: "('s, 'd) system \<Rightarrow> ('s, 'd) consumer \<Rightarrow> (scope \<Rightarrow> message set) \<Rightarrow> ('s, 'd) system" where
  "after y s' new =
     \<lparr>sy_state = s', sy_seen = (\<lambda>sc. sy_seen y sc \<union> new sc),
      sy_safe = (\<lambda>sc. if cs_commits s' = cs_commits (sy_state y) then sy_safe y sc else sy_seen y sc \<union> new sc)\<rparr>"

definition crashed :: "('s, 'd) consumer \<Rightarrow> ('s, 'd) consumer" where
  "crashed s = s\<lparr>cs_buffers := [], cs_outbox := [], cs_dropped := cs_dropped s @ cs_outbox s\<rparr>"

inductive stream_step :: "pyenv \<Rightarrow> ('s, 'd) system \<Rightarrow> ('s, 'd) system \<Rightarrow> bool" for env where
  poll: "se_env E = env \<Longrightarrow> handle E m (sy_state y) = (Inr out, s') \<Longrightarrow> stream_step env y (after y s' (\<lambda>sc. taken sc out m))"
| poll_error: "se_env E = env \<Longrightarrow> handle E m (sy_state y) = (Inl e, s') \<Longrightarrow> stream_step env y (after y s' (\<lambda>_. {}))"
| timed_flush: "flush E (sy_state y) = (r, s') \<Longrightarrow> stream_step env y (after y s' (\<lambda>_. {}))"
| recovery: "se_env E = env \<Longrightarrow> recover_pending E (sy_state y) = (r, s') \<Longrightarrow> stream_step env y (after y s' (\<lambda>_. {}))"
| sent: "stream_step env y (y\<lparr>sy_state := deliver f (sy_state y)\<rparr>)"
| crash: "stream_step env y \<lparr>sy_state = crashed (sy_state y),
      sy_seen = (\<lambda>sc. {m \<in> sy_seen y sc. settled sc env (sy_state y) m}), sy_safe = sy_safe y\<rparr>"
| applied: "stream_step env y (y\<lparr>sy_state := (sy_state y)\<lparr>cs_db := mark_applied now i (cs_db (sy_state y))\<rparr>\<rparr>)"
| job_change: "db_events db = db_events (cs_db (sy_state y)) \<Longrightarrow>
    stream_step env y (y\<lparr>sy_state := (sy_state y)\<lparr>cs_db := db\<rparr>\<rparr>)"

inductive reachable_stream :: "pyenv \<Rightarrow> ('s, 'd) system \<Rightarrow> bool" for env where
  start: "events_ok env (cs_db s) \<Longrightarrow> cs_buffers s = [] \<Longrightarrow>
    reachable_stream env \<lparr>sy_state = s, sy_seen = (\<lambda>_. {}), sy_safe = (\<lambda>_. {})\<rparr>"
| more: "reachable_stream env y \<Longrightarrow> stream_step env y z \<Longrightarrow> reachable_stream env z"

definition base_of :: "scope \<Rightarrow> ('s, 'd) system \<Rightarrow> baseline" where
  "base_of sc y = \<lparr>bs_commits = cs_commits (sy_state y), bs_old = sy_safe y sc, bs_scope = sc\<rparr>"

definition system_ok :: "pyenv \<Rightarrow> ('s, 'd) system \<Rightarrow> bool" where
  "system_ok env y \<longleftrightarrow> (\<forall>sc. sound env (base_of sc y) (sy_seen y sc) (sy_state y) \<and> sy_safe y sc \<subseteq> sy_seen y sc)"

lemma base_simps [simp]:
  "bs_scope (base_of sc y) = sc" "bs_old (base_of sc y) = sy_safe y sc" "bs_commits (base_of sc y) = cs_commits (sy_state y)"
  by (simp_all add: base_of_def)

lemma system_fresh: "system_ok env y \<Longrightarrow> fresh env (base_of sc y) (sy_seen y sc) (sy_state y)"
  by (simp add: system_ok_def fresh_def)

lemma after_ok:
  assumes "system_ok env y" "\<And>sc. sound env (base_of sc y) (sy_seen y sc \<union> new sc) s'"
  shows "system_ok env (after y s' new)"
  unfolding system_ok_def
proof (intro allI conjI)
  fix sc
  have s': "sound env (base_of sc y) (sy_seen y sc \<union> new sc) s'" by (rule assms(2))
  have "settled sc env s' m" if "m \<in> sy_seen y sc \<union> new sc" "cs_commits s' \<noteq> cs_commits (sy_state y)" for m
  proof -
    have "drained s'" using s' that(2) by (simp add: sound_def)
    then show ?thesis using s' that(1) drained_not_waiting [of s' sc m] by (auto simp: sound_def kept_def)
  qed
  then show "sound env (base_of sc (after y s' new)) (sy_seen (after y s' new) sc) (sy_state (after y s' new))"
    using s' by (auto simp: sound_def after_def)
  show "sy_safe (after y s' new) sc \<subseteq> sy_seen (after y s' new) sc"
    using assms(1) by (auto simp: system_ok_def after_def)
qed

lemma triple_after:
  assumes "system_ok env y" "m (sy_state y) = (r, s')"
    and "\<And>C M. triple (fresh env C M) m (\<lambda>_. sound env C M) (sound env C M)"
  shows "system_ok env (after y s' (\<lambda>_. {}))"
proof (rule after_ok [OF assms(1)])
  fix sc
  from triple_end [OF assms(3) system_fresh [OF assms(1)] assms(2)]
  show "sound env (base_of sc y) (sy_seen y sc \<union> {}) s'" by simp
qed

lemma same_history_ok:
  assumes "system_ok env y" "\<And>C M. sound env C M (sy_state y) \<Longrightarrow> sound env C M s'" "cs_commits s' = cs_commits (sy_state y)"
  shows "system_ok env (y\<lparr>sy_state := s'\<rparr>)"
proof -
  have "base_of sc (y\<lparr>sy_state := s'\<rparr>) = base_of sc y" for sc using assms(3) by (simp add: base_of_def)
  then show ?thesis using assms(1,2) by (simp add: system_ok_def)
qed

lemma crash_ok:
  assumes "system_ok env y"
  shows "system_ok env \<lparr>sy_state = crashed (sy_state y),
      sy_seen = (\<lambda>sc. {m \<in> sy_seen y sc. settled sc env (sy_state y) m}), sy_safe = sy_safe y\<rparr>"
proof -
  have settled: "settled sc env (crashed (sy_state y)) m" if "settled sc env (sy_state y) m" for sc m
    using that by (cases sc) (auto simp: settled_defs crashed_def)
  have "stream_ok env (crashed (sy_state y))"
    using assms by (auto simp: system_ok_def sound_def stream_ok_def buffers_ok_def crashed_def)
  moreover have "cs_commits (crashed (sy_state y)) = cs_commits (sy_state y)" by (simp add: crashed_def)
  ultimately show ?thesis using assms settled by (auto simp: system_ok_def sound_def kept_def)
qed

lemma step_ok:
  assumes "stream_step env y z" "system_ok env y"
  shows "system_ok env z"
  using assms
proof (induction rule: stream_step.induct)
  case (poll E m y out s')
  have "sound env (base_of sc y) (sy_seen y sc \<union> taken sc out m) s'" for sc
    using triple_Inr [OF triple_handle [OF poll(1)] system_fresh [OF poll(3), of sc] poll(2)] by simp
  then show ?case by (rule after_ok [OF poll(3)])
next
  case (poll_error E m y e s')
  have "sound env (base_of sc y) (sy_seen y sc) s'" for sc
    using triple_Inl [OF triple_handle [OF poll_error(1)] system_fresh [OF poll_error(3), of sc] poll_error(2)] by simp
  then show ?case using after_ok [of env y "\<lambda>_. {}" s'] poll_error(3) by simp
next
  case (timed_flush E y r s')
  show ?case
    by (rule triple_after [where m = "flush E" and r = r], rule timed_flush(2), rule timed_flush(1),
        rule triple_weaken [OF triple_flush]) (auto simp: fresh_def dest: calm_sound)
next
  case (recovery E y r s')
  show ?case
    by (rule triple_after [where m = "recover_pending E" and r = r], rule recovery(3), rule recovery(2),
        rule triple_recover_pending [OF recovery(1)])
next
  case (sent y f)
  then show ?case by (rule same_history_ok) (simp_all add: deliver_sound)
next
  case (crash y)
  then show ?case by (rule crash_ok)
next
  case (applied y now i)
  let ?db = "cs_db (sy_state y)"
  let ?f = "\<lambda>r. if er_job r = Some i \<and> er_state r = EStaged
      then r\<lparr>er_state := EApplied, er_applied := Some now, er_updated := now\<rparr> else r"
  have "db_events (mark_applied now i ?db) = map ?f (db_events ?db)" by (simp add: mark_applied_def sql_update_def)
  note change = updated_events_grow [OF this]
  have grow: "grows ?db (mark_applied now i ?db)" by (rule change(1)) (simp_all add: event_row_key_def)
  have "events_ok env ?db" using applied by (simp add: system_ok_def sound_def stream_ok_def)
  then have "events_ok env (mark_applied now i ?db)"
    by (intro change(2)) (simp_all add: event_row_key_def)
  then show ?case using grow by (intro same_history_ok [OF applied] grows_sound) simp_all
next
  case (job_change db y)
  have "events_ok env (cs_db (sy_state y))" using job_change(2) by (simp add: system_ok_def sound_def stream_ok_def)
  then have "grows (cs_db (sy_state y)) db" "events_ok env db"
    using job_change(1) by (auto simp: grows_def events_ok_def)
  then show ?case by (intro same_history_ok [OF job_change(2)] grows_sound) simp_all
qed

lemma reachable_stream_ok: "reachable_stream env y \<Longrightarrow> system_ok env y"
proof (induction rule: reachable_stream.induct)
  case (start s)
  then show ?case by (simp add: system_ok_def sound_def kept_def stream_ok_def buffers_ok_def)
qed (rule step_ok)

text \<open>
  C38. No accepted message is lost. In every run of the consumer, with crashes, restarts and failing
  calls anywhere, the event of every message that was accepted before the last commit is in the
  ledger and handed over to an append job; that of a message accepted since is too, or the message
  waits in a buffer. A dead-lettered message is on its topic, or its letter was given to the producer
  and has not been delivered: the consumer commits without asking, so the letter is lost when the
  producer gives it up or the process ends, and with it the message. (Messages rejected by a quality
  policy are dropped on purpose.)
\<close>

theorem no_accepted_message_lost:
  assumes "reachable_stream env y"
  shows "(\<forall>m \<in> sy_safe y Ledgered. handed_over env (sy_state y) m) \<and>
    (\<forall>m \<in> sy_seen y Ledgered. handed_over env (sy_state y) m \<or> waiting (cs_buffers (sy_state y)) m) \<and>
    (\<forall>m \<in> sy_seen y Lettered. on_topic (sy_state y) m \<or> undelivered (sy_state y) m)"
proof -
  have ok: "sound env (base_of sc y) (sy_seen y sc) (sy_state y)" for sc
    using reachable_stream_ok [OF assms] by (simp add: system_ok_def)
  show ?thesis using ok [of Ledgered] ok [of Lettered] by (simp add: sound_def kept_def settled_def held_back_def)
qed

text \<open>
  A commit is only sent when nothing waits: if handling a message, a flush or a recovery has
  committed an offset, however it ends, every buffer is empty afterwards.
\<close>

theorem commits_when_drained:
  assumes "stream_ok env s" "se_env E = env"
    and "handle E m s = (r, s') \<or> flush E s = (q, s') \<or> recover_pending E s = (p, s')"
    and "cs_commits s' \<noteq> cs_commits s"
  shows "drained s'"
proof -
  let ?C = "\<lparr>bs_commits = cs_commits s, bs_old = {}, bs_scope = Lettered\<rparr>"
  have s: "fresh env ?C {} s" using assms(1) by (simp add: fresh_def sound_def kept_def)
  have "triple (fresh env ?C {}) (handle E m) (\<lambda>_. sound env ?C {}) (sound env ?C {})"
    by (rule triple_weaken [OF triple_handle [OF assms(2)]]) (auto elim: sound_mono)
  moreover have "triple (fresh env ?C {}) (flush E) (\<lambda>_. sound env ?C {}) (sound env ?C {})"
    by (rule triple_weaken [OF triple_flush]) (auto simp: fresh_def dest: calm_sound)
  moreover have "triple (fresh env ?C {}) (recover_pending E) (\<lambda>_. sound env ?C {}) (sound env ?C {})"
    by (rule triple_recover_pending [OF assms(2)])
  ultimately have "sound env ?C {} s'" using assms(3) s by (elim disjE) (blast intro: triple_end)+
  then show ?thesis using assms(4) by (simp add: sound_def)
qed

end
