(* ===== verification/StreamLaws.thy ===== *)
theory StreamLaws
  imports StreamSafety
begin

section \<open>What a flush does, and concrete runs of the consumer\<close>

text \<open>
  The effect of flushing one view, the messages a flush commits, and a start that cannot succeed:
  events of a view that do not make a table stay pending and stop every recovery, whatever else is
  pending. The last part runs the
  consumer on the sample registry and has the witnesses of \<open>StreamSafety\<close> and of this theory.
\<close>

subsection \<open>Committing the latest offsets\<close>

definition partition_of :: "message \<Rightarrow> (string \<times> int) option" where
  "partition_of m = (case (mg_topic m, mg_partition m) of (Some t, Some p) \<Rightarrow> Some (t, p) | _ \<Rightarrow> None)"

definition offset_of :: "message \<Rightarrow> int" where
  "offset_of m = (case mg_offset m of None \<Rightarrow> 0 | Some o' \<Rightarrow> o')"

definition latest_ok :: "((string \<times> int) \<times> message) list \<Rightarrow> message set \<Rightarrow> bool" where
  "latest_ok d ms \<longleftrightarrow> distinct (map fst d) \<and>
     (\<forall>(k, m) \<in> set d. m \<in> ms \<and> partition_of m = Some k \<and> mg_offset m \<noteq> None) \<and>
     (\<forall>m \<in> ms. \<exists>k m'. (k, m') \<in> set d \<and> partition_of m = Some k \<and> offset_of m \<le> offset_of m')"

lemma latest_add:
  assumes d: "latest_ok d ms" and k: "partition_of m = Some k" and o': "mg_offset m = Some o'"
  shows "map_of d k = None \<Longrightarrow> latest_ok (dict_set d k m) (insert m ms)"
    and "map_of d k = Some prev \<Longrightarrow> offset_of prev < o' \<Longrightarrow> latest_ok (dict_set d k m) (insert m ms)"
    and "map_of d k = Some prev \<Longrightarrow> o' \<le> offset_of prev \<Longrightarrow> latest_ok d (insert m ms)"
proof -
  have dist: "distinct (map fst d)"
    and all: "\<And>k m. (k, m) \<in> set d \<Longrightarrow> m \<in> ms \<and> partition_of m = Some k \<and> mg_offset m \<noteq> None"
    and cover: "\<And>m. m \<in> ms \<Longrightarrow> \<exists>k m'. (k, m') \<in> set d \<and> partition_of m = Some k \<and> offset_of m \<le> offset_of m'"
    using d unfolding latest_ok_def by blast+
  note set = set_dict_set_distinct [OF dist, of k m]
  have om: "offset_of m = o'" using o' by (simp add: offset_of_def)
  have put: "latest_ok (dict_set d k m) (insert m ms)"
    if le: "\<And>m'. (k, m') \<in> set d \<Longrightarrow> offset_of m' \<le> o'"
  proof -
    have "\<exists>k' m'. (k', m') \<in> set (dict_set d k m) \<and> partition_of x = Some k' \<and> offset_of x \<le> offset_of m'"
      if x: "x \<in> insert m ms" for x
    proof (cases "x = m")
      case True
      then show ?thesis using k dict_set_new [of k m d] by blast
    next
      case False
      then obtain k' m' where m': "(k', m') \<in> set d" "partition_of x = Some k'" "offset_of x \<le> offset_of m'"
        using cover x by blast
      show ?thesis
      proof (cases "k' = k")
        case True
        then have "offset_of x \<le> offset_of m" using m' le om by fastforce
        then show ?thesis using m'(2) True dict_set_new [of k m d] by blast
      next
        case False
        then have "(k', m') \<in> set (dict_set d k m)" using m'(1) set by simp
        then show ?thesis using m' by blast
      qed
    qed
    moreover have "distinct (map fst (dict_set d k m))" by (rule distinct_dict_set [OF dist])
    moreover have "\<forall>(k', m') \<in> set (dict_set d k m). m' \<in> insert m ms \<and> partition_of m' = Some k' \<and> mg_offset m' \<noteq> None"
      unfolding set using all k o' by auto
    ultimately show ?thesis unfolding latest_ok_def by blast
  qed
  have same: "m' = prev" if "map_of d k = Some prev" "(k, m') \<in> set d" for m' prev
    using that dist by (metis map_of_is_SomeI option.inject)
  show "map_of d k = None \<Longrightarrow> latest_ok (dict_set d k m) (insert m ms)"
    by (rule put) (force simp: map_of_eq_None_iff)
  show "map_of d k = Some prev \<Longrightarrow> offset_of prev < o' \<Longrightarrow> latest_ok (dict_set d k m) (insert m ms)"
    by (rule put) (use same in force)
  show "latest_ok d (insert m ms)" if "map_of d k = Some prev" "o' \<le> offset_of prev"
  proof -
    have "\<exists>k' m'. (k', m') \<in> set d \<and> partition_of m = Some k' \<and> offset_of m \<le> offset_of m'"
      using map_of_SomeD [OF that(1)] k that(2) om by blast
    moreover have "\<forall>(k, m') \<in> set d. m' \<in> insert m ms \<and> partition_of m' = Some k \<and> mg_offset m' \<noteq> None" using all by auto
    ultimately show ?thesis using dist cover unfolding latest_ok_def by blast
  qed
qed

lemma latest_by_partition_ok:
  "latest_by_partition ms d = Inr d' \<Longrightarrow> latest_ok d old \<Longrightarrow> latest_ok d' (old \<union> set ms)"
proof (induction ms arbitrary: d old)
  case (Cons m ms)
  obtain t p o' where m: "mg_topic m = Some t" "mg_partition m = Some p" "mg_offset m = Some o'"
    using Cons.prems(1) by (auto split: option.splits)
  have k: "partition_of m = Some (t, p)" using m by (simp add: partition_of_def)
  note add = latest_add [OF Cons.prems(2) k m(3)]
  have "\<exists>d1. latest_by_partition ms d1 = Inr d' \<and> latest_ok d1 (insert m old)"
  proof (cases "map_of d (t, p)")
    case None
    then show ?thesis using Cons.prems(1) m add(1) by auto
  next
    case (Some prev)
    then obtain q where q: "mg_offset prev = Some q" using Cons.prems(2) map_of_SomeD unfolding latest_ok_def by fastforce
    then have "offset_of prev = q" by (simp add: offset_of_def)
    then show ?thesis using Cons.prems(1) m Some q add(2,3) [OF Some] by (cases "q < o'") auto
  qed
  then show ?case using Cons.IH by fastforce
qed simp

lemma commit_all_run: "commit_all E ms s = (Inr u, s') \<Longrightarrow> cs_commits s' = cs_commits s @ ms"
proof (induction ms arbitrary: s u)
  case (Cons m ms)
  then obtain v s1 where s1: "commit_message E m s = (Inr v, s1)" "commit_all E ms s1 = (Inr u, s')"
    by (auto simp: then_act_Inr)
  then show ?case using Cons.IH by (auto simp: commit_message_def bind_act_Inr then_act_Inr draw_def)
qed simp

text \<open>
  A flush commits one message for each partition it has staged messages of, one of them, and
  none of the staged messages of that partition has a higher offset.
\<close>

theorem commit_latest_exact:
  assumes "commit_latest E ms s = (Inr u, s')"
  shows "\<exists>cs. cs_commits s' = cs_commits s @ cs \<and> distinct (map partition_of cs) \<and> set cs \<subseteq> set ms \<and>
    (\<forall>m \<in> set ms. partition_of m \<noteq> None \<and>
       (\<exists>c \<in> set cs. partition_of c = partition_of m \<and> offset_of m \<le> offset_of c))"
proof -
  obtain d where d: "latest_by_partition ms [] = Inr d" "commit_all E (map snd d) s = (Inr u, s')"
    using assms by (auto simp: commit_latest_def bind_act_Inr)
  have ok: "latest_ok d (set ms)" using latest_by_partition_ok [OF d(1), of "{}"] by (simp add: latest_ok_def)
  then have parts: "map partition_of (map snd d) = map Some (map fst d)" unfolding latest_ok_def by fastforce
  have "distinct (map partition_of (map snd d))" unfolding parts
    by (subst distinct_map) (use ok in \<open>simp add: latest_ok_def\<close>)
  moreover have "set (map snd d) \<subseteq> set ms" using ok unfolding latest_ok_def by fastforce
  moreover have "partition_of m \<noteq> None \<and> (\<exists>c \<in> set (map snd d). partition_of c = partition_of m \<and> offset_of m \<le> offset_of c)"
    if "m \<in> set ms" for m
  proof -
    obtain k m' where m': "(k, m') \<in> set d" "partition_of m = Some k" "offset_of m \<le> offset_of m'"
      using ok \<open>m \<in> set ms\<close> unfolding latest_ok_def by blast
    moreover have "partition_of m' = Some k" using ok m'(1) unfolding latest_ok_def by blast
    ultimately show ?thesis by force
  qed
  ultimately show ?thesis using commit_all_run [OF d(2)] by blast
qed

subsection \<open>Staging a view\<close>

lemma stage_records_effect:
  assumes "stage_records st i now view uri bs db = Inr (u, db')" "distinct (map er_id (db_events db))"
  shows "\<exists>job. db_jobs db' = db_jobs db @ [job] \<and> j_id job = i \<and> j_payload job = StagingPayload view uri \<and>
    j_kind job = OfflineAppend \<and> j_status job = Pending \<and> find_job db i = None \<and>
    db_events db' = sql_update (\<lambda>r. er_id r \<in> bf_record ` set bs)
      (\<lambda>r. r\<lparr>er_state := EStaged, er_job := Some i, er_staged := Some now, er_updated := now\<rparr>) (db_events db)"
proof -
  have len: "length (to_stage bs db) = length bs" using assms(1) by (simp add: stage_records_def split: if_splits)
  let ?job = "new_job i OfflineAppend (StagingPayload view uri) None st now"
  have free: "find_job db i = None" and db': "db' = mark_staged now (to_stage bs db) i (append_job ?job db)"
    using assms(1) len
    by (auto simp: stage_records_def create_offline_append_def bind_result_eq_Inr add_job_Inr Let_def new_job_def)
  have "distinct (map er_id (to_stage bs db))" using assms(2) distinct_map_filter by (auto simp: to_stage_def)
  then have "card (er_id ` set (to_stage bs db)) = length bs" using len by (metis distinct_card length_map set_map)
  moreover have "er_id ` set (to_stage bs db) \<subseteq> bf_record ` set bs" by (auto simp: to_stage_def)
  moreover have "card (bf_record ` set bs) \<le> length bs" by (metis card_length length_map set_map)
  ultimately have "er_id ` set (to_stage bs db) = bf_record ` set bs" by (intro card_seteq) simp_all
  then show ?thesis using db' free by (auto simp: mark_staged_def append_job_def new_job_def)
qed

definition faithful_table :: "(row list \<Rightarrow> table result) \<Rightarrow> bool" where
  "faithful_table f \<longleftrightarrow> (\<forall>rows t. f rows = Inr t \<longrightarrow> tb_rows t = rows)"

definition event_rows :: "registry \<Rightarrow> string \<Rightarrow> stream_event list \<Rightarrow> row list result" where
  "event_rows reg view es =
     bind_result (feature_view_of reg view) (\<lambda>v.
     bind_result (entity_of reg (v_entity v)) (\<lambda>en.
     traverse (staged_row (map fst (e_join_keys en)) (feature_names v)) es))"

lemma flush_table_rows:
  "flush_table E view bs = Inr t \<Longrightarrow> faithful_table (se_table E) \<Longrightarrow>
     event_rows (se_registry E) view (map bf_event bs) = Inr (tb_rows t)"
  by (auto simp: flush_table_def event_rows_def faithful_table_def bind_result_eq_Inr)

definition append_job_of :: "string \<Rightarrow> string \<Rightarrow> string \<Rightarrow> job \<Rightarrow> bool" where
  "append_job_of i view uri job \<longleftrightarrow> j_id job = i \<and> j_kind job = OfflineAppend \<and> j_status job = Pending \<and>
     j_payload job = StagingPayload view uri"

text \<open>
  C39. Flushing a view hands its buffer over as a whole: one new pending append job, whose staging
  table holds the rows of exactly the buffered events, and to which exactly the ledger rows of these
  events are assigned, in one transaction. If anything fails, the database, the buffers and the
  commits are as before, and nothing but the staging location of this attempt is touched.
\<close>

theorem flush_view_hands_over:
  assumes "delta_laws (se_delta E)" "faithful_table (se_table E)" "distinct (map er_id (db_events (cs_db s)))"
    and "uri = staging_uri (st_bucket (se_settings E)) view (se_uuid E (cs_draws s))" "\<not> dl_exists (se_delta E) uri (cs_lake s)"
    and "flush_view E view bs s = (r, s')"
  shows "cs_buffers s' = cs_buffers s \<and> cs_commits s' = cs_commits s \<and> cs_redis s' = cs_redis s \<and>
    (\<forall>u. u \<noteq> uri \<longrightarrow> dl_load (se_delta E) u (cs_lake s') = dl_load (se_delta E) u (cs_lake s)) \<and>
    (case r of
       Inl e \<Rightarrow> cs_db s' = cs_db s
     | Inr ms \<Rightarrow> ms = concat (map bf_messages bs) \<and>
        (\<exists>rows. event_rows (se_registry E) view (map bf_event bs) = Inr rows \<and>
           mset (stored_rows (se_delta E) uri (cs_lake s')) = mset rows) \<and>
        (\<exists>i now job. append_job_of i view uri job \<and> find_job (cs_db s) i = None \<and>
           db_jobs (cs_db s') = db_jobs (cs_db s) @ [job] \<and>
           db_events (cs_db s') = sql_update (\<lambda>r. er_id r \<in> bf_record ` set bs)
             (\<lambda>r. r\<lparr>er_state := EStaged, er_job := Some i, er_staged := Some now, er_updated := now\<rparr>)
             (db_events (cs_db s))))"
proof (cases "flush_table E view bs")
  case (Inl e)
  then show ?thesis using assms(6) by (auto simp: flush_view_def bind_act_def)
next
  case (Inr t)
  let ?s1 = "s\<lparr>cs_draws := Suc (cs_draws s)\<rparr>"
  show ?thesis
  proof (cases "append_rows (se_delta E) uri t (Some ''event_date'') (cs_lake s)")
    case (Inl e)
    then have "r = Inl e" "s' = ?s1"
      using assms(6) Inr unfolding assms(4) by (simp_all add: flush_view_def bind_act_def then_act_def draw_def on_lake_def Let_def)
    then show ?thesis by simp
  next
    case (Inr d)
    note stored = delta_laws.append_rows_stored [OF assms(1) Inr]
    let ?i = "se_uuid E (Suc (cs_draws s))" and ?now = "se_now E (Suc (Suc (cs_draws s)))"
    let ?s2 = "s\<lparr>cs_lake := d, cs_draws := Suc (Suc (Suc (cs_draws s)))\<rparr>"
    have upto: "flush_view E view bs s = then_act (on_db (stage_records (se_settings E) ?i ?now view uri bs))
        (ret (concat (map bf_messages bs))) ?s2"
      using Inr \<open>flush_table E view bs = Inr t\<close> unfolding assms(4)
      by (simp add: flush_view_def bind_act_def then_act_def draw_def on_lake_def Let_def)
    have db2: "cs_db ?s2 = cs_db s" by simp
    have empty: "stored_rows (se_delta E) uri (cs_lake s) = []"
    proof (cases "dl_load (se_delta E) uri (cs_lake s)")
      case (Inr t')
      then show ?thesis using delta_laws.load_exists [OF assms(1), of uri "cs_lake s"] assms(5) by auto
    qed (simp add: stored_rows_def)
    have rows: "event_rows (se_registry E) view (map bf_event bs) = Inr (tb_rows t)"
      using flush_table_rows \<open>flush_table E view bs = Inr t\<close> assms(2) by blast
    show ?thesis
    proof (cases "stage_records (se_settings E) ?i ?now view uri bs (cs_db s)")
      case (Inl e)
      then have "r = Inl e" "s' = ?s2" using upto assms(6) by (simp_all add: then_act_def bind_act_def on_db_def)
      then show ?thesis using stored(3) by simp
    next
      case (Inr p)
      obtain db where p: "p = ((), db)" by (cases p) simp
      have r: "r = Inr (concat (map bf_messages bs))" and s': "s' = ?s2\<lparr>cs_db := db\<rparr>"
        using upto assms(6) Inr p by (simp_all add: then_act_def bind_act_def on_db_def)
      have one: "\<exists>rows. event_rows (se_registry E) view (map bf_event bs) = Inr rows \<and>
           mset (stored_rows (se_delta E) uri (cs_lake s')) = mset rows"
        using rows stored(1) empty s' by simp
      have two: "\<exists>i now job. append_job_of i view uri job \<and> find_job (cs_db s) i = None \<and>
           db_jobs (cs_db s') = db_jobs (cs_db s) @ [job] \<and>
           db_events (cs_db s') = sql_update (\<lambda>r. er_id r \<in> bf_record ` set bs)
             (\<lambda>r. r\<lparr>er_state := EStaged, er_job := Some i, er_staged := Some now, er_updated := now\<rparr>)
             (db_events (cs_db s))"
        using stage_records_effect [OF Inr [unfolded p] assms(3)] s' unfolding append_job_of_def by fastforce
      show ?thesis using one two stored(3) s' unfolding r by simp
    qed
  qed
qed

subsection \<open>Events that cannot be staged\<close>

text \<open>
  Nothing checks the entity values of an event beyond the presence of the join keys, so two events
  of a view may carry values of different types for the same key, which Arrow refuses to put into one
  column.
\<close>

lemma entity_types_unchecked:
  "fst ` set d = fst ` set (ev_entity e) \<Longrightarrow>
     check_event env reg m (e\<lparr>ev_entity := d\<rparr>) now = check_event env reg m e now"
proof -
  assume "fst ` set d = fst ` set (ev_entity e)"
  then have "missing_keys en d = missing_keys en (ev_entity e)" for en by (simp add: missing_keys_def)
  then show ?thesis by (simp add: check_event_def cong: if_cong)
qed

definition as_buffered :: "event_record \<times> stream_event \<Rightarrow> string \<times> buffered" where
  "as_buffered re = (ev_id (snd re), \<lparr>bf_record = er_id (fst re), bf_event = snd re, bf_messages = []\<rparr>)"

lemma dict_set_snoc: "k \<notin> fst ` set d \<Longrightarrow> dict_set d k v = d @ [(k, v)]"
  by (induction d k v rule: dict_set.induct) auto

text \<open>The buffers of the other views hold none of the rows \<open>K\<close>.\<close>

definition apart :: "string \<Rightarrow> string set \<Rightarrow> (string \<times> buffer) list \<Rightarrow> bool" where
  "apart view K bufs \<longleftrightarrow> distinct (map fst bufs) \<and>
     (\<forall>w. w \<noteq> view \<longrightarrow> (\<forall>ib \<in> set (get_buffer bufs w). bf_record (snd ib) \<notin> K))"

lemma get_put_event:
  "get_buffer (put_event i e m bufs) w =
     (if w = ev_view e
      then dict_set (get_buffer bufs w) (ev_id e)
        (add_message m (case map_of (get_buffer bufs w) (ev_id e) of None \<Rightarrow> \<lparr>bf_record = i, bf_event = e, bf_messages = []\<rparr> | Some b \<Rightarrow> b))
      else get_buffer bufs w)"
  by (simp add: put_event_def get_buffer_def Let_def)

lemma added_record: "bf_record (add_message m b) = bf_record b"
  by (simp add: add_message_def split: option.split)

lemma put_apart:
  assumes "apart view K bufs" "ev_view e \<noteq> view \<Longrightarrow> i \<notin> K"
  shows "apart view K (put_event i e m bufs)"
proof -
  have rest: "bf_record (snd ib) \<notin> K" if w: "w \<noteq> view" and ib: "ib \<in> set (get_buffer (put_event i e m bufs) w)" for w ib
  proof (cases "w = ev_view e")
    case True
    let ?buf = "get_buffer bufs w"
    let ?b = "case map_of ?buf (ev_id e) of None \<Rightarrow> \<lparr>bf_record = i, bf_event = e, bf_messages = []\<rparr> | Some b \<Rightarrow> b"
    have old: "bf_record (snd x) \<notin> K" if "x \<in> set ?buf" for x using assms(1) w that by (simp add: apart_def)
    have new: "bf_record ?b \<notin> K"
    proof (cases "map_of ?buf (ev_id e)")
      case None
      then show ?thesis using assms(2) w True by simp
    next
      case (Some b)
      then show ?thesis using old [OF map_of_SomeD [OF Some]] by simp
    qed
    have "get_buffer (put_event i e m bufs) w = dict_set ?buf (ev_id e) (add_message m ?b)" using True by (simp add: get_put_event)
    then have "ib \<in> insert (ev_id e, add_message m ?b) (set ?buf)" using ib dict_set_sub by (metis subsetD)
    then show ?thesis using old new by (elim insertE) (simp_all only: snd_conv added_record not_False_eq_True)
  next
    case False
    then show ?thesis using ib w assms(1) by (simp add: get_put_event apart_def)
  qed
  moreover have "distinct (map fst (put_event i e m bufs))"
    using assms(1) unfolding put_event_def Let_def apart_def by (intro distinct_dict_set) simp
  ultimately show ?thesis by (simp add: apart_def)
qed

lemma recover_one_run:
  assumes "recover_one E x s = (r, s1)"
  shows "cs_db s1 = cs_db s \<and> cs_commits s1 = cs_commits s \<and>
    (\<forall>u. r = Inr u \<longrightarrow> (\<exists>e. ledger_event (se_env E) x = Inr e \<and> cs_buffers s1 = put_event (er_id x) e None (cs_buffers s)))"
proof (cases "ledger_event (se_env E) x")
  case (Inl err)
  then show ?thesis using assms by (auto simp: recover_one_def bind_act_def)
next
  case (Inr e)
  then show ?thesis using assms
    by (auto simp: recover_one_def bind_act_def then_act_def buffer_event_put write_online_def on_redis_def
        split: if_splits sum.splits prod.splits)
qed

lemma recover_all_view:
  assumes "list_all (row_named (se_env E)) rs" "distinct (map event_row_key rs)"
    and "list_all2 (\<lambda>r e. ledger_event (se_env E) r = Inr e) (filter (\<lambda>r. er_view r = view) rs) es"
    and "\<forall>r \<in> set rs. er_view r \<noteq> view \<longrightarrow> er_id r \<notin> K" "\<forall>r \<in> set rs. er_view r = view \<longrightarrow> er_event_id r \<notin> fst ` set buf"
    and "get_buffer (cs_buffers s) view = buf" "apart view K (cs_buffers s)" "recover_all E rs s = (r, s')"
  shows "cs_db s' = cs_db s \<and> cs_commits s' = cs_commits s \<and>
    (\<forall>u. r = Inr u \<longrightarrow> apart view K (cs_buffers s') \<and>
       get_buffer (cs_buffers s') view = buf @ map as_buffered (zip (filter (\<lambda>r. er_view r = view) rs) es))"
  using assms
proof (induction rs arbitrary: es buf s)
  case Nil
  then show ?case by simp
next
  case (Cons x rs)
  obtain y s1 where one: "recover_one E x s = (y, s1)" by (cases "recover_one E x s")
  note run = recover_one_run [OF one]
  show ?case
  proof (cases y)
    case (Inl err)
    then have "r = Inl err" "s' = s1" using Cons.prems(8) one by (simp_all add: then_act_def bind_act_def)
    then show ?thesis using run by simp
  next
    case (Inr u)
    then have rest: "recover_all E rs s1 = (r, s')" using Cons.prems(8) one by (simp add: then_act_def bind_act_def)
    obtain e where e: "ledger_event (se_env E) x = Inr e" "cs_buffers s1 = put_event (er_id x) e None (cs_buffers s)"
      using run Inr by auto
    have key: "ev_view e = er_view x" "ev_id e = er_event_id x"
      using Cons.prems(1) e(1) by (simp_all add: row_named_def event_row_key_def)
    have keep: "apart view K (cs_buffers s1)"
      unfolding e(2) using Cons.prems(4,7) key(1) by (intro put_apart) simp_all
    have fresh: "er_event_id r \<noteq> er_event_id x" if "r \<in> set rs" "er_view r = er_view x" for r
    proof
      assume "er_event_id r = er_event_id x"
      then have "event_row_key r = event_row_key x" using that by (simp add: event_row_key_def)
      moreover have "event_row_key r \<in> event_row_key ` set rs" using that by (intro imageI)
      ultimately show False using Cons.prems(2) by simp
    qed
    show ?thesis
    proof (cases "er_view x = view")
      case True
      then obtain es' where es: "es = e # es'" "list_all2 (\<lambda>r e. ledger_event (se_env E) r = Inr e) (filter (\<lambda>r. er_view r = view) rs) es'"
        using Cons.prems(3) e(1) by (auto simp: list_all2_Cons1)
      have new: "er_event_id x \<notin> fst ` set buf" using Cons.prems(5) True by simp
      then have "map_of buf (er_event_id x) = None" by (simp add: map_of_eq_None_iff)
      then have "get_buffer (cs_buffers s1) view = buf @ [as_buffered (x, e)]"
        unfolding e(2) using new Cons.prems(6) key True
        by (simp add: get_put_event add_message_def as_buffered_def dict_set_snoc)
      from Cons.IH [OF _ _ es(2) _ _ this keep rest] Cons.prems(1,2,4,5) fresh True
      show ?thesis using run by (auto simp: es(1) as_buffered_def key)
    next
      case False
      then have "get_buffer (cs_buffers s1) view = buf" unfolding e(2) using Cons.prems(6) key by (simp add: get_put_event)
      from Cons.IH [OF _ _ _ _ _ this keep rest] Cons.prems(1-5) False
      show ?thesis using run by simp
    qed
  qed
qed

text \<open>The pending rows of a view, with what the keys of the ledger guarantee.\<close>

definition pending_rows :: "pyenv \<Rightarrow> string \<Rightarrow> event_record list \<Rightarrow> database \<Rightarrow> bool" where
  "pending_rows env view rows db \<longleftrightarrow> events_ok env db \<and> distinct (map event_row_key (db_events db)) \<and>
     filter (\<lambda>r. er_view r = view) (pending db) = rows"

lemma pending_rows_kept:
  assumes "pending_rows env view rows db" "stage_records st i now w uri bs db = Inr (u, db')"
    and "bf_record ` set bs \<inter> er_id ` set rows = {}"
  shows "pending_rows env view rows db'"
proof -
  have ok: "events_ok env db" using assms(1) by (simp add: pending_rows_def)
  let ?f = "\<lambda>r. if er_id r \<in> bf_record ` set bs
      then r\<lparr>er_state := EStaged, er_job := Some i, er_staged := Some now, er_updated := now\<rparr> else r"
  have events: "db_events db' = map ?f (db_events db)"
    using stage_records_effect [OF assms(2)] ok by (auto simp: events_ok_def sql_update_def)
  have keys: "map event_row_key (db_events db') = map event_row_key (db_events db)"
    by (simp add: events event_row_key_def)
  let ?P = "\<lambda>r. er_view r = view \<and> er_state r = EPending"
  have rows: "r \<in> set rows \<longleftrightarrow> r \<in> set (db_events db) \<and> ?P r" for r
    using assms(1) by (auto simp: pending_rows_def pending_def)
  have f: "?P (?f r) \<longleftrightarrow> ?P r" "?P r \<Longrightarrow> ?f r = r" if "r \<in> set (db_events db)" for r
  proof -
    have "er_id r \<notin> bf_record ` set bs" if "?P r" using assms(3) rows \<open>r \<in> set (db_events db)\<close> that by blast
    then show "?P (?f r) \<longleftrightarrow> ?P r" "?P r \<Longrightarrow> ?f r = r" by auto
  qed
  have "filter ?P (map ?f rs) = filter ?P rs" if "set rs \<subseteq> set (db_events db)" for rs
    using that
  proof (induction rs)
    case (Cons r rs)
    then have "r \<in> set (db_events db)" by simp
    note f [OF this]
    then show ?case using Cons by (simp only: list.map filter.simps) auto
  qed simp
  then have "filter ?P (db_events db') = filter ?P (db_events db)" unfolding events by blast
  moreover have "filter (\<lambda>r. er_view r = view) (pending d) = sort_key (\<lambda>r. (er_created r, er_id r)) (filter ?P (db_events d))" for d
    by (simp add: pending_def filter_sort conj_commute)
  ultimately have "filter (\<lambda>r. er_view r = view) (pending db') = rows" using assms(1) by (simp add: pending_rows_def)
  moreover have "events_ok env db'"
    by (rule updated_events_grow(2) [OF events _ _ ok]) (simp_all add: event_row_key_def)
  ultimately show ?thesis using assms(1) keys by (simp add: pending_rows_def)
qed

lemma flush_view_run:
  assumes "flush_view E w bs s = (r, s')"
  shows "cs_commits s' = cs_commits s \<and>
    (cs_db s' = cs_db s \<or> (\<exists>i now uri u. stage_records (se_settings E) i now w uri bs (cs_db s) = Inr (u, cs_db s')))"
  using assms unfolding flush_view_def
  by (auto simp: bind_act_def then_act_def draw_def on_lake_def on_db_def Let_def split: sum.splits prod.splits)

lemma flush_views_blocked:
  assumes "flush_views E bufs ms s = (r, s')" "(view, buf) \<in> set bufs" "buf \<noteq> []" "flush_table E view (map snd buf) = Inl err"
    and "\<forall>(w, b) \<in> set bufs. w \<noteq> view \<longrightarrow> (\<forall>ib \<in> set b. bf_record (snd ib) \<notin> er_id ` set rows)" "distinct (map fst bufs)"
    and "pending_rows env view rows (cs_db s)"
  shows "isl r \<and> cs_commits s' = cs_commits s \<and> pending_rows env view rows (cs_db s')"
  using assms
proof (induction E bufs ms arbitrary: s rule: flush_views.induct)
  case (1 E ms)
  then show ?case by simp
next
  case (2 E w b bufs ms)
  show ?case
  proof (cases "b = []")
    case True
    then have "(view, buf) \<in> set bufs" using "2.prems"(2,3) by auto
    then show ?thesis using 2 True by simp
  next
    case False
    obtain x s1 where one: "flush_view E w (map snd b) s = (x, s1)" by (cases "flush_view E w (map snd b) s")
    show ?thesis
    proof (cases "w = view")
      case True
      then have "b = buf" using "2.prems"(2,6) by (auto simp: image_iff)
      then have "x = Inl err" "s1 = s" using one "2.prems"(4) True by (auto simp: flush_view_def bind_act_def)
      then show ?thesis using "2.prems"(1,7) one False by (auto simp: bind_act_def)
    next
      case other: False
      have "bf_record ` set (map snd b) \<inter> er_id ` set rows = {}" using "2.prems"(5) other by auto
      then have kept: "cs_commits s1 = cs_commits s" "pending_rows env view rows (cs_db s1)"
        using flush_view_run [OF one] pending_rows_kept "2.prems"(7) by (blast, metis)
      show ?thesis
      proof (cases x)
        case (Inl e)
        then show ?thesis using "2.prems"(1) one False kept by (auto simp: bind_act_def)
      next
        case (Inr new)
        let ?s = "s1\<lparr>cs_buffers := dict_set (cs_buffers s1) w []\<rparr>"
        have "flush_views E bufs (ms @ new) ?s = (r, s')"
          using "2.prems"(1) one False Inr by (simp add: bind_act_def then_act_def)
        moreover have "(view, buf) \<in> set bufs" using "2.prems"(2) other by auto
        ultimately have "isl r \<and> cs_commits s' = cs_commits ?s \<and> pending_rows env view rows (cs_db s')"
          using "2.prems"(3-6) kept(2) by (intro "2.IH"(2) [OF False]) simp_all
        then show ?thesis using kept(1) by simp
      qed
    qed
  qed
qed

lemma flush_table_split:
  "flush_table E view bs = bind_result (event_rows (se_registry E) view (map bf_event bs)) (se_table E)"
proof (cases "feature_view_of (se_registry E) view")
  case (Inr v)
  then show ?thesis by (cases "entity_of (se_registry E) (v_entity v)") (simp_all add: flush_table_def event_rows_def)
qed (simp add: flush_table_def event_rows_def)

lemma blocked_start:
  assumes "pending_rows (se_env E) view rows (cs_db s)" "cs_buffers s = []"
    and "list_all2 (\<lambda>r e. ledger_event (se_env E) r = Inr e) rows es" "rows \<noteq> []"
    and "bind_result (event_rows (se_registry E) view es) (se_table E) = Inl err"
    and "recover_pending E s = (r, s')"
  shows "isl r \<and> cs_commits s' = cs_commits s \<and> pending_rows (se_env E) view rows (cs_db s')"
proof -
  let ?rs = "pending (cs_db s)" and ?K = "er_id ` set rows"
  have ok: "events_ok (se_env E) (cs_db s)" "distinct (map event_row_key (db_events (cs_db s)))"
      and rows: "filter (\<lambda>r. er_view r = view) ?rs = rows" using assms(1) by (simp_all add: pending_rows_def)
  have rs: "set ?rs \<subseteq> set (db_events (cs_db s))" by (auto simp: pending_def)
  have named: "list_all (row_named (se_env E)) ?rs" using ok(1) rs by (auto simp: events_ok_def list_all_iff)
  have keys: "distinct (map event_row_key ?rs)"
    using ok(2) by (auto simp: pending_def distinct_map intro: inj_on_subset)
  have others: "\<forall>r \<in> set ?rs. er_view r \<noteq> view \<longrightarrow> er_id r \<notin> ?K"
  proof (intro ballI impI notI)
    fix r assume r: "r \<in> set ?rs" "er_view r \<noteq> view" "er_id r \<in> ?K"
    then obtain q where q: "q \<in> set ?rs" "er_view q = view" "er_id q = er_id r" using rows by auto
    have "inj_on er_id (set (db_events (cs_db s)))" using ok(1) by (simp add: events_ok_def distinct_map)
    then have "q = r" using q r(1) rs by (auto dest: inj_onD)
    then show False using q(2) r(2) by simp
  qed
  obtain x s1 where all: "recover_all E ?rs s = (x, s1)" by (cases "recover_all E ?rs s")
  have "apart view ?K (cs_buffers s)" "get_buffer (cs_buffers s) view = []" using assms(2) by (simp_all add: apart_def get_buffer_def)
  note run = recover_all_view [OF named keys _ others _ this(2,1) all, unfolded rows, OF assms(3)]
  show ?thesis
  proof (cases x)
    case (Inl e)
    then show ?thesis using assms(1,6) all run by (auto simp: recover_pending_def bind_act_def then_act_def)
  next
    case (Inr u)
    let ?buf = "map as_buffered (zip rows es)"
    have len: "length rows = length es" using assms(3) by (rule list_all2_lengthD)
    have bufs: "apart view ?K (cs_buffers s1)" "get_buffer (cs_buffers s1) view = ?buf" using run Inr by simp_all
    have ne: "?buf \<noteq> []" "?rs \<noteq> []" using assms(4) len rows by auto
    then have here: "(view, ?buf) \<in> set (cs_buffers s1)" using bufs(2) by (auto simp: get_buffer_def dest: map_of_SomeD split: option.splits)
    have "map bf_event (map snd ?buf) = es" using len by (simp add: as_buffered_def o_def)
    then have table: "flush_table E view (map snd ?buf) = Inl err"
      using assms(5) by (simp add: flush_table_split)
    have rest: "\<forall>(w, b) \<in> set (cs_buffers s1). w \<noteq> view \<longrightarrow> (\<forall>ib \<in> set b. bf_record (snd ib) \<notin> ?K)"
    proof (intro ballI)
      fix wb assume "wb \<in> set (cs_buffers s1)"
      then have "map_of (cs_buffers s1) (fst wb) = Some (snd wb)"
        using bufs(1) by (intro map_of_is_SomeI) (simp_all add: apart_def)
      then have "get_buffer (cs_buffers s1) (fst wb) = snd wb" by (simp add: get_buffer_def)
      then show "case wb of (w, b) \<Rightarrow> w \<noteq> view \<longrightarrow> (\<forall>ib \<in> set b. bf_record (snd ib) \<notin> ?K)"
        using bufs(1) by (cases wb) (auto simp: apart_def)
    qed
    obtain y s2 where views: "flush_views E (cs_buffers s1) [] s1 = (y, s2)" by (cases "flush_views E (cs_buffers s1) [] s1")
    have "pending_rows (se_env E) view rows (cs_db s1)" "distinct (map fst (cs_buffers s1))"
      using assms(1) run bufs(1) by (simp_all add: apart_def)
    from flush_views_blocked [OF views here ne(1) table rest this(2,1)]
    have "isl y" "cs_commits s2 = cs_commits s1" "pending_rows (se_env E) view rows (cs_db s2)" by simp_all
    moreover from this(1) obtain e where "y = Inl e" by (cases y) simp_all
    ultimately have "r = Inl e" "s' = s2" using assms(6) all Inr ne(2) views
      by (simp_all add: recover_pending_def flush_def bind_act_def then_act_def)
    then show ?thesis using run \<open>cs_commits s2 = cs_commits s1\<close> \<open>pending_rows (se_env E) view rows (cs_db s2)\<close> by simp
  qed
qed

text \<open>
  Starts of the consumer in a row, each a new process with empty buffers; nothing is read from Kafka
  before a recovery has succeeded.
\<close>

fun restarts :: "('s, 'd) stream_env list \<Rightarrow> ('s, 'd) consumer \<Rightarrow> nat result list \<times> ('s, 'd) consumer" where
  "restarts [] s = ([], s)"
| "restarts (E # Es) s =
     (case recover_pending E (s\<lparr>cs_buffers := []\<rparr>) of (r, s1) \<Rightarrow> case restarts Es s1 of (rs, s2) \<Rightarrow> (r # rs, s2))"

text \<open>
  C40. Starts that cannot succeed. If the pending events of one view do not make a table (a view or an
  entity that is not found, a value Arrow refuses to put into the column of another), whatever else
  is pending, then every start fails in its recovery, however often it is repeated. Events of other views may
  be staged by the way; those of this view stay pending, and nothing is committed.
\<close>

theorem unstageable_events_block_start:
  assumes "pending_rows env view rows (cs_db s)" "list_all2 (\<lambda>r e. ledger_event env r = Inr e) rows es" "rows \<noteq> []"
    and "\<forall>E \<in> set Es. se_env E = env \<and> isl (bind_result (event_rows (se_registry E) view es) (se_table E))"
    and "restarts Es s = (rs, s')"
  shows "length rs = length Es \<and> list_all isl rs \<and> cs_commits s' = cs_commits s \<and> pending_rows env view rows (cs_db s')"
  using assms(1,4,5)
proof (induction Es arbitrary: s rs)
  case Nil
  then show ?case by simp
next
  case (Cons E Es)
  let ?s = "s\<lparr>cs_buffers := []\<rparr>"
  obtain r s1 where r: "recover_pending E ?s = (r, s1)" by (cases "recover_pending E ?s")
  obtain rs' where rs': "restarts Es s1 = (rs', s')" "rs = r # rs'" using Cons.prems(3) r by (auto split: prod.splits)
  obtain err where err: "bind_result (event_rows (se_registry E) view es) (se_table E) = Inl err" and env: "se_env E = env"
    using Cons.prems(2) by (auto simp: isl_def)
  have "isl r \<and> cs_commits s1 = cs_commits ?s \<and> pending_rows (se_env E) view rows (cs_db s1)"
    using blocked_start [of E view rows ?s es err r s1] Cons.prems(1) assms(2,3) err env r by simp
  then show ?case using Cons.IH [OF _ _ rs'(1)] Cons.prems(2) rs'(2) env by simp
qed

subsection \<open>Concrete runs\<close>

definition arrow_rows :: "row list \<Rightarrow> table result" where
  "arrow_rows rows = Inr \<lparr>tb_cols = (case rows of [] \<Rightarrow> [] | r # _ \<Rightarrow> map fst r), tb_rows = rows\<rparr>"

definition stream1 :: "registry \<Rightarrow> (hashes, lake) stream_env" where
  "stream1 reg = \<lparr>se_env = demo_env, se_settings = default_settings, se_redis = mem_redis, se_delta = mem_delta,
     se_registry = reg, se_uuid = (\<lambda>n. replicate n (CHR ''u'')), se_now = int, se_monotonic = int,
     se_commit = (\<lambda>_. Inr ()), se_produce = (\<lambda>_. Inr ()),
     se_deliver = (\<lambda>_ _. Delivered), se_table = arrow_rows, se_text = (\<lambda>_. ''error'')\<rparr>"

definition idle :: "database \<Rightarrow> (hashes, lake) consumer" where
  "idle db = \<lparr>cs_db = db, cs_redis = [], cs_lake = [], cs_buffers = [], cs_commits = [], cs_letters = [],
     cs_outbox = [], cs_dropped = [], cs_draws = 0, cs_last_flush = 0\<rparr>"

definition click :: "int \<Rightarrow> message" where
  "click n = \<lparr>mg_topic = Some ''clicks'', mg_partition = Some 0, mg_offset = Some n, mg_key = None,
     mg_value = None, mg_error = False\<rparr>"

lemmas run_stream = stream1_def idle_def click_def bind_act_def then_act_def catch_act_def draw_def

lemma no_streams: "list_records env empty_registry k = Inr []"
  by (simp add: list_records_def empty_registry_def)

lemma empty_click_run:
  "\<exists>s'. handle (stream1 empty_registry) (click 4) (idle empty_db) = (Inr DeadLettered, s') \<and>
     cs_commits s' = [click 4] \<and> cs_commits (idle empty_db) = []"
  by (simp add: handle_def parse_message_def dead_letter_settle_def dead_letter_def producer_flush_def deliver_def settle_def
      flush_def commit_latest_def commit_message_def dead_letter_topic_def no_streams run_stream)

lemma empty_stream_ok: "stream_ok env (idle empty_db)"
  by (simp add: stream_ok_def events_ok_def buffers_ok_def idle_def empty_db_def)

text \<open>A consumer whose producer gives up every letter: the message is committed and on no topic.\<close>

definition gave_up :: "(hashes, lake) stream_env" where
  "gave_up = (stream1 empty_registry)\<lparr>se_deliver := (\<lambda>_ _. GivenUp)\<rparr>"

lemma gave_up_run:
  "\<exists>s'. handle gave_up (click 4) (idle empty_db) = (Inr DeadLettered, s') \<and>
     cs_commits s' = [click 4] \<and> cs_letters s' = [] \<and> dl_message ` set (cs_dropped s') = {click 4}"
  by (simp add: gave_up_def handle_def parse_message_def dead_letter_settle_def dead_letter_def producer_flush_def deliver_def
      settle_def flush_def commit_latest_def commit_message_def dead_letter_topic_def no_streams run_stream)

text \<open>A consumer that accepts an event and then flushes it.\<close>

definition spend_payload :: pyval where
  "spend_payload = VDict [(''event_id'', VStr ''a''), (''feature_view'', VStr ''spend@1.0.0''),
     (''entity_values'', VDict [(''user_id'', VStr ''ada'')]), (''event_timestamp'', VStr (iso_us 5)),
     (''values'', VDict [(''total'', VInt 10)])]"

definition spend_message :: message where
  "spend_message = (click 4)\<lparr>mg_value := Some (render parse_env compact_opts spend_payload)\<rparr>"

definition no_redis :: "hashes redis" where
  "no_redis = \<lparr>rd_hget = (\<lambda>_ _ _. None), rd_hset = (\<lambda>s _ _ _. s), rd_hgetall = (\<lambda>_ _. [])\<rparr>"

definition shop_stream :: "(hashes, lake) stream_env" where
  "shop_stream = (stream1 shop_registry)\<lparr>se_env := parse_env, se_redis := no_redis\<rparr>"

lemma parse_float_reads: "float_reads_ok parse_env"
  using demo_float_reads_ok by (simp add: float_reads_ok_def parse_env_def)

lemma spend_parsed: "parse_message parse_env spend_message = Inr (shop_event ''a'' 5 10)"
proof -
  have "json_loads parse_env (render parse_env compact_opts spend_payload) = Inr spend_payload"
    by (rule json_loads_dumps) (simp_all add: spend_payload_def parse_float_reads)
  then show ?thesis
    by (simp add: parse_message_def spend_message_def spend_payload_def parse_event_def event_fields_def dict_get_def parse_env_def
        mk_event_def shop_event_def)
qed

lemma spend_checked:
  "\<exists>q. check_event parse_env shop_registry spend_message (shop_event ''a'' 5 10) now = Inr (shop_view, q) \<and> qv_violations q = []"
  by (simp add: check_event_def utc_instant_def spend_message_def click_def shop_event_def in_range_def shop_view_def shop_entity_def
      feature_names_def missing_keys_def validate_feature_value_def item_def validate_quality_event_def validate_quality_rows_def
      int64_ok_def ensure_def feature_violations_def)

definition spend_record :: event_record where
  "spend_record = pending_record ''u'' 2 (shop_event ''a'' 5 10) (payload_fingerprint parse_env spend_payload) spend_payload
     (Some ''clicks'', Some 0, Some 4)"

definition spend_buffers :: "(string \<times> buffer) list" where
  "spend_buffers = [(''spend@1.0.0'', [(''a'', \<lparr>bf_record = ''u'', bf_event = shop_event ''a'' 5 10, bf_messages = [spend_message]\<rparr>)])]"

lemma spend_registered:
  "register parse_env ''u'' 2 (Some ''clicks'', Some 0, Some 4) (shop_event ''a'' 5 10) empty_db =
     Inr (\<lparr>rg_result = RNew, rg_record = spend_record\<rparr>, append_event spend_record empty_db)"
  by (simp add: register_def canonical_event_payload_def shop_event_def in_range_def find_event_def empty_db_def Let_def spend_record_def
      spend_payload_def)

lemma spend_record_event: "ledger_event parse_env spend_record = Inr (shop_event ''a'' 5 10)"
  by (simp add: ledger_event_def spend_record_def pending_record_def spend_payload_def parse_event_def event_fields_def dict_get_def
      parse_env_def mk_event_def shop_event_def)

lemma spend_record_parts: "er_id spend_record = ''u''" "er_state spend_record = EPending"
  by (simp_all add: spend_record_def pending_record_def)

lemma spend_accepted:
  "handle shop_stream spend_message (idle empty_db) =
     (Inr Accepted, (idle (append_event spend_record empty_db))\<lparr>cs_buffers := spend_buffers, cs_draws := 3\<rparr>)"
proof -
  have E: "se_env shop_stream = parse_env" "se_redis shop_stream = no_redis" "se_registry shop_stream = shop_registry"
    "se_uuid shop_stream = (\<lambda>n. replicate n (CHR ''u''))" "se_now shop_stream = int" by (simp_all add: shop_stream_def stream1_def)
  have m: "\<not> mg_error spend_message" "mg_topic spend_message = Some ''clicks''" "mg_partition spend_message = Some 0"
    "mg_offset spend_message = Some 4" by (simp_all add: spend_message_def click_def)
  have same: "hset_all no_redis k fvs h = h" for k fvs h
    by (induction fvs arbitrary: h) (auto simp: hset_all_def no_redis_def)
  have get: "rd_hget no_redis h k f = None" for h k f by (simp add: no_redis_def)
  have up: "upsert parse_env no_redis (shop_event ''a'' 5 10) [] = Inr (True, [])"
    using get by (simp add: write_hash_def same upsert_def upsert_script_def utc_text_def shop_event_def in_range_def)
  obtain q where q: "check_event parse_env shop_registry spend_message (shop_event ''a'' 5 10) 0 = Inr (shop_view, q)" "qv_violations q = []"
    using spend_checked by blast
  show ?thesis
    by (simp add: handle_def E m spend_parsed handle_valid_def idle_def bind_act_def then_act_def catch_act_def draw_def q register_event_def
        on_db_def spend_registered take_event_def spend_record_parts spend_record_event buffer_event_def add_message_def get_buffer_def
        write_online_def on_redis_def up spend_buffers_def numeral_3_eq_3) (simp add: shop_event_def)
qed

lemma shop_rows:
  "\<exists>rows. event_rows shop_registry ''spend@1.0.0'' [shop_event ''a'' 5 10] = Inr rows"
  by (simp add: event_rows_def staged_row_def utc_instant_def item_def shop_event_def in_range_def shop_view_def
      shop_entity_def feature_names_def Let_def)

lemma spend_flushed:
  "\<exists>s'. flush shop_stream ((idle (append_event spend_record empty_db))\<lparr>cs_buffers := spend_buffers, cs_draws := 3\<rparr>) = (Inr (), s') \<and>
     cs_commits s' = [spend_message]"
proof -
  let ?s = "(idle (append_event spend_record empty_db))\<lparr>cs_buffers := spend_buffers, cs_draws := 3\<rparr> :: (hashes, lake) consumer"
  have E: "se_registry shop_stream = shop_registry" "se_table shop_stream = arrow_rows" by (simp_all add: shop_stream_def stream1_def)
  let ?bs = "[\<lparr>bf_record = ''u'', bf_event = shop_event ''a'' 5 10, bf_messages = [spend_message]\<rparr>]"
  obtain rows where rows: "event_rows shop_registry ''spend@1.0.0'' [shop_event ''a'' 5 10] = Inr rows" using shop_rows by blast
  then have t: "flush_table shop_stream ''spend@1.0.0'' ?bs = arrow_rows rows" by (simp add: flush_table_split E)
  have bufs: "cs_buffers ?s = spend_buffers" by simp
  have m: "mg_topic spend_message = Some ''clicks''" "mg_partition spend_message = Some 0" "mg_offset spend_message = Some 4"
    by (simp_all add: spend_message_def click_def)
  have "\<exists>s2. flush_view shop_stream ''spend@1.0.0'' ?bs ?s = (Inr [spend_message], s2) \<and> cs_commits s2 = []"
    unfolding flush_view_def t
    by (simp add: arrow_rows_def shop_stream_def run_stream Let_def on_lake_def append_rows_def mem_delta_def mem_write_def on_db_def
        stage_records_def to_stage_def spend_record_parts append_event_def empty_db_def
        create_offline_append_def add_job_def find_job_def new_job_def)
  then obtain s2 where s2: "flush_view shop_stream ''spend@1.0.0'' ?bs ?s = (Inr [spend_message], s2)" "cs_commits s2 = []" by blast
  have "flush_views shop_stream spend_buffers [] ?s =
      (Inr [spend_message], s2\<lparr>cs_buffers := dict_set (cs_buffers s2) ''spend@1.0.0'' []\<rparr>)"
    using s2(1) by (simp add: spend_buffers_def bind_act_def then_act_def)
  then show ?thesis
    by (simp add: flush_def bufs bind_act_def then_act_def commit_latest_def commit_message_def m draw_def s2(2)
        shop_stream_def stream1_def)
qed

lemma no_accepted_message_lost_witness:
  "(\<exists>y :: (hashes, lake) system. reachable_stream parse_env y \<and> spend_message \<in> sy_safe y Ledgered \<and>
      handed_over parse_env (sy_state y) spend_message) \<and>
   (\<exists>y :: (hashes, lake) system. reachable_stream demo_env y \<and> click 4 \<in> sy_safe y Lettered \<and>
      \<not> on_topic (sy_state y) (click 4) \<and> undelivered (sy_state y) (click 4) \<and> cs_commits (sy_state y) = [click 4])"
proof
  let ?y = "\<lparr>sy_state = idle empty_db, sy_seen = (\<lambda>_. {}), sy_safe = (\<lambda>_. {})\<rparr> :: (hashes, lake) system"
  have start: "reachable_stream env ?y" for env
    by (rule reachable_stream.start) (simp_all add: events_ok_def idle_def empty_db_def)
  let ?s = "(idle (append_event spend_record empty_db))\<lparr>cs_buffers := spend_buffers, cs_draws := 3\<rparr> :: (hashes, lake) consumer"
  obtain s' where s': "flush shop_stream ?s = (Inr (), s')" "cs_commits s' = [spend_message]" using spend_flushed by blast
  let ?z = "after ?y ?s (\<lambda>sc. taken sc Accepted spend_message)"
  let ?w = "after ?z s' (\<lambda>_. {})"
  have "stream_step parse_env ?y ?z"
    by (rule stream_step.poll [where E = shop_stream]) (simp_all add: spend_accepted, simp add: shop_stream_def)
  moreover have "stream_step parse_env ?z ?w"
    by (rule stream_step.timed_flush [where E = shop_stream and r = "Inr ()"]) (simp add: s'(1) after_def)
  ultimately have w: "reachable_stream parse_env ?w" using start by (blast intro: reachable_stream.more)
  have safe: "spend_message \<in> sy_safe ?w Ledgered"
    using s'(2) by (simp add: after_def taken_def scope_of_def idle_def)
  then show "\<exists>y :: (hashes, lake) system. reachable_stream parse_env y \<and> spend_message \<in> sy_safe y Ledgered \<and>
      handed_over parse_env (sy_state y) spend_message"
    using w no_accepted_message_lost [OF w] by blast
  obtain g where g: "handle gave_up (click 4) (idle empty_db) = (Inr DeadLettered, g)" "cs_commits g = [click 4]"
    "cs_letters g = []" "dl_message ` set (cs_dropped g) = {click 4}" using gave_up_run by blast
  let ?v = "after ?y g (\<lambda>sc. taken sc DeadLettered (click 4))"
  have "stream_step demo_env ?y ?v"
    by (rule stream_step.poll [where E = gave_up]) (simp_all add: g(1), simp add: gave_up_def stream1_def)
  then have v: "reachable_stream demo_env ?v" using start by (blast intro: reachable_stream.more)
  have "click 4 \<in> sy_safe ?v Lettered" using g(2) by (simp add: after_def taken_def scope_of_def idle_def)
  moreover have "\<not> on_topic (sy_state ?v) (click 4)" "undelivered (sy_state ?v) (click 4)" "cs_commits (sy_state ?v) = [click 4]"
    using g by (auto simp: after_def on_topic_def undelivered_def)
  ultimately show "\<exists>y :: (hashes, lake) system. reachable_stream demo_env y \<and> click 4 \<in> sy_safe y Lettered \<and>
      \<not> on_topic (sy_state y) (click 4) \<and> undelivered (sy_state y) (click 4) \<and> cs_commits (sy_state y) = [click 4]"
    using v by blast
qed

lemma commits_when_drained_witness:
  "\<exists>s'. handle (stream1 empty_registry) (click 4) (idle empty_db) = (Inr DeadLettered, s') \<and> cs_commits s' \<noteq> [] \<and> drained s'"
proof -
  obtain s' where s': "handle (stream1 empty_registry) (click 4) (idle empty_db) = (Inr DeadLettered, s')"
    "cs_commits s' = [click 4]" "cs_commits (idle empty_db) = []" using empty_click_run by blast
  have "se_env (stream1 empty_registry) = demo_env" "cs_commits s' \<noteq> cs_commits (idle empty_db)"
    using s' by (simp_all add: stream1_def)
  from commits_when_drained [OF empty_stream_ok this(1) disjI1 [OF s'(1)] this(2)]
  show ?thesis using s' by simp
qed

lemma commit_latest_exact_witness:
  "\<exists>s' cs. commit_latest (stream1 empty_registry) [click 4, click 7, click 5] (idle empty_db) = (Inr (), s') \<and>
    cs_commits s' = cs \<and> (\<exists>c \<in> set cs. offset_of (click 7) \<le> offset_of c)"
proof -
  obtain s' where s': "commit_latest (stream1 empty_registry) [click 4, click 7, click 5] (idle empty_db) = (Inr (), s')"
    by (simp add: commit_latest_def commit_message_def run_stream)
  obtain cs where "cs_commits s' = cs_commits (idle empty_db) @ cs"
    "\<forall>m \<in> set [click 4, click 7, click 5]. \<exists>c \<in> set cs. partition_of c = partition_of m \<and> offset_of m \<le> offset_of c"
    using commit_latest_exact [OF s'] by blast
  then show ?thesis using s' by (auto simp: idle_def)
qed

definition pending_click :: event_record where
  "pending_click = pending_record ''r1'' 9 (shop_event ''a'' 5 10) [] VNone (None, None, None)"

definition one_click :: "buffered list" where
  "one_click = [\<lparr>bf_record = ''r1'', bf_event = shop_event ''a'' 5 10, bf_messages = [click 4]\<rparr>]"

lemma flush_view_hands_over_witness:
  "\<exists>ms s'. flush_view (stream1 shop_registry) ''spend@1.0.0'' one_click (idle (append_event pending_click empty_db)) = (Inr ms, s') \<and>
     ms = [click 4] \<and> (\<exists>job. db_jobs (cs_db s') = [job] \<and> j_kind job = OfflineAppend)"
proof -
  let ?E = "stream1 shop_registry" and ?s = "idle (append_event pending_click empty_db)"
  have bs: "map bf_event one_click = [shop_event ''a'' 5 10]" by (simp add: one_click_def)
  have E: "se_registry ?E = shop_registry" "se_table ?E = arrow_rows" "se_delta ?E = mem_delta" by (simp_all add: stream1_def)
  obtain rows where rows: "event_rows shop_registry ''spend@1.0.0'' [shop_event ''a'' 5 10] = Inr rows" using shop_rows by blast
  then have t: "flush_table ?E ''spend@1.0.0'' one_click = arrow_rows rows"
    unfolding flush_table_def E bs by (auto simp: event_rows_def bind_result_eq_Inr)
  have ok: "\<exists>ms s'. flush_view ?E ''spend@1.0.0'' one_click ?s = (Inr ms, s')"
    unfolding flush_view_def t
    by (simp add: arrow_rows_def run_stream Let_def on_lake_def append_rows_def mem_delta_def mem_write_def on_db_def
        stage_records_def to_stage_def one_click_def pending_click_def pending_record_def append_event_def empty_db_def
        create_offline_append_def add_job_def find_job_def new_job_def)
  then obtain ms s' where run: "flush_view ?E ''spend@1.0.0'' one_click ?s = (Inr ms, s')" by blast
  let ?uri = "staging_uri (st_bucket (se_settings ?E)) ''spend@1.0.0'' (se_uuid ?E (cs_draws ?s))"
  have "delta_laws (se_delta ?E)" "faithful_table (se_table ?E)" "distinct (map er_id (db_events (cs_db ?s)))"
    "\<not> dl_exists (se_delta ?E) ?uri (cs_lake ?s)"
    using lake.delta_laws_axioms
    by (simp_all add: E faithful_table_def arrow_rows_def idle_def append_event_def empty_db_def mem_delta_def)
  from flush_view_hands_over [OF this(1,2,3) refl this(4) run]
  show ?thesis using run by (auto simp: one_click_def append_job_of_def idle_def empty_db_def)
qed

text \<open>Two pending events of a user, once named by a text and once by a number.\<close>

definition mixed_event :: "string \<Rightarrow> pyval \<Rightarrow> stream_event" where
  "mixed_event i v = (shop_event i 5 10)\<lparr>ev_entity := [(''user_id'', v)]\<rparr>"

definition mixed_payload :: "string \<Rightarrow> pyval \<Rightarrow> pyval" where
  "mixed_payload i v = VDict [(''event_id'', VStr i), (''feature_view'', VStr ''spend@1.0.0''),
     (''entity_values'', VDict [(''user_id'', v)]), (''event_timestamp'', VStr (iso_us 5)), (''values'', VDict [(''total'', VInt 10)])]"

text \<open>Before them, a pending event of another view.\<close>

definition visits_view :: feature_view where
  "visits_view = shop_view\<lparr>v_name := ''visits''\<rparr>"

definition two_views :: registry where
  "two_views = shop_registry\<lparr>reg_rows := reg_rows shop_registry @ [shop_row 4 (SView visits_view)]\<rparr>"

lemma two_views_lookups:
  "feature_view_of two_views ''spend@1.0.0'' = Inr shop_view" "feature_view_of two_views ''visits@1.0.0'' = Inr visits_view"
  "entity_of two_views ''user'' = Inr shop_entity"
  by (simp_all add: feature_view_of_def entity_of_def parse_view_ref_def get_record_def find_record_def record_key_def as_view_def
      as_entity_def two_views_def visits_view_def shop_registry_def shop_row_def shop_view_def shop_entity_def)

definition visit_event :: stream_event where
  "visit_event = (shop_event ''c'' 5 1)\<lparr>ev_view := ''visits@1.0.0''\<rparr>"

definition visit_payload :: pyval where
  "visit_payload = VDict [(''event_id'', VStr ''c''), (''feature_view'', VStr ''visits@1.0.0''),
     (''entity_values'', VDict [(''user_id'', VStr ''ada'')]), (''event_timestamp'', VStr (iso_us 5)), (''values'', VDict [(''total'', VInt 1)])]"

definition mixed_db :: database where
  "mixed_db = empty_db\<lparr>db_events :=
     [pending_record ''r0'' 0 visit_event [] visit_payload (None, None, None),
      pending_record ''r1'' 1 (mixed_event ''a'' (VStr ''ada'')) [] (mixed_payload ''a'' (VStr ''ada'')) (None, None, None),
      pending_record ''r2'' 2 (mixed_event ''b'' (VInt 7)) [] (mixed_payload ''b'' (VInt 7)) (None, None, None)]\<rparr>"

definition strict_arrow :: "row list \<Rightarrow> table result" where
  "strict_arrow rows =
     (if length (remdups (map (\<lambda>r. type_name (dict_get r ''user_id'')) rows)) \<le> 1 then arrow_rows rows
      else Inl (DataError ''Could not convert to a common type''))"

definition strict_stream :: "(hashes, lake) stream_env" where
  "strict_stream = (stream1 two_views)\<lparr>se_env := parse_env, se_redis := no_redis, se_table := strict_arrow\<rparr>"

definition mixed_rows :: "event_record list" where
  "mixed_rows = filter (\<lambda>r. er_view r = ''spend@1.0.0'') (pending mixed_db)"

lemma mixed_events:
  "list_all2 (\<lambda>r e. ledger_event parse_env r = Inr e) mixed_rows
     [mixed_event ''a'' (VStr ''ada''), mixed_event ''b'' (VInt 7)] \<and> mixed_rows \<noteq> [] \<and> length (pending mixed_db) = 3"
  by (simp add: mixed_rows_def pending_def mixed_db_def pending_record_def sort_key_simps ledger_event_def mixed_payload_def parse_event_def
      event_fields_def dict_get_def parse_env_def mk_event_def mixed_event_def visit_event_def shop_event_def)

lemma mixed_pending: "pending_rows parse_env ''spend@1.0.0'' mixed_rows mixed_db"
  by (simp add: pending_rows_def mixed_rows_def events_ok_def mixed_db_def pending_record_def row_named_def event_row_key_def
      ledger_event_def mixed_payload_def visit_payload_def visit_event_def parse_event_def event_fields_def dict_get_def parse_env_def mk_event_def
      mixed_event_def shop_event_def)

lemma unstageable_events_block_start_witness:
  "\<exists>r q s'. restarts [strict_stream, strict_stream] (idle mixed_db) = ([r, q], s') \<and> isl r \<and> isl q \<and>
     pending_rows parse_env ''spend@1.0.0'' mixed_rows (cs_db s') \<and> length mixed_rows = 2"
proof -
  let ?es = "[mixed_event ''a'' (VStr ''ada''), mixed_event ''b'' (VInt 7)]"
  obtain rows where rows: "event_rows two_views ''spend@1.0.0'' ?es = Inr rows"
    and ids: "map (\<lambda>r. type_name (dict_get r ''user_id'')) rows = [type_name (VStr ''ada''), type_name (VInt 7)]"
    by (simp add: event_rows_def staged_row_def utc_instant_def item_def mixed_event_def shop_event_def in_range_def two_views_lookups shop_view_def
      shop_entity_def feature_names_def Let_def set_all_def dict_get_def)
  have no: "isl (strict_arrow rows)" unfolding strict_arrow_def ids by simp
  obtain rs s' where run: "restarts [strict_stream, strict_stream] (idle mixed_db) = (rs, s')"
    by (cases "restarts [strict_stream, strict_stream] (idle mixed_db)")
  have db: "pending_rows parse_env ''spend@1.0.0'' mixed_rows (cs_db (idle mixed_db))" using mixed_pending by (simp add: idle_def)
  have E: "\<forall>E \<in> set [strict_stream, strict_stream]. se_env E = parse_env \<and>
      isl (bind_result (event_rows (se_registry E) ''spend@1.0.0'' ?es) (se_table E))"
    using rows no by (simp add: strict_stream_def stream1_def)
  have "length mixed_rows = 2" using list_all2_lengthD [OF conjunct1 [OF mixed_events]] by simp
  with unstageable_events_block_start [OF db conjunct1 [OF mixed_events] _ E run] mixed_events run
  show ?thesis by (cases rs) (auto simp: length_Suc_conv numeral_2_eq_2)
qed

end
