(* ===== verification/Artifacts.thy ===== *)
theory Artifacts
  imports Actions Offline Json
begin

section \<open>Artifacts of jobs\<close>

text \<open>
  \<open>artifacts.py\<close>: where the input and the results of a job are kept, and how they are written, read
  and deleted. The file system is a parameter, the record \<open>files\<close>; what the code relies on is
  the locale \<open>file_laws\<close>, and \<open>mem_files\<close>, paths in an association list, is an instance of it. A
  file is the text or the table that was written to it; reading a file in pieces is left out.
\<close>

subsection \<open>File systems\<close>

datatype blob = TextBlob string | ParquetBlob table

record 'f files =
  fi_get :: "string \<Rightarrow> 'f \<Rightarrow> blob option"
  fi_found :: "string \<Rightarrow> 'f \<Rightarrow> bool"
  fi_size :: "string \<Rightarrow> 'f \<Rightarrow> int result"
  fi_mkdir :: "string \<Rightarrow> (unit, 'f) action"
  fi_write :: "string \<Rightarrow> blob \<Rightarrow> (unit, 'f) action"
  fi_delete_file :: "string \<Rightarrow> (unit, 'f) action"
  fi_delete_dir :: "string \<Rightarrow> (unit, 'f) action"

definition beneath :: "string \<Rightarrow> string \<Rightarrow> bool" where
  "beneath dir p \<longleftrightarrow> starts_with (dir @ ''/'') p"

locale file_laws =
  fixes F :: "'f files"
  assumes write_get: "fi_write F p b s = (r, s') \<Longrightarrow> q \<noteq> p \<or> r = Inr () \<Longrightarrow>
        fi_get F q s' = (if q = p then Some b else fi_get F q s)"
    and mkdir_get: "fi_mkdir F p s = (r, s') \<Longrightarrow> fi_get F q s' = fi_get F q s"
    and delete_get: "fi_delete_file F p s = (r, s') \<Longrightarrow> q \<noteq> p \<or> r = Inr () \<Longrightarrow>
        fi_get F q s' = (if q = p then None else fi_get F q s)"
    and delete_dir_get: "fi_delete_dir F p s = (r, s') \<Longrightarrow> \<not> beneath p q \<or> r = Inr () \<Longrightarrow>
        fi_get F q s' = (if beneath p q then None else fi_get F q s)"
    and found_file: "fi_get F p s \<noteq> None \<Longrightarrow> fi_found F p s"
    and found_dir: "beneath p q \<Longrightarrow> fi_get F q s \<noteq> None \<Longrightarrow> fi_found F p s"

type_synonym disk = "(string \<times> blob) list"

definition mem_files :: "disk files" where
  "mem_files = \<lparr>fi_get = (\<lambda>p s. map_of s p),
     fi_found = (\<lambda>p s. p \<in> fst ` set s \<or> (\<exists>q \<in> fst ` set s. beneath p q)),
     fi_size = (\<lambda>p s. case map_of s p of None \<Rightarrow> Inl (DataError ''not found'')
       | Some (TextBlob x) \<Rightarrow> Inr (int (length x)) | Some (ParquetBlob t) \<Rightarrow> Inr (int (length (tb_rows t)))),
     fi_mkdir = (\<lambda>p s. (Inr (), s)),
     fi_write = (\<lambda>p b s. (Inr (), dict_set s p b)),
     fi_delete_file = (\<lambda>p s. (Inr (), AList.delete p s)),
     fi_delete_dir = (\<lambda>p s. (Inr (), filter (\<lambda>kv. \<not> beneath p (fst kv)) s))\<rparr>"

lemma map_of_filter_keys:
  "map_of (filter (\<lambda>kv. \<not> beneath p (fst kv)) s) k = (if beneath p k then None else map_of s k)"
  by (induction s) auto

interpretation disk: file_laws mem_files
proof unfold_locales
  show "fi_found mem_files p s" if "beneath p q" "fi_get mem_files q s \<noteq> None" for p q s
    using that by (force simp: mem_files_def dest: map_of_SomeD)
qed (auto simp: mem_files_def map_of_filter_keys delete_conv' map_of_eq_None_iff)

subsection \<open>Locations\<close>

definition artifact_root :: "string \<Rightarrow> string" where
  "artifact_root bucket = ''s3://'' @ bucket @ ''/artifacts/jobs''"

definition job_prefix :: "string \<Rightarrow> string \<Rightarrow> string" where
  "job_prefix base i = base @ ''/'' @ i"

definition input_uri :: "string \<Rightarrow> string \<Rightarrow> string" where
  "input_uri base i = job_prefix base i @ ''/input.json''"

definition result_uri :: "string \<Rightarrow> string \<Rightarrow> int \<Rightarrow> string \<Rightarrow> string" where
  "result_uri base i attempt token =
     job_prefix base i @ ''/results/attempt-'' @ int_str attempt @ ''-'' @ token @ ''.parquet''"

text \<open>\<open>_resolve\<close>: the path of a location; resolving a local one is the argument.\<close>

definition path_of :: "(string \<Rightarrow> string) \<Rightarrow> string \<Rightarrow> string" where
  "path_of resolve uri =
     (if starts_with ''s3://'' uri then drop 5 uri
      else resolve (if starts_with ''file://'' uri then drop 7 uri else uri))"

definition parent_path :: "string \<Rightarrow> string" where
  "parent_path p = rev (tl (dropWhile (\<lambda>c. c \<noteq> CHR ''/'') (rev p)))"

subsection \<open>Operations\<close>

definition write_json :: "pyenv \<Rightarrow> 'f files \<Rightarrow> (string \<Rightarrow> string) \<Rightarrow> string \<Rightarrow> pyval \<Rightarrow> (unit, 'f) action" where
  "write_json env F resolve uri v =
     then_act (fi_mkdir F (parent_path (path_of resolve uri)))
       (fi_write F (path_of resolve uri) (TextBlob (render env compact_opts v)))"

definition read_json :: "pyenv \<Rightarrow> 'f files \<Rightarrow> (string \<Rightarrow> string) \<Rightarrow> string \<Rightarrow> 'f \<Rightarrow> pyval result" where
  "read_json env F resolve uri s =
     (case fi_get F (path_of resolve uri) s of
        None \<Rightarrow> Inl (RuntimeError ''FileNotFoundError'')
      | Some (TextBlob x) \<Rightarrow> json_loads env x
      | Some (ParquetBlob t) \<Rightarrow> Inl (ValueError ''invalid start byte''))"

definition delete_artifact :: "'f files \<Rightarrow> (string \<Rightarrow> string) \<Rightarrow> string \<Rightarrow> (unit, 'f) action" where
  "delete_artifact F resolve uri s =
     (if fi_found F (path_of resolve uri) s then fi_delete_file F (path_of resolve uri) s else (Inr (), s))"

definition write_parquet :: "'f files \<Rightarrow> (string \<Rightarrow> string) \<Rightarrow> string \<Rightarrow> table \<Rightarrow> (int, 'f) action" where
  "write_parquet F resolve uri t =
     (let p = path_of resolve uri in
      then_act (fi_mkdir F (parent_path p))
        (catch_act (then_act (fi_write F p (ParquetBlob t)) (\<lambda>s. (fi_size F p s, s)))
          (\<lambda>e. then_act (delete_artifact F resolve uri) (lift_act (Inl e)))))"

definition artifact_exists :: "'f files \<Rightarrow> (string \<Rightarrow> string) \<Rightarrow> string \<Rightarrow> 'f \<Rightarrow> bool" where
  "artifact_exists F resolve uri s \<longleftrightarrow> fi_get F (path_of resolve uri) s \<noteq> None"

definition delete_job :: "'f files \<Rightarrow> (string \<Rightarrow> string) \<Rightarrow> string \<Rightarrow> string \<Rightarrow> (unit, 'f) action" where
  "delete_job F resolve base i s =
     (let p = path_of resolve (job_prefix base i)
      in if fi_found F p s then fi_delete_dir F p s else (Inr (), s))"

subsection \<open>The artifacts of different jobs and attempts\<close>

text \<open>Identifiers are UUIDs: they have no slash.\<close>

lemma append_slash_inj:
  assumes "a @ CHR ''/'' # x = b @ CHR ''/'' # y" "CHR ''/'' \<notin> set a" "CHR ''/'' \<notin> set b"
  shows "a = b \<and> x = y"
proof -
  have "takeWhile (\<lambda>c. c \<noteq> CHR ''/'') (a @ CHR ''/'' # x) = a" "takeWhile (\<lambda>c. c \<noteq> CHR ''/'') (b @ CHR ''/'' # y) = b"
    using assms(2,3) by (subst takeWhile_append2; auto)+
  then have "a = b" using assms(1) by simp
  then show ?thesis using assms(1) by simp
qed

lemma beneath_job:
  assumes "CHR ''/'' \<notin> set i" "CHR ''/'' \<notin> set j" "starts_with ''s3://'' base"
  shows "beneath (path_of resolve (job_prefix base i)) (path_of resolve (job_prefix base j @ ''/'' @ x)) \<longleftrightarrow> i = j"
proof -
  obtain rest where base: "base = ''s3://'' @ rest" using starts_withE [OF assms(3)] by blast
  have p: "path_of resolve (job_prefix base i) = rest @ ''/'' @ i" "path_of resolve (job_prefix base j @ ''/'' @ x) = rest @ ''/'' @ j @ ''/'' @ x"
    by (simp_all add: path_of_def job_prefix_def base starts_with_def)
  show ?thesis
  proof
    assume "beneath (path_of resolve (job_prefix base i)) (path_of resolve (job_prefix base j @ ''/'' @ x))"
    then obtain y where "rest @ ''/'' @ j @ ''/'' @ x = ((rest @ ''/'' @ i) @ ''/'') @ y"
      unfolding p beneath_def using starts_withE by blast
    then have "i @ CHR ''/'' # y = j @ CHR ''/'' # x" by simp
    then show "i = j" using append_slash_inj assms(1,2) by blast
  next
    assume "i = j"
    then show "beneath (path_of resolve (job_prefix base i)) (path_of resolve (job_prefix base j @ ''/'' @ x))"
      unfolding p beneath_def by (simp add: starts_with_def)
  qed
qed

lemma path_of_inj:
  assumes "starts_with ''s3://'' a" "starts_with ''s3://'' b"
  shows "path_of resolve a = path_of resolve b \<longleftrightarrow> a = b"
  using starts_withE [OF assms(1)] starts_withE [OF assms(2)] by (auto simp: path_of_def starts_with_def)

lemma digits_dash_inj:
  assumes "int_str a @ CHR ''-'' # x = int_str b @ CHR ''-'' # y" "0 \<le> a" "0 \<le> b"
  shows "a = b \<and> x = y"
proof -
  have "CHR ''-'' \<notin> set (int_str n)" if "0 \<le> n" for n
    using that nat_str_digits [of "CHR ''-''" "nat n"] by (auto simp: int_str_def is_digit_def)
  then have "takeWhile (\<lambda>c. c \<noteq> CHR ''-'') (int_str a @ CHR ''-'' # x) = int_str a"
    "takeWhile (\<lambda>c. c \<noteq> CHR ''-'') (int_str b @ CHR ''-'' # y) = int_str b"
    using assms(2,3) by (subst takeWhile_append2; force)+
  then have "int_str a = int_str b" using assms(1) by simp
  then show ?thesis using assms(1) by simp
qed

lemma result_uri_inj:
  assumes "result_uri base i a t = result_uri base j b u" "CHR ''/'' \<notin> set i" "CHR ''/'' \<notin> set j" "0 \<le> a" "0 \<le> b"
  shows "i = j \<and> a = b \<and> t = u"
proof -
  have "i @ CHR ''/'' # ''results/attempt-'' @ int_str a @ CHR ''-'' # t @ ''.parquet''
      = j @ CHR ''/'' # ''results/attempt-'' @ int_str b @ CHR ''-'' # u @ ''.parquet''"
    using assms(1) by (simp add: result_uri_def job_prefix_def)
  from append_slash_inj [OF this assms(2,3)] have ij: "i = j"
    "int_str a @ CHR ''-'' # t @ ''.parquet'' = int_str b @ CHR ''-'' # u @ ''.parquet''" by simp_all
  then show ?thesis using digits_dash_inj [OF ij(2) assms(4,5)] by simp
qed

text \<open>What belongs to a job: its input and every result.\<close>

definition artifact_of :: "string \<Rightarrow> string \<Rightarrow> string \<Rightarrow> bool" where
  "artifact_of base i uri \<longleftrightarrow> uri = input_uri base i \<or> (\<exists>a t. uri = result_uri base i a t)"

lemma artifact_of_suffix: "artifact_of base i uri \<Longrightarrow> \<exists>x. uri = job_prefix base i @ ''/'' @ x"
  unfolding artifact_of_def input_uri_def result_uri_def by auto

text \<open>
  C32. Cleaning up a job deletes all its artifacts and none of another job: after a successful
  \<open>delete_job\<close> neither its input nor a result of any attempt is left, and those of the other jobs
  are what they were.
\<close>

theorem delete_job_exact:
  assumes "file_laws F" "delete_job F resolve base i s = (Inr (), s')" "starts_with ''s3://'' base"
    and "CHR ''/'' \<notin> set i" "CHR ''/'' \<notin> set j" "artifact_of base j uri"
  shows "fi_get F (path_of resolve uri) s' = (if i = j then None else fi_get F (path_of resolve uri) s)"
proof -
  let ?p = "path_of resolve (job_prefix base i)"
  obtain x where uri: "uri = job_prefix base j @ ''/'' @ x" using artifact_of_suffix [OF assms(6)] by blast
  have under: "beneath ?p (path_of resolve uri) \<longleftrightarrow> i = j" unfolding uri by (rule beneath_job [OF assms(4,5,3)])
  show ?thesis
  proof (cases "fi_found F ?p s")
    case True
    then have "fi_delete_dir F ?p s = (Inr (), s')" using assms(2) by (simp add: delete_job_def Let_def)
    then show ?thesis using file_laws.delete_dir_get [OF assms(1)] under by simp
  next
    case False
    then have "s' = s" using assms(2) by (simp add: delete_job_def Let_def)
    then show ?thesis using False file_laws.found_dir [OF assms(1)] under by metis
  qed
qed

subsection \<open>A concrete clean-up\<close>

definition two_jobs :: disk where
  "two_jobs = [(path_of id (input_uri (artifact_root ''b'') ''i''), TextBlob ''x''),
     (path_of id (result_uri (artifact_root ''b'') ''i'' 1 ''t''), ParquetBlob \<lparr>tb_cols = [], tb_rows = []\<rparr>),
     (path_of id (input_uri (artifact_root ''b'') ''j''), TextBlob ''y'')]"

lemma delete_job_exact_witness:
  "\<exists>s'. delete_job mem_files id (artifact_root ''b'') ''i'' two_jobs = (Inr (), s') \<and>
     fi_get mem_files (path_of id (result_uri (artifact_root ''b'') ''i'' 1 ''t'')) s' = None"
proof -
  have "\<exists>s'. delete_job mem_files id (artifact_root ''b'') ''i'' two_jobs = (Inr (), s')"
    by (simp add: delete_job_def mem_files_def Let_def)
  then obtain s' where s': "delete_job mem_files id (artifact_root ''b'') ''i'' two_jobs = (Inr (), s')" by blast
  have "artifact_of (artifact_root ''b'') ''i'' (result_uri (artifact_root ''b'') ''i'' 1 ''t'')" by (auto simp: artifact_of_def)
  moreover have "starts_with ''s3://'' (artifact_root ''b'')" by (simp add: artifact_root_def starts_with_def)
  ultimately have "fi_get mem_files (path_of id (result_uri (artifact_root ''b'') ''i'' 1 ''t'')) s' = None"
    using delete_job_exact [OF disk.file_laws_axioms s', of "''i''"] by simp
  then show ?thesis using s' by blast
qed

end
