(* ===== verification/Worker.thy ===== *)
theory Worker
  imports Actions JobSteps Artifacts Pit Quality
begin

section \<open>The worker of a job\<close>

text \<open>
  What an execution in \<open>jobs.py\<close> runs on: the shared database, the stores, and the clock. The
  sessions of other processes change the database between two transactions of the worker; \<open>we_others\<close>
  is what they do before the worker reads the clock for the \<open>n\<close>-th time. DuckDB's evaluation of the
  SQL of a view and Arrow's casts are parameters.
\<close>

record ('s, 'd, 'f) worker =
  wk_db :: database
  wk_redis :: 's
  wk_lake :: 'd
  wk_files :: 'f
  wk_ticks :: nat
  wk_summary :: "row option"
  wk_seen :: "string list"

record ('s, 'd, 'f) worker_env =
  we_env :: pyenv
  we_settings :: settings
  we_redis :: "'s redis"
  we_delta :: "'d delta"
  we_files :: "'f files"
  we_registry :: registry
  we_now :: "nat \<Rightarrow> int"
  we_others :: "nat \<Rightarrow> database \<Rightarrow> database"
  we_transform :: "string \<Rightarrow> table \<Rightarrow> table result"
  we_cast :: "value_type \<Rightarrow> pyval \<Rightarrow> pyval result"
  we_clash :: clash
  we_trace :: "py_error \<Rightarrow> string"
  we_path :: "string \<Rightarrow> string"
  we_seconds :: "int \<Rightarrow> pyval"

type_synonym ('a, 's, 'd, 'f) work = "('a, ('s, 'd, 'f) worker) action"

text \<open>\<open>self.now()\<close> at the start of a transaction.\<close>

definition tick :: "('s, 'd, 'f) worker_env \<Rightarrow> (int, 's, 'd, 'f) work" where
  "tick E s =
     (Inr (we_now E (wk_ticks s)),
      s\<lparr>wk_ticks := Suc (wk_ticks s), wk_db := we_others E (wk_ticks s) (wk_db s)\<rparr>)"

definition work_db :: "(database \<Rightarrow> database result) \<Rightarrow> (unit, 's, 'd, 'f) work" where
  "work_db f s = (case f (wk_db s) of Inl e \<Rightarrow> (Inl e, s) | Inr db \<Rightarrow> (Inr (), s\<lparr>wk_db := db\<rparr>))"

definition work_lake :: "('d \<Rightarrow> 'd result) \<Rightarrow> (unit, 's, 'd, 'f) work" where
  "work_lake f s = (case f (wk_lake s) of Inl e \<Rightarrow> (Inl e, s) | Inr d \<Rightarrow> (Inr (), s\<lparr>wk_lake := d\<rparr>))"

definition read_lake :: "('d \<Rightarrow> 'a result) \<Rightarrow> ('a, 's, 'd, 'f) work" where
  "read_lake f s = (f (wk_lake s), s)"

definition work_redis :: "('s \<Rightarrow> ('a \<times> 's) result) \<Rightarrow> ('a, 's, 'd, 'f) work" where
  "work_redis f s = (case f (wk_redis s) of Inl e \<Rightarrow> (Inl e, s) | Inr (x, r) \<Rightarrow> (Inr x, s\<lparr>wk_redis := r\<rparr>))"

text \<open>\<open>_require_ownership\<close> and \<open>_commit_checkpoints\<close>.\<close>

definition still_owned :: "('s, 'd, 'f) worker_env \<Rightarrow> job \<Rightarrow> string \<Rightarrow> (unit, 's, 'd, 'f) work" where
  "still_owned E job token =
     bind_act (tick E) (\<lambda>now. \<lambda>s. (require_ownership (j_id job) token now (wk_db s), s))"

text \<open>
  The sessions do not expire on commit: \<open>job.checkpoints\<close>, the field \<open>wk_seen\<close>, is what the last
  refresh of the row read.
\<close>

definition stored_checkpoints :: "job \<Rightarrow> database \<Rightarrow> string list" where
  "stored_checkpoints job db = (case find_job db (j_id job) of None \<Rightarrow> j_checkpoints job | Some j \<Rightarrow> j_checkpoints j)"

definition save_checkpoints :: "('s, 'd, 'f) worker_env \<Rightarrow> job \<Rightarrow> string \<Rightarrow> string list \<Rightarrow> (unit, 's, 'd, 'f) work" where
  "save_checkpoints E job token cps =
     bind_act (tick E) (\<lambda>now.
     then_act (work_db (commit_checkpoints (j_id job) token now cps))
       (change (\<lambda>w. w\<lparr>wk_seen := stored_checkpoints job (wk_db w)\<rparr>)))"

subsection \<open>Rules\<close>

lemma bind_lift_Inr: "bind_act (lift_act (Inr x)) f = f x"
  by (rule ext) (simp add: bind_act_def)

lemma triple_read_same: "(\<And>x. triple P (g x) Q X) \<Longrightarrow> triple P (bind_act (read_act f) g) Q X"
  by (simp add: triple_def bind_act_def)

lemma triple_tick:
  assumes "\<And>s n db. P s \<Longrightarrow> P (s\<lparr>wk_ticks := n, wk_db := db\<rparr>)" "\<And>x. triple P (g x) Q X"
  shows "triple P (bind_act (tick E) g) Q X"
  using assms by (simp add: triple_def tick_def bind_act_def)

lemma triple_work_db:
  "(\<And>s db. P s \<Longrightarrow> P (s\<lparr>wk_db := db\<rparr>)) \<Longrightarrow> (\<And>s. P s \<Longrightarrow> X s) \<Longrightarrow> triple P (work_db f) (\<lambda>_. P) X"
  by (auto simp: triple_def work_db_def split: sum.splits)

lemma triple_work_lake:
  "(\<And>s d. P s \<Longrightarrow> f (wk_lake s) = Inr d \<Longrightarrow> Q () (s\<lparr>wk_lake := d\<rparr>)) \<Longrightarrow> (\<And>s. P s \<Longrightarrow> X s) \<Longrightarrow>
     triple P (work_lake f) Q X"
  by (auto simp: triple_def work_lake_def split: sum.splits)

lemma triple_read_lake:
  "(\<And>s x. P s \<Longrightarrow> f (wk_lake s) = Inr x \<Longrightarrow> Q x s) \<Longrightarrow> (\<And>s. P s \<Longrightarrow> X s) \<Longrightarrow> triple P (read_lake f) Q X"
  by (auto simp: triple_def read_lake_def split: sum.splits)

text \<open>An assertion that looks neither at the database nor at the clock survives the checks.\<close>

definition blind :: "(('s, 'd, 'f) worker \<Rightarrow> bool) \<Rightarrow> bool" where
  "blind P \<longleftrightarrow> (\<forall>s n db. P s \<longrightarrow> P (s\<lparr>wk_ticks := n, wk_db := db\<rparr>)) \<and> (\<forall>s db. P s \<longrightarrow> P (s\<lparr>wk_db := db\<rparr>)) \<and>
     (\<forall>s x. P s \<longrightarrow> P (s\<lparr>wk_seen := x\<rparr>))"

lemma triple_still_owned: "blind P \<Longrightarrow> triple P (still_owned E job token) (\<lambda>_. P) P"
  unfolding still_owned_def by (rule triple_tick) (auto simp: blind_def triple_def split: sum.splits)

lemma triple_save_checkpoints: "blind P \<Longrightarrow> triple P (save_checkpoints E job token cps) (\<lambda>_. P) P"
  unfolding save_checkpoints_def
  by (rule triple_tick) (auto simp: blind_def intro!: triple_then triple_work_db triple_change)

lemma checkpoints_stored:
  assumes "commit_checkpoints (j_id job) token now cps db = Inr db'" "job_ids_unique db"
  shows "stored_checkpoints job db' = cps"
proof -
  have "owns (j_id job) token now db" using assms(1) by (auto simp: commit_checkpoints_def split: if_splits)
  then obtain r where r: "r \<in> set (db_jobs db)" "leased (j_id job) token now r"
    by (auto simp: owns_def rowcount_def filter_empty_conv)
  have db': "db_jobs db' = sql_update (leased (j_id job) token now) (\<lambda>j. j\<lparr>j_checkpoints := cps\<rparr>) (db_jobs db)"
    using assms(1) by (auto simp: commit_checkpoints_def update_jobs_def split: if_splits)
  have "r\<lparr>j_checkpoints := cps\<rparr> \<in> set (db_jobs db')"
    unfolding db' sql_update_def using r by (auto intro!: image_eqI [of _ _ r])
  moreover have "job_ids_unique db'"
    using assms(2) unfolding job_ids_unique_def db' by (simp add: sql_update_def o_def if_distrib cong: if_cong)
  ultimately have "find_job db' (j_id job) = Some (r\<lparr>j_checkpoints := cps\<rparr>)"
    using r(2) by (simp add: find_job_row leased_def)
  then show ?thesis by (simp add: stored_checkpoints_def)
qed

text \<open>The sessions of other processes keep the primary key of the jobs.\<close>

definition fair_others :: "('s, 'd, 'f) worker_env \<Rightarrow> bool" where
  "fair_others E \<longleftrightarrow> (\<forall>n db. job_ids_unique db \<longrightarrow> job_ids_unique (we_others E n db))"

lemma still_owned_keeps:
  assumes "still_owned E job token w = (r, w')"
  shows "wk_lake w' = wk_lake w" "wk_redis w' = wk_redis w" "wk_seen w' = wk_seen w"
    and "fair_others E \<Longrightarrow> job_ids_unique (wk_db w) \<Longrightarrow> job_ids_unique (wk_db w')"
  using assms by (auto simp: still_owned_def bind_act_def tick_def fair_others_def)

lemma save_checkpoints_Inr:
  assumes "save_checkpoints E job token cps w = (Inr y, w')" "fair_others E" "job_ids_unique (wk_db w)"
  shows "wk_lake w' = wk_lake w" "wk_redis w' = wk_redis w" "stored_checkpoints job (wk_db w') = cps" "wk_seen w' = cps"
  using assms checkpoints_stored
  by (fastforce simp: save_checkpoints_def bind_act_Inr then_act_Inr tick_def work_db_def fair_others_def split: sum.splits)+

end
