(* ===== verification/Materialization.thy ===== *)
theory Materialization
  imports Worker OnlineLaws Pit
begin

section \<open>Materialization jobs\<close>

text \<open>
  \<open>_materialize\<close> in \<open>jobs.py\<close>: the range of rows to scan, from the watermark and the lookback of
  an incremental job or from the payload of an explicit one; the window query that keeps the newest
  row of an entity; the upserts with their ownership checks; the checkpoint and the result document.
  The window query is taken to list the entities in the order of their first rows; the engine
  promises no order, and \<open>materialize_as_all_rows\<close> shows that the online store does not depend on it.
\<close>

subsection \<open>The range\<close>

definition payload_end :: "job_payload \<Rightarrow> string result" where
  "payload_end p = (case p of RangePayload _ _ e \<Rightarrow> Inr e | IncrementalPayload _ e _ \<Rightarrow> Inr e | _ \<Rightarrow> Inl (KeyError ''end''))"

definition payload_mode :: "job_payload \<Rightarrow> string" where
  "payload_mode p = (case p of IncrementalPayload _ _ _ \<Rightarrow> ''incremental'' | _ \<Rightarrow> ''explicit'')"

definition payload_lookback :: "job_payload \<Rightarrow> int" where
  "payload_lookback p = (case p of IncrementalPayload _ _ n \<Rightarrow> n | _ \<Rightarrow> 0)"

definition scan_start :: "pyenv \<Rightarrow> job_payload \<Rightarrow> int option \<Rightarrow> int option result" where
  "scan_start env p watermark =
     (if payload_mode p = ''incremental''
      then (case watermark of None \<Rightarrow> Inr None
            | Some t \<Rightarrow> bind_result (minus_seconds t (payload_lookback p)) (\<lambda>s. Inr (Some s)))
      else (case p of
          RangePayload _ s _ \<Rightarrow> bind_result (time_of_text env s) (\<lambda>t. Inr (Some t))
        | _ \<Rightarrow> Inl (KeyError ''start'')))"

subsection \<open>The newest rows\<close>

definition entity_part :: "string list \<Rightarrow> row \<Rightarrow> pyval list" where
  "entity_part keys r = map (dict_get r) keys"

definition newest_of :: "string list \<Rightarrow> row list \<Rightarrow> pyval list \<Rightarrow> row list" where
  "newest_of keys rows p =
     (case newest row_stamp (filter (\<lambda>r. entity_part keys r = p) rows) of None \<Rightarrow> [] | Some r \<Rightarrow> [r])"

definition drop_date :: "row \<Rightarrow> row" where
  "drop_date r = filter (\<lambda>kv. fst kv \<noteq> ''event_date'') r"

definition latest_rows :: "string list \<Rightarrow> table \<Rightarrow> row list result" where
  "latest_rows keys t =
     (if \<not> set (keys @ [''event_date'', ''event_timestamp'', ''event_id'']) \<subseteq> set (tb_cols t)
      then Inl (DataError ''Binder Error'')
      else Inr (map drop_date (concat (map (newest_of keys (tb_rows t)) (remdups (map (entity_part keys) (tb_rows t)))))))"

definition max_opt :: "int option \<Rightarrow> int option \<Rightarrow> int option" where
  "max_opt a b = (case (a, b) of (Some x, Some y) \<Rightarrow> Some (max x y) | (None, y) \<Rightarrow> y | (x, None) \<Rightarrow> x)"

definition scanned_freshness :: "row list \<Rightarrow> int option" where
  "scanned_freshness rows = fold (\<lambda>r m. max_opt m (time_of r ''event_timestamp'')) rows None"

subsection \<open>The job\<close>

definition item_of :: "row \<Rightarrow> string \<Rightarrow> (string \<times> pyval) result" where
  "item_of r k = (case map_of r k of None \<Rightarrow> Inl (KeyError k) | Some v \<Rightarrow> Inr (k, v))"

definition row_event :: "feature_view \<Rightarrow> entity \<Rightarrow> row \<Rightarrow> stream_event result" where
  "row_event v en r =
     bind_result (traverse (item_of r) (map fst (e_join_keys en))) (\<lambda>entity.
     bind_result (traverse (item_of r) (map f_name (v_features v))) (\<lambda>vals.
     case (dict_get r ''event_id'', dict_get r ''event_timestamp'') of
       (VStr i, VTime t) \<Rightarrow> mk_event i (view_ref v) entity t vals
     | _ \<Rightarrow> Inl (ValidationError ''StreamFeatureEvent'')))"

fun upsert_rows ::
    "('s, 'd, 'f) worker_env \<Rightarrow> job \<Rightarrow> string \<Rightarrow> feature_view \<Rightarrow> entity \<Rightarrow> row list \<Rightarrow> nat \<Rightarrow> (nat, 's, 'd, 'f) work" where
  "upsert_rows E job token v en [] n = ret n"
| "upsert_rows E job token v en (r # rs) n =
     then_act (still_owned E job token) (
     bind_act (lift_act (row_event v en r)) (\<lambda>e.
     bind_act (work_redis (upsert (we_env E) (we_redis E) e)) (\<lambda>stored.
     upsert_rows E job token v en rs (if stored then Suc n else n))))"

definition time_field :: "int option \<Rightarrow> pyval" where
  "time_field t = (case t of None \<Rightarrow> VNone | Some x \<Rightarrow> VStr (iso_text x))"

definition materialize_doc ::
    "('s, 'd, 'f) worker_env \<Rightarrow> job_payload \<Rightarrow> int option \<Rightarrow> int \<Rightarrow> int option \<Rightarrow> nat \<Rightarrow> nat \<Rightarrow> nat \<Rightarrow> int option \<Rightarrow> row" where
  "materialize_doc E p start stop watermark scanned candidates updated fresh =
     [(''mode'', VStr (payload_mode p)), (''effective_start'', time_field start), (''effective_end'', VStr (iso_text stop)),
      (''lookback_seconds'', VInt (payload_lookback p)), (''scanned_rows'', VInt (int scanned)),
      (''candidate_entities'', VInt (int candidates)), (''updated_entities'', VInt (int updated)),
      (''skipped_entities'', VInt (int candidates - int updated)), (''source_freshness_at'', time_field fresh),
      (''freshness_lag_seconds'', (case fresh of None \<Rightarrow> VNone | Some f \<Rightarrow> we_seconds E (max 0 (stop - f)))),
      (''resulting_watermark'', time_field (if payload_mode p = ''incremental'' then Some stop else watermark))]"

definition prior_freshness :: "job_payload \<Rightarrow> mat_state option \<Rightarrow> int option" where
  "prior_freshness p state =
     (if payload_mode p = ''incremental'' then (case state of None \<Rightarrow> None | Some s \<Rightarrow> ms_freshness s) else None)"

definition materialize_rows ::
    "('s, 'd, 'f) worker_env \<Rightarrow> job \<Rightarrow> string \<Rightarrow> feature_view \<Rightarrow> entity \<Rightarrow> mat_state option \<Rightarrow> int option \<Rightarrow> int \<Rightarrow> (row, 's, 'd, 'f) work" where
  "materialize_rows E job token v en state start stop =
     then_act (still_owned E job token) (
     bind_act (read_lake (load_range (we_delta E) (view_uri (st_bucket (we_settings E)) (view_ref v)) ''event_timestamp'' start stop)) (\<lambda>t.
     bind_act (lift_act (latest_rows (map fst (e_join_keys en)) t)) (\<lambda>latest.
     bind_act (upsert_rows E job token v en latest 0) (\<lambda>updated.
     then_act (save_checkpoints E job token [''materialized:'' @ nat_str (length latest)])
       (ret (materialize_doc E (j_payload job) start stop (case state of None \<Rightarrow> None | Some s \<Rightarrow> ms_watermark s)
          (length (tb_rows t)) (length latest) updated
          (max_opt (prior_freshness (j_payload job) state) (scanned_freshness (tb_rows t)))))))))"

definition materialize :: "('s, 'd, 'f) worker_env \<Rightarrow> job \<Rightarrow> string \<Rightarrow> (row, 's, 'd, 'f) work" where
  "materialize E job token =
     bind_act (lift_act (feature_view_of (we_registry E) (payload_view (j_payload job)))) (\<lambda>v.
     bind_act (lift_act (entity_of (we_registry E) (v_entity v))) (\<lambda>en.
     bind_act (lift_act (payload_end (j_payload job))) (\<lambda>b.
     bind_act (lift_act (time_of_text (we_env E) b)) (\<lambda>stop.
     bind_act (read_act (\<lambda>w. find_state (wk_db w) (view_ref v))) (\<lambda>state.
     bind_act (lift_act (scan_start (we_env E) (j_payload job) (case state of None \<Rightarrow> None | Some s \<Rightarrow> ms_watermark s))) (\<lambda>start.
     materialize_rows E job token v en state start stop))))))"

end
