(* ===== verification/Backfill.thy ===== *)
theory Backfill
  imports Worker Json
begin

section \<open>Backfill jobs\<close>

text \<open>
  \<open>_backfill\<close> in \<open>jobs.py\<close> with its helpers: the daily chunks of a range, the checkpoints that carry
  the quality summary, the transformation of a chunk with its validation and quality policy, and the
  replacement of the chunk in the offline table. An exception that carries a quality summary leaves
  it in \<open>wk_summary\<close>.
\<close>

subsection \<open>Chunks\<close>

definition day_us :: int where "day_us = 86400000000"

text \<open>\<open>(cursor + timedelta(days=1)).replace(hour=0, ...)\<close>, capped by the end.\<close>

definition chunk_end :: "int \<Rightarrow> int \<Rightarrow> int result" where
  "chunk_end stop cursor =
     (if \<not> in_range (cursor + day_us) then Inl (OverflowError ''date value out of range'')
      else (let c = min stop ((cursor + day_us) - (cursor + day_us) mod day_us)
        in Inr (if c \<le> cursor then min stop (cursor + day_us) else c)))"

lemma chunk_end_bounds:
  assumes "chunk_end stop cursor = Inr c" "cursor < stop"
  shows "cursor < c" "c \<le> stop" "c \<le> cursor - cursor mod day_us + day_us"
proof -
  have m: "(cursor + day_us) mod day_us = cursor mod day_us" "0 \<le> cursor mod day_us" "cursor mod day_us < day_us"
    by (simp_all add: day_us_def)
  show "cursor < c" "c \<le> stop" "c \<le> cursor - cursor mod day_us + day_us"
    using assms m by (auto simp: chunk_end_def Let_def split: if_splits)
qed

function chunks :: "int \<Rightarrow> int \<Rightarrow> (int \<times> int result) list" where
  "chunks stop cursor =
     (if stop \<le> cursor then []
      else (case chunk_end stop cursor of
          Inl e \<Rightarrow> [(cursor, Inl e)]
        | Inr c \<Rightarrow> (cursor, Inr c) # chunks stop c))"
  by pat_completeness auto
termination
  by (relation "measure (\<lambda>(stop, cursor). nat (stop - cursor))") (use chunk_end_bounds in force)+

declare chunks.simps [simp del]

subsection \<open>Quality summaries\<close>

record quality_summary =
  qs_policy :: quality_policy
  qs_evaluated :: int
  qs_valid :: int
  qs_invalid :: int
  qs_quarantined :: int
  qs_counts :: "(constraint \<times> int) list"

definition summary_doc :: "quality_summary \<Rightarrow> row" where
  "summary_doc q =
     [(''policy'', VStr (policy_str (qs_policy q))), (''evaluated_rows'', VInt (qs_evaluated q)),
      (''valid_rows'', VInt (qs_valid q)), (''invalid_rows'', VInt (qs_invalid q)),
      (''quarantined_rows'', VInt (qs_quarantined q)),
      (''counts_by_constraint'', VDict (map (\<lambda>kv. (constraint_str (fst kv), VInt (snd kv))) (qs_counts q)))]"

definition policy_of_str :: "string \<Rightarrow> quality_policy option" where
  "policy_of_str s = find (\<lambda>p. policy_str p = s) [Reject, Quarantine, Report]"

definition constraint_of_str :: "string \<Rightarrow> constraint option" where
  "constraint_of_str s = find (\<lambda>c. constraint_str c = s) all_constraints"

definition summary_error :: py_error where
  "summary_error = ValidationError ''DataQualitySummary''"

fun parse_counts :: "(string \<times> pyval) list \<Rightarrow> (constraint \<times> int) list result" where
  "parse_counts [] = Inr []"
| "parse_counts ((k, v) # d) =
     (case (constraint_of_str k, v) of
        (Some c, VInt n) \<Rightarrow> bind_result (parse_counts d) (\<lambda>cs. Inr ((c, n) # cs))
      | _ \<Rightarrow> Inl summary_error)"

definition summary_fields :: "string list" where
  "summary_fields = [''policy'', ''evaluated_rows'', ''valid_rows'', ''invalid_rows'', ''quarantined_rows'', ''counts_by_constraint'']"

text \<open>
  \<open>DataQualitySummary.model_validate\<close> on what the code writes: no other fields, and none missing
  but the counts, which have a default. (pydantic also converts texts that look like numbers.)
\<close>

definition parse_summary :: "pyval \<Rightarrow> quality_summary result" where
  "parse_summary v =
     (case v of
        VDict d \<Rightarrow>
          if \<not> (set (map fst d) \<subseteq> set summary_fields \<and> set (butlast summary_fields) \<subseteq> set (map fst d)) then Inl summary_error
          else (case (dict_get d ''policy'', dict_get d ''evaluated_rows'', dict_get d ''valid_rows'',
                      dict_get d ''invalid_rows'', dict_get d ''quarantined_rows'',
                      case map_of d ''counts_by_constraint'' of None \<Rightarrow> VDict [] | Some c \<Rightarrow> c) of
              (VStr p, VInt a, VInt b, VInt c, VInt q, VDict counts) \<Rightarrow>
                (case policy_of_str p of
                   None \<Rightarrow> Inl summary_error
                 | Some pol \<Rightarrow>
                     if a < 0 \<or> b < 0 \<or> c < 0 \<or> q < 0 then Inl summary_error
                     else bind_result (parse_counts counts) (\<lambda>cs.
                       Inr \<lparr>qs_policy = pol, qs_evaluated = a, qs_valid = b, qs_invalid = c,
                            qs_quarantined = q, qs_counts = cs\<rparr>))
            | _ \<Rightarrow> Inl summary_error)
      | _ \<Rightarrow> Inl summary_error)"

definition empty_summary :: "quality_policy \<Rightarrow> quality_summary" where
  "empty_summary p = \<lparr>qs_policy = p, qs_evaluated = 0, qs_valid = 0, qs_invalid = 0, qs_quarantined = 0, qs_counts = []\<rparr>"

definition add_counts :: "(constraint \<times> int) list \<Rightarrow> (constraint \<times> nat) list \<Rightarrow> (constraint \<times> int) list" where
  "add_counts old new =
     fold (\<lambda>kn d. dict_set d (fst kn) ((case map_of d (fst kn) of None \<Rightarrow> 0 | Some n \<Rightarrow> n) + int (snd kn))) new old"

definition next_summary :: "quality_policy \<Rightarrow> quality_summary \<Rightarrow> quality_validation \<Rightarrow> quality_summary" where
  "next_summary p q v =
     \<lparr>qs_policy = p, qs_evaluated = qs_evaluated q + int (qv_rows v),
      qs_valid = qs_valid q + int (length (valid_row_indexes v)),
      qs_invalid = qs_invalid q + int (length (invalid_row_indexes v)),
      qs_quarantined = qs_quarantined q + (if p = Quarantine then int (length (invalid_row_indexes v)) else 0),
      qs_counts = add_counts (qs_counts q) (counts_by_constraint v)\<rparr>"

subsection \<open>Checkpoints\<close>

definition backfill_tag :: string where "backfill_tag = ''backfill:''"

definition quality_tag :: string where "quality_tag = ''quality:''"

definition backfill_checkpoint :: "pyenv \<Rightarrow> string \<Rightarrow> quality_summary \<Rightarrow> string" where
  "backfill_checkpoint env cursor q =
     backfill_tag @ json_dumps env compact_opts (VDict [(''cursor'', VStr cursor), (''quality'', VDict (summary_doc q))])"

text \<open>\<open>payload.get("cursor")\<close>: only a dictionary has \<open>get\<close>.\<close>

definition payload_item :: "pyval \<Rightarrow> string \<Rightarrow> pyval result" where
  "payload_item v k = (case v of VDict d \<Rightarrow> Inr (dict_get d k) | _ \<Rightarrow> Inl (TypeError ''no attribute get''))"

fun any_checkpoint :: "pyenv \<Rightarrow> string list \<Rightarrow> string \<Rightarrow> bool result" where
  "any_checkpoint env [] cursor = Inr False"
| "any_checkpoint env (c # cs) cursor =
     (if starts_with backfill_tag c
      then bind_result (json_loads env (drop (length backfill_tag) c)) (\<lambda>v.
           bind_result (payload_item v ''cursor'') (\<lambda>x.
             if x = VStr cursor then Inr True else any_checkpoint env cs cursor))
      else any_checkpoint env cs cursor)"

definition has_backfill_checkpoint :: "pyenv \<Rightarrow> string list \<Rightarrow> string \<Rightarrow> bool result" where
  "has_backfill_checkpoint env cps cursor = (if cursor \<in> set cps then Inr True else any_checkpoint env cps cursor)"

text \<open>\<open>_quality_summary\<close>, on the reversed checkpoints.\<close>

fun last_summary :: "pyenv \<Rightarrow> string list \<Rightarrow> quality_policy \<Rightarrow> quality_summary result" where
  "last_summary env [] p = Inr (empty_summary p)"
| "last_summary env (c # cs) p =
     (if starts_with quality_tag c then bind_result (json_loads env (drop (length quality_tag) c)) parse_summary
      else if starts_with backfill_tag c
      then bind_result (json_loads env (drop (length backfill_tag) c)) (\<lambda>v.
           case v of
             VDict d \<Rightarrow> (case map_of d ''quality'' of None \<Rightarrow> Inl (KeyError ''quality'') | Some q \<Rightarrow> parse_summary q)
           | _ \<Rightarrow> Inl (TypeError ''not subscriptable''))
      else last_summary env cs p)"

definition quality_summary_of :: "pyenv \<Rightarrow> string list \<Rightarrow> quality_policy \<Rightarrow> quality_summary result" where
  "quality_summary_of env cps p = last_summary env (rev cps) p"

subsection \<open>The rows of a chunk\<close>

definition date_text :: "int \<Rightarrow> string" where
  "date_text t = take 10 (iso_us t)"

text \<open>\<open>_validate_output\<close>: the declared columns, in order, cast to the declared types.\<close>

definition declared_types :: "(string \<times> value_type) list \<Rightarrow> feature list \<Rightarrow> (string \<times> value_type) list" where
  "declared_types keys fs =
     dict_set (dict_set (fold (\<lambda>f d. dict_set d (f_name f) (f_dtype f)) fs (fold (\<lambda>kt d. dict_set d (fst kt) (snd kt)) keys []))
       ''event_id'' TString) ''event_timestamp'' TTimestamp"

definition output_columns :: "(string \<times> value_type) list \<Rightarrow> feature list \<Rightarrow> string list" where
  "output_columns keys fs = map fst keys @ [''event_timestamp'', ''event_id''] @ map f_name fs"

definition cast_value :: "(value_type \<Rightarrow> pyval \<Rightarrow> pyval result) \<Rightarrow> (string \<times> value_type) list \<Rightarrow> string \<Rightarrow> pyval \<Rightarrow> pyval result" where
  "cast_value cast types c v = (case map_of types c of None \<Rightarrow> Inr v | Some t \<Rightarrow> cast t v)"

definition cast_row ::
    "(value_type \<Rightarrow> pyval \<Rightarrow> pyval result) \<Rightarrow> (string \<times> value_type) list \<Rightarrow> string list \<Rightarrow> row \<Rightarrow> row result" where
  "cast_row cast types cols r =
     bind_result (traverse (\<lambda>c. cast_value cast types c (dict_get r c)) cols) (\<lambda>vs. Inr (zip cols vs))"

definition validate_output ::
    "(value_type \<Rightarrow> pyval \<Rightarrow> pyval result) \<Rightarrow> (string \<times> value_type) list \<Rightarrow> feature list \<Rightarrow> table \<Rightarrow> table result" where
  "validate_output cast keys fs t =
     (if \<not> set (output_columns keys fs) \<subseteq> set (tb_cols t)
      then Inl (ValueError ''batch SQL missing required columns'')
      else bind_result (traverse (cast_row cast (declared_types keys fs) (output_columns keys fs)) (tb_rows t)) (\<lambda>rows.
        Inr \<lparr>tb_cols = output_columns keys fs, tb_rows = rows\<rparr>))"

definition in_chunk :: "int \<Rightarrow> int \<Rightarrow> row \<Rightarrow> bool" where
  "in_chunk s e r = (case time_of r ''event_timestamp'' of None \<Rightarrow> False | Some t \<Rightarrow> s \<le> t \<and> t < e)"

definition row_date :: "row \<Rightarrow> pyval" where
  "row_date r = (case time_of r ''event_timestamp'' of None \<Rightarrow> VNone | Some t \<Rightarrow> VStr (date_text t))"

definition chunk_rows :: "int \<Rightarrow> int \<Rightarrow> table \<Rightarrow> table" where
  "chunk_rows s e t =
     \<lparr>tb_cols = tb_cols t @ [''event_date''],
      tb_rows = map (\<lambda>r. r @ [(''event_date'', row_date r)]) (filter (in_chunk s e) (tb_rows t))\<rparr>"

text \<open>\<open>_quarantine_batch\<close>.\<close>

definition row_errors :: "quality_validation \<Rightarrow> nat \<Rightarrow> string list" where
  "row_errors v i =
     map (\<lambda>x. vi_feature x @ CHR '':'' # constraint_str (vi_constraint x)) (filter (\<lambda>x. vi_row x = i) (qv_violations v))"

definition quarantined_rows :: "quality_validation \<Rightarrow> table \<Rightarrow> table" where
  "quarantined_rows v t =
     \<lparr>tb_cols = tb_cols t @ [''quality_errors'', ''quality_policy''],
      tb_rows = map (\<lambda>i. tb_rows t ! i @ [(''quality_errors'', VList (map VStr (row_errors v i))),
        (''quality_policy'', VStr (policy_str Quarantine))]) (invalid_row_indexes v)\<rparr>"

definition quarantine_batch ::
    "'d delta \<Rightarrow> string \<Rightarrow> string \<Rightarrow> string \<Rightarrow> table \<Rightarrow> quality_validation \<Rightarrow> string \<Rightarrow> 'd \<Rightarrow> 'd result" where
  "quarantine_batch D bucket i view t v date d =
     (if invalid_row_indexes v = [] then Inr d
      else (let target = quarantine_uri bucket view i in
        if dl_exists D target d then overwrite_partition D target (quarantined_rows v t) (date_predicate date) d
        else append_rows D target (quarantined_rows v t) (Some ''event_date'') d))"

text \<open>
  \<open>pa.concat_tables(..., promote_options="default")\<close>: the union of the columns, nulls where one is
  missing. (Arrow also refuses columns of types that have no common one.)
\<close>

definition fill :: "string list \<Rightarrow> row \<Rightarrow> row" where
  "fill cols r = map (\<lambda>c. (c, dict_get r c)) cols"

definition concat_tables :: "table \<Rightarrow> table \<Rightarrow> table" where
  "concat_tables a b =
     (let cols = tb_cols a @ filter (\<lambda>c. c \<notin> set (tb_cols a)) (tb_cols b)
      in \<lparr>tb_cols = cols, tb_rows = map (fill cols) (tb_rows a @ tb_rows b)\<rparr>)"

definition outside :: "int \<Rightarrow> int \<Rightarrow> row \<Rightarrow> bool" where
  "outside s e r = (case time_of r ''event_timestamp'' of None \<Rightarrow> False | Some t \<Rightarrow> t < s \<or> e \<le> t)"

definition preserved_rows :: "string \<Rightarrow> int \<Rightarrow> int \<Rightarrow> table \<Rightarrow> table" where
  "preserved_rows date s e t =
     t\<lparr>tb_rows := filter (\<lambda>r. dict_get r ''event_date'' = VStr date \<and> outside s e r) (tb_rows t)\<rparr>"

definition replace_chunk :: "'d delta \<Rightarrow> string \<Rightarrow> string \<Rightarrow> int \<Rightarrow> int \<Rightarrow> table \<Rightarrow> 'd \<Rightarrow> 'd result" where
  "replace_chunk D target date s e out d =
     (if dl_exists D target d
      then bind_result (dl_load D target d) (\<lambda>t.
        if ''event_date'' \<notin> set (tb_cols t) then Inl (KeyError ''event_date'')
        else if ''event_timestamp'' \<notin> set (tb_cols t) then Inl (KeyError ''event_timestamp'')
        else overwrite_partition D target (concat_tables (preserved_rows date s e t) out) (date_predicate date) d)
      else if tb_rows out \<noteq> [] then append_rows D target out (Some ''event_date'') d
      else Inr d)"

subsection \<open>The job\<close>

definition chunk_output ::
    "('s, 'd, 'f) worker_env \<Rightarrow> feature_view \<Rightarrow> batch_source \<Rightarrow> entity \<Rightarrow> int \<Rightarrow> int \<Rightarrow> 'd \<Rightarrow> table result" where
  "chunk_output E v src en s e d =
     bind_result (minus_seconds s (case v_ttl_seconds v of None \<Rightarrow> 0 | Some n \<Rightarrow> n)) (\<lambda>since.
     bind_result (load_range (we_delta E) (normalize_uri (we_path E) (bs_uri src)) (bs_timestamp_field src) (Some since) e d) (\<lambda>t.
     bind_result (we_transform E (v_batch_sql v) t) (\<lambda>out.
     bind_result (validate_output (we_cast E) (e_join_keys en) (v_features v) out) (\<lambda>out.
     Inr (chunk_rows s e out)))))"

definition valid_rows :: "quality_validation \<Rightarrow> table \<Rightarrow> table" where
  "valid_rows q t = t\<lparr>tb_rows := map (\<lambda>i. tb_rows t ! i) (valid_row_indexes q)\<rparr>"

definition reject_chunk :: "quality_validation \<Rightarrow> quality_summary \<Rightarrow> ('a, 's, 'd, 'f) work" where
  "reject_chunk q next s = (Inl (ValueError (bounded_message q)), s\<lparr>wk_summary := Some (summary_doc next)\<rparr>)"

definition store_chunk ::
    "('s, 'd, 'f) worker_env \<Rightarrow> job \<Rightarrow> feature_view \<Rightarrow> int \<Rightarrow> int \<Rightarrow> table \<Rightarrow> quality_validation \<Rightarrow> (unit, 's, 'd, 'f) work" where
  "store_chunk E job v s e out q =
     (let bucket = st_bucket (we_settings E); date = date_text s; target = view_uri bucket (view_ref v) in
      if effective_policy v = Quarantine
      then then_act (work_lake (quarantine_batch (we_delta E) bucket (j_id job) (view_ref v) out q date))
        (work_lake (replace_chunk (we_delta E) target date s e (valid_rows q out)))
      else work_lake (replace_chunk (we_delta E) target date s e out))"

definition run_chunk ::
    "('s, 'd, 'f) worker_env \<Rightarrow> job \<Rightarrow> string \<Rightarrow> feature_view \<Rightarrow> batch_source \<Rightarrow> entity \<Rightarrow> int \<Rightarrow> int \<Rightarrow>
       quality_summary \<Rightarrow> (quality_summary, 's, 'd, 'f) work" where
  "run_chunk E job token v src en s e summary =
     then_act (still_owned E job token) (
     bind_act (read_lake (chunk_output E v src en s e)) (\<lambda>out.
     bind_act (lift_act (validate_quality_table (we_env E) (tb_rows out) (v_features v) (Aware e 0))) (\<lambda>q.
     let next = next_summary (effective_policy v) summary q in
     if invalid_row_indexes q \<noteq> [] \<and> effective_policy v = Reject then reject_chunk q next
     else then_act (still_owned E job token) (
       then_act (store_chunk E job v s e out q) (
       bind_act (read_act wk_seen) (\<lambda>cps.
       then_act (save_checkpoints E job token (cps @ [backfill_checkpoint (we_env E) (iso_text s) next]))
         (ret next)))))))"

fun run_chunks ::
    "('s, 'd, 'f) worker_env \<Rightarrow> job \<Rightarrow> string \<Rightarrow> feature_view \<Rightarrow> batch_source \<Rightarrow> entity \<Rightarrow> (int \<times> int result) list \<Rightarrow>
       quality_summary \<Rightarrow> (quality_summary, 's, 'd, 'f) work" where
  "run_chunks E job token v src en [] summary = ret summary"
| "run_chunks E job token v src en ((s, ce) # cs) summary =
     then_act (still_owned E job token) (
     bind_act (lift_act ce) (\<lambda>e.
     bind_act (read_act wk_seen) (\<lambda>cps.
     bind_act (lift_act (has_backfill_checkpoint (we_env E) cps (iso_text s))) (\<lambda>have_it.
     bind_act (if have_it then ret summary else run_chunk E job token v src en s e summary) (\<lambda>next.
     run_chunks E job token v src en cs next)))))"

definition payload_range :: "job_payload \<Rightarrow> (string \<times> string) result" where
  "payload_range p = (case p of RangePayload _ s e \<Rightarrow> Inr (s, e) | _ \<Rightarrow> Inl (KeyError ''start''))"

definition backfill :: "('s, 'd, 'f) worker_env \<Rightarrow> job \<Rightarrow> string \<Rightarrow> (row, 's, 'd, 'f) work" where
  "backfill E job token =
     bind_act (lift_act (feature_view_of (we_registry E) (payload_view (j_payload job)))) (\<lambda>v.
     bind_act (lift_act (batch_source_of (we_registry E) (v_batch_source v))) (\<lambda>src.
     bind_act (lift_act (entity_of (we_registry E) (v_entity v))) (\<lambda>en.
     bind_act (lift_act (payload_range (j_payload job))) (\<lambda>(a, b).
     bind_act (lift_act (time_of_text (we_env E) a)) (\<lambda>s.
     bind_act (lift_act (time_of_text (we_env E) b)) (\<lambda>e.
     bind_act (read_act wk_seen) (\<lambda>cps.
     bind_act (lift_act (quality_summary_of (we_env E) cps (effective_policy v))) (\<lambda>summary.
     bind_act (run_chunks E job token v src en (chunks e s) summary) (\<lambda>q.
     ret (summary_doc q))))))))))"

subsection \<open>Dates and chunks\<close>

lemma date_text_eq:
  assumes "in_range t" "in_range u"
  shows "date_text t = date_text u \<longleftrightarrow> t div day_us = u div day_us"
proof -
  obtain y m d y' m' d' where c: "civil (nat t div 86400000000) = (y, m, d)" "civil (nat u div 86400000000) = (y', m', d')"
    by (metis prod_cases3)
  have range: "nat t div 86400000000 < 3652059" "nat u div 86400000000 < 3652059"
    using assms by (auto simp: in_range_def less_mult_imp_div_less nat_less_iff)
  note b = civil_bounds [OF range(1) c(1)] civil_bounds [OF range(2) c(2)]
  have dt: "date_text x = fixed_str 4 a @ CHR ''-'' # fixed_str 2 e @ CHR ''-'' # fixed_str 2 f"
    if "civil (nat x div 86400000000) = (a, e, f)" for x a e f
    using that by (simp add: date_text_def iso_us_def Let_def split: prod.splits)
  have "date_text t = date_text u \<longleftrightarrow> (y, m, d) = (y', m', d')"
    using b by (auto simp: dt [OF c(1)] dt [OF c(2)] fixed_str_eq)
  also have "\<dots> \<longleftrightarrow> nat t div 86400000000 = nat u div 86400000000"
    unfolding c [symmetric] by (rule civil_eq)
  also have "\<dots> \<longleftrightarrow> t div day_us = u div day_us"
  proof -
    have "0 \<le> t" "0 \<le> u" using assms by (simp_all add: in_range_def)
    then show ?thesis by (auto simp: day_us_def nat_eq_iff nat_div_as_int)
  qed
  finally show ?thesis .
qed

definition chunk_instants :: "int \<times> int result \<Rightarrow> int list" where
  "chunk_instants c = (case snd c of Inl _ \<Rightarrow> [] | Inr b \<Rightarrow> [fst c..b - 1])"

lemma chunk_end_ok:
  assumes "0 \<le> cursor" "cursor < stop" "stop \<le> 3652058 * day_us"
  shows "\<exists>c. chunk_end stop cursor = Inr c \<and> cursor < c \<and> c \<le> stop \<and> (c - 1) div day_us = cursor div day_us"
proof -
  have "in_range (cursor + day_us)" using assms by (simp add: in_range_def day_us_def)
  then obtain c where c: "chunk_end stop cursor = Inr c" by (auto simp: chunk_end_def Let_def)
  note b = chunk_end_bounds [OF c assms(2)]
  have "(c - 1) div day_us = cursor div day_us"
  proof (rule antisym)
    have "cursor - cursor mod day_us = cursor div day_us * day_us" by (rule minus_mod_eq_div_mult)
    then have "c - 1 < (cursor div day_us + 1) * day_us" using b(3) by (simp add: distrib_right)
    then show "(c - 1) div day_us \<le> cursor div day_us" by (simp add: day_us_def)
    show "cursor div day_us \<le> (c - 1) div day_us" using b(1) by (simp add: day_us_def zdiv_mono1)
  qed
  then show ?thesis using c b by blast
qed

lemma same_day:
  assumes "0 \<le> a" "a \<le> t" "t < b" "(b - 1) div day_us = a div day_us" "b \<le> 3652059 * day_us"
  shows "date_text t = date_text a"
proof -
  have "a div day_us \<le> t div day_us" "t div day_us \<le> (b - 1) div day_us"
    using assms(2,3) by (simp_all add: day_us_def zdiv_mono1)
  moreover have "in_range t" "in_range a" using assms by (simp_all add: in_range_def day_us_def)
  ultimately show ?thesis using assms(4) by (simp add: date_text_eq)
qed

text \<open>A chunk inside \<open>[s, e)\<close> whose instants all have the date of its first.\<close>

definition one_day :: "int \<Rightarrow> int \<Rightarrow> int \<times> int result \<Rightarrow> bool" where
  "one_day s e c \<longleftrightarrow> (\<exists>b. snd c = Inr b \<and> s \<le> fst c \<and> fst c < b \<and> b \<le> e \<and>
     (\<forall>t. fst c \<le> t \<and> t < b \<longrightarrow> date_text t = date_text (fst c)))"

lemma one_day_later: "one_day c e x \<Longrightarrow> s \<le> c \<Longrightarrow> one_day s e x"
  unfolding one_day_def by (meson order_trans)

lemma chunks_props:
  assumes "0 \<le> s" "s \<le> e" "e \<le> 3652058 * day_us"
  shows "concat (map chunk_instants (chunks e s)) = [s..e - 1] \<and> (\<forall>c \<in> set (chunks e s). one_day s e c)"
  using assms
proof (induction e s rule: chunks.induct)
  case (1 e s)
  show ?case
  proof (cases "e \<le> s")
    case True
    then show ?thesis by (subst (1 2) chunks.simps) simp
  next
    case False
    obtain c where c: "chunk_end e s = Inr c" "s < c" "c \<le> e" "(c - 1) div day_us = s div day_us"
      using chunk_end_ok [of s e] False "1.prems" by auto
    have rest: "chunks e s = (s, Inr c) # chunks e c" using c(1) False by (subst chunks.simps) simp
    have ih: "concat (map chunk_instants (chunks e c)) = [c..e - 1]" "\<forall>x \<in> set (chunks e c). one_day c e x"
      using "1.IH" [OF False c(1)] c "1.prems" by auto
    have day: "date_text t = date_text s" if "s \<le> t" "t < c" for t
      using same_day [OF "1.prems"(1) that c(4)] c(3) "1.prems"(3) by (simp add: day_us_def)
    then have "one_day s e (s, Inr c)" using c(2,3) unfolding one_day_def fst_conv snd_conv by blast
    moreover have "one_day s e x" if "x \<in> set (chunks e c)" for x
      using ih(2) that c(2) one_day_later [of c e x s] by simp
    moreover have "[s..c - 1] @ [c..e - 1] = [s..e - 1]" using upto_split2 [of s "c - 1" "e - 1"] c by simp
    moreover have "chunk_instants (s, Inr c) = [s..c - 1]" by (simp add: chunk_instants_def)
    ultimately show ?thesis using ih(1) by (simp add: rest)
  qed
qed

lemmas chunks_one_day = chunks_props [THEN conjunct2]

text \<open>
  C37. The chunks of a range cover it without gap or overlap, in order, and none crosses a midnight:
  all its instants have one date, the date of the partition that the chunk replaces. The last day
  a \<open>datetime\<close> can hold is left out, because computing its end overflows.
\<close>

theorem chunks_tile:
  assumes "0 \<le> s" "s \<le> e" "e \<le> 3652058 * day_us"
  shows "concat (map chunk_instants (chunks e s)) = [s..e - 1] \<and> (\<forall>c \<in> set (chunks e s). one_day s e c)"
  using assms by (rule chunks_props)

subsection \<open>The summary in a checkpoint\<close>

text \<open>A summary as pydantic accepts it; its counts have distinct keys, as in a dictionary.\<close>

definition summary_ok :: "quality_summary \<Rightarrow> bool" where
  "summary_ok q \<longleftrightarrow> 0 \<le> qs_evaluated q \<and> 0 \<le> qs_valid q \<and> 0 \<le> qs_invalid q \<and> 0 \<le> qs_quarantined q \<and>
     distinct (map fst (qs_counts q))"

lemma constraint_str_inj [simp]: "constraint_str a = constraint_str b \<longleftrightarrow> a = b"
  by (cases a; cases b) simp_all

lemma constraint_of_constraint_str [simp]: "constraint_of_str (constraint_str c) = Some c"
  by (cases c) (simp_all add: constraint_of_str_def all_constraints_def)

lemma policy_of_policy_str [simp]: "policy_of_str (policy_str p) = Some p"
  by (cases p) (simp_all add: policy_of_str_def)

lemma parse_counts_doc: "parse_counts (map (\<lambda>kv. (constraint_str (fst kv), VInt (snd kv))) cs) = Inr cs"
  by (induction cs) auto

lemma insort_key_map: "insort_key f (g x) (map g xs) = map g (insort_key (\<lambda>y. f (g y)) x xs)"
  by (induction xs) auto

lemma sort_key_map: "sort_key f (map g xs) = map g (sort_key (\<lambda>y. f (g y)) xs)"
  by (induction xs) (simp_all add: insort_key_map)

text \<open>The summary stays well formed, and its rows stay split into valid and invalid ones.\<close>

lemma add_counts_distinct: "distinct (map fst old) \<Longrightarrow> distinct (map fst (add_counts old new))"
  unfolding add_counts_def by (induction new arbitrary: old) (auto simp: distinct_dict_set)

lemma next_summary_ok: "summary_ok q \<Longrightarrow> summary_ok (next_summary p q v)"
  by (simp add: summary_ok_def next_summary_def add_counts_distinct)

lemma next_summary_split:
  assumes "validate_quality_rows env rows fs tss ref uniq = Inr v" "distinct (map f_name fs)"
    and "qs_valid q + qs_invalid q = qs_evaluated q"
  shows "qs_valid (next_summary p q v) + qs_invalid (next_summary p q v) = qs_evaluated (next_summary p q v)"
proof -
  note part = quality_indexes_partition [where i = 0, OF assms(1,2)]
  have "distinct (valid_row_indexes v)" "distinct (invalid_row_indexes v)"
    using part by (simp_all add: strict_sorted_iff)
  moreover have "card (set (valid_row_indexes v) \<union> set (invalid_row_indexes v))
      = card (set (valid_row_indexes v)) + card (set (invalid_row_indexes v))"
    by (rule card_Un_disjoint) (use part in simp_all)
  ultimately have "length (valid_row_indexes v) + length (invalid_row_indexes v) = qv_rows v"
    using part validate_quality_rows_count [OF assms(1)] by (simp add: distinct_card)
  then show ?thesis using assms(3) by (simp add: next_summary_def)
qed

text \<open>What the summary is once its keys are sorted.\<close>

definition sort_counts :: "quality_summary \<Rightarrow> quality_summary" where
  "sort_counts q = q\<lparr>qs_counts := sort_key (\<lambda>kv. constraint_str (fst kv)) (qs_counts q)\<rparr>"

lemma canon_counts:
  "canon (VDict (map (\<lambda>kv. (constraint_str (fst kv), VInt (snd kv))) cs))
     = VDict (map (\<lambda>kv. (constraint_str (fst kv), VInt (snd kv))) (sort_key (\<lambda>kv. constraint_str (fst kv)) cs))"
  by (simp add: sort_key_map o_def)

lemma canon_checkpoint:
  "canon (VDict [(''cursor'', VStr c), (''quality'', VDict (summary_doc q))]) =
     VDict [(''cursor'', VStr c), (''quality'', VDict
       [(''counts_by_constraint'', VDict (map (\<lambda>kv. (constraint_str (fst kv), VInt (snd kv))) (qs_counts (sort_counts q)))),
        (''evaluated_rows'', VInt (qs_evaluated q)), (''invalid_rows'', VInt (qs_invalid q)),
        (''policy'', VStr (policy_str (qs_policy q))), (''quarantined_rows'', VInt (qs_quarantined q)),
        (''valid_rows'', VInt (qs_valid q))])]"
  using canon_counts [of "qs_counts q"]
  by (simp add: summary_doc_def sort_counts_def del: canon.simps(2)) (simp add: canon.simps(2))

lemma load_checkpoint:
  assumes "float_reads_ok env" "summary_ok q"
  shows "\<exists>d. json_loads env (drop (length backfill_tag) (backfill_checkpoint env c q)) = Inr (VDict d) \<and>
    map_of d ''cursor'' = Some (VStr c) \<and>
    (\<exists>v. map_of d ''quality'' = Some v \<and> parse_summary v = Inr (sort_counts q))"
proof -
  let ?counts = "map (\<lambda>kv. (constraint_str (fst kv), VInt (snd kv))) (qs_counts (sort_counts q))"
  let ?v = "VDict [(''counts_by_constraint'', VDict ?counts), (''evaluated_rows'', VInt (qs_evaluated q)),
    (''invalid_rows'', VInt (qs_invalid q)), (''policy'', VStr (policy_str (qs_policy q))),
    (''quarantined_rows'', VInt (qs_quarantined q)), (''valid_rows'', VInt (qs_valid q))]"
  let ?d = "[(''cursor'', VStr c), (''quality'', ?v)]"
  have dist: "distinct (map fst ?counts)"
  proof -
    have "distinct (map fst (qs_counts (sort_counts q)))"
      using assms(2) by (auto simp: summary_ok_def sort_counts_def distinct_map inj_on_def)
    then show ?thesis by (auto simp: distinct_map inj_on_def)
  qed
  have "json_loads env (render env compact_opts (VDict ?d)) = Inr (VDict ?d)"
    using dist by (intro json_loads_dumps [OF assms(1)]) auto
  then have "json_loads env (drop (length backfill_tag) (backfill_checkpoint env c q)) = Inr (VDict ?d)"
    by (simp add: backfill_checkpoint_def json_dumps_def canon_checkpoint del: canon.simps render.simps)
  moreover have "parse_summary ?v = Inr (sort_counts q)"
    using assms(2) by (simp add: parse_summary_def summary_fields_def summary_ok_def dict_get_def parse_counts_doc)
      (simp add: sort_counts_def)
  ultimately show ?thesis by simp
qed

lemma any_checkpoint_snoc:
  "any_checkpoint env cps c = Inr b \<Longrightarrow>
     any_checkpoint env (cps @ [k]) c = (if b then Inr True else any_checkpoint env [k] c)"
proof (induction cps)
  case Nil
  then show ?case by (simp split: if_splits del: any_checkpoint.simps(2))
next
  case (Cons x xs)
  show ?case
  proof (cases "starts_with backfill_tag x")
    case False
    then show ?thesis using Cons by simp
  next
    case True
    obtain v y where v: "json_loads env (drop (length backfill_tag) x) = Inr v" "payload_item v ''cursor'' = Inr y"
      using Cons.prems True by (auto simp: bind_result_eq_Inr)
    have step: "any_checkpoint env (x # zs) c = (if y = VStr c then Inr True else any_checkpoint env zs c)" for zs
      using True v by simp
    show ?thesis using Cons.prems Cons.IH by (simp add: step split: if_splits del: any_checkpoint.simps(2))
  qed
qed

text \<open>
  A checkpoint can be resumed from: once it is appended, its chunk is found, and the summary read
  back is the one it was written with, its counts in the order of their names.
\<close>

theorem checkpoint_resumes:
  assumes "float_reads_ok env" "summary_ok q"
    and "has_backfill_checkpoint env cps c = Inr b"
  shows "has_backfill_checkpoint env (cps @ [backfill_checkpoint env c q]) c = Inr True \<and>
    quality_summary_of env (cps @ [backfill_checkpoint env c q]) p = Inr (sort_counts q)"
proof -
  obtain d v where d: "json_loads env (drop (length backfill_tag) (backfill_checkpoint env c q)) = Inr (VDict d)"
      "map_of d ''cursor'' = Some (VStr c)" "map_of d ''quality'' = Some v" "parse_summary v = Inr (sort_counts q)"
    using load_checkpoint [OF assms(1,2)] by blast
  have tags: "starts_with backfill_tag (backfill_checkpoint env c q)"
    "\<not> starts_with quality_tag (backfill_checkpoint env c q)"
    by (simp_all add: backfill_checkpoint_def backfill_tag_def quality_tag_def starts_with_def)
  have "any_checkpoint env [backfill_checkpoint env c q] c = Inr True"
    using d tags by (simp add: payload_item_def dict_get_def)
  then have "has_backfill_checkpoint env (cps @ [backfill_checkpoint env c q]) c = Inr True"
    using assms(3) any_checkpoint_snoc [of env cps c b "backfill_checkpoint env c q"]
    by (auto simp: has_backfill_checkpoint_def split: if_splits)
  moreover have "quality_summary_of env (cps @ [backfill_checkpoint env c q]) p = Inr (sort_counts q)"
    using d tags by (simp add: quality_summary_of_def)
  ultimately show ?thesis by blast
qed

subsection \<open>Concrete runs\<close>

lemma chunks_tile_witness:
  "concat (map chunk_instants (chunks (day_us + 10) 5)) = [5..day_us + 10 - 1] \<and>
     list_all (one_day 5 (day_us + 10)) (chunks (day_us + 10) 5)"
  unfolding list_all_iff by (rule chunks_tile) (simp_all add: day_us_def)

definition some_summary :: quality_summary where
  "some_summary = \<lparr>qs_policy = Report, qs_evaluated = 3, qs_valid = 2, qs_invalid = 1, qs_quarantined = 0,
     qs_counts = [(CUnique, 2), (CMinimum, 1)]\<rparr>"

lemma checkpoint_resumes_witness:
  "has_backfill_checkpoint demo_env ([] @ [backfill_checkpoint demo_env ''c'' some_summary]) ''c'' = Inr True \<and>
    quality_summary_of demo_env ([] @ [backfill_checkpoint demo_env ''c'' some_summary]) Reject
      = Inr (some_summary\<lparr>qs_counts := [(CMinimum, 1), (CUnique, 2)]\<rparr>)"
proof -
  have "sort_counts some_summary = some_summary\<lparr>qs_counts := [(CMinimum, 1), (CUnique, 2)]\<rparr>"
    by (simp add: sort_counts_def some_summary_def)
  moreover have "summary_ok some_summary" by (simp add: summary_ok_def some_summary_def)
  ultimately show ?thesis
    using checkpoint_resumes [of demo_env some_summary "[]" "''c''" False Reject] by (simp add: has_backfill_checkpoint_def)
qed

end
