(* ===== verification/Execution.thy ===== *)
theory Execution
  imports Materialization Backfill Append
begin

section \<open>Executing a job\<close>

text \<open>
  \<open>_execute\<close> and the bodies that remain: the historical query with its artifacts, from the request
  that \<open>create_historical_query\<close> stores to the result a worker writes, and the append job in the
  worker. A job that ends reports to the queue, and what it leaves behind is deleted:
  the result of an attempt that did not succeed, the staging table of an append that did.
\<close>

definition work_files :: "('a, 'f) action \<Rightarrow> ('a, 's, 'd, 'f) work" where
  "work_files m w = (case m (wk_files w) of (r, f) \<Rightarrow> (r, w\<lparr>wk_files := f\<rparr>))"

definition try_act :: "('a, 's) action \<Rightarrow> ('a result, 's) action" where
  "try_act m s = (case m s of (r, s') \<Rightarrow> (Inr r, s'))"

subsection \<open>The stored request\<close>

definition observation_doc :: "pyenv \<Rightarrow> observation \<Rightarrow> pyval" where
  "observation_doc env ob =
     VDict [(''entity_values'', json_mode env (VDict (ob_entity ob))), (''event_timestamp'', VStr (env_dump_time env (ob_time ob)))]"

definition query_doc :: "pyenv \<Rightarrow> historical_query \<Rightarrow> pyval" where
  "query_doc env q =
     VDict [(''observations'', VList (map (observation_doc env) (hq_observations q))),
       (''features'', VList (map VStr (hq_features q))),
       (''feature_service'', (case hq_service q of None \<Rightarrow> VNone | Some s \<Rightarrow> VStr s))]"

definition parse_observation :: "pyenv \<Rightarrow> pyval \<Rightarrow> observation result" where
  "parse_observation env v =
     (case v of
        VDict d \<Rightarrow>
          if set (map fst d) \<noteq> {''entity_values'', ''event_timestamp''}
          then Inl (ValidationError ''Observation: missing or extra fields'')
          else (case (dict_get d ''entity_values'', env_parse_time env (dict_get d ''event_timestamp'')) of
              (VDict entity, Some t) \<Rightarrow> mk_observation entity t
            | _ \<Rightarrow> Inl (ValidationError ''Observation: a field has the wrong type''))
      | _ \<Rightarrow> Inl (ValidationError ''Observation: not an object''))"

definition parse_text :: "pyval \<Rightarrow> string result" where
  "parse_text v = (case v of VStr s \<Rightarrow> Inr s | _ \<Rightarrow> Inl (ValidationError ''not a string''))"

definition parse_features :: "pyval option \<Rightarrow> string list result" where
  "parse_features v =
     (case v of None \<Rightarrow> Inr [] | Some (VList xs) \<Rightarrow> traverse parse_text xs | Some _ \<Rightarrow> Inl (ValidationError ''features: not a list''))"

definition parse_service :: "pyval option \<Rightarrow> string option result" where
  "parse_service v =
     (case v of None \<Rightarrow> Inr None | Some VNone \<Rightarrow> Inr None | Some (VStr s) \<Rightarrow> Inr (Some s)
      | Some _ \<Rightarrow> Inl (ValidationError ''feature_service: not a string''))"

text \<open>\<open>HistoricalQuery.model_validate\<close>.\<close>

definition parse_query :: "pyenv \<Rightarrow> pyval \<Rightarrow> historical_query result" where
  "parse_query env v =
     (case v of
        VDict d \<Rightarrow>
          if \<not> set (map fst d) \<subseteq> {''observations'', ''features'', ''feature_service''}
          then Inl (ValidationError ''HistoricalQuery: extra fields'')
          else (case map_of d ''observations'' of
              Some (VList xs) \<Rightarrow>
                bind_result (traverse (parse_observation env) xs) (\<lambda>obs.
                bind_result (parse_features (map_of d ''features'')) (\<lambda>fs.
                bind_result (parse_service (map_of d ''feature_service'')) (\<lambda>s.
                mk_historical_query obs fs s)))
            | _ \<Rightarrow> Inl (ValidationError ''HistoricalQuery: observations''))
      | _ \<Rightarrow> Inl (ValidationError ''HistoricalQuery: not an object''))"

definition work_root :: "('s, 'd, 'f) worker_env \<Rightarrow> string" where
  "work_root E = artifact_root (st_bucket (we_settings E))"

text \<open>\<open>create_historical_query\<close>: the input is written before the row, and deleted when the row cannot be.\<close>

definition submit_query ::
    "('s, 'd, 'f) worker_env \<Rightarrow> string \<Rightarrow> int \<Rightarrow> historical_query \<Rightarrow> string list \<Rightarrow> pyval list \<Rightarrow> (job, 's, 'd, 'f) work" where
  "submit_query E i now q refs ws =
     (let uri = input_uri (work_root E) i in
      then_act (work_files (write_json (we_env E) (we_files E) (we_path E) uri (query_doc (we_env E) q)))
        (catch_act
          (\<lambda>w. case create_query_job (we_settings E) i now uri (int (length (hq_observations q))) refs ws (wk_db w) of
             Inl e \<Rightarrow> (Inl e, w) | Inr (j, db) \<Rightarrow> (Inr j, w\<lparr>wk_db := db\<rparr>))
          (\<lambda>e. then_act (try_act (work_files (delete_job (we_files E) (we_path E) (work_root E) i))) (lift_act (Inl e)))))"

subsection \<open>The historical query\<close>

definition payload_refs :: "job_payload \<Rightarrow> (string list \<times> pyval list) result" where
  "payload_refs p = (case p of QueryPayload _ refs ws \<Rightarrow> Inr (refs, ws) | _ \<Rightarrow> Inl (KeyError ''resolved_features''))"

definition result_table :: "row list \<Rightarrow> table" where
  "result_table rows = \<lparr>tb_cols = column_names rows, tb_rows = rows\<rparr>"

definition result_doc :: "nat \<Rightarrow> int \<Rightarrow> string list \<Rightarrow> pyval list \<Rightarrow> row" where
  "result_doc n bytes refs ws =
     [(''format'', VStr ''parquet''), (''content_type'', VStr ''application/vnd.apache.parquet''), (''row_count'', VInt (int n)),
      (''byte_size'', VInt bytes), (''resolved_features'', VList (map VStr refs)), (''warnings'', VList ws)]"

definition query_job :: "('s, 'd, 'f) worker_env \<Rightarrow> job \<Rightarrow> string \<Rightarrow> (string \<times> row, 's, 'd, 'f) work" where
  "query_job E job token =
     (case j_artifact job of
        None \<Rightarrow> lift_act (Inl (ValueError ''historical query job is missing its input artifact''))
      | Some uri \<Rightarrow>
          if uri = [] then lift_act (Inl (ValueError ''historical query job is missing its input artifact''))
          else
            bind_act (work_files (\<lambda>f. (read_json (we_env E) (we_files E) (we_path E) uri f, f))) (\<lambda>v.
            bind_act (lift_act (parse_query (we_env E) v)) (\<lambda>q.
            bind_act (lift_act (payload_refs (j_payload job))) (\<lambda>(refs, ws).
            then_act (still_owned E job token) (
            bind_act (read_lake (\<lambda>d. query_table (we_clash E) (we_delta E) (st_bucket (we_settings E)) d (we_registry E) (hq_observations q) refs)) (\<lambda>rows.
            then_act (still_owned E job token) (
            let out = result_uri (work_root E) (j_id job) (j_attempts job) token in
            bind_act (work_files (write_parquet (we_files E) (we_path E) out (result_table rows))) (\<lambda>bytes.
            ret (out, result_doc (length rows) bytes refs ws)))))))))"

subsection \<open>The append job\<close>

definition append_rows_of :: "('s, 'd, 'f) worker_env \<Rightarrow> job \<Rightarrow> string \<Rightarrow> string \<Rightarrow> table \<Rightarrow> (unit, 's, 'd, 'f) work" where
  "append_rows_of E job token target u =
     (if tb_rows u = [] then ret ()
      else then_act (still_owned E job token) (work_lake (append_rows (we_delta E) target u (Some ''event_date''))))"

definition append_job :: "('s, 'd, 'f) worker_env \<Rightarrow> job \<Rightarrow> string \<Rightarrow> (string, 's, 'd, 'f) work" where
  "append_job E job token =
     then_act (still_owned E job token) (
     case j_payload job of
       StagingPayload view uri \<Rightarrow>
         bind_act (read_lake (dl_load (we_delta E) uri)) (\<lambda>staging.
         bind_act (read_lake (unseen_rows (we_env E) (we_delta E) staging (view_uri (st_bucket (we_settings E)) view))) (\<lambda>u.
         then_act (append_rows_of E job token (view_uri (st_bucket (we_settings E)) view) u)
           (then_act (save_checkpoints E job token (append_checkpoints staging u)) (ret uri))))
     | _ \<Rightarrow> lift_act (Inl (KeyError ''staging_uri'')))"

subsection \<open>One attempt\<close>

record attempt =
  at_cleanup :: "string option"
  at_result :: "string option"
  at_meta :: "row option"

definition run_job :: "('s, 'd, 'f) worker_env \<Rightarrow> job \<Rightarrow> string \<Rightarrow> (attempt, 's, 'd, 'f) work" where
  "run_job E job token =
     (case j_kind job of
        Backfill \<Rightarrow> bind_act (backfill E job token) (\<lambda>m. ret \<lparr>at_cleanup = None, at_result = None, at_meta = Some m\<rparr>)
      | Materialize \<Rightarrow> bind_act (materialize E job token) (\<lambda>m. ret \<lparr>at_cleanup = None, at_result = None, at_meta = Some m\<rparr>)
      | OfflineAppend \<Rightarrow> bind_act (append_job E job token) (\<lambda>u. ret \<lparr>at_cleanup = Some u, at_result = None, at_meta = None\<rparr>)
      | HistoricalQuery \<Rightarrow> bind_act (query_job E job token) (\<lambda>(u, m). ret \<lparr>at_cleanup = None, at_result = Some u, at_meta = Some m\<rparr>))"

definition complete :: "('s, 'd, 'f) worker_env \<Rightarrow> job \<Rightarrow> string \<Rightarrow> attempt \<Rightarrow> (unit, 's, 'd, 'f) work" where
  "complete E job token a =
     bind_act (tick E) (\<lambda>now. work_db (finalize_success (we_env E) (we_settings E) now token job (at_result a) (at_meta a)))"

text \<open>The handlers of \<open>_execute\<close>: a lost lease is left to its new owner, anything else is reported.\<close>

definition settle_error :: "('s, 'd, 'f) worker_env \<Rightarrow> job \<Rightarrow> string \<Rightarrow> py_error \<Rightarrow> (unit, 's, 'd, 'f) work" where
  "settle_error E job token e =
     (case e of
        LeaseLostError _ \<Rightarrow> ret ()
      | _ \<Rightarrow> bind_act (tick E) (\<lambda>now.
          change (\<lambda>w. w\<lparr>wk_db := finalize_failure (we_settings E) now token job e (we_trace E e) (wk_summary w) (wk_db w)\<rparr>)))"

definition discard_result :: "('s, 'd, 'f) worker_env \<Rightarrow> attempt \<Rightarrow> (unit, 's, 'd, 'f) work" where
  "discard_result E a =
     (case at_result a of None \<Rightarrow> ret ()
      | Some uri \<Rightarrow> then_act (try_act (work_files (delete_artifact (we_files E) (we_path E) uri))) (ret ()))"

definition delete_staging :: "('s, 'd, 'f) worker_env \<Rightarrow> attempt \<Rightarrow> (unit, 's, 'd, 'f) work" where
  "delete_staging E a =
     (case at_cleanup a of None \<Rightarrow> ret ()
      | Some uri \<Rightarrow> if uri = [] then ret () else change (\<lambda>w. w\<lparr>wk_lake := snd (delete_uri (we_delta E) uri (wk_lake w))\<rparr>))"

definition finish_attempt :: "('s, 'd, 'f) worker_env \<Rightarrow> job \<Rightarrow> string \<Rightarrow> attempt \<Rightarrow> (unit, 's, 'd, 'f) work" where
  "finish_attempt E job token a =
     bind_act (try_act (complete E job token a)) (\<lambda>r.
       case r of
         Inl e \<Rightarrow> then_act (settle_error E job token e) (discard_result E a)
       | Inr _ \<Rightarrow> delete_staging E a)"

definition run_attempt :: "('s, 'd, 'f) worker_env \<Rightarrow> job \<Rightarrow> string \<Rightarrow> (unit, 's, 'd, 'f) work" where
  "run_attempt E job token =
     bind_act (try_act (run_job E job token)) (\<lambda>r.
       case r of Inl e \<Rightarrow> settle_error E job token e | Inr a \<Rightarrow> finish_attempt E job token a)"

definition owns_now :: "('s, 'd, 'f) worker_env \<Rightarrow> job \<Rightarrow> string \<Rightarrow> (bool, 's, 'd, 'f) work" where
  "owns_now E job token = bind_act (tick E) (\<lambda>now. read_act (\<lambda>w. owns (j_id job) token now (wk_db w)))"

definition execute :: "('s, 'd, 'f) worker_env \<Rightarrow> job \<Rightarrow> (unit, 's, 'd, 'f) work" where
  "execute E job =
     (case j_token job of
        None \<Rightarrow> ret ()
      | Some token \<Rightarrow>
          if token = [] then ret ()
          else bind_act (owns_now E job token) (\<lambda>owned.
            if \<not> owned then ret ()
            else then_act (change (\<lambda>w. w\<lparr>wk_summary := None, wk_seen := j_checkpoints job\<rparr>)) (run_attempt E job token)))"

end
