(* ===== verification/Requests.thy ===== *)
theory Requests
  imports Execution RegistryWarnings
begin

section \<open>Requests as JSON documents\<close>

text \<open>
  The request bodies of the HTTP interface: how the client dumps a request model, how the server
  validates the document, and what the server reads of it. A request is read back as it was built, with
  two exceptions. Entity values are untyped, so those of a query come back in their JSON form, a
  datetime as its text. The dump of a metadata patch writes the fields that were never set as null,
  and the server counts a null as set.
\<close>

subsection \<open>Reading fields\<close>

definition parse_optional :: "(pyval \<Rightarrow> 'a result) \<Rightarrow> pyval option \<Rightarrow> 'a option result" where
  "parse_optional f v =
     (case v of None \<Rightarrow> Inr None | Some VNone \<Rightarrow> Inr None | Some x \<Rightarrow> bind_result (f x) (\<lambda>y. Inr (Some y)))"

definition parse_time_field :: "pyenv \<Rightarrow> pyval \<Rightarrow> datetime result" where
  "parse_time_field env v =
     (case env_parse_time env v of None \<Rightarrow> Inl (ValidationError ''not a datetime'') | Some t \<Rightarrow> Inr t)"

definition parse_int_field :: "pyval \<Rightarrow> int result" where
  "parse_int_field v = (case v of VInt n \<Rightarrow> Inr n | _ \<Rightarrow> Inl (ValidationError ''not an integer''))"

definition parse_dict_field :: "pyval \<Rightarrow> row result" where
  "parse_dict_field v = (case v of VDict d \<Rightarrow> Inr d | _ \<Rightarrow> Inl (ValidationError ''not an object''))"

definition parse_list_field :: "(pyval \<Rightarrow> 'a result) \<Rightarrow> pyval \<Rightarrow> 'a list result" where
  "parse_list_field f v = (case v of VList xs \<Rightarrow> traverse f xs | _ \<Rightarrow> Inl (ValidationError ''not a list''))"

definition required :: "(pyval \<Rightarrow> 'a result) \<Rightarrow> row \<Rightarrow> string \<Rightarrow> 'a result" where
  "required f d k = (case map_of d k of None \<Rightarrow> Inl (ValidationError (''field required: '' @ k)) | Some v \<Rightarrow> f v)"

text \<open>A strict model: an object, and no key beyond its fields.\<close>

definition strict_object :: "string list \<Rightarrow> (row \<Rightarrow> 'a result) \<Rightarrow> pyval \<Rightarrow> 'a result" where
  "strict_object names f v =
     (case v of
        VDict d \<Rightarrow> if set (map fst d) \<subseteq> set names then f d else Inl (ValidationError ''extra fields not permitted'')
      | _ \<Rightarrow> Inl (ValidationError ''not an object''))"

subsection \<open>Targets\<close>

definition object_kinds :: "object_kind list" where
  "object_kinds = [KEntity, KBatchSource, KStreamSource, KFeatureView, KFeatureService]"

definition parse_kind :: "pyval \<Rightarrow> object_kind result" where
  "parse_kind v =
     (case v of
        VStr s \<Rightarrow> (case find (\<lambda>k. kind_str k = s) object_kinds of
            None \<Rightarrow> Inl (ValidationError ''not a registry object kind'') | Some k \<Rightarrow> Inr k)
      | _ \<Rightarrow> Inl (ValidationError ''not a registry object kind''))"

definition target_fields :: "string list" where
  "target_fields = [''kind'', ''name'', ''version'', ''feature'']"

definition target_doc :: "target \<Rightarrow> pyval" where
  "target_doc t =
     VDict [(''kind'', VStr (kind_str (t_kind t))), (''name'', VStr (t_name t)),
       (''version'', opt_str (t_version t)), (''feature'', opt_str (t_feature t))]"

definition parse_target :: "pyval \<Rightarrow> target result" where
  "parse_target =
     strict_object target_fields (\<lambda>d.
       bind_result (required parse_kind d ''kind'') (\<lambda>k.
       bind_result (required parse_text d ''name'') (\<lambda>n.
       bind_result (parse_optional parse_text (map_of d ''version'')) (\<lambda>ver.
       bind_result (parse_optional parse_text (map_of d ''feature'')) (\<lambda>feat.
       mk_target k n ver feat)))))"

subsection \<open>Metadata updates\<close>

definition patch_fields :: "string list" where
  "patch_fields = [''owners'', ''tags'', ''documentation_links'']"

definition tags_doc :: "(string \<times> string) list \<Rightarrow> pyval" where
  "tags_doc ts = VDict (map (\<lambda>kv. (fst kv, VStr (snd kv))) ts)"

definition parse_tag :: "string \<times> pyval \<Rightarrow> (string \<times> string) result" where
  "parse_tag kv = bind_result (parse_text (snd kv)) (\<lambda>s. Inr (fst kv, s))"

definition parse_tags :: "pyval \<Rightarrow> (string \<times> string) list result" where
  "parse_tags v = bind_result (parse_dict_field v) (traverse parse_tag)"

definition nullable_doc :: "('a \<Rightarrow> pyval) \<Rightarrow> 'a option \<Rightarrow> pyval" where
  "nullable_doc f x = (case x of None \<Rightarrow> VNone | Some y \<Rightarrow> f y)"

text \<open>\<open>model_dump(mode="json")\<close> writes every field; one that was not set has its default, null.\<close>

definition patch_doc :: "metadata_patch \<Rightarrow> pyval" where
  "patch_doc p =
     VDict [(''owners'', nullable_doc (\<lambda>xs. VList (map VStr xs)) (present (mp_owners p))),
       (''tags'', nullable_doc tags_doc (present (mp_tags p))),
       (''documentation_links'', nullable_doc (\<lambda>xs. VList (map VStr xs)) (present (mp_links p)))]"

text \<open>\<open>model_fields_set\<close>: a field is set when its key is there, be it null.\<close>

definition field_set :: "(pyval \<Rightarrow> 'a result) \<Rightarrow> pyval option \<Rightarrow> 'a option option result" where
  "field_set f v =
     (case v of None \<Rightarrow> Inr None | Some x \<Rightarrow> bind_result (parse_optional f (Some x)) (\<lambda>y. Inr (Some y)))"

definition parse_patch :: "pyenv \<Rightarrow> pyval \<Rightarrow> metadata_patch result" where
  "parse_patch env =
     strict_object patch_fields (\<lambda>d.
       bind_result (field_set (parse_list_field parse_text) (map_of d ''owners'')) (\<lambda>owners.
       bind_result (field_set parse_tags (map_of d ''tags'')) (\<lambda>tags.
       bind_result (field_set (parse_list_field parse_text) (map_of d ''documentation_links'')) (\<lambda>links.
       let p = \<lparr>mp_owners = owners, mp_tags = tags, mp_links = links\<rparr> in
       bind_result (validate_patch env p) (\<lambda>_. Inr p)))))"

text \<open>\<open>accept_flat_patch\<close>.\<close>

definition present_fields :: "string list \<Rightarrow> row \<Rightarrow> row" where
  "present_fields ks d = map (\<lambda>k. (k, dict_get d k)) (filter (\<lambda>k. k \<in> fst ` set d) ks)"

definition accept_flat_patch :: "pyval \<Rightarrow> pyval" where
  "accept_flat_patch v =
     (case v of
        VDict d \<Rightarrow>
          if ''patch'' \<notin> fst ` set d \<and> present_fields patch_fields d \<noteq> []
          then VDict [(''target'', dict_get d ''target''), (''patch'', VDict (present_fields patch_fields d))]
          else v
      | _ \<Rightarrow> v)"

definition parse_update :: "pyenv \<Rightarrow> pyval \<Rightarrow> (target \<times> metadata_patch) result" where
  "parse_update env v =
     strict_object [''target'', ''patch''] (\<lambda>d.
       bind_result (required parse_target d ''target'') (\<lambda>t.
       bind_result (required (parse_patch env) d ''patch'') (\<lambda>p. Inr (t, p)))) (accept_flat_patch v)"

definition update_doc :: "target \<Rightarrow> metadata_patch \<Rightarrow> pyval" where
  "update_doc t p = VDict [(''target'', target_doc t), (''patch'', patch_doc p)]"

subsection \<open>Deprecation and activation\<close>

text \<open>\<open>accept_flat_target\<close>, of both requests; \<open>rest\<close> are the fields the first one copies.\<close>

definition accept_flat_target :: "string list \<Rightarrow> pyval \<Rightarrow> pyval" where
  "accept_flat_target rest v =
     (case v of
        VDict d \<Rightarrow>
          if ''target'' \<notin> fst ` set d
          then VDict ((''target'', VDict (present_fields target_fields d)) # map (\<lambda>k. (k, dict_get d k)) rest)
          else v
      | _ \<Rightarrow> v)"

definition mk_note :: "string \<Rightarrow> string result" where
  "mk_note m = (if 2000 < length m then Inl (ValidationError ''message is too long'') else Inr m)"

definition parse_note :: "pyval \<Rightarrow> string result" where
  "parse_note v = bind_result (parse_text v) mk_note"

definition parse_deprecation :: "pyval \<Rightarrow> (target \<times> string option \<times> target option) result" where
  "parse_deprecation v =
     strict_object [''target'', ''message'', ''replacement''] (\<lambda>d.
       bind_result (required parse_target d ''target'') (\<lambda>t.
       bind_result (parse_optional parse_note (map_of d ''message'')) (\<lambda>m.
       bind_result (parse_optional parse_target (map_of d ''replacement'')) (\<lambda>r. Inr (t, m, r)))))
       (accept_flat_target [''message'', ''replacement''] v)"

definition deprecation_doc :: "target \<Rightarrow> string option \<Rightarrow> target option \<Rightarrow> pyval" where
  "deprecation_doc t m r =
     VDict [(''target'', target_doc t), (''message'', opt_str m), (''replacement'', nullable_doc target_doc r)]"

definition parse_activation :: "pyval \<Rightarrow> target result" where
  "parse_activation v =
     strict_object [''target''] (\<lambda>d. required parse_target d ''target'') (accept_flat_target [] v)"

definition activation_doc :: "target \<Rightarrow> pyval" where
  "activation_doc t = VDict [(''target'', target_doc t)]"

subsection \<open>Queries and jobs\<close>

text \<open>A dictionary of untyped values as \<open>model_dump(mode="json")\<close> writes it.\<close>

definition json_row :: "pyenv \<Rightarrow> row \<Rightarrow> row" where
  "json_row env r = map (\<lambda>kv. (fst kv, json_mode env (snd kv))) r"

definition online_query_doc :: "pyenv \<Rightarrow> online_query \<Rightarrow> pyval" where
  "online_query_doc env q =
     VDict [(''entities'', VList (map (\<lambda>r. json_mode env (VDict r)) (oq_entities q))),
       (''features'', VList (map VStr (oq_features q))), (''feature_service'', opt_str (oq_service q))]"

definition parse_online_query :: "pyval \<Rightarrow> online_query result" where
  "parse_online_query =
     strict_object [''entities'', ''features'', ''feature_service''] (\<lambda>d.
       bind_result (required (parse_list_field parse_dict_field) d ''entities'') (\<lambda>es.
       bind_result (parse_features (map_of d ''features'')) (\<lambda>fs.
       bind_result (parse_service (map_of d ''feature_service'')) (\<lambda>s. mk_online_query es fs s))))"

definition job_request_doc :: "pyenv \<Rightarrow> job_request \<Rightarrow> pyval" where
  "job_request_doc env r =
     VDict [(''feature_view'', VStr (jr_view r)), (''start'', VStr (env_dump_time env (jr_start r))),
       (''end'', VStr (env_dump_time env (jr_end r)))]"

definition parse_job_request :: "pyenv \<Rightarrow> pyval \<Rightarrow> job_request result" where
  "parse_job_request env =
     strict_object [''feature_view'', ''start'', ''end''] (\<lambda>d.
       bind_result (required parse_text d ''feature_view'') (\<lambda>view.
       bind_result (required (parse_time_field env) d ''start'') (\<lambda>s.
       bind_result (required (parse_time_field env) d ''end'') (\<lambda>e. mk_job_request view s e))))"

text \<open>The client leaves out what is null in an incremental request (\<open>exclude_none\<close>).\<close>

definition some_field :: "string \<Rightarrow> ('a \<Rightarrow> pyval) \<Rightarrow> 'a option \<Rightarrow> row" where
  "some_field k f x = (case x of None \<Rightarrow> [] | Some y \<Rightarrow> [(k, f y)])"

definition incremental_doc :: "pyenv \<Rightarrow> incremental_request \<Rightarrow> pyval" where
  "incremental_doc env r =
     VDict ((''feature_view'', VStr (ir_view r)) #
       some_field ''end'' (\<lambda>t. VStr (env_dump_time env t)) (ir_end r) @ some_field ''lookback_seconds'' VInt (ir_lookback r))"

definition parse_incremental :: "pyenv \<Rightarrow> pyval \<Rightarrow> incremental_request result" where
  "parse_incremental env =
     strict_object [''feature_view'', ''end'', ''lookback_seconds''] (\<lambda>d.
       bind_result (required parse_text d ''feature_view'') (\<lambda>view.
       bind_result (parse_optional (parse_time_field env) (map_of d ''end'')) (\<lambda>e.
       bind_result (parse_optional parse_int_field (map_of d ''lookback_seconds'')) (\<lambda>s. mk_incremental_request view e s))))"

subsection \<open>What was dumped is read back\<close>

lemma traverse_texts: "traverse parse_text (map VStr xs) = Inr xs"
  by (induction xs) (simp_all add: parse_text_def)

lemma traverse_map_Inr: "(\<And>x. x \<in> set xs \<Longrightarrow> f (g x) = Inr x) \<Longrightarrow> traverse f (map g xs) = Inr xs"
  by (induction xs) auto

lemma parse_kind_str [simp]: "parse_kind (VStr (kind_str k)) = Inr k"
  by (cases k) (simp_all add: parse_kind_def object_kinds_def)

lemma parse_opt_str [simp]: "parse_optional parse_text (Some (opt_str x)) = Inr x"
  by (cases x) (simp_all add: parse_optional_def opt_str_def parse_text_def)

lemma parse_texts_field [simp]: "parse_list_field parse_text (VList (map VStr xs)) = Inr xs"
  by (simp add: parse_list_field_def traverse_texts)

lemma parse_tags_doc [simp]: "parse_tags (tags_doc ts) = Inr ts"
  by (simp add: parse_tags_def tags_doc_def parse_dict_field_def traverse_map_Inr parse_tag_def parse_text_def)

lemma parse_nullable_doc:
  assumes "\<And>y. x = Some y \<Longrightarrow> f (g y) = Inr y \<and> g y \<noteq> VNone"
  shows "parse_optional f (Some (nullable_doc g x)) = Inr x"
  using assms by (cases x) (auto simp: parse_optional_def nullable_doc_def split: pyval.split)

lemma required_Cons [simp]:
  "required f ((k, v) # d) k = f v" "k \<noteq> k' \<Longrightarrow> required f ((k', v) # d) k = required f d k"
  by (simp_all add: required_def)

lemma parse_target_doc: "valid_target t \<Longrightarrow> parse_target (target_doc t) = Inr t"
  by (simp add: parse_target_def target_doc_def strict_object_def target_fields_def valid_target_def parse_text_def)

lemma target_doc_not_null [simp]: "target_doc t \<noteq> VNone"
  by (simp add: target_doc_def)

text \<open>What the server makes of a patch: every field is set.\<close>

definition filled :: "metadata_patch \<Rightarrow> metadata_patch" where
  "filled p = \<lparr>mp_owners = Some (present (mp_owners p)), mp_tags = Some (present (mp_tags p)),
     mp_links = Some (present (mp_links p))\<rparr>"

lemma field_set_doc:
  "(\<And>y. f (g y) = Inr y \<and> g y \<noteq> VNone) \<Longrightarrow> field_set f (Some (nullable_doc g x)) = Inr (Some x)"
  unfolding field_set_def by (simp add: parse_nullable_doc)

lemma parse_patch_doc:
  assumes "validate_patch env p = Inr ()"
  shows "parse_patch env (patch_doc p) = Inr (filled p)"
proof -
  have "validate_patch env (filled p) = Inr ()"
    using assms by (auto simp: validate_patch_def filled_def present_def split: if_splits)
  moreover have "field_set parse_tags (Some (nullable_doc tags_doc x)) = Inr (Some x)" for x
    by (rule field_set_doc) (simp add: tags_doc_def [of "_ :: (string \<times> string) list"] del: parse_tags_doc, simp flip: tags_doc_def)
  moreover have "field_set (parse_list_field parse_text) (Some (nullable_doc (\<lambda>xs. VList (map VStr xs)) x)) = Inr (Some x)" for x
    by (rule field_set_doc) simp
  ultimately show ?thesis
    by (simp add: parse_patch_def patch_doc_def strict_object_def patch_fields_def filled_def)
qed

lemma parse_update_doc:
  assumes "valid_target t" "validate_patch env p = Inr ()"
  shows "parse_update env (update_doc t p) = Inr (t, filled p)"
  by (simp add: parse_update_def update_doc_def accept_flat_patch_def strict_object_def parse_target_doc [OF assms(1)]
      parse_patch_doc [OF assms(2)])

lemma parse_deprecation_doc:
  assumes "valid_target t" "pred_option valid_target r" "pred_option (\<lambda>s. length s \<le> 2000) m"
  shows "parse_deprecation (deprecation_doc t m r) = Inr (t, m, r)"
proof -
  have "parse_optional parse_note (Some (opt_str m)) = Inr m"
    using assms(3) by (cases m) (auto simp: parse_optional_def opt_str_def parse_note_def parse_text_def mk_note_def)
  moreover have "parse_optional parse_target (Some (nullable_doc target_doc r)) = Inr r"
    using assms(2) by (intro parse_nullable_doc) (auto simp: parse_target_doc)
  ultimately show ?thesis
    by (simp add: parse_deprecation_def deprecation_doc_def accept_flat_target_def strict_object_def parse_target_doc [OF assms(1)])
qed

lemma parse_activation_doc: "valid_target t \<Longrightarrow> parse_activation (activation_doc t) = Inr t"
  by (simp add: parse_activation_def activation_doc_def accept_flat_target_def strict_object_def parse_target_doc)

text \<open>A datetime that pydantic reads back as it wrote it.\<close>

definition time_reads_back :: "pyenv \<Rightarrow> datetime \<Rightarrow> bool" where
  "time_reads_back env t \<longleftrightarrow> env_parse_time env (VStr (env_dump_time env t)) = Some t"

lemma parse_time_doc [simp]: "time_reads_back env t \<Longrightarrow> parse_time_field env (VStr (env_dump_time env t)) = Inr t"
  by (simp add: time_reads_back_def parse_time_field_def)

lemma parse_job_request_doc:
  assumes "mk_job_request (jr_view r) (jr_start r) (jr_end r) = Inr r" "time_reads_back env (jr_start r)" "time_reads_back env (jr_end r)"
  shows "parse_job_request env (job_request_doc env r) = Inr r"
  using assms by (simp add: parse_job_request_def job_request_doc_def strict_object_def parse_text_def)

lemma parse_incremental_doc:
  assumes "mk_incremental_request (ir_view r) (ir_end r) (ir_lookback r) = Inr r" "pred_option (time_reads_back env) (ir_end r)"
  shows "parse_incremental env (incremental_doc env r) = Inr r"
  using assms by (cases "ir_end r"; cases "ir_lookback r")
    (simp_all add: parse_incremental_def incremental_doc_def strict_object_def parse_text_def some_field_def
      parse_optional_def parse_int_field_def)

lemma json_row_id: "jsonable (VDict r) \<Longrightarrow> json_row env r = r"
  using json_mode_id [of "VDict r" env] by (simp add: json_row_def)

definition json_online :: "pyenv \<Rightarrow> online_query \<Rightarrow> online_query" where
  "json_online env q = q\<lparr>oq_entities := map (json_row env) (oq_entities q)\<rparr>"

lemma parse_online_query_doc:
  assumes "mk_online_query (oq_entities q) (oq_features q) (oq_service q) = Inr q"
  shows "parse_online_query (online_query_doc env q) = Inr (json_online env q)"
proof -
  have "traverse parse_dict_field (map (\<lambda>r. json_mode env (VDict r)) rs) = Inr (map (json_row env) rs)" for rs
    by (induction rs) (simp_all add: parse_dict_field_def json_row_def)
  moreover have "parse_service (Some (opt_str (oq_service q))) = Inr (oq_service q)"
    by (simp add: parse_service_def opt_str_def split: option.split)
  moreover have "mk_online_query (map (json_row env) (oq_entities q)) (oq_features q) (oq_service q) = Inr (json_online env q)"
    using assms by (auto simp: mk_online_query_def bind_result_eq_Inr json_online_def)
  ultimately show ?thesis
    by (simp add: parse_online_query_def online_query_doc_def strict_object_def parse_features_def traverse_texts
        parse_list_field_def del: json_mode.simps)
qed

text \<open>An observation with its entity values in JSON form, and a historical query of such.\<close>

definition json_observation :: "pyenv \<Rightarrow> observation \<Rightarrow> observation" where
  "json_observation env ob = ob\<lparr>ob_entity := json_row env (ob_entity ob)\<rparr>"

definition json_historical :: "pyenv \<Rightarrow> historical_query \<Rightarrow> historical_query" where
  "json_historical env q = q\<lparr>hq_observations := map (json_observation env) (hq_observations q)\<rparr>"

lemma parse_observation_json:
  "has_tz (ob_time ob) \<Longrightarrow> time_reads_back env (ob_time ob) \<Longrightarrow>
     parse_observation env (observation_doc env ob) = Inr (json_observation env ob)"
  by (simp add: parse_observation_def observation_doc_def dict_get_def mk_observation_def time_reads_back_def json_observation_def
      json_row_def)

lemma parse_historical_json:
  assumes "one_selector (hq_features q) (hq_service q) = Inr ()"
    and "\<forall>ob \<in> set (hq_observations q). has_tz (ob_time ob) \<and> time_reads_back env (ob_time ob)"
  shows "parse_query env (query_doc env q) = Inr (json_historical env q)"
proof -
  have "traverse (parse_observation env) (map (observation_doc env) obs) = Inr (map (json_observation env) obs)"
    if "\<forall>ob \<in> set obs. has_tz (ob_time ob) \<and> time_reads_back env (ob_time ob)" for obs
    using that by (induction obs) (simp_all add: parse_observation_json)
  moreover have "parse_service (Some (case hq_service q of None \<Rightarrow> VNone | Some s \<Rightarrow> VStr s)) = Inr (hq_service q)"
    by (simp add: parse_service_def split: option.split)
  ultimately show ?thesis
    using assms by (simp add: parse_query_def query_doc_def parse_features_def traverse_texts mk_historical_query_def json_historical_def)
qed

end
