(* ===== verification/Api.thy ===== *)
theory Api
  imports Requests
begin

section \<open>The HTTP interface\<close>

text \<open>
  The endpoints of \<open>api.py\<close> on one site: the registry, the database and the stores. A handler gets
  the validated request; \<open>with_body\<close> is the validation of the body before it. A reply has a status
  code; what no exception handler catches is \<open>Unhandled\<close> (the server answers 500). The text of a
  \<open>KeyError\<close> is quoted by Python and unquoted by the handlers, so the detail is the message.
\<close>

datatype 'a reply = Reply nat 'a | Refused nat string | Unhandled py_error

record ('s, 'd, 'f) site =
  si_registry :: registry
  si_db :: database
  si_redis :: 's
  si_lake :: 'd
  si_files :: 'f

type_synonym ('a, 's, 'd, 'f) handler = "('s, 'd, 'f) site \<Rightarrow> 'a reply \<times> ('s, 'd, 'f) site"

subsection \<open>Exception handlers\<close>

text \<open>
  Starlette looks the handlers up along the classes of an exception. \<open>dv\<close> tells the data errors
  whose class derives from \<open>ValueError\<close> (as Arrow's \<open>ArrowInvalid\<close>) from the others.
\<close>

definition handled :: "(string \<Rightarrow> bool) \<Rightarrow> py_error \<Rightarrow> 'a reply" where
  "handled dv e =
     (case e of
        RegistryNotFoundError m \<Rightarrow> Refused 404 m
      | RegistryConflictError m \<Rightarrow> Refused 409 m
      | ValueError m \<Rightarrow> Refused 422 m
      | ValidationError m \<Rightarrow> Refused 422 m
      | DataError m \<Rightarrow> if dv m then Refused 422 m else Unhandled e
      | _ \<Rightarrow> Unhandled e)"

definition answered :: "(string \<Rightarrow> bool) \<Rightarrow> nat \<Rightarrow> 'a result \<Rightarrow> 'a reply" where
  "answered dv code r = (case r of Inl e \<Rightarrow> handled dv e | Inr x \<Rightarrow> Reply code x)"

definition with_body :: "'b result \<Rightarrow> ('b \<Rightarrow> ('a, 's, 'd, 'f) handler) \<Rightarrow> ('a, 's, 'd, 'f) handler" where
  "with_body r h si = (case r of Inl e \<Rightarrow> (Refused 422 ''validation error'', si) | Inr b \<Rightarrow> h b si)"

subsection \<open>The registry\<close>

definition on_registry :: "(string \<Rightarrow> bool) \<Rightarrow> (registry \<Rightarrow> registry \<times> 'a result) \<Rightarrow> ('a, 's, 'd, 'f) handler" where
  "on_registry dv f si = (case f (si_registry si) of (reg, r) \<Rightarrow> (answered dv 200 r, si\<lparr>si_registry := reg\<rparr>))"

definition apply_registry :: "pyenv \<Rightarrow> (string \<Rightarrow> bool) \<Rightarrow> datetime \<Rightarrow> manifest \<Rightarrow> (apply_result, 's, 'd, 'f) handler" where
  "apply_registry env dv now m si =
     (case apply_manifest env now (si_registry si) m of
        Inl e \<Rightarrow> (handled dv e, si) | Inr (reg, r) \<Rightarrow> (Reply 200 r, si\<lparr>si_registry := reg\<rparr>))"

definition plan_registry :: "pyenv \<Rightarrow> (string \<Rightarrow> bool) \<Rightarrow> manifest \<Rightarrow> (registry_plan, 's, 'd, 'f) handler" where
  "plan_registry env dv m si = (answered dv 200 (plan env (si_registry si) m), si)"

definition validate_registry :: "pyenv \<Rightarrow> (string \<Rightarrow> bool) \<Rightarrow> manifest \<Rightarrow> (registry_plan, 's, 'd, 'f) handler" where
  "validate_registry = plan_registry"

definition list_registry :: "pyenv \<Rightarrow> (string \<Rightarrow> bool) \<Rightarrow> string option \<Rightarrow> (listing list, 's, 'd, 'f) handler" where
  "list_registry env dv kind si =
     (answered dv 200
        (case kind of
           None \<Rightarrow> list_records env (si_registry si) None
         | Some s \<Rightarrow> if s = [] then list_records env (si_registry si) None
             else (case find (\<lambda>k. kind_str k = s) object_kinds of
                None \<Rightarrow> Inr [] | Some k \<Rightarrow> list_records env (si_registry si) (Some k))), si)"

definition describe_registry_object ::
    "pyenv \<Rightarrow> (string \<Rightarrow> bool) \<Rightarrow> object_kind \<Rightarrow> string \<Rightarrow> string option \<Rightarrow> string option \<Rightarrow> (descriptor, 's, 'd, 'f) handler" where
  "describe_registry_object env dv k name ver feat si =
     (answered dv 200 (bind_result (mk_target k name ver feat) (describe env (si_registry si))), si)"

definition patch_registry_metadata ::
    "pyenv \<Rightarrow> (string \<Rightarrow> bool) \<Rightarrow> datetime \<Rightarrow> target \<times> metadata_patch \<Rightarrow> (descriptor, 's, 'd, 'f) handler" where
  "patch_registry_metadata env dv now u = on_registry dv (\<lambda>reg. patch_metadata env now reg (fst u) (snd u))"

definition deprecate_registry_object ::
    "pyenv \<Rightarrow> (string \<Rightarrow> bool) \<Rightarrow> datetime \<Rightarrow> target \<times> string option \<times> target option \<Rightarrow> (descriptor, 's, 'd, 'f) handler" where
  "deprecate_registry_object env dv now req = on_registry dv (\<lambda>reg. deprecate env now reg (fst req) (fst (snd req)) (snd (snd req)))"

definition activate_registry_object ::
    "pyenv \<Rightarrow> (string \<Rightarrow> bool) \<Rightarrow> datetime \<Rightarrow> target \<Rightarrow> (descriptor, 's, 'd, 'f) handler" where
  "activate_registry_object env dv now t = on_registry dv (\<lambda>reg. reactivate env now reg t)"

subsection \<open>Job documents\<close>

definition instant_field :: "int option \<Rightarrow> pyval" where
  "instant_field t = (case t of None \<Rightarrow> VNone | Some x \<Rightarrow> VTime (Aware x 0))"

definition failure_field :: "failure_kind option \<Rightarrow> pyval" where
  "failure_field f = (case f of None \<Rightarrow> VNone | Some k \<Rightarrow> VStr (failure_kind_str k))"

text \<open>The \<open>result\<close> of \<open>serialize_job\<close>: a query result also tells where and until when it is.\<close>

definition job_result :: "job \<Rightarrow> row option" where
  "job_result j =
     (case j_metadata j of
        None \<Rightarrow> None
      | Some m \<Rightarrow>
          if m = [] then None
          else (case j_expires j of
              None \<Rightarrow> Some m
            | Some t \<Rightarrow>
                if j_kind j \<noteq> HistoricalQuery then Some m
                else Some (dict_set (dict_set (dict_set m ''download_url'' (VStr (''/v1/jobs/'' @ j_id j @ ''/result'')))
                       ''expires_at'' (VTime (Aware t 0))) ''cleaned_up'' (VBool (j_cleaned j \<noteq> None)))))"

definition serialize_job :: "job \<Rightarrow> row" where
  "serialize_job j =
     [(''id'', VStr (j_id j)), (''kind'', VStr (job_kind_str (j_kind j))), (''status'', VStr (job_status_str (j_status j))),
      (''payload'', VDict (payload_json (j_payload j))), (''checkpoints'', VList (map VStr (j_checkpoints j))),
      (''error'', opt_str (j_error j)), (''failure_kind'', failure_field (j_failure j)), (''attempt_count'', VInt (j_attempts j)),
      (''max_attempts'', VInt (j_max j)), (''next_attempt_at'', instant_field (j_next j)), (''worker_id'', opt_str (j_worker j)),
      (''lease_expires_at'', instant_field (j_lease j)), (''last_heartbeat_at'', instant_field (j_heartbeat j)),
      (''created_at'', VTime (Aware (j_created j) 0)), (''started_at'', instant_field (j_started j)),
      (''finished_at'', instant_field (j_finished j)), (''artifact_expires_at'', instant_field (j_expires j)),
      (''artifacts_cleaned_at'', instant_field (j_cleaned j)),
      (''result'', (case job_result j of None \<Rightarrow> VNone | Some r \<Rightarrow> VDict r))]"

subsection \<open>The response model\<close>

text \<open>
  FastAPI validates the document against \<open>JobResponse\<close>: the members of its union for the result are
  strict models with different required fields. (pydantic also converts texts that look like
  numbers, which the code does not write.)
\<close>

definition is_text :: "pyval \<Rightarrow> bool" where
  "is_text v = (case v of VStr _ \<Rightarrow> True | _ \<Rightarrow> False)"

definition is_bool :: "pyval \<Rightarrow> bool" where
  "is_bool v = (case v of VBool _ \<Rightarrow> True | _ \<Rightarrow> False)"

definition is_number :: "pyval \<Rightarrow> bool" where
  "is_number v = (case v of VInt _ \<Rightarrow> True | VFloat _ \<Rightarrow> True | _ \<Rightarrow> False)"

definition is_time :: "pyenv \<Rightarrow> pyval \<Rightarrow> bool" where
  "is_time env v = (case v of VTime _ \<Rightarrow> True | VStr _ \<Rightarrow> env_parse_time env v \<noteq> None | _ \<Rightarrow> False)"

definition or_null :: "(pyval \<Rightarrow> bool) \<Rightarrow> pyval \<Rightarrow> bool" where
  "or_null f v \<longleftrightarrow> v = VNone \<or> f v"

definition is_list :: "(pyval \<Rightarrow> bool) \<Rightarrow> pyval \<Rightarrow> bool" where
  "is_list f v = (case v of VList xs \<Rightarrow> list_all f xs | _ \<Rightarrow> False)"

text \<open>A strict model by its fields, with a check of the value and whether a default makes it optional.\<close>

type_synonym model_field = "string \<times> bool \<times> (pyval \<Rightarrow> bool)"

definition fits :: "model_field list \<Rightarrow> pyval \<Rightarrow> bool" where
  "fits fs v =
     (case v of
        VDict d \<Rightarrow> set (map fst d) \<subseteq> set (map fst fs) \<and>
          list_all (\<lambda>(k, optional, ok). case map_of d k of None \<Rightarrow> optional | Some x \<Rightarrow> ok x) fs
      | _ \<Rightarrow> False)"

definition is_target :: "pyval \<Rightarrow> bool" where
  "is_target v = (case parse_target v of Inl _ \<Rightarrow> False | Inr _ \<Rightarrow> True)"

definition warning_model :: "pyenv \<Rightarrow> model_field list" where
  "warning_model env =
     [(''code'', True, \<lambda>v. v = VStr ''deprecated_registry_target''), (''target'', False, is_target), (''message'', False, is_text),
      (''deprecated_at'', False, is_time env), (''replacement'', True, or_null is_target), (''inherited_from'', True, or_null is_target)]"

definition historical_model :: "pyenv \<Rightarrow> model_field list" where
  "historical_model env =
     [(''format'', True, \<lambda>v. v = VStr ''parquet''), (''content_type'', True, is_text), (''row_count'', False, is_int),
      (''byte_size'', False, is_int), (''resolved_features'', False, is_list is_text),
      (''warnings'', True, is_list (fits (warning_model env))), (''download_url'', False, is_text),
      (''expires_at'', False, is_time env), (''cleaned_up'', True, is_bool)]"

definition materialization_model :: "pyenv \<Rightarrow> model_field list" where
  "materialization_model env =
     [(''mode'', False, \<lambda>v. v = VStr ''explicit'' \<or> v = VStr ''incremental''), (''effective_start'', False, or_null (is_time env)),
      (''effective_end'', False, is_time env), (''lookback_seconds'', False, is_int), (''scanned_rows'', False, is_int),
      (''candidate_entities'', False, is_int), (''updated_entities'', False, is_int), (''skipped_entities'', False, is_int),
      (''source_freshness_at'', False, or_null (is_time env)), (''freshness_lag_seconds'', False, or_null is_number),
      (''resulting_watermark'', False, or_null (is_time env))]"

definition fits_quality :: "pyval \<Rightarrow> bool" where
  "fits_quality v = (case parse_summary v of Inl _ \<Rightarrow> False | Inr _ \<Rightarrow> True)"

definition fits_result :: "pyenv \<Rightarrow> pyval \<Rightarrow> bool" where
  "fits_result env v \<longleftrightarrow> v = VNone \<or> fits (historical_model env) v \<or> fits (materialization_model env) v \<or> fits_quality v"

definition job_model :: "pyenv \<Rightarrow> model_field list" where
  "job_model env =
     [(''id'', False, is_text), (''kind'', False, \<lambda>v. v \<in> (VStr \<circ> job_kind_str) ` set [Backfill, Materialize, OfflineAppend, HistoricalQuery]),
      (''status'', False, \<lambda>v. v \<in> (VStr \<circ> job_status_str) ` set [Pending, Running, Retrying, Succeeded, Failed, Exhausted, Cancelled]),
      (''payload'', False, \<lambda>v. case v of VDict _ \<Rightarrow> True | _ \<Rightarrow> False), (''checkpoints'', False, is_list is_text),
      (''error'', False, or_null is_text),
      (''failure_kind'', False, or_null (\<lambda>v. v \<in> (VStr \<circ> failure_kind_str) ` set [Retryable, Terminal, LeaseExpired])),
      (''attempt_count'', False, is_int), (''max_attempts'', False, is_int), (''next_attempt_at'', False, or_null (is_time env)),
      (''worker_id'', False, or_null is_text), (''lease_expires_at'', False, or_null (is_time env)),
      (''last_heartbeat_at'', False, or_null (is_time env)), (''created_at'', False, is_time env),
      (''started_at'', False, or_null (is_time env)), (''finished_at'', False, or_null (is_time env)),
      (''artifact_expires_at'', True, or_null (is_time env)), (''artifacts_cleaned_at'', True, or_null (is_time env)),
      (''result'', True, fits_result env)]"

definition job_reply :: "pyenv \<Rightarrow> nat \<Rightarrow> job \<Rightarrow> row reply" where
  "job_reply env code j =
     (if fits (job_model env) (VDict (serialize_job j)) then Reply code (serialize_job j)
      else Unhandled (RuntimeError ''ResponseValidationError''))"

subsection \<open>Queries\<close>

definition read_online :: "('s, 'd, 'f) worker_env \<Rightarrow> (string \<Rightarrow> bool) \<Rightarrow> online_query \<Rightarrow> (query_response, 's, 'd, 'f) handler" where
  "read_online E dv q si =
     (answered dv 200 (online_read (we_env E) (we_redis E) (si_redis si) (si_registry si) (oq_entities q) (oq_features q) (oq_service q)), si)"

definition warning_doc :: "pyenv \<Rightarrow> warning \<Rightarrow> pyval" where
  "warning_doc env w =
     VDict [(''code'', VStr ''deprecated_registry_target''), (''target'', target_doc (w_target w)), (''message'', VStr (w_message w)),
       (''deprecated_at'', VStr (env_dump_time env (w_deprecated_at w))), (''replacement'', nullable_doc target_doc (w_replacement w)),
       (''inherited_from'', nullable_doc target_doc (w_inherited w))]"

definition site_worker :: "('s, 'd, 'f) site \<Rightarrow> ('s, 'd, 'f) worker" where
  "site_worker si = \<lparr>wk_db = si_db si, wk_redis = si_redis si, wk_lake = si_lake si, wk_files = si_files si,
     wk_ticks = 0, wk_summary = None, wk_seen = []\<rparr>"

definition back_to_site :: "('s, 'd, 'f) site \<Rightarrow> ('s, 'd, 'f) worker \<Rightarrow> ('s, 'd, 'f) site" where
  "back_to_site si w = si\<lparr>si_db := wk_db w, si_redis := wk_redis w, si_lake := wk_lake w, si_files := wk_files w\<rparr>"

datatype query_answer = Inline query_response | Queued row

text \<open>\<open>historical_query\<close>: small queries are answered at once, larger ones become a job.\<close>

definition queue_query ::
    "('s, 'd, 'f) worker_env \<Rightarrow> (string \<Rightarrow> bool) \<Rightarrow> string \<Rightarrow> int \<Rightarrow> historical_query \<Rightarrow> (query_answer, 's, 'd, 'f) handler" where
  "queue_query E dv i now q si =
     (case bind_result (validate_query (si_registry si) (hq_observations q) (hq_features q) (hq_service q)) (\<lambda>refs.
           bind_result (warnings_for_query (si_registry si) (hq_features q) (hq_service q)) (\<lambda>ws. Inr (refs, ws))) of
        Inl e \<Rightarrow> (handled dv e, si)
      | Inr (refs, ws) \<Rightarrow>
          (case submit_query E i now q refs (map (warning_doc (we_env E)) ws) (site_worker si) of
             (Inl e, w) \<Rightarrow> (handled dv e, back_to_site si w)
           | (Inr j, w) \<Rightarrow>
               ((case job_reply (we_env E) 202 j of Reply c d \<Rightarrow> Reply c (Queued d) | Refused c m \<Rightarrow> Refused c m | Unhandled e \<Rightarrow> handled dv (ValidationError ''JobResponse'')),
                back_to_site si w)))"

definition query_historical ::
    "('s, 'd, 'f) worker_env \<Rightarrow> (string \<Rightarrow> bool) \<Rightarrow> string \<Rightarrow> int \<Rightarrow> historical_query \<Rightarrow> (query_answer, 's, 'd, 'f) handler" where
  "query_historical E dv i now q si =
     (if st_inline_limit (we_settings E) < int (length (hq_observations q)) then queue_query E dv i now q si
      else (case historical_response (we_clash E) (we_delta E) (st_bucket (we_settings E)) (si_lake si) (si_registry si)
              (hq_observations q) (hq_features q) (hq_service q) of
          Inl e \<Rightarrow> (handled dv e, si) | Inr r \<Rightarrow> (Reply 200 (Inline r), si)))"

subsection \<open>Jobs\<close>

definition replace_db :: "pyenv \<Rightarrow> nat \<Rightarrow> job \<times> database \<Rightarrow> (row, 's, 'd, 'f) handler" where
  "replace_db env code jd si = (job_reply env code (fst jd), si\<lparr>si_db := snd jd\<rparr>)"

definition create_for_view ::
    "('s, 'd, 'f) worker_env \<Rightarrow> (string \<Rightarrow> bool) \<Rightarrow> string \<Rightarrow> int \<Rightarrow> job_kind \<Rightarrow> job_request \<Rightarrow> (row, 's, 'd, 'f) handler" where
  "create_for_view E dv i now k req si =
     (case bind_result (feature_view_of (si_registry si) (jr_view req)) (\<lambda>_.
           create_job (we_env E) (we_settings E) i now k req (si_db si)) of
        Inl e \<Rightarrow> (handled dv e, si) | Inr jd \<Rightarrow> replace_db (we_env E) 202 jd si)"

definition create_backfill ::
    "('s, 'd, 'f) worker_env \<Rightarrow> (string \<Rightarrow> bool) \<Rightarrow> string \<Rightarrow> int \<Rightarrow> job_request \<Rightarrow> (row, 's, 'd, 'f) handler" where
  "create_backfill E dv i now req = create_for_view E dv i now Backfill req"

definition create_materialization ::
    "('s, 'd, 'f) worker_env \<Rightarrow> (string \<Rightarrow> bool) \<Rightarrow> string \<Rightarrow> int \<Rightarrow> job_request \<Rightarrow> (row, 's, 'd, 'f) handler" where
  "create_materialization E dv i now req = create_for_view E dv i now Materialize req"

definition create_incremental_materialization ::
    "('s, 'd, 'f) worker_env \<Rightarrow> (string \<Rightarrow> bool) \<Rightarrow> string \<Rightarrow> int \<Rightarrow> incremental_request \<Rightarrow> (row, 's, 'd, 'f) handler" where
  "create_incremental_materialization E dv i now req si =
     (case bind_result (feature_view_of (si_registry si) (ir_view req)) (\<lambda>v.
           if ir_view req \<noteq> view_ref v then Inl (ValueError ''feature_view must pin an exact version'')
           else create_incremental (we_settings E) i now req (si_db si)) of
        Inl e \<Rightarrow> (handled dv e, si) | Inr jd \<Rightarrow> replace_db (we_env E) 202 jd si)"

text \<open>A negative \<open>LIMIT\<close> is up to the database: the argument \<open>unlimited\<close>.\<close>

definition page_of :: "(job list \<Rightarrow> job list result) \<Rightarrow> int \<Rightarrow> database \<Rightarrow> job list result" where
  "page_of unlimited limit db =
     (let n = min limit 500 in
      if n < 0 then unlimited (list_jobs (length (db_jobs db)) db) else Inr (list_jobs (nat n) db))"

fun all_replies :: "'a reply list \<Rightarrow> 'a list reply" where
  "all_replies [] = Reply 200 []"
| "all_replies (r # rs) =
     (case r of
        Reply c x \<Rightarrow> (case all_replies rs of Reply c' xs \<Rightarrow> Reply c' (x # xs) | other \<Rightarrow> other)
      | Refused c m \<Rightarrow> Refused c m
      | Unhandled e \<Rightarrow> Unhandled e)"

definition jobs_endpoint :: "pyenv \<Rightarrow> (string \<Rightarrow> bool) \<Rightarrow> (job list \<Rightarrow> job list result) \<Rightarrow> int \<Rightarrow> (row list, 's, 'd, 'f) handler" where
  "jobs_endpoint env dv unlimited limit si =
     (case page_of unlimited limit (si_db si) of
        Inl e \<Rightarrow> (handled dv e, si) | Inr js \<Rightarrow> (all_replies (map (job_reply env 200) js), si))"

definition job_endpoint :: "pyenv \<Rightarrow> string \<Rightarrow> (row, 's, 'd, 'f) handler" where
  "job_endpoint env i si =
     (case get_job i (si_db si) of
        Inr j \<Rightarrow> (job_reply env 200 j, si)
      | Inl (KeyError m) \<Rightarrow> (Refused 404 m, si)
      | Inl e \<Rightarrow> (Unhandled e, si))"

definition on_job :: "pyenv \<Rightarrow> (database \<Rightarrow> (job \<times> database) result) \<Rightarrow> (row, 's, 'd, 'f) handler" where
  "on_job env f si =
     (case f (si_db si) of
        Inr jd \<Rightarrow> replace_db env 200 jd si
      | Inl (KeyError m) \<Rightarrow> (Refused 404 m, si)
      | Inl (ValueError m) \<Rightarrow> (Refused 409 m, si)
      | Inl e \<Rightarrow> (Unhandled e, si))"

definition cancel_job :: "('s, 'd, 'f) worker_env \<Rightarrow> int \<Rightarrow> string \<Rightarrow> (row, 's, 'd, 'f) handler" where
  "cancel_job E now i = on_job (we_env E) (cancel (we_settings E) now i)"

definition retry_job :: "('s, 'd, 'f) worker_env \<Rightarrow> int \<Rightarrow> string \<Rightarrow> (row, 's, 'd, 'f) handler" where
  "retry_job E now i = on_job (we_env E) (retry (we_settings E) now i)"

text \<open>\<open>get_job_result\<close>.\<close>

record download =
  dn_name :: string
  dn_type :: string
  dn_size :: string
  dn_content :: blob

definition send_result :: "('s, 'd, 'f) worker_env \<Rightarrow> job \<Rightarrow> string \<Rightarrow> row \<Rightarrow> 'f \<Rightarrow> download reply" where
  "send_result E j uri meta fs =
     (case fi_get (we_files E) (path_of (we_path E) uri) fs of
        None \<Rightarrow> Refused 409 ''job result artifact is unavailable''
      | Some b \<Rightarrow>
          (case (map_of meta ''content_type'', map_of meta ''byte_size'') of
             (Some ct, Some n) \<Rightarrow>
               Reply 200 \<lparr>dn_name = ''historical-query-'' @ j_id j @ ''.parquet'', dn_type = env_str (we_env E) ct,
                 dn_size = env_str (we_env E) n, dn_content = b\<rparr>
           | _ \<Rightarrow> Unhandled (KeyError ''content_type'')))"

definition get_job_result :: "('s, 'd, 'f) worker_env \<Rightarrow> int \<Rightarrow> string \<Rightarrow> ('s, 'd, 'f) site \<Rightarrow> download reply" where
  "get_job_result E now i si =
     (case get_job i (si_db si) of
        Inl (KeyError m) \<Rightarrow> Refused 404 m
      | Inl e \<Rightarrow> Unhandled e
      | Inr j \<Rightarrow>
          if artifacts_expired now j then Refused 410 ''job result has expired''
          else if j_status j \<noteq> Succeeded then Refused 409 ''job has no completed downloadable result''
          else (case (j_result j, j_metadata j) of
              (Some uri, Some meta) \<Rightarrow>
                if uri = [] \<or> meta = [] then Refused 409 ''job has no completed downloadable result''
                else send_result E j uri meta (si_files si)
            | _ \<Rightarrow> Refused 409 ''job has no completed downloadable result''))"

end
