(* ===== verification/BackfillLaws.thy ===== *)
theory BackfillLaws
  imports Backfill
begin

section \<open>Backfills leave the rest of the lake alone\<close>

text \<open>
  What the replacement of a chunk leaves in the table of its view (\<open>replace_stored\<close>), that a
  backfill, whatever interrupts it, changes no row outside its range and no other table
  (\<open>backfill_keeps_rest\<close>), and what a finished chunk has written (\<open>chunk_recorded\<close>). The laws of
  Delta Lake are those of the locale \<open>delta_partitions\<close>.
\<close>

subsection \<open>What a replacement leaves\<close>

text \<open>
  Rows as the jobs write them: they have the columns of their table, an instant of Python's range,
  and the date of that instant.
\<close>

definition dated :: "row \<Rightarrow> bool" where
  "dated r \<longleftrightarrow> (\<exists>t. time_of r ''event_timestamp'' = Some t \<and> in_range t \<and> dict_get r ''event_date'' = VStr (date_text t))"

definition table_ok :: "string list \<Rightarrow> table \<Rightarrow> bool" where
  "table_ok cols t \<longleftrightarrow> distinct (tb_cols t) \<and> set cols \<subseteq> set (tb_cols t) \<and>
     {''event_date'', ''event_timestamp''} \<subseteq> set (tb_cols t) \<and>
     (\<forall>r \<in> set (tb_rows t). map fst r = tb_cols t \<and> dated r)"

lemma dict_get_fill [simp]: "c \<in> set cols \<Longrightarrow> dict_get (fill cols r) c = dict_get r c"
proof -
  assume c: "c \<in> set cols"
  have "map_of (map (\<lambda>c. (c, dict_get r c)) cols) c = Some (dict_get r c)" using c by (simp add: map_of_map_restrict)
  then show ?thesis by (simp add: fill_def dict_get_def [of "map _ _"])
qed

lemma map_fst_fill [simp]: "map fst (fill cols r) = cols"
  by (simp add: fill_def o_def)

lemma fill_same:
  assumes "map fst r = cols" "distinct cols"
  shows "fill cols r = r"
proof (rule nth_equalityI)
  show len: "length (fill cols r) = length r" using assms(1) by (auto simp: fill_def)
  fix i assume i: "i < length (fill cols r)"
  have c: "cols ! i = fst (r ! i)" using i len assms(1) by (auto simp: fill_def)
  have "map_of r (fst (r ! i)) = Some (snd (r ! i))"
    using assms i len by (intro map_of_is_SomeI) auto
  then show "fill cols r ! i = r ! i" using i c by (simp add: fill_def dict_get_def)
qed

lemma time_of_fill [simp]: "c \<in> set cols \<Longrightarrow> time_of (fill cols r) c = time_of r c"
  by (simp add: time_of_def)

lemma dated_fill: "{''event_date'', ''event_timestamp''} \<subseteq> set cols \<Longrightarrow> dated (fill cols r) = dated r"
  by (simp add: dated_def)

lemma in_chunk_fill: "''event_timestamp'' \<in> set cols \<Longrightarrow> in_chunk s e (fill cols r) = in_chunk s e r"
  by (simp add: in_chunk_def)

text \<open>The rows to write: dated, inside the chunk, with the columns of their table.\<close>

definition output_ok :: "int \<Rightarrow> int \<Rightarrow> table \<Rightarrow> bool" where
  "output_ok s e t \<longleftrightarrow> distinct (tb_cols t) \<and> {''event_date'', ''event_timestamp''} \<subseteq> set (tb_cols t) \<and>
     (\<forall>r \<in> set (tb_rows t). map fst r = tb_cols t \<and> dated r \<and> in_chunk s e r)"

lemma kept_rows:
  assumes "\<forall>r \<in> set rs. dated r" "one_day lo hi (s, Inr e)"
  shows "filter (\<lambda>r. \<not> in_chunk s e r) rs = filter (\<lambda>r. dict_get r ''event_date'' \<noteq> VStr (date_text s) \<or> outside s e r) rs"
proof (rule filter_cong [OF refl])
  fix r assume "r \<in> set rs"
  then obtain t where t: "time_of r ''event_timestamp'' = Some t" "dict_get r ''event_date'' = VStr (date_text t)"
    using assms(1) by (auto simp: dated_def)
  have "s \<le> t \<Longrightarrow> t < e \<Longrightarrow> date_text t = date_text s"
    using assms(2) unfolding one_day_def fst_conv snd_conv by blast
  then show "(\<not> in_chunk s e r) = (dict_get r ''event_date'' \<noteq> VStr (date_text s) \<or> outside s e r)"
    using t by (auto simp: in_chunk_def outside_def)
qed

lemma mset_split_filter:
  "mset (filter (\<lambda>x. \<not> P x) xs) + mset (filter (\<lambda>x. P x \<and> Q x) xs) = mset (filter (\<lambda>x. \<not> P x \<or> Q x) xs)"
  by (induction xs) auto

context delta_partitions
begin

lemma overwrite_stored:
  assumes "overwrite_partition D u new (date_predicate d0) d = Inr d'" "dl_load D u d = Inr t"
  shows "\<exists>t'. dl_load D u d' = Inr t' \<and> tb_cols t' = tb_cols t \<and>
    mset (tb_rows t') = mset (filter (\<lambda>r. dict_get r ''event_date'' \<noteq> VStr d0) (tb_rows t)) + mset (tb_rows new)"
  using overwrite_load [OF assms(1) [unfolded overwrite_partition_def] assms(2)] by (simp add: date_matches)

lemma replace_existing:
  assumes "replace_chunk D u (date_text s) s e out d = Inr d'" "dl_load D u d = Inr t"
    and "table_ok (tb_cols out) t" "one_day lo hi (s, Inr e)"
  shows "\<exists>t'. dl_load D u d' = Inr t' \<and> tb_cols t' = tb_cols t \<and>
    mset (tb_rows t') = mset (filter (\<lambda>r. \<not> in_chunk s e r) (tb_rows t)) + mset (map (fill (tb_cols t)) (tb_rows out))"
proof -
  let ?P = "\<lambda>r. dict_get r ''event_date'' = VStr (date_text s)"
  note ok = assms(3) [unfolded table_ok_def]
  let ?old = "preserved_rows (date_text s) s e t"
  have "dl_exists D u d" using assms(2) load_exists by blast
  then have w: "overwrite_partition D u (concat_tables ?old out) (date_predicate (date_text s)) d = Inr d'"
    using assms(1,2) ok by (simp add: replace_chunk_def)
  have cols: "filter (\<lambda>c. c \<notin> set (tb_cols t)) (tb_cols out) = []" using ok by (auto simp: filter_empty_conv)
  have same: "map (fill (tb_cols t)) (tb_rows ?old) = tb_rows ?old"
    using ok by (intro map_idI fill_same) (auto simp: preserved_rows_def)
  have rows: "tb_rows (concat_tables ?old out) = filter (\<lambda>r. ?P r \<and> outside s e r) (tb_rows t) @ map (fill (tb_cols t)) (tb_rows out)"
    using same cols by (simp add: concat_tables_def Let_def preserved_rows_def)
  obtain t' where t': "dl_load D u d' = Inr t'" "tb_cols t' = tb_cols t"
      "mset (tb_rows t') = mset (filter (\<lambda>r. \<not> ?P r) (tb_rows t)) + mset (tb_rows (concat_tables ?old out))"
    using overwrite_stored [OF w assms(2)] by blast
  have "mset (tb_rows t') = mset (filter (\<lambda>r. \<not> ?P r) (tb_rows t)) + mset (filter (\<lambda>r. ?P r \<and> outside s e r) (tb_rows t))
      + mset (map (fill (tb_cols t)) (tb_rows out))"
    unfolding t'(3) rows mset_append by (rule add.assoc [symmetric])
  also have "\<dots> = mset (filter (\<lambda>r. \<not> in_chunk s e r) (tb_rows t)) + mset (map (fill (tb_cols t)) (tb_rows out))"
    unfolding mset_split_filter using kept_rows [OF _ assms(4), of "tb_rows t"] ok by simp
  finally show ?thesis using t'(1,2) by blast
qed

text \<open>With or without a table: the rows outside the chunk stay, those inside are the output.\<close>

lemma replace_stored:
  assumes "replace_chunk D u (date_text s) s e out d = Inr d'" "one_day lo hi (s, Inr e)" "output_ok s e out"
    and "\<And>t. dl_load D u d = Inr t \<Longrightarrow> table_ok (tb_cols out) t"
  shows "\<exists>cols. (\<forall>t. dl_load D u d = Inr t \<longrightarrow> cols = tb_cols t) \<and> (dl_exists D u d \<or> cols = tb_cols out) \<and>
      mset (stored_rows D u d') = mset (filter (\<lambda>r. \<not> in_chunk s e r) (stored_rows D u d)) + mset (map (fill cols) (tb_rows out))"
    and "\<And>t. dl_load D u d' = Inr t \<Longrightarrow> table_ok (tb_cols out) t"
    and "x \<noteq> u \<Longrightarrow> dl_load D x d' = dl_load D x d"
proof -
  note out = assms(3) [unfolded output_ok_def]
  have "(\<exists>cols. (\<forall>t. dl_load D u d = Inr t \<longrightarrow> cols = tb_cols t) \<and> (dl_exists D u d \<or> cols = tb_cols out) \<and>
      mset (stored_rows D u d') = mset (filter (\<lambda>r. \<not> in_chunk s e r) (stored_rows D u d)) + mset (map (fill cols) (tb_rows out)))
      \<and> (\<forall>t. dl_load D u d' = Inr t \<longrightarrow> table_ok (tb_cols out) t) \<and> (x \<noteq> u \<longrightarrow> dl_load D x d' = dl_load D x d)"
  proof (cases "dl_exists D u d")
    case True
    then obtain t where t: "dl_load D u d = Inr t" using load_exists by blast
    note ok = assms(4) [OF t]
    obtain t' where t': "dl_load D u d' = Inr t'" "tb_cols t' = tb_cols t"
        "mset (tb_rows t') = mset (filter (\<lambda>r. \<not> in_chunk s e r) (tb_rows t)) + mset (map (fill (tb_cols t)) (tb_rows out))"
      using replace_existing [OF assms(1) t ok assms(2)] by blast
    have cols: "{''event_date'', ''event_timestamp''} \<subseteq> set (tb_cols t)" using ok by (simp add: table_ok_def)
    have "set (tb_rows t') \<subseteq> set (tb_rows t) \<union> fill (tb_cols t) ` set (tb_rows out)"
      using arg_cong [OF t'(3), of set_mset] by auto
    then have "\<forall>r \<in> set (tb_rows t'). map fst r = tb_cols t \<and> dated r"
      using ok out cols by (fastforce simp: table_ok_def dated_fill)
    then have "table_ok (tb_cols out) t'" using ok t'(2) by (simp add: table_ok_def)
    moreover have "dl_load D x d' = dl_load D x d" if "x \<noteq> u"
    proof -
      obtain new p where "overwrite_partition D u new p d = Inr d'"
        using assms(1) True by (auto simp: replace_chunk_def bind_result_eq_Inr split: if_splits)
      then show ?thesis using write_elsewhere that unfolding overwrite_partition_def by blast
    qed
    ultimately show ?thesis using t t' True by (auto simp: stored_rows_def)
  next
    case False
    then have none: "stored_rows D u d = []" "\<And>t. dl_load D u d \<noteq> Inr t"
      using load_exists by (auto simp: stored_rows_def split: sum.splits)
    have same: "map (fill (tb_cols out)) (tb_rows out) = tb_rows out"
      using out by (intro map_idI fill_same) auto
    show ?thesis
    proof (cases "tb_rows out = []")
      case True
      then have "d' = d" using assms(1) False by (simp add: replace_chunk_def)
      then show ?thesis using none True by simp
    next
      case rows: False
      have w: "append_rows D u out (Some ''event_date'') d = Inr d'"
        using assms(1) False rows by (simp add: replace_chunk_def)
      then have wr: "dl_write D WError (Some ''event_date'') u out d = Inr d'"
        using False by (simp add: append_rows_def)
      obtain t' where t': "dl_load D u d' = Inr t'" "tb_cols t' = tb_cols out" "mset (tb_rows t') = mset (tb_rows out)"
        using create_load [OF wr] by blast
      have "table_ok (tb_cols out) t'" using t' out mset_eq_setD [OF t'(3)] by (simp add: table_ok_def)
      moreover have "image_mset (fill (tb_cols out)) (mset (tb_rows out)) = mset (tb_rows out)"
        using arg_cong [OF same, of mset] by simp
      ultimately show ?thesis using none False t' write_elsewhere [OF wr] by (auto simp: stored_rows_def)
    qed
  qed
  then show "\<exists>cols. (\<forall>t. dl_load D u d = Inr t \<longrightarrow> cols = tb_cols t) \<and> (dl_exists D u d \<or> cols = tb_cols out) \<and>
      mset (stored_rows D u d') = mset (filter (\<lambda>r. \<not> in_chunk s e r) (stored_rows D u d)) + mset (map (fill cols) (tb_rows out))"
    and "\<And>t. dl_load D u d' = Inr t \<Longrightarrow> table_ok (tb_cols out) t"
    and "x \<noteq> u \<Longrightarrow> dl_load D x d' = dl_load D x d" by blast+
qed

end

subsection \<open>The output of a chunk\<close>

definition chunk_columns :: "feature_view \<Rightarrow> entity \<Rightarrow> string list" where
  "chunk_columns v en = output_columns (e_join_keys en) (v_features v) @ [''event_date'']"

lemma validated_columns:
  "validate_output cast keys fs t = Inr t' \<Longrightarrow>
     tb_cols t' = output_columns keys fs \<and> (\<forall>r \<in> set (tb_rows t'). map fst r = output_columns keys fs)"
  by (fastforce simp: validate_output_def cast_row_def bind_result_eq_Inr
      dest: traverse_Inr_set_rev traverse_Inr_length split: if_splits)

lemma chunk_rows_ok:
  assumes "tb_cols t = cols" "\<forall>r \<in> set (tb_rows t). map fst r = cols" "distinct (cols @ [''event_date''])"
    and "''event_timestamp'' \<in> set cols" "0 \<le> s" "e \<le> 3652059 * day_us"
  shows "output_ok s e (chunk_rows s e t)" "tb_cols (chunk_rows s e t) = cols @ [''event_date'']"
proof -
  have "dated (r @ [(''event_date'', row_date r)]) \<and> in_chunk s e (r @ [(''event_date'', row_date r)])"
    if r: "r \<in> set (tb_rows t)" "in_chunk s e r" for r
  proof -
    obtain x where x: "time_of r ''event_timestamp'' = Some x" "s \<le> x" "x < e"
      using r(2) by (auto simp: in_chunk_def split: option.splits)
    have fst_r: "map fst r = cols" using assms(2) r(1) by blast
    then have "map_of r ''event_date'' = None" using assms(3) by (metis map_of_eq_None_iff list.set_map distinct_append
          disjoint_iff list.set_intros(1))
    then have "dict_get (r @ [(''event_date'', row_date r)]) ''event_date'' = VStr (date_text x)"
      using x(1) by (simp add: dict_get_def map_add_def row_date_def)
    moreover have "time_of (r @ [(''event_date'', row_date r)]) ''event_timestamp'' = Some x"
      using x(1) by (simp add: time_of_def dict_get_def map_add_def split: option.splits)
    ultimately show ?thesis using x assms(5,6) by (simp add: dated_def in_chunk_def in_range_def day_us_def)
  qed
  then show "output_ok s e (chunk_rows s e t)" "tb_cols (chunk_rows s e t) = cols @ [''event_date'']"
    using assms by (auto simp: output_ok_def chunk_rows_def)
qed

lemma chunk_output_ok:
  assumes "chunk_output E v src en s e d = Inr out" "distinct (chunk_columns v en)"
    and "0 \<le> s" "e \<le> 3652059 * day_us"
  shows "output_ok s e out \<and> tb_cols out = chunk_columns v en"
proof -
  obtain t t' where t: "validate_output (we_cast E) (e_join_keys en) (v_features v) t = Inr t'" "out = chunk_rows s e t'"
    using assms(1) by (auto simp: chunk_output_def bind_result_eq_Inr)
  note cols = validated_columns [OF t(1)]
  have "''event_timestamp'' \<in> set (output_columns (e_join_keys en) (v_features v))" by (simp add: output_columns_def)
  then show ?thesis
    using chunk_rows_ok [of t' "output_columns (e_join_keys en) (v_features v)" s e] cols assms(2-4) t(2)
    by (simp add: chunk_columns_def)
qed

lemma valid_rows_ok:
  assumes "output_ok s e out" "qv_rows q = length (tb_rows out)"
  shows "output_ok s e (valid_rows q out) \<and> tb_cols (valid_rows q out) = tb_cols out"
  using assms by (auto simp: output_ok_def valid_rows_def valid_row_indexes_def Let_def)

lemma validated_count: "validate_quality_table env rows fs t = Inr q \<Longrightarrow> qv_rows q = length rows"
  by (auto simp: validate_quality_table_def bind_result_eq_Inr dest: validate_quality_rows_count)

subsection \<open>What a backfill leaves\<close>

definition backfill_target :: "('s, 'd, 'f) worker_env \<Rightarrow> feature_view \<Rightarrow> string" where
  "backfill_target E v = view_uri (st_bucket (we_settings E)) (view_ref v)"

definition backfill_bin :: "('s, 'd, 'f) worker_env \<Rightarrow> job \<Rightarrow> feature_view \<Rightarrow> string" where
  "backfill_bin E job v = quarantine_uri (st_bucket (we_settings E)) (view_ref v) (j_id job)"

lemma target_not_bin: "backfill_target E v \<noteq> backfill_bin E job v'"
  by (simp add: backfill_target_def backfill_bin_def view_uri_def quarantine_uri_def)

lemma in_chunk_mono: "in_chunk s e r \<Longrightarrow> lo \<le> s \<Longrightarrow> e \<le> hi \<Longrightarrow> in_chunk lo hi r"
  by (auto simp: in_chunk_def split: option.splits)

lemma one_day_within: "one_day lo hi (s, Inr e) \<Longrightarrow> lo \<le> s \<and> s < e \<and> e \<le> hi"
  by (auto simp: one_day_def)

text \<open>
  The lake as a backfill of \<open>[lo, hi)\<close> may leave it: the rows of the view outside the range are
  \<open>M\<close>, and the tables other than the view's and the job's quarantine are as in \<open>L\<close>.
\<close>

definition keeps ::
    "'d delta \<Rightarrow> string list \<Rightarrow> string \<Rightarrow> string \<Rightarrow> int \<Rightarrow> int \<Rightarrow> row multiset \<Rightarrow> (string \<Rightarrow> table result) \<Rightarrow> 'd \<Rightarrow> bool" where
  "keeps D cols u bin lo hi M L d \<longleftrightarrow>
     (\<forall>t. dl_load D u d = Inr t \<longrightarrow> table_ok cols t) \<and>
     mset (filter (\<lambda>r. \<not> in_chunk lo hi r) (stored_rows D u d)) = M \<and>
     (\<forall>x. x \<noteq> u \<and> x \<noteq> bin \<longrightarrow> dl_load D x d = L x)"

lemma blind_lake: "blind (\<lambda>w. P (wk_lake w))"
  by (simp add: blind_def)

lemma filter_filter_mset: "filter_mset P (filter_mset Q M) = filter_mset (\<lambda>x. Q x \<and> P x) M"
  by (induction M) auto

context delta_partitions
begin

lemma quarantine_elsewhere:
  assumes "quarantine_batch D bucket i view t q date d = Inr d'" "x \<noteq> quarantine_uri bucket view i"
  shows "dl_load D x d' = dl_load D x d"
proof (cases "d' = d")
  case False
  then have "(\<exists>new p. overwrite_partition D (quarantine_uri bucket view i) new p d = Inr d') \<or>
      (\<exists>new p. append_rows D (quarantine_uri bucket view i) new p d = Inr d')"
    using assms(1) by (auto simp: quarantine_batch_def Let_def split: if_splits)
  then show ?thesis
    using assms(2) write_elsewhere append_rows_stored(3) unfolding overwrite_partition_def by metis
qed simp

lemma replace_keeps:
  assumes "keeps D (tb_cols out) u bin lo hi M L d" "replace_chunk D u (date_text s) s e out d = Inr d'"
    and "one_day lo hi (s, Inr e)" "output_ok s e out"
  shows "keeps D (tb_cols out) u bin lo hi M L d'"
proof -
  have ok: "table_ok (tb_cols out) t" if "dl_load D u d = Inr t" for t
    using assms(1) that by (simp add: keeps_def)
  note st = replace_stored [OF assms(2-4) ok]
  from st(1) obtain cols where cols: "\<forall>t. dl_load D u d = Inr t \<longrightarrow> cols = tb_cols t" "dl_exists D u d \<or> cols = tb_cols out"
    "mset (stored_rows D u d') = mset (filter (\<lambda>r. \<not> in_chunk s e r) (stored_rows D u d)) + mset (map (fill cols) (tb_rows out))"
    by blast
  have "''event_timestamp'' \<in> set cols"
  proof (cases "dl_exists D u d")
    case True
    then obtain t where "dl_load D u d = Inr t" using load_exists by blast
    then show ?thesis using cols(1) ok by (auto simp: table_ok_def)
  qed (use cols(2) assms(4) in \<open>auto simp: output_ok_def\<close>)
  then have new: "\<forall>r \<in> set (map (fill cols) (tb_rows out)). in_chunk lo hi r"
    using assms(4) one_day_within [OF assms(3)] in_chunk_mono by (auto simp: output_ok_def in_chunk_fill)
  have old: "\<not> in_chunk lo hi r \<Longrightarrow> \<not> in_chunk s e r" for r
    using one_day_within [OF assms(3)] in_chunk_mono by blast
  have "mset (filter (\<lambda>r. \<not> in_chunk lo hi r) (stored_rows D u d')) = filter_mset (\<lambda>r. \<not> in_chunk lo hi r)
      (mset (filter (\<lambda>r. \<not> in_chunk s e r) (stored_rows D u d)) + mset (map (fill cols) (tb_rows out)))"
    using cols(3) by simp
  also have "\<dots> = mset (filter (\<lambda>r. \<not> in_chunk lo hi r) (filter (\<lambda>r. \<not> in_chunk s e r) (stored_rows D u d)))
      + mset (filter (\<lambda>r. \<not> in_chunk lo hi r) (map (fill cols) (tb_rows out)))"
    by (simp only: filter_union_mset mset_filter)
  also have "filter (\<lambda>r. \<not> in_chunk lo hi r) (map (fill cols) (tb_rows out)) = []"
    using new by (simp only: filter_empty_conv) blast
  also have "filter (\<lambda>r. \<not> in_chunk lo hi r) (filter (\<lambda>r. \<not> in_chunk s e r) (stored_rows D u d))
      = filter (\<lambda>r. \<not> in_chunk lo hi r) (stored_rows D u d)"
    unfolding filter_filter using old by (intro filter_cong) auto
  finally show ?thesis using assms(1) st(2,3) by (simp add: keeps_def)
qed

lemma quarantine_keeps:
  assumes "keeps D cols u bin lo hi M L d" "quarantine_batch D bucket i view t q date d = Inr d'"
    and "bin = quarantine_uri bucket view i" "u \<noteq> bin"
  shows "keeps D cols u bin lo hi M L d'"
proof -
  have same: "dl_load D x d' = dl_load D x d" if "x \<noteq> bin" for x
    using quarantine_elsewhere [OF assms(2)] that assms(3) by simp
  then have "stored_rows D u d' = stored_rows D u d" using assms(4) by (simp add: stored_rows_def)
  then show ?thesis using assms(1) same [OF assms(4)] same by (simp add: keeps_def)
qed

end

context delta_partitions
begin

lemma store_keeps:
  fixes v :: feature_view and job :: job and M L
  assumes "we_delta E = D" "one_day lo hi (s, Inr e)" "output_ok s e out" "tb_cols out = cols"
    and "qv_rows q = length (tb_rows out)"
  defines "P \<equiv> \<lambda>w. keeps D cols (backfill_target E v) (backfill_bin E job v) lo hi M L (wk_lake w)"
  shows "triple P (store_chunk E job v s e out q) (\<lambda>_. P) P"
proof -
  have repl: "triple P (work_lake (replace_chunk D (backfill_target E v) (date_text s) s e t)) (\<lambda>_. P) P"
    if "output_ok s e t" "tb_cols t = cols" for t
    unfolding P_def using replace_keeps [OF _ _ assms(2) that(1)] that(2) by (intro triple_work_lake) auto
  have quar: "triple P (work_lake (quarantine_batch D (st_bucket (we_settings E)) (j_id job) (view_ref v) out q d0)) (\<lambda>_. P) P" for d0
    unfolding P_def
    by (rule triple_work_lake, rule quarantine_keeps [OF _ _ backfill_bin_def target_not_bin], assumption) simp_all
  show ?thesis
    unfolding store_chunk_def Let_def assms(1) backfill_target_def [symmetric]
    using repl [of out] repl [of "valid_rows q out"] valid_rows_ok [OF assms(3,5)] assms(3,4) quar
    by (intro triple_if triple_then) auto
qed

lemma run_chunk_keeps:
  fixes job :: job and M L
  assumes "we_delta E = D" "one_day lo hi (s, Inr e)" "distinct (chunk_columns v en)" "0 \<le> lo" "hi \<le> 3652059 * day_us"
  defines "P \<equiv> \<lambda>w. keeps D (chunk_columns v en) (backfill_target E v) (backfill_bin E job v) lo hi M L (wk_lake w)"
  shows "triple P (run_chunk E job token v src en s e summary) (\<lambda>_. P) P"
proof -
  have own: "triple P (still_owned E job token) (\<lambda>_. P) P"
    unfolding P_def by (rule triple_still_owned [OF blind_lake])
  have save: "triple P (save_checkpoints E job token cps) (\<lambda>_. P) P" for cps
    unfolding P_def by (rule triple_save_checkpoints [OF blind_lake])
  have rej: "triple P (reject_chunk q nx) (\<lambda>_. P) P" for q nx
    by (simp add: triple_def reject_chunk_def P_def)
  have load: "triple P (read_lake (chunk_output E v src en s e))
      (\<lambda>out w. (output_ok s e out \<and> tb_cols out = chunk_columns v en) \<and> P w) P"
    using chunk_output_ok [OF _ assms(3)] one_day_within [OF assms(2)] assms(4,5)
    by (intro triple_read_lake) force+
  have rest: "triple P (bind_act (read_act f) (\<lambda>cps. then_act (save_checkpoints E job token (g cps)) (ret nx))) (\<lambda>_. P) P"
    for f and g :: "string list \<Rightarrow> string list" and nx
    by (rule triple_bind_read) (auto intro!: triple_then triple_ret intro: triple_pre [OF _ save])
  have body: "triple P (bind_act (lift_act (validate_quality_table (we_env E) (tb_rows out) (v_features v) (Aware e 0))) (\<lambda>q.
     let next = next_summary (effective_policy v) summary q in
     if invalid_row_indexes q \<noteq> [] \<and> effective_policy v = Reject then reject_chunk q next
     else then_act (still_owned E job token) (
       then_act (store_chunk E job v s e out q) (
       bind_act (read_act wk_seen) (\<lambda>cps.
       then_act (save_checkpoints E job token (cps @ [backfill_checkpoint (we_env E) (iso_text s) next]))
         (ret next)))))) (\<lambda>_. P) P"
    if "output_ok s e out" "tb_cols out = chunk_columns v en" for out
  proof (rule triple_bind_lift)
    fix q assume q: "validate_quality_table (we_env E) (tb_rows out) (v_features v) (Aware e 0) = Inr q"
    have store: "triple P (store_chunk E job v s e out q) (\<lambda>_. P) P"
      using store_keeps [OF assms(1,2) that validated_count [OF q]] unfolding P_def .
    show "triple P (let next = next_summary (effective_policy v) summary q in
       if invalid_row_indexes q \<noteq> [] \<and> effective_policy v = Reject then reject_chunk q next
       else then_act (still_owned E job token) (
         then_act (store_chunk E job v s e out q) (
         bind_act (read_act wk_seen) (\<lambda>cps.
         then_act (save_checkpoints E job token (cps @ [backfill_checkpoint (we_env E) (iso_text s) next]))
           (ret next))))) (\<lambda>_. P) P"
      unfolding Let_def by (intro triple_if rej triple_then [OF own] triple_then [OF store] rest)
  qed
  show ?thesis
    unfolding run_chunk_def
    by (intro triple_then [OF own] triple_bind [OF load] triple_pure) (auto intro: body)
qed

end

context delta_partitions
begin

lemma run_chunks_keeps:
  fixes job :: job and M L
  assumes "we_delta E = D" "\<forall>c \<in> set cs. one_day lo hi c" "distinct (chunk_columns v en)" "0 \<le> lo" "hi \<le> 3652059 * day_us"
  defines "P \<equiv> \<lambda>w. keeps D (chunk_columns v en) (backfill_target E v) (backfill_bin E job v) lo hi M L (wk_lake w)"
  shows "triple P (run_chunks E job token v src en cs summary) (\<lambda>_. P) P"
  using assms(2)
proof (induction cs arbitrary: summary)
  case Nil
  show ?case unfolding run_chunks.simps by (rule triple_ret)
next
  case (Cons c cs)
  obtain s e where c: "c = (s, Inr e)" using Cons.prems by (cases c) (auto simp: one_day_def)
  have own: "triple P (still_owned E job token) (\<lambda>_. P) P"
    unfolding P_def by (rule triple_still_owned [OF blind_lake])
  have day: "one_day lo hi (s, Inr e)" using Cons.prems c by simp
  have run: "triple P (if b then ret sm else run_chunk E job token v src en s e sm) (\<lambda>_. P) P" for b sm
    using run_chunk_keeps [OF assms(1) day assms(3-5)] unfolding P_def by (intro triple_if triple_ret) auto
  have later: "triple P (run_chunks E job token v src en cs sm) (\<lambda>_. P) P" for sm
    using Cons by simp
  have next_chunk: "triple P (bind_act (lift_act (has_backfill_checkpoint (we_env E) cps (iso_text s))) (\<lambda>have_it.
     bind_act (if have_it then ret summary else run_chunk E job token v src en s e summary) (\<lambda>next.
     run_chunks E job token v src en cs next))) (\<lambda>_. P) P" for cps
    by (intro triple_bind_lift triple_bind_same [OF run later])
  show ?case unfolding c run_chunks.simps bind_lift_Inr
    by (intro triple_then [OF own] triple_read_same next_chunk triple_bind_lift)
qed

end

text \<open>
  C35. Whatever happens to a backfill of \<open>[lo, hi)\<close>, \<open>lo\<close> in 1970 or later (a chunk that cannot be
  read or is rejected, a lease lost at any point), the rows of the view outside the range are those
  that were there, and no other table changes but the quarantine of the job.
\<close>

theorem backfill_keeps_rest:
  fixes E :: "('s, 'd, 'f) worker_env" and w' :: "('s, 'd, 'f) worker"
  assumes "delta_partitions (we_delta E)" "backfill E job token w = (r, w')"
    and "feature_view_of (we_registry E) (payload_view (j_payload job)) = Inr v"
    and "entity_of (we_registry E) (v_entity v) = Inr en" "distinct (chunk_columns v en)"
    and "payload_range (j_payload job) = Inr (a, b)" "time_of_text (we_env E) a = Inr lo" "time_of_text (we_env E) b = Inr hi"
    and "0 \<le> lo" "hi \<le> 3652058 * day_us"
    and "\<And>t. dl_load (we_delta E) (backfill_target E v) (wk_lake w) = Inr t \<Longrightarrow> table_ok (chunk_columns v en) t"
  shows "mset (filter (\<lambda>r. \<not> in_chunk lo hi r) (stored_rows (we_delta E) (backfill_target E v) (wk_lake w')))
      = mset (filter (\<lambda>r. \<not> in_chunk lo hi r) (stored_rows (we_delta E) (backfill_target E v) (wk_lake w))) \<and>
    (x \<noteq> backfill_target E v \<longrightarrow> x \<noteq> backfill_bin E job v \<longrightarrow>
       dl_load (we_delta E) x (wk_lake w') = dl_load (we_delta E) x (wk_lake w))"
proof -
  let ?M = "mset (filter (\<lambda>r. \<not> in_chunk lo hi r) (stored_rows (we_delta E) (backfill_target E v) (wk_lake w)))"
  define P :: "('s, 'd, 'f) worker \<Rightarrow> bool" where "P = (\<lambda>w'. keeps (we_delta E) (chunk_columns v en) (backfill_target E v) (backfill_bin E job v) lo hi ?M
    (\<lambda>x. dl_load (we_delta E) x (wk_lake w)) (wk_lake w'))"
  have days: "\<forall>c \<in> set (chunks hi lo). one_day lo hi c"
  proof (cases "lo \<le> hi")
    case True
    then show ?thesis using chunks_one_day [OF assms(9) _ assms(10)] by blast
  next
    case False
    then have "chunks hi lo = []" by (subst chunks.simps) simp
    then show ?thesis by simp
  qed
  have "hi \<le> 3652059 * day_us" using assms(10) by (simp add: day_us_def)
  then have run: "triple P (run_chunks E job token v src en (chunks hi lo) summary) (\<lambda>_. P) P" for src summary
    unfolding P_def by (rule delta_partitions.run_chunks_keeps [OF assms(1) refl days assms(5,9)])
  then have body: "triple P (bind_act (run_chunks E job token v src en (chunks hi lo) summary) (\<lambda>q. ret (summary_doc q))) (\<lambda>_. P) P"
    for src summary by (rule triple_bind_same) (rule triple_ret)
  have "triple P (backfill E job token) (\<lambda>_. P) P"
    unfolding backfill_def assms(3,4,6-8) bind_lift_Inr prod.case
    by (intro triple_bind_lift triple_read_same body)
  moreover have "P w" unfolding P_def keeps_def by (intro conjI allI impI refl assms(11))
  ultimately have "P w'" by (rule triple_end [where m = "backfill E job token"]) (rule assms(2))
  then show ?thesis unfolding P_def keeps_def by blast
qed

subsection \<open>A finished chunk\<close>

definition kept_output :: "feature_view \<Rightarrow> quality_validation \<Rightarrow> table \<Rightarrow> table" where
  "kept_output v q out = (if effective_policy v = Quarantine then valid_rows q out else out)"

context delta_partitions
begin

lemma store_chunk_Inr:
  assumes "store_chunk E job v s e out q w = (Inr y, w')" "we_delta E = D"
    and "one_day lo hi (s, Inr e)" "output_ok s e out" "qv_rows q = length (tb_rows out)"
    and "\<And>t. dl_load D (backfill_target E v) (wk_lake w) = Inr t \<Longrightarrow> table_ok (tb_cols out) t"
  shows "\<exists>cols. set (tb_cols out) \<subseteq> set cols \<and> mset (stored_rows D (backfill_target E v) (wk_lake w')) =
    mset (filter (\<lambda>r. \<not> in_chunk s e r) (stored_rows D (backfill_target E v) (wk_lake w))) +
    mset (map (fill cols) (tb_rows (kept_output v q out)))"
proof -
  let ?u = "backfill_target E v"
  obtain d where d: "dl_load D ?u d = dl_load D ?u (wk_lake w)"
      "replace_chunk D ?u (date_text s) s e (kept_output v q out) d = Inr (wk_lake w')"
  proof (cases "effective_policy v = Quarantine")
    case True
    then obtain d where q: "quarantine_batch D (st_bucket (we_settings E)) (j_id job) (view_ref v) out q (date_text s) (wk_lake w) = Inr d"
        "replace_chunk D ?u (date_text s) s e (valid_rows q out) d = Inr (wk_lake w')"
      using assms(1,2)
      by (auto simp: store_chunk_def then_act_Inr work_lake_def backfill_target_def Let_def split: sum.splits)
    have "dl_load D ?u d = dl_load D ?u (wk_lake w)"
      using quarantine_elsewhere [OF q(1)] target_not_bin [of E v job v] by (simp add: backfill_bin_def)
    then show ?thesis using that q(2) True by (simp add: kept_output_def)
  next
    case False
    then show ?thesis using that [of "wk_lake w"] assms(1,2)
      by (auto simp: store_chunk_def work_lake_def backfill_target_def kept_output_def Let_def split: sum.splits)
  qed
  have ok: "output_ok s e (kept_output v q out)" "tb_cols (kept_output v q out) = tb_cols out"
    using valid_rows_ok [OF assms(4,5)] assms(4) by (simp_all add: kept_output_def)
  have tab: "table_ok (tb_cols (kept_output v q out)) t" if "dl_load D ?u d = Inr t" for t
    using assms(6) [of t] that d(1) ok(2) by simp
  obtain cols where cols: "\<forall>t. dl_load D ?u d = Inr t \<longrightarrow> cols = tb_cols t"
      "dl_exists D ?u d \<or> cols = tb_cols (kept_output v q out)"
      "mset (stored_rows D ?u (wk_lake w')) = mset (filter (\<lambda>r. \<not> in_chunk s e r) (stored_rows D ?u d)) +
        mset (map (fill cols) (tb_rows (kept_output v q out)))"
    using replace_stored(1) [OF d(2) assms(3) ok(1) tab] by blast
  have "set (tb_cols out) \<subseteq> set cols"
  proof (cases "dl_exists D ?u d")
    case True
    then obtain t where "dl_load D ?u d = Inr t" using load_exists by blast
    then show ?thesis using cols(1) tab ok(2) by (simp add: table_ok_def)
  qed (use cols(2) ok(2) in simp)
  moreover have "stored_rows D ?u d = stored_rows D ?u (wk_lake w)" using d(1) by (simp add: stored_rows_def)
  ultimately show ?thesis using cols(3) by auto
qed

end

lemma store_chunk_db:
  assumes "store_chunk E job v s e out q w = (r, w')"
  shows "wk_db w' = wk_db w" "wk_seen w' = wk_seen w"
  using assms by (auto simp: store_chunk_def then_act_def bind_act_def work_lake_def Let_def split: if_splits sum.splits)

text \<open>
  C36. A chunk that succeeds: the rows of the view inside the chunk are the transformed rows the quality
  policy keeps, those outside are what they were, and the last checkpoint names the chunk and
  carries the summary so far.
\<close>

theorem chunk_recorded:
  fixes E :: "('s, 'd, 'f) worker_env" and w' :: "('s, 'd, 'f) worker"
  assumes "delta_partitions (we_delta E)" "run_chunk E job token v src en s e summary w = (Inr nx, w')"
    and "one_day lo hi (s, Inr e)" "distinct (chunk_columns v en)" "0 \<le> lo" "hi \<le> 3652059 * day_us"
    and "fair_others E" "job_ids_unique (wk_db w)"
    and "\<And>t. dl_load (we_delta E) (backfill_target E v) (wk_lake w) = Inr t \<Longrightarrow> table_ok (chunk_columns v en) t"
  shows "\<exists>out q cols. chunk_output E v src en s e (wk_lake w) = Inr out \<and>
    validate_quality_table (we_env E) (tb_rows out) (v_features v) (Aware e 0) = Inr q \<and>
    (effective_policy v = Reject \<longrightarrow> invalid_row_indexes q = []) \<and>
    nx = next_summary (effective_policy v) summary q \<and> set (chunk_columns v en) \<subseteq> set cols \<and>
    mset (stored_rows (we_delta E) (backfill_target E v) (wk_lake w')) =
      mset (filter (\<lambda>r. \<not> in_chunk s e r) (stored_rows (we_delta E) (backfill_target E v) (wk_lake w))) +
      mset (map (fill cols) (tb_rows (kept_output v q out))) \<and>
    stored_checkpoints job (wk_db w') = wk_seen w @ [backfill_checkpoint (we_env E) (iso_text s) nx]"
proof -
  obtain w1 where w1: "still_owned E job token w = (Inr (), w1)"
      "bind_act (read_lake (chunk_output E v src en s e)) (\<lambda>out.
     bind_act (lift_act (validate_quality_table (we_env E) (tb_rows out) (v_features v) (Aware e 0))) (\<lambda>q.
     let next = next_summary (effective_policy v) summary q in
     if invalid_row_indexes q \<noteq> [] \<and> effective_policy v = Reject then reject_chunk q next
     else then_act (still_owned E job token) (
       then_act (store_chunk E job v s e out q) (
       bind_act (read_act wk_seen) (\<lambda>cps.
       then_act (save_checkpoints E job token (cps @ [backfill_checkpoint (we_env E) (iso_text s) next]))
         (ret next)))))) w1 = (Inr nx, w')"
    using assms(2) unfolding run_chunk_def then_act_Inr by auto
  have lake: "wk_lake w1 = wk_lake w" by (rule still_owned_keeps(1) [OF w1(1)])
  obtain out where out: "chunk_output E v src en s e (wk_lake w) = Inr out"
      "bind_act (lift_act (validate_quality_table (we_env E) (tb_rows out) (v_features v) (Aware e 0))) (\<lambda>q.
     let next = next_summary (effective_policy v) summary q in
     if invalid_row_indexes q \<noteq> [] \<and> effective_policy v = Reject then reject_chunk q next
     else then_act (still_owned E job token) (
       then_act (store_chunk E job v s e out q) (
       bind_act (read_act wk_seen) (\<lambda>cps.
       then_act (save_checkpoints E job token (cps @ [backfill_checkpoint (we_env E) (iso_text s) next]))
         (ret next))))) w1 = (Inr nx, w')"
    using w1(2) unfolding bind_act_Inr [of "read_lake _"] by (auto simp: read_lake_def lake)
  obtain q where q: "validate_quality_table (we_env E) (tb_rows out) (v_features v) (Aware e 0) = Inr q"
      "\<not> (invalid_row_indexes q \<noteq> [] \<and> effective_policy v = Reject)"
      "then_act (still_owned E job token) (
       then_act (store_chunk E job v s e out q) (
       bind_act (read_act wk_seen) (\<lambda>cps.
       then_act (save_checkpoints E job token (cps @ [backfill_checkpoint (we_env E) (iso_text s)
         (next_summary (effective_policy v) summary q)]))
         (ret (next_summary (effective_policy v) summary q))))) w1 = (Inr nx, w')"
    using out(2) unfolding bind_act_Inr [of "lift_act _"] Let_def
    by (auto simp: reject_chunk_def split: if_splits)
  obtain w2 w3 where w3: "still_owned E job token w1 = (Inr (), w2)" "store_chunk E job v s e out q w2 = (Inr (), w3)"
      "save_checkpoints E job token (wk_seen w3 @ [backfill_checkpoint (we_env E) (iso_text s)
         (next_summary (effective_policy v) summary q)]) w3 = (Inr (), w')"
      "nx = next_summary (effective_policy v) summary q"
    using q(3) by (auto simp: then_act_Inr bind_act_Inr)
  have lake2: "wk_lake w2 = wk_lake w" using still_owned_keeps(1) [OF w3(1)] lake by simp
  have seen: "wk_seen w3 = wk_seen w"
    using still_owned_keeps(3) [OF w1(1)] still_owned_keeps(3) [OF w3(1)] store_chunk_db(2) [OF w3(2)] by simp
  have "job_ids_unique (wk_db w3)"
    using still_owned_keeps(4) [OF w1(1) assms(7,8)] still_owned_keeps(4) [OF w3(1) assms(7)] store_chunk_db(1) [OF w3(2)] by simp
  note saved = save_checkpoints_Inr [OF w3(3) assms(7) this]
  have day: "0 \<le> s" "e \<le> 3652059 * day_us" using one_day_within [OF assms(3)] assms(5,6) by auto
  have ok: "output_ok s e out" "tb_cols out = chunk_columns v en"
    using chunk_output_ok [OF out(1) assms(4) day] by simp_all
  obtain cols where "set (chunk_columns v en) \<subseteq> set cols" "mset (stored_rows (we_delta E) (backfill_target E v) (wk_lake w')) =
      mset (filter (\<lambda>r. \<not> in_chunk s e r) (stored_rows (we_delta E) (backfill_target E v) (wk_lake w))) +
      mset (map (fill cols) (tb_rows (kept_output v q out)))"
    using delta_partitions.store_chunk_Inr [OF assms(1) w3(2) refl assms(3) ok(1) validated_count [OF q(1)]] assms(9) ok(2)
    unfolding lake2 saved(1) by auto
  then show ?thesis using out(1) q(1,2) w3(4) saved(3) [unfolded seen] by blast
qed

subsection \<open>A concrete backfill\<close>

text \<open>
  The view of the examples over the first ten microseconds of the second day: its table has a row
  of the first day, and the source one row of each day.
\<close>

definition shop_day :: "string \<Rightarrow> int \<Rightarrow> int \<Rightarrow> row" where
  "shop_day i t n = [(''user_id'', VStr ''ada''), (''event_timestamp'', VTime (Aware t 0)), (''event_id'', VStr i),
     (''total'', VInt n), (''event_date'', VStr (date_text t))]"

definition shop_source :: "string \<Rightarrow> int \<Rightarrow> int \<Rightarrow> row" where
  "shop_source i t n = [(''user_id'', VStr ''ada''), (''event_timestamp'', VTime (Aware t 0)), (''event_id'', VStr i), (''total'', VInt n)]"

definition shop_columns :: "string list" where
  "shop_columns = [''user_id'', ''event_timestamp'', ''event_id'', ''total'']"

definition shop_lake :: lake where
  "shop_lake =
     [(view_uri ''feature-store'' ''spend@1.0.0'', \<lparr>tb_cols = shop_columns @ [''event_date''], tb_rows = [shop_day ''a'' 5 10]\<rparr>),
      (''s3://orders'', \<lparr>tb_cols = shop_columns, tb_rows = [shop_source ''a'' 5 10, shop_source ''b'' (day_us + 3) 20]\<rparr>)]"

definition span_env :: pyenv where
  "span_env = demo_env\<lparr>env_fromiso := (\<lambda>s. if s = ''from'' then Some (Aware day_us 0)
     else if s = ''till'' then Some (Aware (day_us + 10) 0) else None)\<rparr>"

definition shop_worker :: "(hashes, lake, disk) worker_env" where
  "shop_worker = \<lparr>we_env = span_env, we_settings = default_settings, we_redis = mem_redis, we_delta = mem_delta, we_files = mem_files,
     we_registry = shop_registry, we_now = (\<lambda>_. 5), we_others = (\<lambda>_ db. db), we_transform = (\<lambda>_ t. Inr t),
     we_cast = (\<lambda>_ v. Inr v), we_clash = refuse_clash, we_trace = (\<lambda>_. ''traceback''), we_path = id, we_seconds = VInt\<rparr>"

definition span_job :: job where
  "span_job = (new_job ''b1'' Backfill (RangePayload ''spend@1.0.0'' ''from'' ''till'') None default_settings 0)
     \<lparr>j_status := Running, j_token := Some ''t1'', j_lease := Some 30\<rparr>"

definition span_start :: "(hashes, lake, disk) worker" where
  "span_start = \<lparr>wk_db = empty_db\<lparr>db_jobs := [span_job]\<rparr>, wk_redis = [], wk_lake = shop_lake, wk_files = [], wk_ticks = 0, wk_summary = None, wk_seen = []\<rparr>"

lemma shop_worker_simps [simp]:
  "we_env shop_worker = span_env" "we_settings shop_worker = default_settings" "we_delta shop_worker = mem_delta"
  "we_registry shop_worker = shop_registry" "we_others shop_worker = (\<lambda>_ db. db)" "we_redis shop_worker = mem_redis"
  "we_now shop_worker = (\<lambda>_. 5)" "we_transform shop_worker = (\<lambda>_ t. Inr t)" "we_cast shop_worker = (\<lambda>_ v. Inr v)"
  "we_path shop_worker = id"
  by (simp_all add: shop_worker_def)

lemma span_job_simps [simp]:
  "j_id span_job = ''b1''" "j_payload span_job = RangePayload ''spend@1.0.0'' ''from'' ''till''" "j_checkpoints span_job = []"
  "j_status span_job = Running" "j_token span_job = Some ''t1''" "j_lease span_job = Some 30"
  by (simp_all add: span_job_def new_job_def)

lemma span_times [simp]: "time_of_text span_env ''from'' = Inr day_us" "time_of_text span_env ''till'' = Inr (day_us + 10)"
  by (simp_all add: time_of_text_def span_env_def)

lemma shop_chunk_columns: "chunk_columns shop_view shop_entity = [''user_id'', ''event_timestamp'', ''event_id'', ''total'', ''event_date'']"
  by (simp add: chunk_columns_def output_columns_def shop_view_def shop_entity_def)

lemma shop_target: "backfill_target shop_worker shop_view = view_uri ''feature-store'' ''spend@1.0.0''"
  by (simp add: backfill_target_def shop_view_def default_settings_def view_ref_def)

lemma shop_table_ok:
  "dl_load mem_delta (backfill_target shop_worker shop_view) shop_lake = Inr t \<Longrightarrow> table_ok (chunk_columns shop_view shop_entity) t"
  by (auto simp: shop_target mem_delta_def mem_load_def shop_lake_def table_ok_def shop_chunk_columns shop_columns_def
      dated_def shop_day_def time_of_def dict_get_def in_range_def)

lemma backfill_keeps_rest_witness:
  "\<exists>r w'. backfill shop_worker span_job ''t1'' span_start = (r, w') \<and>
     mset (filter (\<lambda>r. \<not> in_chunk day_us (day_us + 10) r) (stored_rows mem_delta (view_uri ''feature-store'' ''spend@1.0.0'') (wk_lake w')))
       = {#shop_day ''a'' 5 10#}"
proof -
  obtain r w' where run: "backfill shop_worker span_job ''t1'' span_start = (r, w')" by (metis surj_pair)
  have old: "stored_rows mem_delta (view_uri ''feature-store'' ''spend@1.0.0'') (wk_lake span_start) = [shop_day ''a'' 5 10]"
    by (simp add: stored_rows_def mem_delta_def mem_load_def span_start_def shop_lake_def)
  have out: "\<not> in_chunk day_us (day_us + 10) (shop_day ''a'' 5 10)"
    by (simp add: in_chunk_def shop_day_def time_of_def dict_get_def day_us_def)
  have "mset (filter (\<lambda>r. \<not> in_chunk day_us (day_us + 10) r) (stored_rows (we_delta shop_worker) (backfill_target shop_worker shop_view) (wk_lake w')))
      = mset (filter (\<lambda>r. \<not> in_chunk day_us (day_us + 10) r) (stored_rows (we_delta shop_worker) (backfill_target shop_worker shop_view) (wk_lake span_start)))"
    by (rule backfill_keeps_rest [where en = shop_entity and a = "''from''" and b = "''till''", OF _ run, THEN conjunct1])
      (use lake.delta_partitions_axioms shop_table_ok in
        \<open>auto simp: shop_chunk_columns payload_range_def day_us_def shop_view_def [THEN arg_cong, of v_entity] span_start_def\<close>)
  then show ?thesis using run old out by (auto simp: shop_target)
qed

lemma span_output:
  "chunk_output shop_worker shop_view \<lparr>bs_name = ''orders'', bs_uri = ''s3://orders'', bs_timestamp_field = ''event_timestamp''\<rparr>
     shop_entity day_us (day_us + 10) shop_lake =
   Inr \<lparr>tb_cols = shop_columns @ [''event_date''], tb_rows = [shop_day ''b'' (day_us + 3) 20]\<rparr>"
proof -
  let ?d = "86400000000 :: int"
  have src: "dl_scan mem_delta [NotBefore ''event_timestamp'' (day_us - 60000000), Before ''event_timestamp'' (day_us + 10)]
      ''s3://orders'' shop_lake = Inr \<lparr>tb_cols = shop_columns, tb_rows = [shop_source ''b'' (day_us + 3) 20]\<rparr>"
    by (simp add: mem_delta_def mem_load_def shop_lake_def view_uri_def time_of_def dict_get_def shop_source_def day_us_def)
  have view: "v_ttl_seconds shop_view = Some 60" "v_features shop_view = [\<lparr>f_name = ''total'', f_dtype = TInt64, f_description = [], f_quality = None\<rparr>]"
    "e_join_keys shop_entity = [(''user_id'', TString)]"
    by (simp_all add: shop_view_def shop_entity_def)
  have since: "minus_seconds day_us 60 = Inr (day_us - 60000000)"
    by (simp add: minus_seconds_def seconds_def in_range_def day_us_def)
  have uri: "normalize_uri id ''s3://orders'' = ''s3://orders''" by (simp add: normalize_uri_def starts_with_def)
  have val: "validate_output (\<lambda>_. Inr) (e_join_keys shop_entity) (v_features shop_view)
      \<lparr>tb_cols = shop_columns, tb_rows = [shop_source ''b'' (day_us + 3) 20]\<rparr>
    = Inr \<lparr>tb_cols = shop_columns, tb_rows = [shop_source ''b'' (day_us + 3) 20]\<rparr>"
    by (simp add: view validate_output_def output_columns_def shop_columns_def cast_row_def cast_value_def
        declared_types_def shop_source_def dict_get_def)
  have rows: "chunk_rows day_us (day_us + 10) \<lparr>tb_cols = shop_columns, tb_rows = [shop_source ''b'' (day_us + 3) 20]\<rparr>
    = \<lparr>tb_cols = shop_columns @ [''event_date''], tb_rows = [shop_day ''b'' (day_us + 3) 20]\<rparr>"
    by (simp add: chunk_rows_def in_chunk_def row_date_def shop_source_def shop_day_def time_of_def dict_get_def)
  show ?thesis
    by (simp add: chunk_output_def view(1) since uri load_range_def src val rows)
qed

lemma span_quality:
  "validate_quality_table span_env [shop_day ''b'' (day_us + 3) 20] (v_features shop_view) (Aware (day_us + 10) 0)
     = Inr \<lparr>qv_rows = 1, qv_violations = []\<rparr>"
  by (simp add: validate_quality_table_def event_time_def shop_day_def validate_quality_rows_def shop_view_def
      duplicate_rows_def feature_violations_def Let_def)

lemma span_one_day: "one_day day_us (day_us + 10) (day_us, Inr (day_us + 10))"
proof -
  have "date_text t = date_text day_us" if "day_us \<le> t" "t < day_us + 10" for t
    using that by (intro same_day [of _ _ "day_us + 10"]) (simp_all add: day_us_def)
  moreover have "day_us < day_us + 10" by simp
  ultimately show ?thesis unfolding one_day_def fst_conv snd_conv by blast
qed

lemma span_owned: "still_owned shop_worker span_job ''t1'' w =
    ((if owns ''b1'' ''t1'' 5 (wk_db w) then Inr () else Inl (LeaseLostError ''job lease was lost: b1'')), w\<lparr>wk_ticks := Suc (wk_ticks w)\<rparr>)"
  by (simp add: still_owned_def bind_act_def tick_def require_ownership_def ensure_def)

lemma span_run:
  "\<exists>nx w'. run_chunk shop_worker span_job ''t1'' shop_view
     \<lparr>bs_name = ''orders'', bs_uri = ''s3://orders'', bs_timestamp_field = ''event_timestamp''\<rparr>
     shop_entity day_us (day_us + 10) (empty_summary Reject) span_start = (Inr nx, w')"
proof -
  let ?out = "\<lparr>tb_cols = shop_columns @ [''event_date''], tb_rows = [shop_day ''b'' (day_us + 3) 20]\<rparr>"
  let ?q = "\<lparr>qv_rows = Suc 0, qv_violations = []\<rparr>"
  have pol: "effective_policy shop_view = Reject" by (simp add: effective_policy_def shop_view_def)
  have bad: "invalid_row_indexes ?q = []" by (simp add: invalid_row_indexes_def)
  have own: "owns ''b1'' ''t1'' 5 (wk_db span_start)"
    by (simp add: owns_def rowcount_def leased_def span_start_def empty_db_def)
  have "\<exists>d. replace_chunk mem_delta (backfill_target shop_worker shop_view) (date_text day_us) day_us (day_us + 10) ?out shop_lake = Inr d"
    by (simp add: replace_chunk_def shop_target mem_delta_def mem_load_def shop_lake_def shop_columns_def overwrite_partition_def mem_write_def)
  then obtain d where d: "replace_chunk mem_delta (backfill_target shop_worker shop_view) (date_text day_us) day_us (day_us + 10) ?out shop_lake = Inr d"
    by blast
  have store: "store_chunk shop_worker span_job shop_view day_us (day_us + 10) ?out ?q w = (Inr (), w\<lparr>wk_lake := d\<rparr>)"
    if "wk_lake w = shop_lake" for w
    using d that by (simp add: store_chunk_def pol work_lake_def backfill_target_def Let_def)
  show ?thesis
    using own span_output span_quality
    by (simp add: run_chunk_def then_act_def bind_act_def span_owned read_lake_def Let_def bad pol store
        save_checkpoints_def tick_def work_db_def commit_checkpoints_def span_start_def)
qed

lemma chunk_recorded_witness:
  "\<exists>nx w' cps. run_chunk shop_worker span_job ''t1'' shop_view
     \<lparr>bs_name = ''orders'', bs_uri = ''s3://orders'', bs_timestamp_field = ''event_timestamp''\<rparr>
     shop_entity day_us (day_us + 10) (empty_summary Reject) span_start = (Inr nx, w') \<and>
     size (mset (stored_rows mem_delta (view_uri ''feature-store'' ''spend@1.0.0'') (wk_lake w'))) = 2 \<and>
     stored_checkpoints span_job (wk_db w') = cps @ [backfill_checkpoint span_env (iso_text day_us) nx]"
proof -
  let ?src = "\<lparr>bs_name = ''orders'', bs_uri = ''s3://orders'', bs_timestamp_field = ''event_timestamp''\<rparr>"
  obtain nx w' where run: "run_chunk shop_worker span_job ''t1'' shop_view ?src shop_entity day_us (day_us + 10)
      (empty_summary Reject) span_start = (Inr nx, w')" using span_run by blast
  have fair: "fair_others shop_worker" "job_ids_unique (wk_db span_start)"
    by (simp_all add: fair_others_def job_ids_unique_def span_start_def empty_db_def)
  have cols: "distinct (chunk_columns shop_view shop_entity)" by (simp add: shop_chunk_columns)
  have range: "0 \<le> day_us" "day_us + 10 \<le> 3652059 * day_us" by (simp_all add: day_us_def)
  have D: "delta_partitions (we_delta shop_worker)" using lake.delta_partitions_axioms by simp
  have lake: "wk_lake span_start = shop_lake" by (simp add: span_start_def)
  have old: "filter (\<lambda>r. \<not> in_chunk day_us (day_us + 10) r) (stored_rows mem_delta (view_uri ''feature-store'' ''spend@1.0.0'') shop_lake)
      = [shop_day ''a'' 5 10]"
    by (simp add: stored_rows_def mem_delta_def mem_load_def shop_lake_def in_chunk_def shop_day_def time_of_def dict_get_def day_us_def)
  obtain out q cs cps where r: "chunk_output shop_worker shop_view ?src shop_entity day_us (day_us + 10) (wk_lake span_start) = Inr out"
      "mset (stored_rows (we_delta shop_worker) (backfill_target shop_worker shop_view) (wk_lake w')) =
        mset (filter (\<lambda>r. \<not> in_chunk day_us (day_us + 10) r)
          (stored_rows (we_delta shop_worker) (backfill_target shop_worker shop_view) (wk_lake span_start))) +
        mset (map (fill cs) (tb_rows (kept_output shop_view q out)))"
      "stored_checkpoints span_job (wk_db w') = cps @ [backfill_checkpoint (we_env shop_worker) (iso_text day_us) nx]"
    using chunk_recorded [OF D run span_one_day cols range fair] shop_table_ok by (auto simp: lake)
  have "tb_rows (kept_output shop_view q out) = [shop_day ''b'' (day_us + 3) 20]"
    using r(1) by (auto simp: lake span_output kept_output_def effective_policy_def shop_view_def [THEN arg_cong, of v_quality_policy])
  then have "size (mset (stored_rows mem_delta (view_uri ''feature-store'' ''spend@1.0.0'') (wk_lake w'))) = 2"
    using r(2) old by (simp add: shop_target lake)
  then show ?thesis using run r(3) by auto
qed

end
