(* ===== verification/MaterializationLaws.thy ===== *)
theory MaterializationLaws
  imports Materialization BackfillLaws
begin

section \<open>What a materialization leaves in the online store\<close>

text \<open>
  A successful materialization upserts the newest scanned row of every entity
  (\<open>materialize_effect\<close>), and that leaves the online store as upserting every scanned row would
  (\<open>materialize_as_all_rows\<close>): the window query saves work and changes nothing. The second rests on
  \<open>upsert_all_mixed\<close>, which follows the events of many entities through their hashes.
\<close>

subsection \<open>Events of many entities\<close>

text \<open>What the hash of a key holds: nothing, or one event.\<close>

definition hash_holds :: "pyenv \<Rightarrow> 's redis \<Rightarrow> 's \<Rightarrow> string \<Rightarrow> stream_event option \<Rightarrow> bool" where
  "hash_holds env R s k x = (case x of None \<Rightarrow> \<forall>f. rd_hget R s k f = None | Some e \<Rightarrow> holds env R s k e)"

definition good_event :: "string set \<Rightarrow> stream_event \<Rightarrow> bool" where
  "good_event names e \<longleftrightarrow> storable e \<and> fst ` set (ev_values e) = names"

lemma upsert_all_snoc:
  "upsert_all env R (es @ [e]) s = bind_result (upsert_all env R es s) (\<lambda>s'. bind_result (upsert env R e s') (\<lambda>(_, t). Inr t))"
  by (induction es arbitrary: s) (auto simp: bind_result_def split: sum.splits)

context redis_laws
begin

lemma upsert_mixed:
  assumes "good_event names e" "hash_holds env R s (event_key env e) x" "\<And>e0. x = Some e0 \<Longrightarrow> good_event names e0"
  shows "\<exists>b s'. upsert env R e s = Inr (b, s') \<and> same_key_elsewhere R (event_key env e) s s' \<and>
    hash_holds env R s' (event_key env e)
      (case x of None \<Rightarrow> Some e | Some e0 \<Rightarrow> if event_stamp e0 < event_stamp e then Some e else Some e0)"
proof (cases x)
  case None
  then show ?thesis using upsert_empty [of e s env] assms(1,2) by (auto simp: hash_holds_def good_event_def)
next
  case (Some e0)
  have st: "storable e" "storable e0" and names: "fst ` set (ev_values e) = fst ` set (ev_values e0)"
    using assms(1,3) Some by (auto simp: good_event_def)
  have held: "holds env R s (event_key env e) e0" using assms(2) Some by (simp add: hash_holds_def)
  note up = upsert_held [OF st held names]
  show ?thesis
  proof (cases "event_stamp e0 < event_stamp e")
    case True
    then show ?thesis using up write_event(2) [OF st(1), where s = s and k = "event_key env e" and env = env] Some
      by (auto simp: hash_holds_def)
  next
    case False
    then show ?thesis using up(1) held Some by (auto simp: hash_holds_def same_key_elsewhere_def)
  qed
qed

lemma upsert_all_mixed:
  assumes "\<forall>e \<in> set es. good_event names e \<and> event_key env e \<in> K"
    and "\<forall>k \<in> K. hash_holds env R s k (newest event_stamp (h k)) \<and> (\<forall>e0 \<in> set (h k). good_event names e0)"
  shows "\<exists>s'. upsert_all env R es s = Inr s' \<and>
    (\<forall>k \<in> K. hash_holds env R s' k (newest event_stamp (h k @ filter (\<lambda>e. event_key env e = k) es))) \<and>
    (\<forall>k f. k \<notin> K \<longrightarrow> rd_hget R s' k f = rd_hget R s k f)"
  using assms(1)
proof (induction es rule: rev_induct)
  case Nil
  then show ?case using assms(2) by simp
next
  case (snoc e es)
  let ?k = "event_key env e"
  obtain s1 where s1: "upsert_all env R es s = Inr s1"
      "\<forall>k \<in> K. hash_holds env R s1 k (newest event_stamp (h k @ filter (\<lambda>e. event_key env e = k) es))"
      "\<forall>k f. k \<notin> K \<longrightarrow> rd_hget R s1 k f = rd_hget R s k f"
    using snoc by auto
  let ?x = "newest event_stamp (h ?k @ filter (\<lambda>e'. event_key env e' = ?k) es)"
  have e: "good_event names e" "?k \<in> K" using snoc.prems by simp_all
  have old: "good_event names e0" if "?x = Some e0" for e0
  proof -
    have "e0 \<in> set (h ?k @ filter (\<lambda>e'. event_key env e' = ?k) es)" using newest.pick_SomeD [OF that] by blast
    then show ?thesis using assms(2) e(2) snoc.prems by auto
  qed
  obtain b s2 where s2: "upsert env R e s1 = Inr (b, s2)" "same_key_elsewhere R ?k s1 s2"
      "hash_holds env R s2 ?k (case ?x of None \<Rightarrow> Some e | Some e0 \<Rightarrow> if event_stamp e0 < event_stamp e then Some e else Some e0)"
    using upsert_mixed [OF e(1) bspec [OF s1(2) e(2)] old] by blast
  have "hash_holds env R s2 k (newest event_stamp (h k @ filter (\<lambda>e. event_key env e = k) (es @ [e])))" if "k \<in> K" for k
  proof (cases "k = ?k")
    case True
    have "newest event_stamp ((h k @ filter (\<lambda>e. event_key env e = k) es) @ [e])
        = (case ?x of None \<Rightarrow> Some e | Some e0 \<Rightarrow> if event_stamp e0 < event_stamp e then Some e else Some e0)"
      unfolding newest_snoc True ..
    then show ?thesis using s2(3) True by simp
  next
    case False
    have "rd_hget R s2 k f = rd_hget R s1 k f" for f using s2(2) False by (simp add: same_key_elsewhere_def)
    then have "hash_holds env R s2 k x = hash_holds env R s1 k x" for x by (simp add: hash_holds_def holds_def split: option.splits)
    then show ?thesis using s1(2) that False by simp
  qed
  moreover have "rd_hget R s2 k f = rd_hget R s k f" if "k \<notin> K" for k f
  proof -
    have "k \<noteq> ?k" using that e(2) by auto
    then show ?thesis using s1(3) s2(2) that by (simp add: same_key_elsewhere_def)
  qed
  ultimately show ?case using s1(1) s2(1) by (auto simp: upsert_all_snoc)
qed

text \<open>Two sequences whose newest events agree for every entity leave the same online store.\<close>

lemma upsert_all_agree:
  assumes "\<forall>e \<in> set as. good_event names e \<and> event_key env e \<in> K" "set bs \<subseteq> set as"
    and "\<forall>k \<in> K. hash_holds env R s k (newest event_stamp (h k)) \<and> (\<forall>e0 \<in> set (h k). good_event names e0)"
    and "\<And>k. k \<in> K \<Longrightarrow> newest event_stamp (h k @ filter (\<lambda>e. event_key env e = k) bs)
        = newest event_stamp (h k @ filter (\<lambda>e. event_key env e = k) as)"
  shows "\<exists>a b. upsert_all env R as s = Inr a \<and> upsert_all env R bs s = Inr b \<and> (\<forall>k f. rd_hget R b k f = rd_hget R a k f)"
proof -
  obtain a where a: "upsert_all env R as s = Inr a"
      "\<forall>k \<in> K. hash_holds env R a k (newest event_stamp (h k @ filter (\<lambda>e. event_key env e = k) as))"
      "\<forall>k f. k \<notin> K \<longrightarrow> rd_hget R a k f = rd_hget R s k f"
    using upsert_all_mixed [OF assms(1,3)] by blast
  have "\<forall>e \<in> set bs. good_event names e \<and> event_key env e \<in> K" using assms(1,2) by blast
  then obtain b where b: "upsert_all env R bs s = Inr b"
      "\<forall>k \<in> K. hash_holds env R b k (newest event_stamp (h k @ filter (\<lambda>e. event_key env e = k) bs))"
      "\<forall>k f. k \<notin> K \<longrightarrow> rd_hget R b k f = rd_hget R s k f"
    using upsert_all_mixed [OF _ assms(3)] by blast
  have "rd_hget R b k f = rd_hget R a k f" for k f
  proof (cases "k \<in> K")
    case True
    have same: "hash_holds env R a k (newest event_stamp (h k @ filter (\<lambda>e. event_key env e = k) as))"
      "hash_holds env R b k (newest event_stamp (h k @ filter (\<lambda>e. event_key env e = k) as))"
      using a(2) b(2) True assms(4) by simp_all
    then show ?thesis by (simp add: hash_holds_def holds_def split: option.splits)
  next
    case False
    then show ?thesis using a(3) b(3) by simp
  qed
  then show ?thesis using a(1) b(1) by blast
qed

end

text \<open>Leaving out events that are not newer than one that stays does not change the newest.\<close>

lemma newest_dominated:
  assumes "set bs \<subseteq> set as" "\<And>a. a \<in> set as \<Longrightarrow> \<exists>b \<in> set bs. stamp a \<le> stamp b" "inj_on stamp (set as)"
  shows "newest stamp bs = newest stamp as"
proof (cases "newest stamp bs")
  case None
  then have "bs = []" using newest.pick_None [of stamp bs] by simp
  then have "as = []" using assms(2) by (cases as) auto
  then show ?thesis using \<open>bs = []\<close> by simp
next
  case (Some x)
  note top = newest.pick_SomeD [OF Some]
  have "newest stamp as = Some x"
  proof (rule newest.pick_eqI [OF _ _ assms(3)])
    show "x \<in> set as" using top assms(1) by blast
    fix a assume "a \<in> set as"
    then obtain b where "b \<in> set bs" "stamp a \<le> stamp b" using assms(2) by blast
    then show "stamp a \<le> stamp x" using top by force
  qed
  then show ?thesis using Some by simp
qed

subsection \<open>The upserts of a job\<close>

lemma work_redis_Inr: "work_redis f w = (Inr x, w') \<longleftrightarrow> (\<exists>r. f (wk_redis w) = Inr (x, r) \<and> w' = w\<lparr>wk_redis := r\<rparr>)"
  by (auto simp: work_redis_def split: sum.splits)

lemma upsert_rows_Inr:
  assumes "upsert_rows E job token v en rs n w = (Inr m, w')"
  shows "\<exists>es. traverse (row_event v en) rs = Inr es \<and> upsert_all (we_env E) (we_redis E) es (wk_redis w) = Inr (wk_redis w') \<and>
    wk_lake w' = wk_lake w \<and> n \<le> m \<and> m \<le> n + length rs \<and>
    (fair_others E \<longrightarrow> job_ids_unique (wk_db w) \<longrightarrow> job_ids_unique (wk_db w'))"
  using assms
proof (induction rs arbitrary: n w)
  case Nil
  then show ?case by simp
next
  case (Cons r rs)
  obtain w1 e b red where own: "still_owned E job token w = (Inr (), w1)" and e: "row_event v en r = Inr e"
    and up: "upsert (we_env E) (we_redis E) e (wk_redis w1) = Inr (b, red)"
    and rest: "upsert_rows E job token v en rs (if b then Suc n else n) (w1\<lparr>wk_redis := red\<rparr>) = (Inr m, w')"
    using Cons.prems by (auto simp: then_act_Inr bind_act_Inr work_redis_Inr)
  note kept = still_owned_keeps [OF own]
  obtain es where es: "traverse (row_event v en) rs = Inr es" "upsert_all (we_env E) (we_redis E) es red = Inr (wk_redis w')"
      "wk_lake w' = wk_lake w1" "(if b then Suc n else n) \<le> m" "m \<le> (if b then Suc n else n) + length rs"
      "fair_others E \<longrightarrow> job_ids_unique (wk_db w1) \<longrightarrow> job_ids_unique (wk_db w')"
    using Cons.IH [OF rest] by auto
  show ?case
  proof (intro exI conjI)
    show "traverse (row_event v en) (r # rs) = Inr (e # es)" using e es(1) by simp
    show "upsert_all (we_env E) (we_redis E) (e # es) (wk_redis w) = Inr (wk_redis w')" using up es(2) kept(2) by simp
    show "wk_lake w' = wk_lake w" using es(3) kept(1) by simp
    show "n \<le> m" "m \<le> n + length (r # rs)" using es(4,5) by (auto split: if_splits)
    show "fair_others E \<longrightarrow> job_ids_unique (wk_db w) \<longrightarrow> job_ids_unique (wk_db w')" using es(6) kept(4) by blast
  qed
qed

subsection \<open>A successful materialization\<close>

lemma materialize_rows_Inr:
  assumes "materialize_rows E job token v en state start stop w = (Inr doc, w')"
    and "fair_others E" "job_ids_unique (wk_db w)"
  shows "\<exists>t latest es n. load_range (we_delta E) (view_uri (st_bucket (we_settings E)) (view_ref v)) ''event_timestamp'' start stop (wk_lake w) = Inr t \<and>
    latest_rows (map fst (e_join_keys en)) t = Inr latest \<and> traverse (row_event v en) latest = Inr es \<and>
    upsert_all (we_env E) (we_redis E) es (wk_redis w) = Inr (wk_redis w') \<and> n \<le> length latest \<and>
    wk_lake w' = wk_lake w \<and> stored_checkpoints job (wk_db w') = [''materialized:'' @ nat_str (length latest)] \<and>
    doc = materialize_doc E (j_payload job) start stop (case state of None \<Rightarrow> None | Some s \<Rightarrow> ms_watermark s)
      (length (tb_rows t)) (length latest) n (max_opt (prior_freshness (j_payload job) state) (scanned_freshness (tb_rows t)))"
proof -
  obtain w1 t latest n w2 where own: "still_owned E job token w = (Inr (), w1)"
    and t: "load_range (we_delta E) (view_uri (st_bucket (we_settings E)) (view_ref v)) ''event_timestamp'' start stop (wk_lake w1) = Inr t"
    and latest: "latest_rows (map fst (e_join_keys en)) t = Inr latest"
    and up: "upsert_rows E job token v en latest 0 w1 = (Inr n, w2)"
    and save: "save_checkpoints E job token [''materialized:'' @ nat_str (length latest)] w2 = (Inr (), w')"
    and doc: "doc = materialize_doc E (j_payload job) start stop (case state of None \<Rightarrow> None | Some s \<Rightarrow> ms_watermark s)
      (length (tb_rows t)) (length latest) n (max_opt (prior_freshness (j_payload job) state) (scanned_freshness (tb_rows t)))"
    using assms(1) by (auto simp: materialize_rows_def then_act_Inr bind_act_Inr read_lake_def)
  note kept = still_owned_keeps [OF own]
  obtain es where es: "traverse (row_event v en) latest = Inr es"
      "upsert_all (we_env E) (we_redis E) es (wk_redis w1) = Inr (wk_redis w2)" "wk_lake w2 = wk_lake w1" "n \<le> length latest"
      "job_ids_unique (wk_db w1) \<longrightarrow> job_ids_unique (wk_db w2)"
    using upsert_rows_Inr [OF up] assms(2) by auto
  have "job_ids_unique (wk_db w2)" using es(5) kept(4) assms(2,3) by blast
  note saved = save_checkpoints_Inr [OF save assms(2) this]
  show ?thesis
    using t latest es doc unfolding saved(3) unfolding saved(1,2) kept(1,2) es(3) by blast
qed

lemma materialize_result:
  assumes "materialize E job token w = (Inr doc, w')" "fair_others E" "job_ids_unique (wk_db w)"
  shows "\<exists>v en stop start t latest es. feature_view_of (we_registry E) (payload_view (j_payload job)) = Inr v \<and>
    entity_of (we_registry E) (v_entity v) = Inr en \<and>
    bind_result (payload_end (j_payload job)) (time_of_text (we_env E)) = Inr stop \<and>
    scan_start (we_env E) (j_payload job) (case find_state (wk_db w) (view_ref v) of None \<Rightarrow> None | Some s \<Rightarrow> ms_watermark s) = Inr start \<and>
    load_range (we_delta E) (view_uri (st_bucket (we_settings E)) (view_ref v)) ''event_timestamp'' start stop (wk_lake w) = Inr t \<and>
    latest_rows (map fst (e_join_keys en)) t = Inr latest \<and> traverse (row_event v en) latest = Inr es \<and>
    upsert_all (we_env E) (we_redis E) es (wk_redis w) = Inr (wk_redis w') \<and> wk_lake w' = wk_lake w \<and>
    stored_checkpoints job (wk_db w') = [''materialized:'' @ nat_str (length latest)] \<and>
    dict_get doc ''scanned_rows'' = VInt (int (length (tb_rows t))) \<and>
    dict_get doc ''candidate_entities'' = VInt (int (length latest)) \<and>
    (\<exists>n \<le> length latest. dict_get doc ''updated_entities'' = VInt (int n) \<and>
       dict_get doc ''skipped_entities'' = VInt (int (length latest - n)))"
proof -
  obtain v en b stop start where p: "feature_view_of (we_registry E) (payload_view (j_payload job)) = Inr v"
      "entity_of (we_registry E) (v_entity v) = Inr en" "payload_end (j_payload job) = Inr b" "time_of_text (we_env E) b = Inr stop"
      "scan_start (we_env E) (j_payload job) (case find_state (wk_db w) (view_ref v) of None \<Rightarrow> None | Some s \<Rightarrow> ms_watermark s) = Inr start"
      "materialize_rows E job token v en (find_state (wk_db w) (view_ref v)) start stop w = (Inr doc, w')"
    using assms(1) by (auto simp: materialize_def bind_act_Inr)
  obtain t latest es n where r: "load_range (we_delta E) (view_uri (st_bucket (we_settings E)) (view_ref v)) ''event_timestamp'' start stop (wk_lake w) = Inr t"
    "latest_rows (map fst (e_join_keys en)) t = Inr latest" "traverse (row_event v en) latest = Inr es"
    "upsert_all (we_env E) (we_redis E) es (wk_redis w) = Inr (wk_redis w')" "n \<le> length latest"
    "wk_lake w' = wk_lake w" "stored_checkpoints job (wk_db w') = [''materialized:'' @ nat_str (length latest)]"
    and doc: "doc = materialize_doc E (j_payload job) start stop
      (case find_state (wk_db w) (view_ref v) of None \<Rightarrow> None | Some s \<Rightarrow> ms_watermark s)
      (length (tb_rows t)) (length latest) n
      (max_opt (prior_freshness (j_payload job) (find_state (wk_db w) (view_ref v))) (scanned_freshness (tb_rows t)))"
    using materialize_rows_Inr [OF p(6) assms(2,3)] by blast
  have counts: "dict_get doc ''scanned_rows'' = VInt (int (length (tb_rows t)))"
    "dict_get doc ''candidate_entities'' = VInt (int (length latest))" "dict_get doc ''updated_entities'' = VInt (int n)"
    "dict_get doc ''skipped_entities'' = VInt (int (length latest - n))"
    using r(5) by (simp_all add: doc materialize_doc_def dict_get_def of_nat_diff)
  have "bind_result (payload_end (j_payload job)) (time_of_text (we_env E)) = Inr stop" using p(3,4) by simp
  then show ?thesis using p(1,2,5) r counts by blast
qed

text \<open>
  A materialization that succeeds has loaded the range the job names and upserted, in the order
  the engine lists them, one event for each entity in it; the result counts the rows, the entities
  and the events stored, the checkpoint names the entities, and the lake is untouched.
\<close>

theorem materialize_effect:
  assumes "materialize E job token w = (Inr doc, w')" "fair_others E" "job_ids_unique (wk_db w)"
  shows "\<exists>v en stop start t latest es. feature_view_of (we_registry E) (payload_view (j_payload job)) = Inr v \<and>
    entity_of (we_registry E) (v_entity v) = Inr en \<and>
    bind_result (payload_end (j_payload job)) (time_of_text (we_env E)) = Inr stop \<and>
    scan_start (we_env E) (j_payload job) (case find_state (wk_db w) (view_ref v) of None \<Rightarrow> None | Some s \<Rightarrow> ms_watermark s) = Inr start \<and>
    load_range (we_delta E) (view_uri (st_bucket (we_settings E)) (view_ref v)) ''event_timestamp'' start stop (wk_lake w) = Inr t \<and>
    latest_rows (map fst (e_join_keys en)) t = Inr latest \<and> traverse (row_event v en) latest = Inr es \<and>
    upsert_all (we_env E) (we_redis E) es (wk_redis w) = Inr (wk_redis w') \<and> wk_lake w' = wk_lake w \<and>
    stored_checkpoints job (wk_db w') = [''materialized:'' @ nat_str (length latest)] \<and>
    dict_get doc ''scanned_rows'' = VInt (int (length (tb_rows t))) \<and>
    dict_get doc ''candidate_entities'' = VInt (int (length latest)) \<and>
    (\<exists>n \<le> length latest. dict_get doc ''updated_entities'' = VInt (int n) \<and>
       dict_get doc ''skipped_entities'' = VInt (int (length latest - n)))"
  using assms by (rule materialize_result)

subsection \<open>As if every row had been upserted\<close>

lemma map_of_drop_date: "k \<noteq> ''event_date'' \<Longrightarrow> map_of (drop_date r) k = map_of r k"
  unfolding drop_date_def by (induction r) auto

lemma dict_get_drop_date: "k \<noteq> ''event_date'' \<Longrightarrow> dict_get (drop_date r) k = dict_get r k"
  by (simp add: dict_get_def map_of_drop_date)

lemma item_of_drop_date: "item_of (drop_date r) k = Inr x \<Longrightarrow> x = (k, dict_get r k)"
proof -
  assume x: "item_of (drop_date r) k = Inr x"
  have "map_of (drop_date r) ''event_date'' = None" by (auto simp: drop_date_def map_of_eq_None_iff)
  then have "k \<noteq> ''event_date''" using x by (auto simp: item_of_def)
  then show ?thesis using x by (auto simp: item_of_def map_of_drop_date dict_get_def split: option.splits)
qed

lemma items_of_drop_date: "traverse (item_of (drop_date r)) ks = Inr xs \<Longrightarrow> xs = map (\<lambda>k. (k, dict_get r k)) ks"
  by (induction ks arbitrary: xs) (auto dest: item_of_drop_date split: sum.splits)

lemma row_event_Inr:
  assumes "row_event v en (drop_date r) = Inr e"
  shows "event_key env e = entity_key env (view_ref v) (zip (map fst (e_join_keys en)) (entity_part (map fst (e_join_keys en)) r))"
    and "fst ` set (ev_values e) = set (map f_name (v_features v))"
    and "row_stamp r = (fst (event_stamp e), 1, snd (event_stamp e))"
proof -
  obtain entity vals where items: "traverse (item_of (drop_date r)) (map fst (e_join_keys en)) = Inr entity"
      "traverse (item_of (drop_date r)) (map f_name (v_features v)) = Inr vals"
    and made: "(case (dict_get (drop_date r) ''event_id'', dict_get (drop_date r) ''event_timestamp'') of
       (VStr i, VTime t) \<Rightarrow> mk_event i (view_ref v) entity t vals | _ \<Rightarrow> Inl (ValidationError ''StreamFeatureEvent'')) = Inr e"
    using assms unfolding row_event_def bind_result_eq_Inr by blast
  obtain i d where cells: "dict_get (drop_date r) ''event_id'' = VStr i" "dict_get (drop_date r) ''event_timestamp'' = VTime d"
    using made by (cases "dict_get (drop_date r) ''event_id''"; cases "dict_get (drop_date r) ''event_timestamp''") auto
  have "mk_event i (view_ref v) entity d vals = Inr e" using made by (simp add: cells)
  note p = items cells this
  have ev: "ev_view e = view_ref v" "ev_entity e = entity" "ev_values e = vals" "ev_id e = i" "ev_time e = d"
    using p(5) by (auto simp: mk_event_def split: if_splits)
  have cols: "dict_get r ''event_id'' = VStr i" "dict_get r ''event_timestamp'' = VTime d"
    using p(3,4) by (simp_all add: dict_get_drop_date)
  have entity: "entity = zip (map fst (e_join_keys en)) (entity_part (map fst (e_join_keys en)) r)"
    using items_of_drop_date [OF p(1)] by (simp add: entity_part_def zip_map_map zip_same_conv_map)
  show "event_key env e = entity_key env (view_ref v) (zip (map fst (e_join_keys en)) (entity_part (map fst (e_join_keys en)) r))"
    by (simp add: event_key_def ev entity)
  show "fst ` set (ev_values e) = set (map f_name (v_features v))"
    using items_of_drop_date [OF p(2)] ev by force
  show "row_stamp r = (fst (event_stamp e), 1, snd (event_stamp e))"
    by (simp add: row_stamp_def time_of_def ts_col_def cols id_rank_def event_stamp_def ev)
qed

lemma latest_rows_cover:
  assumes "latest_rows keys t = Inr latest"
  shows "set latest \<subseteq> drop_date ` set (tb_rows t)"
    and "r \<in> set (tb_rows t) \<Longrightarrow> \<exists>r' \<in> set (tb_rows t). drop_date r' \<in> set latest \<and>
      entity_part keys r' = entity_part keys r \<and> row_stamp r \<le> row_stamp r'"
proof -
  have l: "latest = map drop_date (concat (map (newest_of keys (tb_rows t)) (remdups (map (entity_part keys) (tb_rows t)))))"
    using assms by (auto simp: latest_rows_def split: if_splits)
  have in_rows: "set (newest_of keys (tb_rows t) p) \<subseteq> set (tb_rows t)" for p
  proof (cases "newest row_stamp (filter (\<lambda>r. entity_part keys r = p) (tb_rows t))")
    case (Some r')
    then show ?thesis using newest.pick_SomeD [OF Some] by (simp add: newest_of_def)
  qed (simp add: newest_of_def)
  have set_l: "set latest = drop_date ` (\<Union>p \<in> entity_part keys ` set (tb_rows t). set (newest_of keys (tb_rows t) p))"
    unfolding l by simp
  show "set latest \<subseteq> drop_date ` set (tb_rows t)" unfolding set_l using in_rows by (intro image_mono UN_least)
  assume r: "r \<in> set (tb_rows t)"
  let ?rs = "filter (\<lambda>r'. entity_part keys r' = entity_part keys r) (tb_rows t)"
  have "?rs \<noteq> []" using r by (auto simp: filter_empty_conv)
  then obtain r' where r': "newest row_stamp ?rs = Some r'" using newest.pick_in by blast
  note top = newest.pick_SomeD [OF r']
  have "r' \<in> set (newest_of keys (tb_rows t) (entity_part keys r))" by (simp add: newest_of_def r')
  then have "drop_date r' \<in> set latest" unfolding set_l using r by blast
  moreover have "r' \<in> set (tb_rows t)" "entity_part keys r' = entity_part keys r" using top by auto
  moreover have "row_stamp r \<le> row_stamp r'" using top r by auto
  ultimately show "\<exists>r' \<in> set (tb_rows t). drop_date r' \<in> set latest \<and>
      entity_part keys r' = entity_part keys r \<and> row_stamp r \<le> row_stamp r'" by blast
qed

lemma latest_events_cover:
  assumes "latest_rows (map fst (e_join_keys en)) t = Inr latest"
    and "traverse (row_event v en) latest = Inr es" "traverse (row_event v en) (map drop_date (tb_rows t)) = Inr all"
  shows "set es \<subseteq> set all"
    and "a \<in> set all \<Longrightarrow> \<exists>b \<in> set es. event_key env b = event_key env a \<and> event_stamp a \<le> event_stamp b"
proof -
  show "set es \<subseteq> set all"
  proof
    fix e assume "e \<in> set es"
    then obtain r where r: "r \<in> set latest" "row_event v en r = Inr e" using traverse_Inr_set_rev [OF assms(2)] by blast
    then have "r \<in> set (map drop_date (tb_rows t))" using latest_rows_cover(1) [OF assms(1)] by auto
    then show "e \<in> set all" using traverse_Inr_set [OF assms(3)] r(2) by fastforce
  qed
  assume "a \<in> set all"
  then obtain r where r: "r \<in> set (tb_rows t)" "row_event v en (drop_date r) = Inr a"
    using traverse_Inr_set_rev [OF assms(3)] by auto
  obtain r' where r': "drop_date r' \<in> set latest"
      "entity_part (map fst (e_join_keys en)) r' = entity_part (map fst (e_join_keys en)) r" "row_stamp r \<le> row_stamp r'"
    using latest_rows_cover(2) [OF assms(1) r(1)] by blast
  obtain b where b: "b \<in> set es" "row_event v en (drop_date r') = Inr b" using traverse_Inr_set [OF assms(2) r'(1)] by blast
  have "event_key env b = event_key env a" using row_event_Inr(1) [OF b(2)] row_event_Inr(1) [OF r(2)] r'(2) by simp
  moreover have "event_stamp a \<le> event_stamp b"
    using r'(3) unfolding row_event_Inr(3) [OF b(2)] row_event_Inr(3) [OF r(2)]
    by (cases "event_stamp a"; cases "event_stamp b") (auto simp: less_eq_prod_def less_prod_def)
  ultimately show "\<exists>b \<in> set es. event_key env b = event_key env a \<and> event_stamp a \<le> event_stamp b" using b(1) by blast
qed

text \<open>
  C25. The window query only saves work: when the time and id of an event identify it among those of
  its entity, a successful materialization leaves every hash as upserting all the scanned rows would.
\<close>

theorem materialize_as_all_rows:
  assumes "redis_laws (we_redis E)" "materialize E job token w = (Inr doc, w')" "fair_others E" "job_ids_unique (wk_db w)"
    and "feature_view_of (we_registry E) (payload_view (j_payload job)) = Inr v" "entity_of (we_registry E) (v_entity v) = Inr en"
    and "bind_result (payload_end (j_payload job)) (time_of_text (we_env E)) = Inr stop"
    and "scan_start (we_env E) (j_payload job) (case find_state (wk_db w) (view_ref v) of None \<Rightarrow> None | Some s \<Rightarrow> ms_watermark s) = Inr start"
    and "load_range (we_delta E) (view_uri (st_bucket (we_settings E)) (view_ref v)) ''event_timestamp'' start stop (wk_lake w) = Inr t"
    and "traverse (row_event v en) (map drop_date (tb_rows t)) = Inr all" "\<forall>e \<in> set all. storable e"
    and "\<forall>k \<in> event_key (we_env E) ` set all. hash_holds (we_env E) (we_redis E) (wk_redis w) k (held k) \<and>
      (\<forall>e0. held k = Some e0 \<longrightarrow> good_event (set (map f_name (v_features v))) e0) \<and>
      inj_on event_stamp (set_option (held k) \<union> {e \<in> set all. event_key (we_env E) e = k})"
  shows "\<exists>s. upsert_all (we_env E) (we_redis E) all (wk_redis w) = Inr s \<and>
    (\<forall>k f. rd_hget (we_redis E) (wk_redis w') k f = rd_hget (we_redis E) s k f)"
proof -
  let ?names = "set (map f_name (v_features v))"
  let ?K = "event_key (we_env E) ` set all"
  let ?h = "\<lambda>k. case held k of None \<Rightarrow> [] | Some e0 \<Rightarrow> [e0]"
  obtain latest es where r: "latest_rows (map fst (e_join_keys en)) t = Inr latest" "traverse (row_event v en) latest = Inr es"
      "upsert_all (we_env E) (we_redis E) es (wk_redis w) = Inr (wk_redis w')"
    using materialize_result [OF assms(2-4)] assms(5-9) by auto
  note cover = latest_events_cover [OF r(1,2) assms(10)]
  have good: "\<forall>e \<in> set all. good_event ?names e \<and> event_key (we_env E) e \<in> ?K"
  proof
    fix e assume e: "e \<in> set all"
    then obtain x where "row_event v en (drop_date x) = Inr e" using traverse_Inr_set_rev [OF assms(10)] by auto
    then have "fst ` set (ev_values e) = ?names" by (rule row_event_Inr(2))
    then show "good_event ?names e \<and> event_key (we_env E) e \<in> ?K" using e assms(11) by (simp add: good_event_def)
  qed
  have start: "\<forall>k \<in> ?K. hash_holds (we_env E) (we_redis E) (wk_redis w) k (newest event_stamp (?h k)) \<and> (\<forall>e0 \<in> set (?h k). good_event ?names e0)"
  proof
    fix k assume "k \<in> ?K"
    then have k: "hash_holds (we_env E) (we_redis E) (wk_redis w) k (held k)" "\<And>e0. held k = Some e0 \<Longrightarrow> good_event ?names e0"
      using assms(12) by blast+
    have "newest event_stamp (?h k) = held k" by (simp add: newest_def split: option.split)
    then show "hash_holds (we_env E) (we_redis E) (wk_redis w) k (newest event_stamp (?h k)) \<and> (\<forall>e0 \<in> set (?h k). good_event ?names e0)"
      using k by (simp split: option.split)
  qed
  have agree: "newest event_stamp (?h k @ filter (\<lambda>e. event_key (we_env E) e = k) es)
      = newest event_stamp (?h k @ filter (\<lambda>e. event_key (we_env E) e = k) all)" if k: "k \<in> ?K" for k
  proof (rule newest_dominated)
    show "set (?h k @ filter (\<lambda>e. event_key (we_env E) e = k) es) \<subseteq> set (?h k @ filter (\<lambda>e. event_key (we_env E) e = k) all)"
      using cover(1) by auto
    have sets: "set (?h k @ filter (\<lambda>e. event_key (we_env E) e = k) all) = set_option (held k) \<union> {e \<in> set all. event_key (we_env E) e = k}"
      by (cases "held k") simp_all
    have "inj_on event_stamp (set_option (held k) \<union> {e \<in> set all. event_key (we_env E) e = k})" using assms(12) k by blast
    then show "inj_on event_stamp (set (?h k @ filter (\<lambda>e. event_key (we_env E) e = k) all))" by (simp only: sets)
    fix a assume a: "a \<in> set (?h k @ filter (\<lambda>e. event_key (we_env E) e = k) all)"
    show "\<exists>b \<in> set (?h k @ filter (\<lambda>e. event_key (we_env E) e = k) es). event_stamp a \<le> event_stamp b"
    proof (cases "a \<in> set (?h k)")
      case True
      then show ?thesis by auto
    next
      case False
      then have "a \<in> set all" "event_key (we_env E) a = k" using a by simp_all
      then show ?thesis using cover(2) [where a = a and env = "we_env E"] by auto
    qed
  qed
  obtain a b where ab: "upsert_all (we_env E) (we_redis E) all (wk_redis w) = Inr a"
      "upsert_all (we_env E) (we_redis E) es (wk_redis w) = Inr b" "\<forall>k f. rd_hget (we_redis E) b k f = rd_hget (we_redis E) a k f"
    using redis_laws.upsert_all_agree [OF assms(1) good cover(1) start agree] by blast
  then show ?thesis using r(3) by auto
qed

subsection \<open>A concrete materialization\<close>

text \<open>Two rows of one user in the range and one before it.\<close>

definition spend_lake :: lake where
  "spend_lake = [(view_uri ''feature-store'' ''spend@1.0.0'', \<lparr>tb_cols = shop_columns @ [''event_date''],
     tb_rows = [shop_day ''c'' (day_us + 5) 30, shop_day ''b'' (day_us + 3) 20, shop_day ''a'' 5 10]\<rparr>)]"

definition fill_job :: job where
  "fill_job = (new_job ''b1'' Materialize (RangePayload ''spend@1.0.0'' ''from'' ''till'') None default_settings 0)
     \<lparr>j_status := Running, j_token := Some ''t1'', j_lease := Some 30\<rparr>"

definition fill_start :: "(hashes, lake, disk) worker" where
  "fill_start = \<lparr>wk_db = empty_db\<lparr>db_jobs := [fill_job]\<rparr>, wk_redis = [], wk_lake = spend_lake, wk_files = [], wk_ticks = 0, wk_summary = None, wk_seen = []\<rparr>"

definition spend_event :: "string \<Rightarrow> int \<Rightarrow> int \<Rightarrow> stream_event" where
  "spend_event i t n = \<lparr>ev_id = i, ev_view = ''spend@1.0.0'', ev_entity = [(''user_id'', VStr ''ada'')], ev_time = Aware t 0,
     ev_values = [(''total'', VInt n)]\<rparr>"

lemma fill_job_simps [simp]:
  "j_id fill_job = ''b1''" "j_payload fill_job = RangePayload ''spend@1.0.0'' ''from'' ''till''" "j_checkpoints fill_job = []"
  "j_status fill_job = Running" "j_token fill_job = Some ''t1''" "j_lease fill_job = Some 30"
  by (simp_all add: fill_job_def new_job_def)

lemma fill_scan:
  "load_range mem_delta (view_uri ''feature-store'' ''spend@1.0.0'') ''event_timestamp'' (Some day_us) (day_us + 10) spend_lake
     = Inr \<lparr>tb_cols = shop_columns @ [''event_date''], tb_rows = [shop_day ''c'' (day_us + 5) 30, shop_day ''b'' (day_us + 3) 20]\<rparr>"
  by (simp add: load_range_def mem_delta_def mem_load_def spend_lake_def time_of_def dict_get_def shop_day_def day_us_def)

lemma fill_latest:
  "latest_rows [''user_id''] \<lparr>tb_cols = shop_columns @ [''event_date''], tb_rows = [shop_day ''c'' (day_us + 5) 30, shop_day ''b'' (day_us + 3) 20]\<rparr>
     = Inr [shop_source ''c'' (day_us + 5) 30]"
proof -
  have part: "entity_part [''user_id''] (shop_day i t n) = [VStr ''ada'']" for i t n
    by (simp add: entity_part_def shop_day_def dict_get_def)
  have stamp: "row_stamp (shop_day i t n) = (t, 1, i)" for i t n
    by (simp add: row_stamp_def time_of_def dict_get_def shop_day_def ts_col_def id_rank_def)
  have drop: "drop_date (shop_day i t n) = shop_source i t n" for i t n
    by (simp add: drop_date_def shop_day_def shop_source_def)
  show ?thesis by (simp add: latest_rows_def shop_columns_def newest_of_def part newest_def stamp drop)
qed

lemma fill_event: "row_event shop_view shop_entity (shop_source i t n) =
    (if i = [] \<or> 256 < length i then Inl (ValidationError ''event_id must have between 1 and 256 characters'') else Inr (spend_event i t n))"
  by (simp add: row_event_def item_of_def shop_view_def shop_entity_def shop_source_def dict_get_def mk_event_def spend_event_def view_ref_def)

lemma fill_run_from:
  assumes "db_jobs (wk_db v) = [fill_job]" "wk_lake v = spend_lake" "wk_redis v = []"
  shows "\<exists>doc w'. materialize shop_worker fill_job ''t1'' v = (Inr doc, w')"
proof -
  have own: "still_owned shop_worker fill_job ''t1'' w = (Inr (), w\<lparr>wk_ticks := Suc (wk_ticks w)\<rparr>)"
    if "db_jobs (wk_db w) = [fill_job]" for w
    using that by (simp add: still_owned_def bind_act_def tick_def require_ownership_def ensure_def owns_def rowcount_def leased_def)
  have uri: "view_uri (st_bucket default_settings) (view_ref shop_view) = view_uri ''feature-store'' ''spend@1.0.0''"
    using shop_target by (simp add: backfill_target_def)
  have view: "v_entity shop_view = ''user''" "map fst (e_join_keys shop_entity) = [''user_id'']"
    by (simp_all add: shop_view_def shop_entity_def)
  obtain b red where up: "upsert span_env mem_redis (spend_event ''c'' (day_us + 5) 30) [] = Inr (b, red)"
    by (simp add: upsert_def utc_text_def upsert_script_def spend_event_def in_range_def day_us_def mem_redis_def mem_hash_def)
  show ?thesis
    using assms(1,2)
    by (simp add: materialize_def bind_lift_Inr payload_end_def scan_start_def payload_mode_def view uri materialize_rows_def
        then_act_def bind_act_def own read_lake_def fill_scan fill_latest fill_event work_redis_def up assms(3)
        save_checkpoints_def tick_def work_db_def commit_checkpoints_def owns_def rowcount_def leased_def)
qed

lemma fill_run: "\<exists>doc w'. materialize shop_worker fill_job ''t1'' fill_start = (Inr doc, w')"
  by (rule fill_run_from) (simp_all add: fill_start_def)

lemma fill_fair: "fair_others shop_worker" "job_ids_unique (wk_db fill_start)"
  by (simp_all add: fair_others_def job_ids_unique_def fill_start_def empty_db_def)

lemma fill_facts:
  "feature_view_of (we_registry shop_worker) (payload_view (j_payload fill_job)) = Inr shop_view"
  "entity_of (we_registry shop_worker) (v_entity shop_view) = Inr shop_entity"
  "bind_result (payload_end (j_payload fill_job)) (time_of_text (we_env shop_worker)) = Inr (day_us + 10)"
  "scan_start (we_env shop_worker) (j_payload fill_job) (case find_state (wk_db fill_start) (view_ref shop_view) of None \<Rightarrow> None | Some s \<Rightarrow> ms_watermark s) = Inr (Some day_us)"
  "load_range (we_delta shop_worker) (view_uri (st_bucket (we_settings shop_worker)) (view_ref shop_view)) ''event_timestamp'' (Some day_us) (day_us + 10) (wk_lake fill_start)
    = Inr \<lparr>tb_cols = shop_columns @ [''event_date''], tb_rows = [shop_day ''c'' (day_us + 5) 30, shop_day ''b'' (day_us + 3) 20]\<rparr>"
proof -
  have "view_uri (st_bucket default_settings) (view_ref shop_view) = view_uri ''feature-store'' ''spend@1.0.0''"
    using shop_target by (simp add: backfill_target_def)
  moreover have "v_entity shop_view = ''user''" by (simp add: shop_view_def)
  ultimately show
    "feature_view_of (we_registry shop_worker) (payload_view (j_payload fill_job)) = Inr shop_view"
    "entity_of (we_registry shop_worker) (v_entity shop_view) = Inr shop_entity"
    "bind_result (payload_end (j_payload fill_job)) (time_of_text (we_env shop_worker)) = Inr (day_us + 10)"
    "scan_start (we_env shop_worker) (j_payload fill_job) (case find_state (wk_db fill_start) (view_ref shop_view) of None \<Rightarrow> None | Some s \<Rightarrow> ms_watermark s) = Inr (Some day_us)"
    "load_range (we_delta shop_worker) (view_uri (st_bucket (we_settings shop_worker)) (view_ref shop_view)) ''event_timestamp'' (Some day_us) (day_us + 10) (wk_lake fill_start)
      = Inr \<lparr>tb_cols = shop_columns @ [''event_date''], tb_rows = [shop_day ''c'' (day_us + 5) 30, shop_day ''b'' (day_us + 3) 20]\<rparr>"
    by (simp_all add: payload_end_def scan_start_def payload_mode_def fill_scan fill_start_def)
qed

lemma materialize_effect_witness:
  "\<exists>doc w'. materialize shop_worker fill_job ''t1'' fill_start = (Inr doc, w') \<and>
     stored_checkpoints fill_job (wk_db w') = [''materialized:'' @ nat_str 1] \<and> dict_get doc ''scanned_rows'' = VInt 2"
proof -
  obtain doc w' where run: "materialize shop_worker fill_job ''t1'' fill_start = (Inr doc, w')" using fill_run by blast
  have keys: "map fst (e_join_keys shop_entity) = [''user_id'']" by (simp add: shop_entity_def)
  obtain v en stop start t latest where r: "feature_view_of (we_registry shop_worker) (payload_view (j_payload fill_job)) = Inr v"
    "entity_of (we_registry shop_worker) (v_entity v) = Inr en"
    "bind_result (payload_end (j_payload fill_job)) (time_of_text (we_env shop_worker)) = Inr stop"
    "scan_start (we_env shop_worker) (j_payload fill_job) (case find_state (wk_db fill_start) (view_ref v) of None \<Rightarrow> None | Some s \<Rightarrow> ms_watermark s) = Inr start"
    "load_range (we_delta shop_worker) (view_uri (st_bucket (we_settings shop_worker)) (view_ref v)) ''event_timestamp'' start stop (wk_lake fill_start) = Inr t"
    "latest_rows (map fst (e_join_keys en)) t = Inr latest"
    "stored_checkpoints fill_job (wk_db w') = [''materialized:'' @ nat_str (length latest)]"
    "dict_get doc ''scanned_rows'' = VInt (int (length (tb_rows t)))"
    using materialize_effect [OF run fill_fair] by blast
  have v: "v = shop_view" using r(1) fill_facts(1) by simp
  have en: "en = shop_entity" using r(2) fill_facts(2) by (simp add: v)
  have range: "stop = day_us + 10" "start = Some day_us" using r(3,4) fill_facts(3,4) by (simp_all add: v)
  have t: "t = \<lparr>tb_cols = shop_columns @ [''event_date''], tb_rows = [shop_day ''c'' (day_us + 5) 30, shop_day ''b'' (day_us + 3) 20]\<rparr>"
    using r(5) fill_facts(5) by (simp add: v range)
  have "latest = [shop_source ''c'' (day_us + 5) 30]" using r(6) fill_latest by (simp add: en keys t)
  then show ?thesis using run r(7,8) by (simp add: t)
qed

lemma materialize_as_all_rows_witness:
  "\<exists>doc w' s. materialize shop_worker fill_job ''t1'' fill_start = (Inr doc, w') \<and>
     upsert_all span_env mem_redis [spend_event ''c'' (day_us + 5) 30, spend_event ''b'' (day_us + 3) 20] [] = Inr s \<and>
     rd_hget mem_redis (wk_redis w') (entity_key span_env ''spend@1.0.0'' [(''user_id'', VStr ''ada'')]) ''total''
       = rd_hget mem_redis s (entity_key span_env ''spend@1.0.0'' [(''user_id'', VStr ''ada'')]) ''total''"
proof -
  let ?all = "[spend_event ''c'' (day_us + 5) 30, spend_event ''b'' (day_us + 3) 20]"
  obtain doc w' where run: "materialize shop_worker fill_job ''t1'' fill_start = (Inr doc, w')" using fill_run by blast
  have drop: "drop_date (shop_day i t n) = shop_source i t n" for i t n
    by (simp add: drop_date_def shop_day_def shop_source_def)
  have all: "traverse (row_event shop_view shop_entity) (map drop_date [shop_day ''c'' (day_us + 5) 30, shop_day ''b'' (day_us + 3) 20]) = Inr ?all"
    by (simp add: drop fill_event)
  have st: "\<forall>e \<in> set ?all. storable e"
    by (simp add: storable_def spend_event_def in_range_def day_us_def ts_field_def id_field_def)
  have stamps: "inj_on event_stamp (set ?all)" by (simp add: event_stamp_def spend_event_def)
  have held: "\<forall>k \<in> event_key span_env ` set ?all. hash_holds span_env mem_redis (wk_redis fill_start) k None \<and>
      (\<forall>e0. None = Some e0 \<longrightarrow> good_event (set (map f_name (v_features shop_view))) e0) \<and>
      inj_on event_stamp (set_option None \<union> {e \<in> set ?all. event_key span_env e = k})"
    using stamps by (auto simp: hash_holds_def mem_redis_def mem_hash_def fill_start_def intro: inj_on_subset)
  have "redis_laws (we_redis shop_worker)" using mem.redis_laws_axioms by simp
  from materialize_as_all_rows [OF this run fill_fair fill_facts, where all = ?all and held = "\<lambda>_. None"] all st held
  obtain s where s: "upsert_all span_env mem_redis ?all (wk_redis fill_start) = Inr s"
      "\<forall>k f. rd_hget mem_redis (wk_redis w') k f = rd_hget mem_redis s k f"
    by auto
  have "wk_redis fill_start = []" by (simp add: fill_start_def)
  then show ?thesis using run s by auto
qed

end
