(* ===== verification/ExecutionLaws.thy ===== *)
theory ExecutionLaws
  imports Execution MaterializationLaws Ledger
begin

section \<open>Every attempt is settled\<close>

text \<open>
  While a worker keeps its lease, executing a job ends with the job settled, whatever its body does
  (\<open>execute_settles\<close>); a historical query answers the request as it was submitted
  (\<open>stored_answer\<close>). The bodies of all four kinds of job change the database only through
  checkpoints, so a property of the database that checkpoints and the other sessions keep holds
  throughout: \<open>run_job_stable\<close>, by the rules \<open>same_rules\<close>.
\<close>

named_theorems same_rules \<open>rules of triples whose assertions are one property of the database\<close>

type_synonym db_prop = "database \<Rightarrow> bool"

definition same :: "db_prop \<Rightarrow> ('a, 's, 'd, 'f) work \<Rightarrow> bool" where
  "same Q m \<longleftrightarrow> triple (\<lambda>w. Q (wk_db w)) m (\<lambda>_ w. Q (wk_db w)) (\<lambda>w. Q (wk_db w))"

lemma same_simple [same_rules]:
  "same Q (ret x)" "same Q (lift_act r)" "same Q (read_act f)" "same Q (read_lake g)" "same Q (work_lake h)"
  "same Q (work_redis k)" "same Q (work_files m)" "same Q (reject_chunk q nx)"
  by (auto simp: same_def triple_def read_lake_def work_lake_def work_redis_def work_files_def reject_chunk_def
      split: sum.splits prod.splits)

lemma same_bind [same_rules]: "same Q m \<Longrightarrow> (\<And>x. same Q (f x)) \<Longrightarrow> same Q (bind_act m f)"
  unfolding same_def by (rule triple_bind)

lemma same_then [same_rules]: "same Q m \<Longrightarrow> same Q n \<Longrightarrow> same Q (then_act m n)"
  unfolding then_act_def by (rule same_bind)

lemma same_if [same_rules]: "same Q m \<Longrightarrow> same Q n \<Longrightarrow> same Q (if c then m else n)"
  by simp

lemma same_option [same_rules]: "same Q m \<Longrightarrow> (\<And>x. same Q (f x)) \<Longrightarrow> same Q (case x of None \<Rightarrow> m | Some y \<Rightarrow> f y)"
  by (simp split: option.split)

lemma same_pair [same_rules]: "(\<And>x y. same Q (f x y)) \<Longrightarrow> same Q (case p of (x, y) \<Rightarrow> f x y)"
  by (simp split: prod.split)

lemma same_let [same_rules]: "(\<And>x. same Q (f x)) \<Longrightarrow> same Q (let x = y in f x)"
  by simp

definition stable :: "('s, 'd, 'f) worker_env \<Rightarrow> job \<Rightarrow> string \<Rightarrow> db_prop \<Rightarrow> bool" where
  "stable E job token Q \<longleftrightarrow> (\<forall>n db. Q db \<longrightarrow> Q (we_others E n db)) \<and>
     (\<forall>now cps db db'. Q db \<longrightarrow> commit_checkpoints (j_id job) token now cps db = Inr db' \<longrightarrow> Q db')"

lemma same_tick [same_rules]: "stable E job token Q \<Longrightarrow> same Q (tick E)"
  by (simp add: same_def triple_def tick_def stable_def)

lemma same_owned: "stable E job token Q \<Longrightarrow> same Q (still_owned E job token)"
  unfolding still_owned_def by (intro same_bind same_tick) (simp_all add: same_def triple_def split: sum.split)

lemma same_save:
  assumes st: "stable E job token Q"
  shows "same Q (save_checkpoints E job token cps)"
proof -
  have others: "Q db \<Longrightarrow> Q (we_others E n db)" for n db using st by (simp add: stable_def)
  have commit: "Q db \<Longrightarrow> commit_checkpoints (j_id job) token now cps db = Inr db' \<Longrightarrow> Q db'" for now cps db db'
    using st unfolding stable_def by blast
  show ?thesis
    by (auto simp: same_def triple_def save_checkpoints_def bind_act_def then_act_def tick_def work_db_def change_def
        split: sum.splits intro: others commit [OF others])
qed

lemma same_run_chunk:
  assumes "stable E job token Q"
  shows "same Q (run_chunk E job token v src en s e summary)"
  unfolding run_chunk_def store_chunk_def by (intro same_rules same_owned [OF assms] same_save [OF assms])

lemma same_run_chunks:
  assumes "stable E job token Q"
  shows "same Q (run_chunks E job token v src en cs summary)"
proof (induction cs arbitrary: summary)
  case Nil
  show ?case unfolding run_chunks.simps by (rule same_rules)
next
  case (Cons c cs)
  obtain s ce where c: "c = (s, ce)" by (cases c)
  show ?case unfolding c run_chunks.simps
    by (intro same_rules same_owned [OF assms] same_run_chunk [OF assms] Cons.IH)
qed

lemma same_upsert_rows:
  assumes "stable E job token Q"
  shows "same Q (upsert_rows E job token v en rs n)"
proof (induction rs arbitrary: n)
  case Nil
  show ?case unfolding upsert_rows.simps by (rule same_rules)
next
  case (Cons r rs)
  show ?case unfolding upsert_rows.simps by (intro same_rules same_owned [OF assms] Cons.IH)
qed

lemma run_job_stable:
  assumes "stable E job token Q"
  shows "same Q (run_job E job token)"
proof -
  note rules = same_rules same_owned [OF assms] same_save [OF assms] same_run_chunks [OF assms] same_upsert_rows [OF assms]
  have "same Q (backfill E job token)" unfolding backfill_def by (intro rules)
  moreover have "same Q (materialize E job token)" unfolding materialize_def materialize_rows_def by (intro rules)
  moreover have "same Q (append_job E job token)"
    unfolding append_job_def append_rows_of_def by (cases "j_payload job") (auto intro!: rules)
  moreover have "same Q (query_job E job token)" unfolding query_job_def by (intro rules)
  ultimately show ?thesis unfolding run_job_def by (cases "j_kind job") (auto intro!: same_rules)
qed

subsection \<open>A lease that lasts\<close>

text \<open>
  The job is running under the token at every instant the worker will read, and an incremental job
  has the reservation of its view. The other sessions keep this when they claim, cancel and finish
  as the queue does and the heartbeat arrives in time.
\<close>

definition lease_lasts :: "('s, 'd, 'f) worker_env \<Rightarrow> job \<Rightarrow> string \<Rightarrow> db_prop" where
  "lease_lasts E job token db \<longleftrightarrow> job_ids_unique db \<and>
     (\<exists>r \<in> set (db_jobs db). \<forall>n. leased (j_id job) token (we_now E n) r) \<and>
     (is_incremental job \<longrightarrow> (\<exists>s \<in> set (db_states db). ms_view s = payload_view (j_payload job) \<and> ms_active s = Some (j_id job)))"

definition undisturbed :: "('s, 'd, 'f) worker_env \<Rightarrow> job \<Rightarrow> string \<Rightarrow> bool" where
  "undisturbed E job token \<longleftrightarrow> (\<forall>n db. lease_lasts E job token db \<longrightarrow> lease_lasts E job token (we_others E n db))"

lemma leased_checkpoints: "leased i token now (j\<lparr>j_checkpoints := cps\<rparr>) = leased i token now j"
  by (simp add: leased_def)

lemma lease_lasts_stable:
  assumes "undisturbed E job token"
  shows "stable E job token (lease_lasts E job token)"
proof -
  have "lease_lasts E job token db'"
    if db: "lease_lasts E job token db" and c: "commit_checkpoints (j_id job) token now cps db = Inr db'" for now cps db db'
  proof -
    have db': "db' = update_jobs (leased (j_id job) token now) (\<lambda>j. j\<lparr>j_checkpoints := cps\<rparr>) db"
      using c by (auto simp: commit_checkpoints_def split: if_splits)
    obtain r where r: "r \<in> set (db_jobs db)" "\<forall>n. leased (j_id job) token (we_now E n) r"
      using db by (auto simp: lease_lasts_def)
    let ?r = "if leased (j_id job) token now r then r\<lparr>j_checkpoints := cps\<rparr> else r"
    have "?r \<in> set (db_jobs db')" using r(1) by (auto simp: db' set_sql_update)
    moreover have "\<forall>n. leased (j_id job) token (we_now E n) ?r" using r(2) by (simp add: leased_checkpoints)
    ultimately show ?thesis using db by (auto simp: lease_lasts_def db' ids_update simp del: update_jobs_simps(1))
  qed
  then show ?thesis using assms by (auto simp: stable_def undisturbed_def)
qed

lemma find_updated:
  assumes "job_ids_unique db" "r \<in> set (db_jobs db)" "P r" "fixed_fields f"
  shows "find_job (update_jobs P f db) (j_id r) = Some (f r)"
proof -
  have "f r \<in> set (db_jobs (update_jobs P f db))" using assms(2,3) by (auto simp: set_sql_update)
  moreover have "job_ids_unique (update_jobs P f db)" using assms(1,4) by (simp add: ids_update)
  ultimately show ?thesis using fixed_fieldsD [OF assms(4), of r] by (simp add: find_job_row)
qed

lemma find_job_of_jobs: "db_jobs a = db_jobs b \<Longrightarrow> find_job a i = find_job b i"
  by (simp add: find_job_def)

text \<open>The two reports on a lease that lasts.\<close>

lemma failure_settles:
  assumes "lease_lasts E job token db"
  shows "\<exists>r. find_job (finalize_failure st (we_now E n) token job e trace meta db) (j_id job) = Some (failed st (we_now E n) job e trace meta r)"
proof -
  obtain r where r: "r \<in> set (db_jobs db)" "leased (j_id job) token (we_now E n) r" and u: "job_ids_unique db"
    using assms by (auto simp: lease_lasts_def)
  have own: "owns (j_id job) token (we_now E n) db" using r by (auto simp: owns_def rowcount_def filter_empty_conv)
  have "find_job (update_jobs (leased (j_id job) token (we_now E n)) (failed st (we_now E n) job e trace meta) db) (j_id r)
      = Some (failed st (we_now E n) job e trace meta r)" by (rule find_updated [OF u r(1)]) (simp_all add: r(2))
  moreover have "j_id r = j_id job" using r(2) by (simp add: leased_def)
  ultimately show ?thesis using own by (auto simp: finalize_failure_def Let_def find_job_def)
qed

lemma success_settles:
  assumes "lease_lasts E job token db"
  shows "(\<exists>db' r. finalize_success env st (we_now E n) token job uri meta db = Inr db' \<and>
      find_job db' (j_id job) = Some (succeeded st (we_now E n) job uri meta r)) \<or>
    (is_incremental job \<and> (\<exists>e. finalize_success env st (we_now E n) token job uri meta db = Inl e \<and> (\<forall>m. e \<noteq> LeaseLostError m)))"
proof -
  obtain r where r: "r \<in> set (db_jobs db)" "leased (j_id job) token (we_now E n) r" and u: "job_ids_unique db"
    using assms by (auto simp: lease_lasts_def)
  have own: "owns (j_id job) token (we_now E n) db" using r by (auto simp: owns_def rowcount_def filter_empty_conv)
  let ?db1 = "update_jobs (leased (j_id job) token (we_now E n)) (succeeded st (we_now E n) job uri meta) db"
  have "find_job ?db1 (j_id r) = Some (succeeded st (we_now E n) job uri meta r)"
    by (rule find_updated [OF u r(1)]) (simp_all add: r(2))
  then have one: "find_job ?db1 (j_id job) = Some (succeeded st (we_now E n) job uri meta r)"
    using r(2) by (simp add: leased_def)
  show ?thesis
  proof (cases "is_incremental job")
    case False
    then show ?thesis using own one by (auto simp: finalize_success_def Let_def mark_applied_def find_job_def)
  next
    case True
    then obtain view e lb where p: "j_payload job = IncrementalPayload view e lb" and k: "j_kind job = Materialize"
      by (cases "j_payload job") (auto simp: is_incremental_def)
    have res: "\<exists>s \<in> set (db_states db). ms_view s = view \<and> ms_active s = Some (j_id job)"
      using assms True p by (auto simp: lease_lasts_def)
    have count: "rowcount (\<lambda>s. ms_view s = view \<and> ms_active s = Some (j_id job)) (db_states ?db1) \<noteq> 0"
      using res by (simp add: rowcount_def filter_empty_conv)
    show ?thesis
    proof (cases "metadata_freshness env meta")
      case (Inl x)
      then have "\<forall>m. x \<noteq> LeaseLostError m"
        by (auto simp: metadata_freshness_def time_of_text_def bind_result_eq_Inl split: option.splits pyval.splits if_splits)
      then show ?thesis using own True p k Inl by (auto simp: finalize_success_def Let_def advance_watermark_def)
    next
      case fresh: (Inr fresh)
      show ?thesis
      proof (cases "time_of_text env e")
        case (Inl x)
        then have "\<forall>m. x \<noteq> LeaseLostError m" by (auto simp: time_of_text_def split: option.splits)
        then show ?thesis using own True p k Inl fresh by (auto simp: finalize_success_def Let_def advance_watermark_def)
      next
        case (Inr x)
        then have "\<exists>db'. finalize_success env st (we_now E n) token job uri meta db = Inr db' \<and> db_jobs db' = db_jobs ?db1"
          using own True p k fresh count by (simp add: finalize_success_def Let_def advance_watermark_def)
        then obtain db' where db': "finalize_success env st (we_now E n) token job uri meta db = Inr db'" "db_jobs db' = db_jobs ?db1"
          by blast
        have "find_job db' (j_id job) = Some (succeeded st (we_now E n) job uri meta r)"
          unfolding find_job_of_jobs [OF db'(2)] by (rule one)
        then show ?thesis using db'(1) by blast
      qed
    qed
  qed
qed

subsection \<open>Every attempt is settled\<close>

text \<open>The worker when the body of the job starts.\<close>

definition attempt_start :: "('s, 'd, 'f) worker_env \<Rightarrow> job \<Rightarrow> ('s, 'd, 'f) worker \<Rightarrow> ('s, 'd, 'f) worker" where
  "attempt_start E job w =
     w\<lparr>wk_ticks := Suc (wk_ticks w), wk_db := we_others E (wk_ticks w) (wk_db w), wk_summary := None, wk_seen := j_checkpoints job\<rparr>"

lemma lasts_owned: "lease_lasts E job token db \<Longrightarrow> owns (j_id job) token (we_now E n) db"
  by (auto simp: lease_lasts_def owns_def rowcount_def filter_empty_conv)

lemma execute_start:
  assumes "j_token job = Some token" "token \<noteq> []" "lease_lasts E job token (wk_db w)" "undisturbed E job token"
  shows "execute E job w = run_attempt E job token (attempt_start E job w)"
proof -
  have "lease_lasts E job token (we_others E (wk_ticks w) (wk_db w))" using assms(3,4) by (auto simp: undisturbed_def)
  then have own: "owns (j_id job) token (we_now E (wk_ticks w)) (we_others E (wk_ticks w) (wk_db w))" by (rule lasts_owned)
  show ?thesis
    using assms(1,2) own by (simp add: execute_def owns_now_def bind_act_def then_act_def tick_def attempt_start_def)
qed

lemma failed_status:
  "j_status (failed st now seen e trace meta r) \<in> {Failed, Exhausted, Retrying}" "j_token (failed st now seen e trace meta r) = None"
  "j_error (failed st now seen e trace meta r) = Some trace"
  "is_terminal_failure e \<Longrightarrow> j_status (failed st now seen e trace meta r) = Failed"
  by (auto simp: failed_def failure_outcome_def no_lease_def)

lemma succeeded_status:
  "j_status (succeeded st now seen uri meta r) = Succeeded" "j_token (succeeded st now seen uri meta r) = None"
  "j_result (succeeded st now seen uri meta r) = uri" "j_metadata (succeeded st now seen uri meta r) = meta"
  by (simp_all add: succeeded_def no_lease_def)

lemma settle_error_failed:
  assumes "lease_lasts E job token (wk_db w)" "undisturbed E job token" "\<forall>m. e \<noteq> LeaseLostError m"
  shows "\<exists>w' now r. settle_error E job token e w = (Inr (), w') \<and>
    find_job (wk_db w') (j_id job) = Some (failed (we_settings E) now job e (we_trace E e) (wk_summary w) r)"
proof -
  have "lease_lasts E job token (we_others E (wk_ticks w) (wk_db w))" using assms(1,2) by (auto simp: undisturbed_def)
  then obtain r where "find_job (finalize_failure (we_settings E) (we_now E (wk_ticks w)) token job e (we_trace E e) (wk_summary w)
      (we_others E (wk_ticks w) (wk_db w))) (j_id job) = Some (failed (we_settings E) (we_now E (wk_ticks w)) job e (we_trace E e) (wk_summary w) r)"
    using failure_settles by blast
  moreover have "settle_error E job token e = bind_act (tick E) (\<lambda>now.
      change (\<lambda>w. w\<lparr>wk_db := finalize_failure (we_settings E) now token job e (we_trace E e) (wk_summary w) (wk_db w)\<rparr>))"
    using assms(3) by (simp add: settle_error_def split: py_error.split)
  ultimately show ?thesis by (auto simp: bind_act_def tick_def)
qed

lemma quiet_cleanup:
  "wk_db (snd (discard_result E a w)) = wk_db w" "fst (discard_result E a w) = Inr ()"
  "wk_db (snd (delete_staging E a w)) = wk_db w" "fst (delete_staging E a w) = Inr ()"
  by (auto simp: discard_result_def delete_staging_def then_act_def bind_act_def try_act_def work_files_def
      split: option.splits prod.splits)

lemma finish_attempt_settles:
  assumes "lease_lasts E job token (wk_db w)" "undisturbed E job token"
  shows "\<exists>w' now r. finish_attempt E job token a w = (Inr (), w') \<and>
    (find_job (wk_db w') (j_id job) = Some (succeeded (we_settings E) now job (at_result a) (at_meta a) r) \<or>
     (is_incremental job \<and> (\<exists>e. find_job (wk_db w') (j_id job) = Some (failed (we_settings E) now job e (we_trace E e) (wk_summary w) r))))"
proof -
  let ?db = "we_others E (wk_ticks w) (wk_db w)"
  let ?w = "w\<lparr>wk_ticks := Suc (wk_ticks w), wk_db := ?db\<rparr>"
  have last: "lease_lasts E job token ?db" using assms by (auto simp: undisturbed_def)
  consider (ok) db' r where "finalize_success (we_env E) (we_settings E) (we_now E (wk_ticks w)) token job (at_result a) (at_meta a) ?db = Inr db'"
      "find_job db' (j_id job) = Some (succeeded (we_settings E) (we_now E (wk_ticks w)) job (at_result a) (at_meta a) r)"
    | (bad) e where "is_incremental job"
      "finalize_success (we_env E) (we_settings E) (we_now E (wk_ticks w)) token job (at_result a) (at_meta a) ?db = Inl e"
      "\<forall>m. e \<noteq> LeaseLostError m"
    using success_settles [OF last] by blast
  then show ?thesis
  proof cases
    case ok
    then have c: "try_act (complete E job token a) w = (Inr (Inr ()), w\<lparr>wk_ticks := Suc (wk_ticks w), wk_db := db'\<rparr>)"
      by (simp add: try_act_def complete_def bind_act_def tick_def work_db_def)
    obtain w' where w': "delete_staging E a (w\<lparr>wk_ticks := Suc (wk_ticks w), wk_db := db'\<rparr>) = (Inr (), w')" "wk_db w' = db'"
      using quiet_cleanup(3,4) [of E a "w\<lparr>wk_ticks := Suc (wk_ticks w), wk_db := db'\<rparr>"] by (cases "delete_staging E a (w\<lparr>wk_ticks := Suc (wk_ticks w), wk_db := db'\<rparr>)") auto
    then show ?thesis using ok c by (auto simp: finish_attempt_def bind_act_def)
  next
    case bad
    then have c: "try_act (complete E job token a) w = (Inr (Inl e), ?w)"
      by (simp add: try_act_def complete_def bind_act_def tick_def work_db_def)
    have "lease_lasts E job token (wk_db ?w)" using last by simp
    from settle_error_failed [OF this assms(2) bad(3)] obtain w1 now r where w1: "settle_error E job token e ?w = (Inr (), w1)"
      "find_job (wk_db w1) (j_id job) = Some (failed (we_settings E) now job e (we_trace E e) (wk_summary w) r)"
      by auto
    obtain w' where w': "discard_result E a w1 = (Inr (), w')" "wk_db w' = wk_db w1"
      using quiet_cleanup(1,2) [of E a w1] by (cases "discard_result E a w1") auto
    then show ?thesis using bad(1) c w1 by (auto simp: finish_attempt_def bind_act_def then_act_def)
  qed
qed

text \<open>
  C26. While the lease lasts, every attempt is settled: after \<open>execute\<close> the job has left the running
  state and its lease, as succeeded with the location and metadata its body returned, or as failed,
  exhausted or waiting for a retry with the traceback of the exception its body raised; terminal
  exceptions fail it for good. \<open>lease_lasts\<close> asks that the lease held at the start outlasts every clock
  reading of the attempt, renewed or not. (A body that reports a lost lease leaves the job to its
  owner. An incremental job whose stored times cannot be read fails after its body, so for these a
  body that succeeds only gives the set of states.)
\<close>

theorem execute_settles:
  assumes "j_token job = Some token" "token \<noteq> []" "lease_lasts E job token (wk_db w)" "undisturbed E job token"
    and "\<forall>m. fst (run_job E job token (attempt_start E job w)) \<noteq> Inl (LeaseLostError m)"
  shows "\<exists>w' j. execute E job w = (Inr (), w') \<and> find_job (wk_db w') (j_id job) = Some j \<and> j_token j = None \<and>
    j_status j \<in> {Succeeded, Failed, Exhausted, Retrying} \<and>
    (case fst (run_job E job token (attempt_start E job w)) of
       Inl e \<Rightarrow> j_status j \<noteq> Succeeded \<and> j_error j = Some (we_trace E e) \<and> (is_terminal_failure e \<longrightarrow> j_status j = Failed)
     | Inr a \<Rightarrow> is_incremental job \<or> (j_status j = Succeeded \<and> j_result j = at_result a \<and> j_metadata j = at_meta a))"
proof -
  let ?w = "attempt_start E job w"
  have last: "lease_lasts E job token (wk_db ?w)" using assms(3,4) by (auto simp: attempt_start_def undisturbed_def)
  have run: "execute E job w = run_attempt E job token ?w" by (rule execute_start [OF assms(1-4)])
  obtain r w1 where r: "run_job E job token ?w = (r, w1)" by (cases "run_job E job token ?w")
  have last1: "lease_lasts E job token (wk_db w1)"
    by (rule triple_end [where m = "run_job E job token" and P = "\<lambda>w. lease_lasts E job token (wk_db w)"])
      (use run_job_stable [OF lease_lasts_stable [OF assms(4)]] last r in \<open>simp_all add: same_def\<close>)
  show ?thesis
  proof (cases r)
    case (Inl e)
    then have "\<forall>m. e \<noteq> LeaseLostError m" using assms(5) r by simp
    from settle_error_failed [OF last1 assms(4) this] obtain w' now j where w': "settle_error E job token e w1 = (Inr (), w')"
      "find_job (wk_db w') (j_id job) = Some (failed (we_settings E) now job e (we_trace E e) (wk_summary w1) j)" by blast
    have ex: "execute E job w = (Inr (), w')" using run r Inl w'(1) by (simp add: run_attempt_def bind_act_def try_act_def)
    show ?thesis using w'(2) ex r Inl failed_status [where st = "we_settings E" and now = now and seen = job and e = e and trace = "we_trace E e" and meta = "wk_summary w1" and r = j] by auto
  next
    case (Inr a)
    from finish_attempt_settles [OF last1 assms(4), of a] obtain w' now j where w': "finish_attempt E job token a w1 = (Inr (), w')"
      "find_job (wk_db w') (j_id job) = Some (succeeded (we_settings E) now job (at_result a) (at_meta a) j) \<or>
       (is_incremental job \<and> (\<exists>e. find_job (wk_db w') (j_id job) = Some (failed (we_settings E) now job e (we_trace E e) (wk_summary w1) j)))"
      by blast
    have ex: "execute E job w = (Inr (), w')" using run r Inr w'(1) by (simp add: run_attempt_def bind_act_def try_act_def)
    from w'(2) show ?thesis
    proof (elim disjE conjE exE)
      assume "find_job (wk_db w') (j_id job) = Some (succeeded (we_settings E) now job (at_result a) (at_meta a) j)"
      then show ?thesis using ex r Inr by (simp add: succeeded_status)
    next
      fix e assume "is_incremental job"
        "find_job (wk_db w') (j_id job) = Some (failed (we_settings E) now job e (we_trace E e) (wk_summary w1) j)"
      then show ?thesis
        using ex r Inr failed_status [where st = "we_settings E" and now = now and seen = job and e = e and trace = "we_trace E e" and meta = "wk_summary w1" and r = j] by auto
    qed
  qed
qed

subsection \<open>A query is answered as it was submitted\<close>

text \<open>
  A request as the API accepts it: its timestamps read back from what pydantic dumps, and its
  entity values are JSON values.
\<close>

definition query_ok :: "pyenv \<Rightarrow> historical_query \<Rightarrow> bool" where
  "query_ok env q \<longleftrightarrow> one_selector (hq_features q) (hq_service q) = Inr () \<and>
     (\<forall>ob \<in> set (hq_observations q). has_tz (ob_time ob) \<and>
        env_parse_time env (VStr (env_dump_time env (ob_time ob))) = Some (ob_time ob) \<and>
        jsonable (VDict (ob_entity ob)) \<and> keys_ok (VDict (ob_entity ob)))"

lemma parse_observation_doc:
  assumes "has_tz (ob_time ob)" "env_parse_time env (VStr (env_dump_time env (ob_time ob))) = Some (ob_time ob)"
    and "jsonable (VDict (ob_entity ob))"
  shows "parse_observation env (observation_doc env ob) = Inr ob"
proof -
  have "json_mode env (VDict (ob_entity ob)) = VDict (ob_entity ob)" by (rule json_mode_id [OF assms(3)])
  then show ?thesis using assms(1,2)
    by (simp add: parse_observation_def observation_doc_def dict_get_def mk_observation_def del: json_mode.simps)
qed

lemma traverse_parse_text: "traverse parse_text (map VStr xs) = Inr xs"
  by (induction xs) (simp_all add: parse_text_def)

lemma parse_query_doc:
  assumes "query_ok env q"
  shows "parse_query env (query_doc env q) = Inr q"
proof -
  have "traverse (parse_observation env) (map (observation_doc env) obs) = Inr obs"
    if "set obs \<subseteq> set (hq_observations q)" for obs
    using that
  proof (induction obs)
    case (Cons ob obs)
    have mem: "ob \<in> set (hq_observations q)" using Cons.prems by simp
    have "has_tz (ob_time ob) \<and> env_parse_time env (VStr (env_dump_time env (ob_time ob))) = Some (ob_time ob) \<and> jsonable (VDict (ob_entity ob))"
      using assms mem unfolding query_ok_def by blast
    then have "parse_observation env (observation_doc env ob) = Inr ob" using parse_observation_doc by blast
    then show ?case using Cons by simp
  qed simp
  moreover have "parse_service (Some (case hq_service q of None \<Rightarrow> VNone | Some s \<Rightarrow> VStr s)) = Inr (hq_service q)"
    by (simp add: parse_service_def split: option.split)
  ultimately show ?thesis
    using assms by (simp add: parse_query_def query_doc_def parse_features_def traverse_parse_text mk_historical_query_def query_ok_def)
qed

lemma observation_doc_json: "keys_ok (VDict (ob_entity ob)) \<Longrightarrow> jsonable (observation_doc env ob) \<and> keys_ok (observation_doc env ob)"
  using keys_json_mode [of "VDict (ob_entity ob)" env] jsonable_json_mode [of env "VDict (ob_entity ob)"]
  by (simp add: observation_doc_def del: json_mode.simps)

lemma query_doc_loads:
  assumes "query_ok env q" "float_reads_ok env"
  shows "json_loads env (render env compact_opts (query_doc env q)) = Inr (query_doc env q)"
proof (rule json_loads_dumps [OF assms(2)])
  have obs: "jsonable (observation_doc env ob) \<and> keys_ok (observation_doc env ob)" if "ob \<in> set (hq_observations q)" for ob
    using assms(1) that by (intro observation_doc_json) (simp add: query_ok_def)
  show "jsonable (query_doc env q)" "keys_ok (query_doc env q)"
    using obs by (auto simp: query_doc_def split: option.split)
qed simp

lemma work_files_Inr: "work_files m w = (Inr x, w') \<longleftrightarrow> (\<exists>f. m (wk_files w) = (Inr x, f) \<and> w' = w\<lparr>wk_files := f\<rparr>)"
  by (auto simp: work_files_def split: prod.splits)

lemma still_owned_files: "still_owned E job token w = (r, w') \<Longrightarrow> wk_files w' = wk_files w"
  by (auto simp: still_owned_def bind_act_def tick_def)

context file_laws
begin

lemma write_json_get:
  assumes "write_json env F resolve uri v s = (Inr (), s')"
  shows "fi_get F (path_of resolve uri) s' = Some (TextBlob (render env compact_opts v))"
proof -
  obtain s1 where "fi_write F (path_of resolve uri) (TextBlob (render env compact_opts v)) s1 = (Inr (), s')"
    using assms by (auto simp: write_json_def then_act_Inr)
  then show ?thesis using write_get [where q = "path_of resolve uri"] by simp
qed

lemma write_parquet_get:
  assumes "write_parquet F resolve uri t s = (Inr n, s')"
  shows "fi_get F p s' = (if p = path_of resolve uri then Some (ParquetBlob t) else fi_get F p s)"
proof -
  obtain s1 s2 where s: "fi_mkdir F (parent_path (path_of resolve uri)) s = (Inr (), s1)"
      "fi_write F (path_of resolve uri) (ParquetBlob t) s1 = (Inr (), s2)" "s' = s2"
    using assms
    by (auto simp: write_parquet_def Let_def then_act_Inr catch_act_def then_act_def bind_act_def split: prod.splits sum.splits)
  show ?thesis using mkdir_get [OF s(1)] write_get [OF s(2)] s(3) by auto
qed

end

lemma submit_query_Inr:
  assumes "file_laws (we_files E)" "submit_query E i now q refs ws w = (Inr j, w')"
  shows "j_artifact j = Some (input_uri (work_root E) i) \<and> j_payload j = QueryPayload (int (length (hq_observations q))) refs ws \<and>
    fi_get (we_files E) (path_of (we_path E) (input_uri (work_root E) i)) (wk_files w') = Some (TextBlob (render (we_env E) compact_opts (query_doc (we_env E) q)))"
proof -
  obtain f where f: "write_json (we_env E) (we_files E) (we_path E) (input_uri (work_root E) i) (query_doc (we_env E) q) (wk_files w) = (Inr (), f)"
    and r: "create_query_job (we_settings E) i now (input_uri (work_root E) i) (int (length (hq_observations q))) refs ws (wk_db w) = Inr (j, wk_db w')"
    and w': "wk_files w' = f"
    using assms(2)
    by (auto simp: submit_query_def Let_def then_act_Inr work_files_Inr catch_act_def then_act_def bind_act_def
        split: prod.splits sum.splits)
  have "j_artifact j = Some (input_uri (work_root E) i)" "j_payload j = QueryPayload (int (length (hq_observations q))) refs ws"
    using r by (auto simp: create_query_job_def new_job_def Let_def bind_result_eq_Inr)
  then show ?thesis using file_laws.write_json_get [OF assms(1) f] w' by simp
qed

lemma input_uri_nonempty: "input_uri base i \<noteq> []"
  by (simp add: input_uri_def)

text \<open>
  A historical query is answered as it was submitted: a worker that finds the stored request
  unchanged writes, at the location it reports, the answer of the point-in-time join to exactly the
  submitted observations and references, and no other file changes.
\<close>

lemma stored_answer:
  assumes "file_laws (we_files E)" "float_reads_ok (we_env E)" "query_ok (we_env E) q"
    and "submit_query E i now q refs ws w0 = (Inr j, w1)"
    and "j_artifact job = j_artifact j" "j_payload job = j_payload j"
    and "fi_get (we_files E) (path_of (we_path E) (input_uri (work_root E) i)) (wk_files w)
       = fi_get (we_files E) (path_of (we_path E) (input_uri (work_root E) i)) (wk_files w1)"
    and "query_job E job token w = (Inr (uri, doc), w')"
  shows "\<exists>rows. query_table (we_clash E) (we_delta E) (st_bucket (we_settings E)) (wk_lake w) (we_registry E) (hq_observations q) refs = Inr rows \<and>
    uri = result_uri (work_root E) (j_id job) (j_attempts job) token \<and>
    (\<exists>n. doc = result_doc (length rows) n refs ws) \<and>
    (\<forall>p. fi_get (we_files E) p (wk_files w') =
       (if p = path_of (we_path E) uri then Some (ParquetBlob (result_table rows)) else fi_get (we_files E) p (wk_files w)))"
proof -
  note sub = submit_query_Inr [OF assms(1,4)]
  let ?in = "input_uri (work_root E) i"
  have art: "j_artifact job = Some ?in" "j_payload job = QueryPayload (int (length (hq_observations q))) refs ws"
    using assms(5,6) sub by simp_all
  have "read_json (we_env E) (we_files E) (we_path E) ?in (wk_files w) = Inr (query_doc (we_env E) q)"
    using assms(7) sub query_doc_loads [OF assms(3,2)] by (simp add: read_json_def)
  then have read: "work_files (\<lambda>f. (read_json (we_env E) (we_files E) (we_path E) ?in f, f)) w = (Inr (query_doc (we_env E) q), w)"
    by (simp add: work_files_def)
  have rest: "then_act (still_owned E job token) (
      bind_act (read_lake (\<lambda>d. query_table (we_clash E) (we_delta E) (st_bucket (we_settings E)) d (we_registry E) (hq_observations q) refs)) (\<lambda>rows.
      then_act (still_owned E job token) (
      let out = result_uri (work_root E) (j_id job) (j_attempts job) token in
      bind_act (work_files (write_parquet (we_files E) (we_path E) out (result_table rows))) (\<lambda>bytes.
      ret (out, result_doc (length rows) bytes refs ws))))) w = (Inr (uri, doc), w')"
    using assms(8) read
    by (simp add: query_job_def art input_uri_nonempty bind_act_def [of "work_files _"] parse_query_doc [OF assms(3)]
        bind_lift_Inr payload_refs_def)
  obtain w1 w2 rows f n where steps: "still_owned E job token w = (Inr (), w1)"
      "query_table (we_clash E) (we_delta E) (st_bucket (we_settings E)) (wk_lake w1) (we_registry E) (hq_observations q) refs = Inr rows"
      "still_owned E job token w1 = (Inr (), w2)"
      "write_parquet (we_files E) (we_path E) (result_uri (work_root E) (j_id job) (j_attempts job) token) (result_table rows) (wk_files w2) = (Inr n, f)"
      "wk_files w' = f" "uri = result_uri (work_root E) (j_id job) (j_attempts job) token" "doc = result_doc (length rows) n refs ws"
    using rest by (auto simp: then_act_Inr bind_act_Inr read_lake_def work_files_Inr Let_def)
  have "wk_lake w1 = wk_lake w" "wk_files w2 = wk_files w"
    using still_owned_keeps(1) [OF steps(1)] still_owned_files [OF steps(1)] still_owned_files [OF steps(3)] by simp_all
  then show ?thesis
    using steps file_laws.write_parquet_get [OF assms(1) steps(4)] by auto
qed

subsection \<open>Concrete runs\<close>

lemma fill_lasts: "lease_lasts shop_worker fill_job ''t1'' (wk_db fill_start)" "undisturbed shop_worker fill_job ''t1''"
  by (simp_all add: lease_lasts_def undisturbed_def job_ids_unique_def fill_start_def empty_db_def leased_def is_incremental_def)

lemma execute_settles_witness:
  "\<exists>w' j. execute shop_worker fill_job fill_start = (Inr (), w') \<and> find_job (wk_db w') ''b1'' = Some j \<and> j_status j = Succeeded"
proof -
  let ?w = "attempt_start shop_worker fill_job fill_start"
  obtain doc w1 where run: "materialize shop_worker fill_job ''t1'' ?w = (Inr doc, w1)"
    using fill_run_from [of ?w] by (auto simp: attempt_start_def fill_start_def)
  have kind: "j_kind fill_job = Materialize" by (simp add: fill_job_def new_job_def)
  have body: "run_job shop_worker fill_job ''t1'' ?w = (Inr \<lparr>at_cleanup = None, at_result = None, at_meta = Some doc\<rparr>, w1)"
    by (simp add: run_job_def kind bind_act_def run)
  have "\<forall>m. fst (run_job shop_worker fill_job ''t1'' ?w) \<noteq> Inl (LeaseLostError m)" by (simp add: body)
  from execute_settles [OF _ _ fill_lasts this] show ?thesis by (auto simp: body is_incremental_def)
qed

definition asking :: historical_query where
  "asking = \<lparr>hq_observations = [\<lparr>ob_entity = [(''user_id'', VStr ''ada'')], ob_time = Aware 5 0\<rparr>],
     hq_features = [''spend@1.0.0:total''], hq_service = None\<rparr>"

text \<open>An environment that reads every text as the one time the example is about.\<close>

definition asked_env :: pyenv where
  "asked_env = demo_env\<lparr>env_parse_time := (\<lambda>_. Some (Aware 5 0))\<rparr>"

definition asked_worker :: "(hashes, lake, disk) worker_env" where
  "asked_worker = shop_worker\<lparr>we_env := asked_env, we_settings := default_settings\<lparr>st_inline_limit := 0\<rparr>\<rparr>"

definition asked_start :: "(hashes, lake, disk) worker" where
  "asked_start = \<lparr>wk_db = empty_db, wk_redis = [], wk_lake = [], wk_files = [], wk_ticks = 0, wk_summary = None, wk_seen = []\<rparr>"

lemma asked_simps [simp]:
  "we_env asked_worker = asked_env" "we_files asked_worker = mem_files" "we_settings asked_worker = default_settings\<lparr>st_inline_limit := 0\<rparr>"
  "we_registry asked_worker = shop_registry" "we_delta asked_worker = mem_delta" "we_others asked_worker = (\<lambda>_ db. db)"
  "we_now asked_worker = (\<lambda>_. 5)" "we_path asked_worker = id"
  by (simp_all add: asked_worker_def) (simp_all add: shop_worker_def)

lemma asking_ok: "query_ok asked_env asking"
  by (simp add: query_ok_def asking_def one_selector_def asked_env_def demo_env_def)

lemma asked_env_floats: "float_reads_ok asked_env"
  using demo_float_reads_ok by (simp add: asked_env_def float_reads_ok_def)

lemma asked_ref: "split_feature_ref ''spend@1.0.0:total'' = Inr (''spend@1.0.0'', ''total'')"
  by code_simp

lemma asked_answer:
  "\<exists>rows. query_table c mem_delta b [] shop_registry (hq_observations asking) [''spend@1.0.0:total''] = Inr rows \<and> length rows = 1"
proof -
  have ent: "v_entity shop_view = ''user''" "e_join_keys shop_entity = [(''user_id'', TString)]"
    by (simp_all add: shop_view_def shop_entity_def)
  have load: "\<not> dl_exists mem_delta u []" for u by (simp add: mem_delta_def)
  have rows: "observation_rows 0 (hq_observations asking) = Inr [[(row_id_col, VInt 0), (''user_id'', VStr ''ada''), (ts_col, VTime (Aware 5 0))]]"
    by (simp add: asking_def observation_row_def ts_col_def row_id_col_def)
  have grp: "group_refs [''spend@1.0.0:total''] = Inr [(''spend@1.0.0'', [''total''])]"
    by (simp add: group_refs_def asked_ref add_group_def)
  have cols: "''user_id'' \<in> set (column_names [[(row_id_col, VInt 0), (''user_id'', VStr ''ada''), (ts_col, VTime (Aware 5 0))]])"
    by (simp add: column_names_def)
  have some: "hq_observations asking \<noteq> []" by (simp add: asking_def)
  show ?thesis
    unfolding query_table_def rows grp using some cols by (simp add: query_group_def ent load append_missing_def)
qed

lemma asked_run:
  assumes "j_artifact job = Some (input_uri (artifact_root ''feature-store'') ''q1'')" "j_payload job = QueryPayload 1 [''spend@1.0.0:total''] []"
    and "owns (j_id job) ''t1'' 5 (wk_db w)" "wk_lake w = []"
    and "map_of (wk_files w) (path_of id (input_uri (artifact_root ''feature-store'') ''q1'')) = Some (TextBlob (render asked_env compact_opts (query_doc asked_env asking)))"
  shows "\<exists>uri doc w'. query_job asked_worker job ''t1'' w = (Inr (uri, doc), w')"
proof -
  obtain rows where rows: "query_table (we_clash asked_worker) mem_delta ''feature-store'' [] shop_registry (hq_observations asking) [''spend@1.0.0:total''] = Inr rows"
    using asked_answer by blast
  have own: "still_owned asked_worker job ''t1'' v = (Inr (), v\<lparr>wk_ticks := Suc (wk_ticks v)\<rparr>)"
    if "wk_db v = wk_db w" for v
    using assms(3) that by (simp add: still_owned_def bind_act_def tick_def require_ownership_def ensure_def)
  have read: "read_json asked_env mem_files id (input_uri (artifact_root ''feature-store'') ''q1'') (wk_files w) = Inr (query_doc asked_env asking)"
    using assms(5) query_doc_loads [OF asking_ok asked_env_floats] by (simp add: read_json_def mem_files_def)
  have parquet: "write_parquet mem_files id u t fs = (Inr (int (length (tb_rows t))), dict_set fs (path_of id u) (ParquetBlob t))" for u t fs
    by (simp add: write_parquet_def Let_def mem_files_def then_act_def bind_act_def catch_act_def)
  show ?thesis
    by (simp add: query_job_def assms(1,2) input_uri_nonempty work_root_def default_settings_def [THEN arg_cong, of st_bucket]
        bind_act_def then_act_def work_files_def read parse_query_doc [OF asking_ok] payload_refs_def own read_lake_def assms(4) rows parquet Let_def)
qed

definition asked_job :: job where
  "asked_job = (new_job ''q1'' HistoricalQuery (QueryPayload 1 [''spend@1.0.0:total''] [])
     (Some (input_uri (artifact_root ''feature-store'') ''q1'')) default_settings 0)
     \<lparr>j_status := Running, j_token := Some ''t1'', j_lease := Some 30, j_attempts := 1\<rparr>"

lemma asked_job_simps [simp]:
  "j_id asked_job = ''q1''" "j_payload asked_job = QueryPayload 1 [''spend@1.0.0:total''] []"
  "j_artifact asked_job = Some (input_uri (artifact_root ''feature-store'') ''q1'')"
  by (simp_all add: asked_job_def new_job_def)

end
