(* ===== verification/ApiLaws.thy ===== *)
theory ApiLaws
  imports Api ExecutionLaws
begin

section \<open>What the HTTP interface answers\<close>

text \<open>
  Two facts about jobs as a client sees them. A query that is queued is answered by a download whose
  rows, references and warnings are those the inline answer has at the time the worker reads the
  tables (\<open>queued_query_served\<close>). And the document of a job validates against the response model as
  soon as its result does (\<open>job_doc_fits\<close>).
\<close>

subsection \<open>Documents that validate\<close>

lemma kind_listed: "VStr (job_kind_str k) \<in> (VStr \<circ> job_kind_str) ` set [Backfill, Materialize, OfflineAppend, HistoricalQuery]"
  by (cases k) simp_all

lemma status_listed: "VStr (job_status_str s) \<in> (VStr \<circ> job_status_str) ` set [Pending, Running, Retrying, Succeeded, Failed, Exhausted, Cancelled]"
  by (cases s) simp_all

lemma failure_listed: "VStr (failure_kind_str f) \<in> (VStr \<circ> failure_kind_str) ` set [Retryable, Terminal, LeaseExpired]"
  by (cases f) simp_all

lemma field_simps [simp]:
  "is_text (VStr s)" "is_int (VInt n)" "is_time env (VTime t)" "is_bool (VBool b)" "is_number (VInt n)" "is_number (VFloat fl)"
  "or_null f VNone" "or_null is_text (opt_str x)" "or_null (is_time env) (instant_field y)" "is_list is_text (VList (map VStr xs))"
  by (simp_all add: is_text_def is_int_def is_time_def is_bool_def is_number_def or_null_def opt_str_def instant_field_def
      is_list_def list_all_iff split: option.split)

lemma or_null_Some: "f v \<Longrightarrow> or_null f v"
  by (simp add: or_null_def)

lemma failure_field_ok: "or_null (\<lambda>v. v \<in> (VStr \<circ> failure_kind_str) ` set [Retryable, Terminal, LeaseExpired]) (failure_field f)"
  using failure_listed by (simp add: or_null_def failure_field_def split: option.split del: list.set)

lemma fits_dict:
  "fits fs (VDict d) \<longleftrightarrow> set (map fst d) \<subseteq> set (map fst fs) \<and>
     list_all (\<lambda>(k, optional, ok). case map_of d k of None \<Rightarrow> optional | Some x \<Rightarrow> ok x) fs"
  by (simp add: fits_def)

lemma job_doc_fits:
  assumes "fits_result env (case job_result j of None \<Rightarrow> VNone | Some r \<Rightarrow> VDict r)"
  shows "job_reply env code j = Reply code (serialize_job j)"
proof -
  have "fits (job_model env) (VDict (serialize_job j))"
    using assms kind_listed [of "j_kind j"] status_listed [of "j_status j"] failure_field_ok [of "j_failure j"]
    by (simp add: fits_dict job_model_def serialize_job_def del: list.set image_insert comp_apply)
  then show ?thesis by (simp add: job_reply_def)
qed

lemma no_result_fits: "j_metadata j = None \<Longrightarrow> job_reply env code j = Reply code (serialize_job j)"
  by (rule job_doc_fits) (simp add: job_result_def fits_result_def)

subsection \<open>A queued query\<close>

lemma find_append_list: "find P (xs @ ys) = (case find P xs of None \<Rightarrow> find P ys | Some x \<Rightarrow> Some x)"
  by (induction xs) auto

lemma submit_query_stored:
  assumes "submit_query E i now q refs ws w = (Inr j, w')"
  shows "find_job (wk_db w') i = Some j"
  using assms
  by (auto simp: submit_query_def Let_def then_act_Inr work_files_Inr catch_act_def then_act_def bind_act_def
      create_query_job_def new_job_def bind_result_eq_Inr add_job_Inr find_job_def Database.append_job_def find_append_list
      split: prod.splits sum.splits option.splits)

lemma handled_not_reply [simp]: "handled dv e \<noteq> Reply c x"
  by (cases e) (simp_all add: handled_def)

lemma queued_submission:
  assumes "query_historical E dv i now q si = (Reply c (Queued doc), si1)"
  shows "\<exists>refs ws j w. validate_query (si_registry si) (hq_observations q) (hq_features q) (hq_service q) = Inr refs \<and>
    warnings_for_query (si_registry si) (hq_features q) (hq_service q) = Inr ws \<and>
    submit_query E i now q refs (map (warning_doc (we_env E)) ws) (site_worker si) = (Inr j, w) \<and> si1 = back_to_site si w"
proof -
  have queued: "queue_query E dv i now q si = (Reply c (Queued doc), si1)"
    using assms unfolding query_historical_def by (simp split: if_splits sum.splits)
  obtain refs where refs: "validate_query (si_registry si) (hq_observations q) (hq_features q) (hq_service q) = Inr refs"
    using queued unfolding queue_query_def
    by (cases "validate_query (si_registry si) (hq_observations q) (hq_features q) (hq_service q)") simp_all
  obtain ws where ws: "warnings_for_query (si_registry si) (hq_features q) (hq_service q) = Inr ws"
    using queued refs unfolding queue_query_def
    by (cases "warnings_for_query (si_registry si) (hq_features q) (hq_service q)") simp_all
  obtain r w where sub: "submit_query E i now q refs (map (warning_doc (we_env E)) ws) (site_worker si) = (r, w)"
    by (rule prod.exhaust)
  show ?thesis using queued refs ws sub unfolding queue_query_def by (cases r) auto
qed

text \<open>
  C27. A historical query that is too large to be answered at once is answered as it would have been:
  when a worker has run its job on the stored request, the download serves, until the result
  expires, exactly the rows of the inline answer to the same query on the tables the worker read,
  and the result document names the same references and warnings.
\<close>

theorem queued_query_served:
  assumes "file_laws (we_files E)" "float_reads_ok (we_env E)" "query_ok (we_env E) q" "we_registry E = si_registry si"
    and "query_historical E dv i now q si = (Reply c (Queued doc), si1)"
    and "find_job (si_db si1) i = Some j" "j_artifact job = j_artifact j" "j_payload job = j_payload j" "j_kind job = j_kind j"
    and "fi_get (we_files E) (path_of (we_path E) (input_uri (work_root E) i)) (wk_files w)
       = fi_get (we_files E) (path_of (we_path E) (input_uri (work_root E) i)) (si_files si1)"
    and "query_job E job token w = (Inr (uri, meta), w')"
    and "find_job (si_db si2) i = Some (succeeded (we_settings E) done_at job (Some uri) (Some meta) old)" "j_cleaned old = None"
    and "fi_get (we_files E) (path_of (we_path E) uri) (si_files si2) = fi_get (we_files E) (path_of (we_path E) uri) (wk_files w')"
    and "t < done_at + seconds (st_result_ttl (we_settings E))"
  shows "\<exists>r d. historical_response (we_clash E) (we_delta E) (st_bucket (we_settings E)) (wk_lake w) (si_registry si)
      (hq_observations q) (hq_features q) (hq_service q) = Inr r \<and>
    get_job_result E t i si2 = Reply 200 d \<and> dn_content d = ParquetBlob (result_table (qr_rows r)) \<and>
    dict_get meta ''resolved_features'' = VList (map VStr (qr_features r)) \<and>
    dict_get meta ''warnings'' = VList (map (warning_doc (we_env E)) (qr_warnings r))"
proof -
  obtain refs ws j' w1 where sub: "validate_query (si_registry si) (hq_observations q) (hq_features q) (hq_service q) = Inr refs"
      "warnings_for_query (si_registry si) (hq_features q) (hq_service q) = Inr ws"
      "submit_query E i now q refs (map (warning_doc (we_env E)) ws) (site_worker si) = (Inr j', w1)" "si1 = back_to_site si w1"
    using queued_submission [OF assms(5)] by blast
  have j': "j' = j" using submit_query_stored [OF sub(3)] assms(6) sub(4) by (simp add: back_to_site_def)
  have files: "si_files si1 = wk_files w1" using sub(4) by (simp add: back_to_site_def)
  obtain rows n where run: "query_table (we_clash E) (we_delta E) (st_bucket (we_settings E)) (wk_lake w) (we_registry E) (hq_observations q) refs = Inr rows"
      "uri = result_uri (work_root E) (j_id job) (j_attempts job) token"
      "meta = result_doc (length rows) n refs (map (warning_doc (we_env E)) ws)"
      "fi_get (we_files E) (path_of (we_path E) uri) (wk_files w') = Some (ParquetBlob (result_table rows))"
    using stored_answer [OF assms(1-3) sub(3) _ _ _ assms(11)] assms(7,8,10) by (auto simp: j' files)
  have kind: "j_kind job = HistoricalQuery"
    using sub(3) assms(9) j' by (auto simp: submit_query_def Let_def then_act_Inr catch_act_def then_act_def bind_act_def
      create_query_job_def new_job_def bind_result_eq_Inr split: prod.splits sum.splits)
  have uri: "uri \<noteq> []" using run(2) by (simp add: result_uri_def)
  let ?r = "\<lparr>qr_features = refs, qr_rows = rows, qr_warnings = ws\<rparr>"
  have "historical_response (we_clash E) (we_delta E) (st_bucket (we_settings E)) (wk_lake w) (si_registry si)
      (hq_observations q) (hq_features q) (hq_service q) = Inr ?r"
    using run(1) assms(4) by (simp add: historical_response_def sub(1,2))
  moreover have "\<exists>d. get_job_result E t i si2 = Reply 200 d \<and> dn_content d = ParquetBlob (result_table rows)"
    using assms(13,14,15) kind uri run(4)
    by (simp add: get_job_result_def get_job_def assms(12) artifacts_expired_def succeeded_def no_lease_def expiry_def
        send_result_def run(3)) (simp add: result_doc_def)
  ultimately show ?thesis
    by (intro exI [of _ ?r]) (auto simp: run(3) result_doc_def dict_get_def)
qed

subsection \<open>A concrete run\<close>

definition shop_site :: "(hashes, lake, disk) site" where
  "shop_site = \<lparr>si_registry = shop_registry, si_db = empty_db, si_redis = [], si_lake = [], si_files = []\<rparr>"

lemma asked_valid:
  "validate_query shop_registry (hq_observations asking) (hq_features asking) (hq_service asking) = Inr [''spend@1.0.0:total'']"
  "warnings_for_query shop_registry (hq_features asking) (hq_service asking) = Inr []"
  by code_simp+

definition queued_job :: job where
  "queued_job = new_job ''q1'' HistoricalQuery (QueryPayload 1 [''spend@1.0.0:total''] [])
     (Some (input_uri (artifact_root ''feature-store'') ''q1'')) (default_settings\<lparr>st_inline_limit := 0\<rparr>) 0"

lemma asked_queue:
  "query_historical asked_worker dv ''q1'' 0 asking shop_site
     = (Reply 202 (Queued (serialize_job queued_job)),
        shop_site\<lparr>si_db := empty_db\<lparr>db_jobs := [queued_job]\<rparr>,
          si_files := [(path_of id (input_uri (artifact_root ''feature-store'') ''q1''), TextBlob (render asked_env compact_opts (query_doc asked_env asking)))]\<rparr>)"
proof -
  have base: "work_root asked_worker = artifact_root ''feature-store''" by (simp add: work_root_def default_settings_def)
  have len: "length (hq_observations asking) = 1" by (simp add: asking_def)
  have reg: "si_registry shop_site = shop_registry" by (simp add: shop_site_def)
  have "submit_query asked_worker ''q1'' 0 asking [''spend@1.0.0:total''] [] (site_worker shop_site)
      = (Inr queued_job, (site_worker shop_site)\<lparr>wk_files := [(path_of id (input_uri (artifact_root ''feature-store'') ''q1''),
           TextBlob (render asked_env compact_opts (query_doc asked_env asking)))], wk_db := empty_db\<lparr>db_jobs := [queued_job]\<rparr>\<rparr>)"
    by (simp add: submit_query_def base Let_def then_act_def bind_act_def catch_act_def work_files_def write_json_def mem_files_def
        site_worker_def shop_site_def create_query_job_def add_job_def find_job_def empty_db_def len queued_job_def Database.append_job_def)
  moreover have "job_reply (we_env asked_worker) 202 queued_job = Reply 202 (serialize_job queued_job)"
    by (rule no_result_fits) (simp add: queued_job_def new_job_def)
  ultimately show ?thesis
    by (simp add: query_historical_def len queue_query_def reg asked_valid site_worker_def back_to_site_def shop_site_def)
qed

lemma queued_query_served_witness:
  "\<exists>uri meta w' r d. query_job asked_worker asked_job ''t1'' (asked_start\<lparr>wk_files := si_files (snd (query_historical asked_worker (\<lambda>_. False) ''q1'' 0 asking shop_site)),
       wk_db := empty_db\<lparr>db_jobs := [asked_job]\<rparr>\<rparr>) = (Inr (uri, meta), w') \<and>
     get_job_result asked_worker 99 ''q1'' (shop_site\<lparr>si_files := wk_files w',
       si_db := empty_db\<lparr>db_jobs := [succeeded default_settings 50 asked_job (Some uri) (Some meta) asked_job]\<rparr>\<rparr>) = Reply 200 d \<and>
     dn_content d = ParquetBlob (result_table (qr_rows r)) \<and> length (qr_rows (r :: query_response)) = 1"
proof -
  let ?in = "input_uri (artifact_root ''feature-store'') ''q1''"
  let ?si1 = "snd (query_historical asked_worker (\<lambda>_. False) ''q1'' 0 asking shop_site)"
  let ?w = "asked_start\<lparr>wk_files := si_files ?si1, wk_db := empty_db\<lparr>db_jobs := [asked_job]\<rparr>\<rparr>"
  have base: "work_root asked_worker = artifact_root ''feature-store''" by (simp add: work_root_def default_settings_def)
  have own: "owns (j_id asked_job) ''t1'' 5 (wk_db ?w)"
    by (simp add: owns_def rowcount_def leased_def) (simp add: asked_job_def)
  obtain uri meta w' where run: "query_job asked_worker asked_job ''t1'' ?w = (Inr (uri, meta), w')"
    using asked_run [of asked_job ?w] own by (auto simp: asked_start_def asked_queue)
  let ?si2 = "shop_site\<lparr>si_files := wk_files w',
       si_db := empty_db\<lparr>db_jobs := [succeeded default_settings 50 asked_job (Some uri) (Some meta) asked_job]\<rparr>\<rparr>"
  have F: "file_laws (we_files asked_worker)" using disk.file_laws_axioms by simp
  have ok: "float_reads_ok (we_env asked_worker)" "query_ok (we_env asked_worker) asking" by (simp_all add: asked_env_floats asking_ok)
  have reg: "we_registry asked_worker = si_registry shop_site" by (simp add: shop_site_def)
  have same: "succeeded default_settings a b c e f = succeeded (we_settings asked_worker) a b c e f" for a b c e f
    by (simp add: succeeded_def expiry_def)
  have jobs: "find_job (si_db ?si1) ''q1'' = Some queued_job" by (simp add: asked_queue find_job_def queued_job_def new_job_def)
  have row: "find_job (si_db ?si2) ''q1'' = Some (succeeded (we_settings asked_worker) 50 asked_job (Some uri) (Some meta) asked_job)"
    by (simp add: find_job_def same) (simp add: succeeded_def no_lease_def)
  have cleaned: "j_cleaned asked_job = None" by (simp add: asked_job_def new_job_def)
  have eqs: "j_artifact asked_job = j_artifact queued_job" "j_payload asked_job = j_payload queued_job" "j_kind asked_job = j_kind queued_job"
    by (simp_all add: queued_job_def) (simp_all add: new_job_def asked_job_def)
  have q: "query_historical asked_worker (\<lambda>_. False) ''q1'' 0 asking shop_site = (Reply 202 (Queued (serialize_job queued_job)), ?si1)"
    by (simp add: asked_queue)
  have input: "fi_get (we_files asked_worker) (path_of (we_path asked_worker) (input_uri (work_root asked_worker) ''q1'')) (wk_files ?w)
      = fi_get (we_files asked_worker) (path_of (we_path asked_worker) (input_uri (work_root asked_worker) ''q1'')) (si_files ?si1)"
    by simp
  have kept: "fi_get (we_files asked_worker) (path_of (we_path asked_worker) uri) (si_files ?si2)
      = fi_get (we_files asked_worker) (path_of (we_path asked_worker) uri) (wk_files w')" by simp
  have time: "99 < 50 + seconds (st_result_ttl (we_settings asked_worker))" by (simp add: default_settings_def seconds_def)
  obtain r d where served: "historical_response (we_clash asked_worker) (we_delta asked_worker) (st_bucket (we_settings asked_worker)) (wk_lake ?w)
      (si_registry shop_site) (hq_observations asking) (hq_features asking) (hq_service asking) = Inr r"
      "get_job_result asked_worker 99 ''q1'' ?si2 = Reply 200 d" "dn_content d = ParquetBlob (result_table (qr_rows r))"
    using queued_query_served [OF F ok reg q jobs eqs input run row cleaned kept time] by blast
  have one: "length (qr_rows r) = 1"
    using served(1) asked_answer [of "we_clash asked_worker" "st_bucket default_settings"]
    by (auto simp: historical_response_def asked_valid shop_site_def asked_start_def)
  show ?thesis by (intro exI conjI) (rule run, rule served(2), rule served(3), rule one)
qed

end
