(* ===== verification/ApiTypes.thy ===== *)
theory ApiTypes
  imports ApiLaws
begin

section \<open>Job documents are well typed\<close>

text \<open>
  Whatever the body of a job does, the document of its row validates against \<open>JobResponse\<close>: what
  each body returns has the fields of its result model, and only a backfill leaves a summary behind
  when it fails. The rules \<open>yields_rules\<close> say of an action that its result has a type and that
  it reports nothing but a quality summary.
\<close>

subsection \<open>Documents\<close>

definition counts_nonneg :: "quality_summary \<Rightarrow> bool" where
  "counts_nonneg q \<longleftrightarrow> 0 \<le> qs_evaluated q \<and> 0 \<le> qs_valid q \<and> 0 \<le> qs_invalid q \<and> 0 \<le> qs_quarantined q"

lemma parse_summary_nonneg: "parse_summary v = Inr q \<Longrightarrow> counts_nonneg q"
  by (auto simp: parse_summary_def counts_nonneg_def Let_def bind_result_eq_Inr split: pyval.splits if_splits option.splits)

lemma next_nonneg: "counts_nonneg q \<Longrightarrow> counts_nonneg (next_summary p q v)"
  by (simp add: counts_nonneg_def next_summary_def)

lemma last_summary_nonneg: "last_summary env cs p = Inr q \<Longrightarrow> counts_nonneg q"
proof (induction cs)
  case Nil
  then show ?case by (auto simp: counts_nonneg_def empty_summary_def)
next
  case (Cons c cs)
  show ?case
  proof (cases "starts_with quality_tag c")
    case True
    then show ?thesis using Cons.prems by (auto simp: bind_result_eq_Inr intro: parse_summary_nonneg)
  next
    case False
    show ?thesis
    proof (cases "starts_with backfill_tag c")
      case True
      then obtain v where "parse_summary v = Inr q"
        using Cons.prems False by (cases "json_loads env (drop (length backfill_tag) c)") (auto split: pyval.splits option.splits)
      then show ?thesis by (rule parse_summary_nonneg)
    next
      case False
      then show ?thesis using Cons \<open>\<not> starts_with quality_tag c\<close> by simp
    qed
  qed
qed

lemma summary_fits: "counts_nonneg q \<Longrightarrow> fits_quality (VDict (summary_doc q))"
  by (simp add: fits_quality_def parse_summary_def summary_doc_def summary_fields_def counts_nonneg_def dict_get_def parse_counts_doc)

text \<open>What the model relies on: pydantic reads an ISO text, and seconds are a number.\<close>

definition reads_times :: "('s, 'd, 'f) worker_env \<Rightarrow> bool" where
  "reads_times E \<longleftrightarrow> (\<forall>t. env_parse_time (we_env E) (VStr (iso_text t)) \<noteq> None) \<and> (\<forall>n. is_number (we_seconds E n))"

lemma materialize_fits:
  assumes "reads_times E"
  shows "fits (materialization_model (we_env E)) (VDict (materialize_doc E p a b c d e f g))"
proof -
  have t: "is_time (we_env E) (VStr (iso_text x))" for x using assms by (simp add: is_time_def reads_times_def)
  have o: "or_null (is_time (we_env E)) (time_field x)" for x by (simp add: or_null_def time_field_def t split: option.split)
  have l: "or_null is_number (case g of None \<Rightarrow> VNone | Some f \<Rightarrow> we_seconds E (max 0 (b - f)))"
    using assms by (simp add: or_null_def reads_times_def split: option.split)
  have m: "payload_mode p = ''explicit'' \<or> payload_mode p = ''incremental''" by (simp add: payload_mode_def split: job_payload.split)
  show ?thesis
    using t o l m by (simp add: fits_dict materialization_model_def materialize_doc_def del: list.set)
qed

definition warnings_fit :: "pyenv \<Rightarrow> job_payload \<Rightarrow> bool" where
  "warnings_fit env p = (case p of QueryPayload _ _ ws \<Rightarrow> list_all (fits (warning_model env)) ws | _ \<Rightarrow> True)"

lemma query_result_fits:
  assumes "list_all (fits (warning_model env)) ws"
  shows "fits (historical_model env) (VDict (dict_set (dict_set (dict_set (result_doc n b refs ws)
     ''download_url'' (VStr u)) ''expires_at'' (VTime (Aware t 0))) ''cleaned_up'' (VBool c)))"
  using assms by (simp add: fits_dict historical_model_def result_doc_def is_list_def [of _ "VList ws"])

subsection \<open>What a body yields\<close>

named_theorems yields_rules \<open>rules of actions whose result has a type\<close>

definition clean :: "('s, 'd, 'f) worker \<Rightarrow> bool" where
  "clean w \<longleftrightarrow> wk_summary w = None"

definition reported :: "bool \<Rightarrow> ('s, 'd, 'f) worker \<Rightarrow> bool" where
  "reported b w \<longleftrightarrow> wk_summary w = None \<or> (b \<and> (\<exists>m. wk_summary w = Some m \<and> fits_quality (VDict m)))"

definition yields :: "bool \<Rightarrow> ('a \<Rightarrow> bool) \<Rightarrow> ('a, 's, 'd, 'f) work \<Rightarrow> bool" where
  "yields b R m \<longleftrightarrow> triple clean m (\<lambda>x w. R x \<and> clean w) (reported b)"

lemma clean_reported [simp]: "clean w \<Longrightarrow> reported b w"
  by (simp add: clean_def reported_def)

lemma yields_quiet:
  assumes "\<And>w. wk_summary (snd (m w)) = wk_summary w" "\<And>w x w'. m w = (Inr x, w') \<Longrightarrow> R x"
  shows "yields b R m"
proof -
  have "case m w of (Inl e, w') \<Rightarrow> reported b w' | (Inr x, w') \<Rightarrow> R x \<and> clean w'" if "clean w" for w
    using assms(1) [of w] assms(2) [of w] that by (auto simp: clean_def reported_def split: prod.splits sum.splits)
  then show ?thesis by (simp add: yields_def triple_def)
qed

lemma yields_ret: "R x \<Longrightarrow> yields b R (ret x)"
  by (rule yields_quiet) (auto simp: ret_def)

lemma yields_simple [yields_rules]:
  "yields b (\<lambda>_. True) (read_act f)" "yields b (\<lambda>_. True) (read_lake g)" "yields b (\<lambda>_. True) (work_lake h)"
  "yields b (\<lambda>_. True) (work_redis k)" "yields b (\<lambda>_. True) (work_files m)" "yields b (\<lambda>_. True) (still_owned E job token)"
  "yields b (\<lambda>_. True) (save_checkpoints E job token cps)"
  by (rule yields_quiet; simp add: read_lake_def work_lake_def work_redis_def work_files_def still_owned_def bind_act_def tick_def
      save_checkpoints_def then_act_def work_db_def split: sum.split prod.split)+

lemma yields_bind:
  assumes "yields b R m" "\<And>x. R x \<Longrightarrow> yields b S (f x)"
  shows "yields b S (bind_act m f)"
  using assms unfolding yields_def by (intro triple_bind [where R = "\<lambda>x w. R x \<and> clean w"] triple_pure) auto

lemma yields_bind_any [yields_rules]:
  "yields b (\<lambda>_. True) m \<Longrightarrow> (\<And>x. yields b S (f x)) \<Longrightarrow> yields b S (bind_act m f)"
  by (rule yields_bind)

lemma yields_bind_lift [yields_rules]:
  "(\<And>x. r = Inr x \<Longrightarrow> yields b S (f x)) \<Longrightarrow> yields b S (bind_act (lift_act r) f)"
  unfolding yields_def by (rule triple_bind_lift) auto

lemma yields_then [yields_rules]: "yields b (\<lambda>_. True) m \<Longrightarrow> yields b S n \<Longrightarrow> yields b S (then_act m n)"
  unfolding then_act_def by (rule yields_bind)

lemma yields_if [yields_rules]: "yields b R m \<Longrightarrow> yields b R n \<Longrightarrow> yields b R (if c then m else n)"
  by simp

lemma yields_Inl: "yields b R (lift_act (Inl e))"
  by (rule yields_quiet) (auto simp: lift_act_def)

lemma yields_reject: "counts_nonneg q \<Longrightarrow> yields True R (reject_chunk v q)"
  by (simp add: yields_def triple_def reject_chunk_def reported_def summary_fits)

lemma yields_weaken:
  assumes "yields b R m" "\<And>x. R x \<Longrightarrow> S x"
  shows "yields b S m"
  using assms unfolding yields_def by (auto intro: triple_weaken [OF assms(1) [unfolded yields_def]])

subsection \<open>The bodies\<close>

lemma yields_store: "yields b (\<lambda>_. True) (store_chunk E job v s e out q)"
  unfolding store_chunk_def Let_def by (intro yields_rules)

lemma yields_chunk:
  assumes "counts_nonneg q"
  shows "yields True counts_nonneg (run_chunk E job token v src en s e q)"
  unfolding run_chunk_def Let_def
  by (intro yields_rules yields_store yields_reject yields_ret next_nonneg assms)

lemma yields_chunks:
  assumes "counts_nonneg q"
  shows "yields True counts_nonneg (run_chunks E job token v src en cs q)"
  using assms
proof (induction cs arbitrary: q)
  case Nil
  then show ?case unfolding run_chunks.simps by (rule yields_ret)
next
  case (Cons c cs)
  obtain s ce where c: "c = (s, ce)" by (cases c)
  have chunk: "yields True counts_nonneg (if x then ret q else run_chunk E job token v src en s e q)" for x e
    using Cons.prems by (simp add: yields_ret yields_chunk)
  show ?case unfolding c run_chunks.simps
    by (intro yields_rules yields_bind [OF chunk Cons.IH])
qed

lemma yields_backfill: "yields True (\<lambda>m. fits_quality (VDict m)) (backfill E job token)"
proof -
  have body: "yields True (\<lambda>m. fits_quality (VDict m))
      (bind_act (run_chunks E job token v src en cs q) (\<lambda>q. ret (summary_doc q)))" if "counts_nonneg q" for v src en cs q
    by (rule yields_bind [OF yields_chunks [OF that]]) (intro yields_ret summary_fits)
  show ?thesis unfolding backfill_def
    by (intro yields_rules) (auto intro!: yields_rules body intro: last_summary_nonneg simp: quality_summary_of_def split: prod.split)
qed

lemma yields_upserts: "yields b (\<lambda>_. True) (upsert_rows E job token v en rs n)"
proof (induction rs arbitrary: n)
  case Nil
  show ?case unfolding upsert_rows.simps by (rule yields_ret) simp
next
  case (Cons r rs)
  show ?case unfolding upsert_rows.simps by (intro yields_rules Cons.IH)
qed

lemma yields_materialize:
  "reads_times E \<Longrightarrow> yields b (\<lambda>m. fits (materialization_model (we_env E)) (VDict m)) (materialize E job token)"
  unfolding materialize_def materialize_rows_def
  by (intro yields_rules yields_upserts yields_ret materialize_fits)

lemma yields_append: "yields b (\<lambda>_. True) (append_job E job token)"
  unfolding append_job_def append_rows_of_def
  by (cases "j_payload job") (auto intro!: yields_rules yields_Inl yields_ret)

definition query_meta :: "pyenv \<Rightarrow> row \<Rightarrow> bool" where
  "query_meta env m \<longleftrightarrow> (\<exists>n k refs ws. m = result_doc n k refs ws \<and> list_all (fits (warning_model env)) ws)"

lemma yields_query:
  assumes "warnings_fit env (j_payload job)"
  shows "yields b (\<lambda>um. query_meta env (snd um)) (query_job E job token)"
proof -
  have meta: "query_meta env (result_doc n k refs ws)" if "payload_refs (j_payload job) = Inr (refs, ws)" for n k refs ws
    using that assms by (auto simp: query_meta_def payload_refs_def warnings_fit_def split: job_payload.splits)
  show ?thesis unfolding query_job_def
    by (auto intro!: yields_rules yields_Inl yields_ret meta simp: Let_def split: option.split prod.split)
qed

subsection \<open>The rows a worker writes\<close>

text \<open>The outcome of a body: what it returned, or what it reported when it failed.\<close>

definition attempt_typed :: "('s, 'd, 'f) worker_env \<Rightarrow> job \<Rightarrow> attempt \<Rightarrow> bool" where
  "attempt_typed E job a = (case at_meta a of None \<Rightarrow> True | Some m \<Rightarrow>
     if j_kind job = HistoricalQuery then query_meta (we_env E) m
     else fits (materialization_model (we_env E)) (VDict m) \<or> fits_quality (VDict m))"

lemma run_job_typed:
  assumes "reads_times E" "warnings_fit (we_env E) (j_payload job)"
  shows "yields (j_kind job = Backfill) (attempt_typed E job) (run_job E job token)"
proof (cases "j_kind job")
  case Backfill
  have "yields True (attempt_typed E job) (bind_act (backfill E job token) (\<lambda>m. ret \<lparr>at_cleanup = None, at_result = None, at_meta = Some m\<rparr>))"
    by (rule yields_bind [OF yields_backfill]) (simp add: attempt_typed_def Backfill yields_ret del: run_simps)
  then show ?thesis by (simp add: run_job_def Backfill)
next
  case Materialize
  have "yields False (attempt_typed E job) (bind_act (materialize E job token) (\<lambda>m. ret \<lparr>at_cleanup = None, at_result = None, at_meta = Some m\<rparr>))"
    by (rule yields_bind [OF yields_materialize [OF assms(1)]]) (simp add: attempt_typed_def Materialize yields_ret del: run_simps)
  then show ?thesis by (simp add: run_job_def Materialize)
next
  case OfflineAppend
  have "yields False (attempt_typed E job) (bind_act (append_job E job token) (\<lambda>u. ret \<lparr>at_cleanup = Some u, at_result = None, at_meta = None\<rparr>))"
    by (rule yields_bind [OF yields_append]) (simp add: attempt_typed_def yields_ret del: run_simps)
  then show ?thesis by (simp add: run_job_def OfflineAppend)
next
  case HistoricalQuery
  have "yields False (attempt_typed E job)
      (bind_act (query_job E job token) (\<lambda>(u, m). ret \<lparr>at_cleanup = None, at_result = Some u, at_meta = Some m\<rparr>))"
    by (rule yields_bind [OF yields_query [OF assms(2)]]) (auto simp: attempt_typed_def HistoricalQuery intro: yields_ret simp del: run_simps)
  then show ?thesis by (simp add: run_job_def HistoricalQuery)
qed

lemma success_document:
  assumes "attempt_typed E job a" "j_kind old = j_kind job"
  shows "job_reply (we_env E) code (succeeded st now job (at_result a) (at_meta a) old) = Reply code (serialize_job (succeeded st now job (at_result a) (at_meta a) old))"
proof (rule job_doc_fits)
  show "fits_result (we_env E) (case job_result (succeeded st now job (at_result a) (at_meta a) old) of None \<Rightarrow> VNone | Some r \<Rightarrow> VDict r)"
    using assms query_result_fits
    by (auto simp: job_result_def succeeded_def no_lease_def expiry_def attempt_typed_def query_meta_def fits_result_def
        split: option.splits if_splits)
qed

lemma failure_document:
  assumes "reported (j_kind job = Backfill) w" "j_kind old = j_kind job"
  shows "job_reply env code (failed st now job e trace (wk_summary w) old) = Reply code (serialize_job (failed st now job e trace (wk_summary w) old))"
proof (rule job_doc_fits)
  show "fits_result env (case job_result (failed st now job e trace (wk_summary w) old) of None \<Rightarrow> VNone | Some r \<Rightarrow> VDict r)"
    using assms
    by (auto simp: job_result_def failed_def no_lease_def reported_def fits_result_def split: option.splits prod.splits)
qed

text \<open>
  C28. Job documents are well typed: after any attempt of a worker at a job, the row written for
  its outcome (with the result it returned, or with the quality summary of the backfill that failed)
  serialises to a document that validates against the declared response, so that reading the job
  never fails with a server error.
\<close>

theorem job_documents_typed:
  assumes "reads_times E" "warnings_fit (we_env E) (j_payload job)" "wk_summary w = None" "j_kind old = j_kind job"
    and "run_job E job token w = (r, w')"
  shows "case r of
      Inr a \<Rightarrow> job_reply (we_env E) 200 (succeeded st now job (at_result a) (at_meta a) old)
        = Reply 200 (serialize_job (succeeded st now job (at_result a) (at_meta a) old))
    | Inl e \<Rightarrow> job_reply (we_env E) 200 (failed st now job e trace (wk_summary w') old)
        = Reply 200 (serialize_job (failed st now job e trace (wk_summary w') old))"
proof -
  have typed: "triple clean (run_job E job token) (\<lambda>x w. attempt_typed E job x \<and> clean w) (reported (j_kind job = Backfill))"
    using run_job_typed [OF assms(1,2)] by (simp add: yields_def)
  have start: "clean w" using assms(3) by (simp add: clean_def)
  show ?thesis
  proof (cases r)
    case (Inl e)
    then have "reported (j_kind job = Backfill) w'" using triple_Inl [OF typed start] assms(5) by simp
    then show ?thesis using Inl failure_document [OF _ assms(4)] by simp
  next
    case (Inr a)
    then have "attempt_typed E job a" using triple_Inr [OF typed start] assms(5) by simp
    then show ?thesis using Inr success_document [OF _ assms(4)] by simp
  qed
qed

lemma asked_reads_times: "reads_times asked_worker"
  by (simp add: reads_times_def asked_env_def) (simp add: asked_worker_def shop_worker_def)

lemma job_documents_typed_witness:
  "\<exists>uri meta w'. run_job asked_worker asked_job ''t1'' (asked_start\<lparr>wk_files := si_files (snd (query_historical asked_worker (\<lambda>_. False) ''q1'' 0 asking shop_site)),
       wk_db := empty_db\<lparr>db_jobs := [asked_job]\<rparr>\<rparr>) = (Inr \<lparr>at_cleanup = None, at_result = Some uri, at_meta = Some meta\<rparr>, w') \<and>
     job_reply (we_env asked_worker) 200 (succeeded default_settings 50 asked_job (Some uri) (Some meta) asked_job)
        = Reply 200 (serialize_job (succeeded default_settings 50 asked_job (Some uri) (Some meta) asked_job))"
proof -
  let ?w = "asked_start\<lparr>wk_files := si_files (snd (query_historical asked_worker (\<lambda>_. False) ''q1'' 0 asking shop_site)),
    wk_db := empty_db\<lparr>db_jobs := [asked_job]\<rparr>\<rparr>"
  have own: "owns (j_id asked_job) ''t1'' 5 (wk_db ?w)"
    by (simp add: owns_def rowcount_def leased_def) (simp add: asked_job_def)
  obtain uri meta w' where run: "query_job asked_worker asked_job ''t1'' ?w = (Inr (uri, meta), w')"
    using asked_run [of asked_job ?w] own by (auto simp: asked_start_def asked_queue)
  have kind: "j_kind asked_job = HistoricalQuery" by (simp add: asked_job_def new_job_def)
  have body: "run_job asked_worker asked_job ''t1'' ?w = (Inr \<lparr>at_cleanup = None, at_result = Some uri, at_meta = Some meta\<rparr>, w')"
    by (simp add: run_job_def kind bind_act_def run)
  have clean: "wk_summary ?w = None" by (simp add: asked_start_def)
  have fit: "warnings_fit (we_env asked_worker) (j_payload asked_job)" by (simp add: warnings_fit_def)
  show ?thesis
    using job_documents_typed [OF asked_reads_times fit clean refl body, of default_settings 50] body by auto
qed

end
