(* ===== verification/Client.thy ===== *)
theory Client
  imports ApiTypes
begin

section \<open>The client and the command line\<close>

text \<open>
  \<open>sdk.py\<close> and \<open>cli.py\<close> on top of the HTTP interface: a method of the client builds a request
  model, dumps it, and raises for every status but a success; a command checks its options and calls
  one method. Responses are handed over as values, and manifests (read from YAML) are left to the
  endpoints. The document of a request is encoded before it is sent, which can fail.
\<close>

subsection \<open>The client\<close>

definition raise_for_status :: "'a reply \<Rightarrow> 'a result" where
  "raise_for_status r = (case r of Reply c x \<Rightarrow> Inr x | _ \<Rightarrow> Inl (RuntimeError ''HTTPStatusError''))"

type_synonym ('a, 's, 'd, 'f) call = "('s, 'd, 'f) site \<Rightarrow> 'a result \<times> ('s, 'd, 'f) site"

definition sdk_call :: "('a, 's, 'd, 'f) handler \<Rightarrow> ('a, 's, 'd, 'f) call" where
  "sdk_call h si = (case h si of (r, si') \<Rightarrow> (raise_for_status r, si'))"

text \<open>
  The encoder of the HTTP library writes standard JSON (\<open>allow_nan=False\<close>): a document with a number that
  is not finite is refused before anything is sent. Any other text is read back as its document
  (\<open>json_loads_dumps\<close>), which is what the server gets.
\<close>

fun finite_json :: "pyval \<Rightarrow> bool" where
  "finite_json (VFloat f) = (case f of Fin _ \<Rightarrow> True | _ \<Rightarrow> False)"
| "finite_json (VList xs) = list_all finite_json xs"
| "finite_json (VDict d) = list_all (\<lambda>kv. finite_json (snd kv)) d"
| "finite_json v = True"

definition not_standard :: py_error where
  "not_standard = ValueError ''Out of range float values are not JSON compliant''"

definition encoded :: "pyval \<Rightarrow> pyval result" where
  "encoded v = (if finite_json v then Inr v else Inl not_standard)"

text \<open>Build a request, dump it, encode it, and let the server read it.\<close>

definition sdk_send ::
    "'b result \<Rightarrow> ('b \<Rightarrow> pyval) \<Rightarrow> (pyval \<Rightarrow> 'b result) \<Rightarrow> ('b \<Rightarrow> ('a, 's, 'd, 'f) handler) \<Rightarrow> ('a, 's, 'd, 'f) call" where
  "sdk_send built dump parse h si =
     (case bind_result built (\<lambda>b. encoded (dump b)) of
        Inl e \<Rightarrow> (Inl e, si)
      | Inr doc \<Rightarrow> sdk_call (with_body (parse doc) h) si)"

definition sdk_list_registry :: "pyenv \<Rightarrow> (string \<Rightarrow> bool) \<Rightarrow> string option \<Rightarrow> (listing list, 's, 'd, 'f) call" where
  "sdk_list_registry env dv kind = sdk_call (list_registry env dv (if kind = Some [] then None else kind))"

definition sdk_describe :: "pyenv \<Rightarrow> (string \<Rightarrow> bool) \<Rightarrow> target \<Rightarrow> (descriptor, 's, 'd, 'f) call" where
  "sdk_describe env dv t = sdk_call (describe_registry_object env dv (t_kind t) (t_name t) (t_version t) (t_feature t))"

definition sdk_patch_metadata ::
    "pyenv \<Rightarrow> (string \<Rightarrow> bool) \<Rightarrow> datetime \<Rightarrow> target \<Rightarrow> metadata_patch \<Rightarrow> (descriptor, 's, 'd, 'f) call" where
  "sdk_patch_metadata env dv now t p =
     sdk_send (Inr (t, p)) (\<lambda>u. update_doc (fst u) (snd u)) (parse_update env) (patch_registry_metadata env dv now)"

definition build_deprecation :: "target \<Rightarrow> string option \<Rightarrow> target option \<Rightarrow> (target \<times> string option \<times> target option) result" where
  "build_deprecation t m r =
     (case m of None \<Rightarrow> Inr (t, m, r) | Some x \<Rightarrow> bind_result (mk_note x) (\<lambda>_. Inr (t, m, r)))"

definition sdk_deprecate ::
    "pyenv \<Rightarrow> (string \<Rightarrow> bool) \<Rightarrow> datetime \<Rightarrow> target \<Rightarrow> string option \<Rightarrow> target option \<Rightarrow> (descriptor, 's, 'd, 'f) call" where
  "sdk_deprecate env dv now t m r =
     sdk_send (build_deprecation t m r) (\<lambda>(t, m, r). deprecation_doc t m r) parse_deprecation (deprecate_registry_object env dv now)"

definition sdk_activate :: "pyenv \<Rightarrow> (string \<Rightarrow> bool) \<Rightarrow> datetime \<Rightarrow> target \<Rightarrow> (descriptor, 's, 'd, 'f) call" where
  "sdk_activate env dv now t = sdk_send (Inr t) activation_doc parse_activation (activate_registry_object env dv now)"

definition or_empty :: "string list option \<Rightarrow> string list" where
  "or_empty xs = (case xs of None \<Rightarrow> [] | Some ys \<Rightarrow> ys)"

definition sdk_online ::
    "('s, 'd, 'f) worker_env \<Rightarrow> (string \<Rightarrow> bool) \<Rightarrow> row list \<Rightarrow> string list option \<Rightarrow> string option \<Rightarrow> (query_response, 's, 'd, 'f) call" where
  "sdk_online E dv entities features service =
     sdk_send (mk_online_query entities (or_empty features) service) (online_query_doc (we_env E)) parse_online_query (read_online E dv)"

text \<open>An observation is passed as a model or as a dictionary.\<close>

definition given_observation :: "pyenv \<Rightarrow> observation + pyval \<Rightarrow> observation result" where
  "given_observation env x = (case x of Inl ob \<Rightarrow> Inr ob | Inr v \<Rightarrow> parse_observation env v)"

definition sdk_historical ::
    "('s, 'd, 'f) worker_env \<Rightarrow> (string \<Rightarrow> bool) \<Rightarrow> string \<Rightarrow> int \<Rightarrow> (observation + pyval) list \<Rightarrow> string list option \<Rightarrow> string option \<Rightarrow>
       (query_answer, 's, 'd, 'f) call" where
  "sdk_historical E dv i now observations features service =
     sdk_send (bind_result (traverse (given_observation (we_env E)) observations) (\<lambda>obs.
         mk_historical_query obs (or_empty features) service))
       (query_doc (we_env E)) (parse_query (we_env E)) (query_historical E dv i now)"

definition sdk_download :: "('s, 'd, 'f) worker_env \<Rightarrow> int \<Rightarrow> string \<Rightarrow> ('s, 'd, 'f) site \<Rightarrow> blob result" where
  "sdk_download E now i si = bind_result (raise_for_status (get_job_result E now i si)) (\<lambda>d. Inr (dn_content d))"

definition sdk_create_job ::
    "('s, 'd, 'f) worker_env \<Rightarrow> (job_request \<Rightarrow> (row, 's, 'd, 'f) handler) \<Rightarrow> string \<Rightarrow> datetime \<Rightarrow> datetime \<Rightarrow> (row, 's, 'd, 'f) call" where
  "sdk_create_job E h view s e =
     sdk_send (mk_job_request view s e) (job_request_doc (we_env E)) (parse_job_request (we_env E)) h"

definition sdk_backfill ::
    "('s, 'd, 'f) worker_env \<Rightarrow> (string \<Rightarrow> bool) \<Rightarrow> string \<Rightarrow> int \<Rightarrow> string \<Rightarrow> datetime \<Rightarrow> datetime \<Rightarrow> (row, 's, 'd, 'f) call" where
  "sdk_backfill E dv i now = sdk_create_job E (create_backfill E dv i now)"

definition sdk_materialize ::
    "('s, 'd, 'f) worker_env \<Rightarrow> (string \<Rightarrow> bool) \<Rightarrow> string \<Rightarrow> int \<Rightarrow> string \<Rightarrow> datetime \<Rightarrow> datetime \<Rightarrow> (row, 's, 'd, 'f) call" where
  "sdk_materialize E dv i now = sdk_create_job E (create_materialization E dv i now)"

definition sdk_incremental ::
    "('s, 'd, 'f) worker_env \<Rightarrow> (string \<Rightarrow> bool) \<Rightarrow> string \<Rightarrow> int \<Rightarrow> string \<Rightarrow> datetime option \<Rightarrow> int option \<Rightarrow> (row, 's, 'd, 'f) call" where
  "sdk_incremental E dv i now view e lookback =
     sdk_send (mk_incremental_request view e lookback) (incremental_doc (we_env E)) (parse_incremental (we_env E))
       (create_incremental_materialization E dv i now)"

definition sdk_job :: "pyenv \<Rightarrow> string \<Rightarrow> (row, 's, 'd, 'f) call" where
  "sdk_job env i = sdk_call (job_endpoint env i)"

definition sdk_jobs :: "pyenv \<Rightarrow> (string \<Rightarrow> bool) \<Rightarrow> (job list \<Rightarrow> job list result) \<Rightarrow> (row list, 's, 'd, 'f) call" where
  "sdk_jobs env dv unlimited = sdk_call (jobs_endpoint env dv unlimited 100)"

definition sdk_retry :: "('s, 'd, 'f) worker_env \<Rightarrow> int \<Rightarrow> string \<Rightarrow> (row, 's, 'd, 'f) call" where
  "sdk_retry E now i = sdk_call (retry_job E now i)"

subsection \<open>Commands\<close>

text \<open>What a command ends with: printed output, a usage error, an exit code, or an exception.\<close>

datatype 'a cli = Printed 'a | BadParameter string | Exited nat | Raised py_error

definition cli_run :: "string + 'b \<Rightarrow> ('b \<Rightarrow> ('a, 's, 'd, 'f) call) \<Rightarrow> ('s, 'd, 'f) site \<Rightarrow> 'a cli \<times> ('s, 'd, 'f) site" where
  "cli_run options f si =
     (case options of
        Inl m \<Rightarrow> (BadParameter m, si)
      | Inr b \<Rightarrow> (case f b si of (Inl e, si') \<Rightarrow> (Raised e, si') | (Inr x, si') \<Rightarrow> (Printed x, si')))"

text \<open>
  \<open>_registry_file\<close>: the result of a plan or a validation with rejected objects exits with 1 after it
  is printed, an unreadable file with 2. \<open>local\<close> tells the exceptions of reading the file (\<open>OSError\<close>,
  \<open>YAMLError\<close>) from the others.
\<close>

definition is_validation_error :: "py_error \<Rightarrow> bool" where
  "is_validation_error e = (case e of ValidationError _ \<Rightarrow> True | _ \<Rightarrow> False)"

definition registry_file ::
    "(py_error \<Rightarrow> bool) \<Rightarrow> bool \<Rightarrow> manifest result \<Rightarrow> (manifest \<Rightarrow> ('a, 's, 'd, 'f) call) \<Rightarrow> ('a \<Rightarrow> nat) \<Rightarrow>
       ('s, 'd, 'f) site \<Rightarrow> 'a cli \<times> ('s, 'd, 'f) site" where
  "registry_file local checks loaded f rejected si =
     (case loaded of
        Inl e \<Rightarrow> (if local e \<or> is_validation_error e then Exited 2 else Raised e, si)
      | Inr m \<Rightarrow> (case f m si of
            (Inl e, si') \<Rightarrow> (if local e \<or> is_validation_error e then Exited 2 else Raised e, si')
          | (Inr x, si') \<Rightarrow> (if checks \<and> rejected x \<noteq> 0 then Exited 1 else Printed x, si')))"

definition cli_apply ::
    "pyenv \<Rightarrow> (string \<Rightarrow> bool) \<Rightarrow> (py_error \<Rightarrow> bool) \<Rightarrow> datetime \<Rightarrow> manifest result \<Rightarrow> ('s, 'd, 'f) site \<Rightarrow> apply_result cli \<times> ('s, 'd, 'f) site" where
  "cli_apply env dv local now loaded = registry_file local False loaded (\<lambda>m. sdk_call (apply_registry env dv now m)) (\<lambda>_. 0)"

definition cli_plan ::
    "pyenv \<Rightarrow> (string \<Rightarrow> bool) \<Rightarrow> (py_error \<Rightarrow> bool) \<Rightarrow> manifest result \<Rightarrow> ('s, 'd, 'f) site \<Rightarrow> registry_plan cli \<times> ('s, 'd, 'f) site" where
  "cli_plan env dv local loaded = registry_file local True loaded (\<lambda>m. sdk_call (plan_registry env dv m)) p_rejected"

definition cli_target :: "object_kind \<Rightarrow> string \<Rightarrow> string option \<Rightarrow> string option \<Rightarrow> string + target" where
  "cli_target k name ver feat = (case mk_target k name ver feat of Inl e \<Rightarrow> Inl ''invalid target'' | Inr t \<Rightarrow> Inr t)"

definition cli_describe ::
    "pyenv \<Rightarrow> (string \<Rightarrow> bool) \<Rightarrow> object_kind \<Rightarrow> string \<Rightarrow> string option \<Rightarrow> string option \<Rightarrow> ('s, 'd, 'f) site \<Rightarrow> descriptor cli \<times> ('s, 'd, 'f) site" where
  "cli_describe env dv k name ver feat = cli_run (cli_target k name ver feat) (sdk_describe env dv)"

definition cli_activate ::
    "pyenv \<Rightarrow> (string \<Rightarrow> bool) \<Rightarrow> datetime \<Rightarrow> object_kind \<Rightarrow> string \<Rightarrow> string option \<Rightarrow> string option \<Rightarrow> ('s, 'd, 'f) site \<Rightarrow>
       descriptor cli \<times> ('s, 'd, 'f) site" where
  "cli_activate env dv now k name ver feat = cli_run (cli_target k name ver feat) (sdk_activate env dv now)"

subsubsection \<open>Metadata\<close>

fun tag_args :: "string list \<Rightarrow> (string \<times> string) list \<Rightarrow> string + (string \<times> string) list" where
  "tag_args [] d = Inr d"
| "tag_args (item # items) d =
     (case split_once (CHR ''='') item of
        None \<Rightarrow> Inl ''--tag values must use KEY=VALUE''
      | Some (k, v) \<Rightarrow>
          if k = [] then Inl ''--tag values must use KEY=VALUE''
          else if k \<in> fst ` set d then Inl (''duplicate tag key: '' @ k)
          else tag_args items (d @ [(k, v)]))"

definition truthy_list :: "'a list option \<Rightarrow> bool" where
  "truthy_list x \<longleftrightarrow> x \<noteq> None \<and> x \<noteq> Some []"

record metadata_options =
  mo_owner :: "string list option"
  mo_tag :: "string list option"
  mo_doc :: "string list option"
  mo_clear_owners :: bool
  mo_clear_tags :: bool
  mo_clear_docs :: bool

definition option_field :: "'a list option \<Rightarrow> bool \<Rightarrow> 'a list option option" where
  "option_field x clear = (if x \<noteq> None \<or> clear then Some (if clear then Some [] else x) else None)"

definition metadata_values :: "metadata_options \<Rightarrow> string + metadata_patch" where
  "metadata_values mo =
     (if truthy_list (mo_owner mo) \<and> mo_clear_owners mo then Inl ''--owner and --clear-owners cannot be combined''
      else if truthy_list (mo_tag mo) \<and> mo_clear_tags mo then Inl ''--tag and --clear-tags cannot be combined''
      else if truthy_list (mo_doc mo) \<and> mo_clear_docs mo then Inl ''--documentation and --clear-documentation cannot be combined''
      else (case tag_args (or_empty (mo_tag mo)) [] of
          Inl m \<Rightarrow> Inl m
        | Inr tags \<Rightarrow>
            let p = \<lparr>mp_owners = option_field (mo_owner mo) (mo_clear_owners mo),
                     mp_tags = option_field (if mo_tag mo = None then None else Some tags) (mo_clear_tags mo),
                     mp_links = option_field (mo_doc mo) (mo_clear_docs mo)\<rparr>
            in if mp_owners p = None \<and> mp_tags p = None \<and> mp_links p = None
               then Inl ''provide metadata values or an explicit clear flag'' else Inr p))"

definition metadata_options_of ::
    "pyenv \<Rightarrow> object_kind \<Rightarrow> string \<Rightarrow> string option \<Rightarrow> string option \<Rightarrow> metadata_options \<Rightarrow> string + (target \<times> metadata_patch)" where
  "metadata_options_of env k name ver feat mo =
     (case metadata_values mo of
        Inl m \<Rightarrow> Inl m
      | Inr p \<Rightarrow> (case cli_target k name ver feat of
            Inl m \<Rightarrow> Inl m
          | Inr t \<Rightarrow> (case validate_patch env p of Inl e \<Rightarrow> Inl ''invalid metadata'' | Inr _ \<Rightarrow> Inr (t, p))))"

definition cli_metadata ::
    "pyenv \<Rightarrow> (string \<Rightarrow> bool) \<Rightarrow> datetime \<Rightarrow> object_kind \<Rightarrow> string \<Rightarrow> string option \<Rightarrow> string option \<Rightarrow> metadata_options \<Rightarrow>
       ('s, 'd, 'f) site \<Rightarrow> descriptor cli \<times> ('s, 'd, 'f) site" where
  "cli_metadata env dv now k name ver feat mo =
     cli_run (metadata_options_of env k name ver feat mo) (\<lambda>(t, p). sdk_patch_metadata env dv now t p)"

subsubsection \<open>Deprecation\<close>

definition given_text :: "string option \<Rightarrow> bool" where
  "given_text x \<longleftrightarrow> x \<noteq> None \<and> x \<noteq> Some []"

definition deprecation_options ::
    "object_kind \<Rightarrow> string \<Rightarrow> string option \<Rightarrow> string option \<Rightarrow> string option \<Rightarrow> string option \<Rightarrow> string option \<Rightarrow>
       string + (target \<times> target option)" where
  "deprecation_options k name ver feat rep rep_ver rep_feat =
     (case cli_target k name ver feat of
        Inl m \<Rightarrow> Inl m
      | Inr t \<Rightarrow>
          if rep = None \<and> (given_text rep_ver \<or> given_text rep_feat) then Inl ''replacement options require --replacement''
          else (case rep of
              None \<Rightarrow> Inr (t, None)
            | Some r \<Rightarrow>
                if r = [] then Inr (t, None)
                else (case cli_target k r rep_ver (if rep_feat \<noteq> None then rep_feat else feat) of
                    Inl m \<Rightarrow> Inl m | Inr x \<Rightarrow> Inr (t, Some x))))"

definition cli_deprecate ::
    "pyenv \<Rightarrow> (string \<Rightarrow> bool) \<Rightarrow> datetime \<Rightarrow> object_kind \<Rightarrow> string \<Rightarrow> string option \<Rightarrow> string option \<Rightarrow> string option \<Rightarrow>
       string option \<Rightarrow> string option \<Rightarrow> string option \<Rightarrow> ('s, 'd, 'f) site \<Rightarrow> descriptor cli \<times> ('s, 'd, 'f) site" where
  "cli_deprecate env dv now k name ver feat message rep rep_ver rep_feat =
     cli_run (deprecation_options k name ver feat rep rep_ver rep_feat) (\<lambda>(t, r). sdk_deprecate env dv now t message r)"

subsubsection \<open>Reading and jobs\<close>

definition cli_online ::
    "('s, 'd, 'f) worker_env \<Rightarrow> (string \<Rightarrow> bool) \<Rightarrow> string \<Rightarrow> string list \<Rightarrow> ('s, 'd, 'f) site \<Rightarrow> query_response cli \<times> ('s, 'd, 'f) site" where
  "cli_online E dv text features si =
     (case bind_result (json_loads (we_env E) text) parse_dict_field of
        Inl e \<Rightarrow> (Raised e, si)
      | Inr d \<Rightarrow> cli_run (Inr d) (\<lambda>d. sdk_online E dv [d] (Some features) None) si)"

text \<open>What a loop over a loaded document visits.\<close>

definition iterated :: "pyval \<Rightarrow> pyval list result" where
  "iterated v =
     (case v of
        VList xs \<Rightarrow> Inr xs
      | VDict d \<Rightarrow> Inr (map (\<lambda>kv. VStr (fst kv)) d)
      | VStr s \<Rightarrow> Inr (map (\<lambda>c. VStr [c]) s)
      | _ \<Rightarrow> Inl (TypeError ''object is not iterable''))"

definition cli_historical ::
    "('s, 'd, 'f) worker_env \<Rightarrow> (string \<Rightarrow> bool) \<Rightarrow> string \<Rightarrow> int \<Rightarrow> string \<Rightarrow> string list \<Rightarrow> ('s, 'd, 'f) site \<Rightarrow> query_answer cli \<times> ('s, 'd, 'f) site" where
  "cli_historical E dv i now text features si =
     (case bind_result (json_loads (we_env E) text) iterated of
        Inl e \<Rightarrow> (Raised e, si)
      | Inr obs \<Rightarrow> cli_run (Inr obs) (\<lambda>obs. sdk_historical E dv i now (map Inr obs) (Some features) None) si)"

definition cli_incremental ::
    "('s, 'd, 'f) worker_env \<Rightarrow> (string \<Rightarrow> bool) \<Rightarrow> string \<Rightarrow> int \<Rightarrow> string \<Rightarrow> string option \<Rightarrow> int option \<Rightarrow> ('s, 'd, 'f) site \<Rightarrow> row cli \<times> ('s, 'd, 'f) site" where
  "cli_incremental E dv i now view e lookback si =
     (if (case lookback of None \<Rightarrow> False | Some n \<Rightarrow> n < 0) then (BadParameter ''lookback_seconds'', si)
      else (case e of
          None \<Rightarrow> cli_run (Inr ()) (\<lambda>_. sdk_incremental E dv i now view None lookback) si
        | Some s \<Rightarrow>
            if s = [] then cli_run (Inr ()) (\<lambda>_. sdk_incremental E dv i now view None lookback) si
            else (case env_fromiso (we_env E) s of
                None \<Rightarrow> (Raised (ValueError ''Invalid isoformat string''), si)
              | Some d \<Rightarrow> cli_run (Inr ()) (\<lambda>_. sdk_incremental E dv i now view (Some d) lookback) si)))"

definition cli_list ::
    "pyenv \<Rightarrow> (string \<Rightarrow> bool) \<Rightarrow> string option \<Rightarrow> ('s, 'd, 'f) site \<Rightarrow> listing list cli \<times> ('s, 'd, 'f) site" where
  "cli_list env dv kind = cli_run (Inr kind) (sdk_list_registry env dv)"

definition cli_backfill ::
    "('s, 'd, 'f) worker_env \<Rightarrow> (string \<Rightarrow> bool) \<Rightarrow> string \<Rightarrow> int \<Rightarrow> string \<Rightarrow> datetime \<Rightarrow> datetime \<Rightarrow> ('s, 'd, 'f) site \<Rightarrow> row cli \<times> ('s, 'd, 'f) site" where
  "cli_backfill E dv i now view s e = cli_run (Inr ()) (\<lambda>_. sdk_backfill E dv i now view s e)"

definition cli_materialize ::
    "('s, 'd, 'f) worker_env \<Rightarrow> (string \<Rightarrow> bool) \<Rightarrow> string \<Rightarrow> int \<Rightarrow> string \<Rightarrow> datetime \<Rightarrow> datetime \<Rightarrow> ('s, 'd, 'f) site \<Rightarrow> row cli \<times> ('s, 'd, 'f) site" where
  "cli_materialize E dv i now view s e = cli_run (Inr ()) (\<lambda>_. sdk_materialize E dv i now view s e)"

definition cli_jobs ::
    "pyenv \<Rightarrow> (string \<Rightarrow> bool) \<Rightarrow> (job list \<Rightarrow> job list result) \<Rightarrow> ('s, 'd, 'f) site \<Rightarrow> row list cli \<times> ('s, 'd, 'f) site" where
  "cli_jobs env dv unlimited = cli_run (Inr ()) (\<lambda>_. sdk_jobs env dv unlimited)"

definition cli_job :: "pyenv \<Rightarrow> string \<Rightarrow> ('s, 'd, 'f) site \<Rightarrow> row cli \<times> ('s, 'd, 'f) site" where
  "cli_job env i = cli_run (Inr i) (sdk_job env)"

definition cli_retry :: "('s, 'd, 'f) worker_env \<Rightarrow> int \<Rightarrow> string \<Rightarrow> ('s, 'd, 'f) site \<Rightarrow> row cli \<times> ('s, 'd, 'f) site" where
  "cli_retry E now i = cli_run (Inr i) (sdk_retry E now)"

definition cli_result :: "('s, 'd, 'f) worker_env \<Rightarrow> int \<Rightarrow> string \<Rightarrow> ('s, 'd, 'f) site \<Rightarrow> blob cli \<times> ('s, 'd, 'f) site" where
  "cli_result E now i = cli_run (Inr i) (\<lambda>i si. (sdk_download E now i si, si))"

end
