(* ===== verification/ClientLaws.thy ===== *)
theory ClientLaws
  imports Client
begin

section \<open>What arrives at the server\<close>

text \<open>
  A request of the client reaches its handler as it was built, the entity values of a query in their
  JSON form, or is not sent at all (\<open>requests_arrive\<close>). A metadata patch does not arrive as it was
  built: the fields the caller left out arrive as set to null, and the server clears them
  (\<open>sdk_patch_clears\<close>). The tag options of the command line are read exactly (\<open>tag_args_exact\<close>).
\<close>

subsection \<open>Tag options\<close>

definition tag_arg :: "string \<times> string \<Rightarrow> string" where
  "tag_arg kv = fst kv @ CHR ''='' # snd kv"

definition tag_key_ok :: "string \<Rightarrow> bool" where
  "tag_key_ok k \<longleftrightarrow> k \<noteq> [] \<and> CHR ''='' \<notin> set k"

lemma tag_args_exact:
  "tag_args items d = Inr r \<longleftrightarrow>
     (\<exists>ts. items = map tag_arg ts \<and> list_all (\<lambda>kv. tag_key_ok (fst kv)) ts \<and>
        (\<forall>kv \<in> set ts. fst kv \<notin> fst ` set d) \<and> distinct (map fst ts) \<and> r = d @ ts)"
proof (induction items arbitrary: d)
  case Nil
  then show ?case by auto
next
  case (Cons item items)
  show ?case
  proof (cases "split_once (CHR ''='') item")
    case None
    then have "CHR ''='' \<notin> set item" by (simp add: split_once_None)
    then show ?thesis using None by (auto simp: tag_arg_def)
  next
    case (Some kv)
    obtain k v where kv: "kv = (k, v)" by (cases kv)
    have item: "item = tag_arg (k, v)" "CHR ''='' \<notin> set k" using Some by (simp_all add: kv split_once_Some tag_arg_def)
    have uniq: "k' = k \<and> v' = v" if "item = tag_arg (k', v')" "tag_key_ok k'" for k' v'
      using that Some by (metis kv fst_conv snd_conv option.inject prod.inject split_once_Some tag_arg_def tag_key_ok_def)
    have head: "(\<exists>ts. item # items = map tag_arg ts \<and> list_all (\<lambda>kv. tag_key_ok (fst kv)) ts \<and> Q ts) \<longleftrightarrow>
        k \<noteq> [] \<and> (\<exists>ts. items = map tag_arg ts \<and> list_all (\<lambda>kv. tag_key_ok (fst kv)) ts \<and> Q ((k, v) # ts))" for Q
    proof
      assume "\<exists>ts. item # items = map tag_arg ts \<and> list_all (\<lambda>kv. tag_key_ok (fst kv)) ts \<and> Q ts"
      then obtain kv' ts where ts: "item = tag_arg kv'" "tag_key_ok (fst kv')" "items = map tag_arg ts"
          "list_all (\<lambda>kv. tag_key_ok (fst kv)) ts" "Q (kv' # ts)" by (auto simp: Cons_eq_map_conv)
      have "kv' = (k, v)" using uniq [of "fst kv'" "snd kv'"] ts(1,2) by (simp add: prod_eq_iff)
      then show "k \<noteq> [] \<and> (\<exists>ts. items = map tag_arg ts \<and> list_all (\<lambda>kv. tag_key_ok (fst kv)) ts \<and> Q ((k, v) # ts))"
        using ts by (auto simp: tag_key_ok_def)
    next
      assume "k \<noteq> [] \<and> (\<exists>ts. items = map tag_arg ts \<and> list_all (\<lambda>kv. tag_key_ok (fst kv)) ts \<and> Q ((k, v) # ts))"
      then obtain ts where "k \<noteq> []" "items = map tag_arg ts" "list_all (\<lambda>kv. tag_key_ok (fst kv)) ts" "Q ((k, v) # ts)" by blast
      then show "\<exists>ts. item # items = map tag_arg ts \<and> list_all (\<lambda>kv. tag_key_ok (fst kv)) ts \<and> Q ts"
        using item by (intro exI [of _ "(k, v) # ts"]) (simp add: tag_key_ok_def)
    qed
    show ?thesis
    proof (cases "k \<noteq> [] \<and> k \<notin> fst ` set d")
      case True
      then show ?thesis unfolding head using Some by (auto simp: kv Cons.IH)
    next
      case False
      then show ?thesis unfolding head using Some by (auto simp: kv)
    qed
  qed
qed

subsection \<open>A metadata patch\<close>

lemma finite_texts [simp]: "list_all finite_json (map VStr xs)" "finite_json (opt_str x)" "finite_json (tags_doc ts)"
  by (induction xs) (simp_all add: opt_str_def tags_doc_def list_all_iff split: option.split)

lemma finite_nullable: "(\<And>y. finite_json (f y)) \<Longrightarrow> finite_json (nullable_doc f x)"
  by (simp add: nullable_doc_def split: option.split)

lemma finite_target [simp]: "finite_json (target_doc t)"
  by (simp add: target_doc_def)

lemma finite_update: "finite_json (update_doc t p)"
  by (simp add: update_doc_def patch_doc_def finite_nullable)

lemma patched_life:
  assumes "record_for_target reg t = Inr r"
  shows "record_life (fst (patch_metadata env now reg t p)) r (t_feature t)
    = Some (patch_life p now (life_before reg (r_id r) (t_feature t) now))"
  using assms by (simp add: patch_metadata_def Let_def record_life_def find_put_life)

text \<open>
  C31. A metadata patch of the client clears what it does not mention: the document has a null for
  every field that was not set, the server counts it as set, and the row of the target ends with no
  owners, tags or links but those of the patch. The same patch given to the registry leaves the
  fields it does not mention as they are.
\<close>

theorem sdk_patch_clears:
  assumes "valid_target t" "validate_patch env p = Inr ()" "record_for_target (si_registry si) t = Inr r"
  shows "(\<exists>l. record_life (si_registry (snd (sdk_patch_metadata env dv now t p si))) r (t_feature t) = Some l \<and>
      l_owners l = or_empty (present (mp_owners p)) \<and> l_tags l = (case present (mp_tags p) of None \<Rightarrow> [] | Some ts \<Rightarrow> ts) \<and>
      l_links l = or_empty (present (mp_links p))) \<and>
    (\<exists>l. record_life (fst (patch_metadata env now (si_registry si) t p)) r (t_feature t) = Some l \<and>
      (mp_owners p = None \<longrightarrow> l_owners l = life_owners (record_life (si_registry si) r (t_feature t))) \<and>
      (mp_tags p = None \<longrightarrow> l_tags l = life_tags (record_life (si_registry si) r (t_feature t))) \<and>
      (mp_links p = None \<longrightarrow> l_links l = life_links (record_life (si_registry si) r (t_feature t))))"
proof (intro conjI)
  have "snd (sdk_patch_metadata env dv now t p si)
      = si\<lparr>si_registry := fst (patch_metadata env now (si_registry si) t (filled p))\<rparr>"
    using parse_update_doc [OF assms(1,2)]
    by (simp add: sdk_patch_metadata_def sdk_send_def encoded_def finite_update sdk_call_def with_body_def patch_registry_metadata_def on_registry_def
        split: prod.split)
  then have sdk: "record_life (si_registry (snd (sdk_patch_metadata env dv now t p si))) r (t_feature t)
      = Some (patch_life (filled p) now (life_before (si_registry si) (r_id r) (t_feature t) now))"
    using patched_life [OF assms(3)] by simp
  show "\<exists>l. record_life (si_registry (snd (sdk_patch_metadata env dv now t p si))) r (t_feature t) = Some l \<and>
      l_owners l = or_empty (present (mp_owners p)) \<and> l_tags l = (case present (mp_tags p) of None \<Rightarrow> [] | Some ts \<Rightarrow> ts) \<and>
      l_links l = or_empty (present (mp_links p))"
    unfolding sdk by (simp add: patch_life_def filled_def patched_def or_empty_def split: option.split)
  show "\<exists>l. record_life (fst (patch_metadata env now (si_registry si) t p)) r (t_feature t) = Some l \<and>
      (mp_owners p = None \<longrightarrow> l_owners l = life_owners (record_life (si_registry si) r (t_feature t))) \<and>
      (mp_tags p = None \<longrightarrow> l_tags l = life_tags (record_life (si_registry si) r (t_feature t))) \<and>
      (mp_links p = None \<longrightarrow> l_links l = life_links (record_life (si_registry si) r (t_feature t)))"
    unfolding patched_life [OF assms(3)]
    by (simp add: patch_life_def patched_def life_before_def record_life_def life_owners_def life_tags_def life_links_def new_life_def
        split: option.split)
qed

text \<open>A command that sets an owner of a tagged target removes its tags.\<close>

definition tagged_site :: "(hashes, lake, disk) site" where
  "tagged_site = shop_site\<lparr>si_registry := shop_registry\<lparr>reg_lives :=
     [(new_life 0 None (Aware 0 0))\<lparr>l_tags := [(''team'', ''fraud'')]\<rparr>]\<rparr>\<rparr>"

definition owner_options :: metadata_options where
  "owner_options = \<lparr>mo_owner = Some [''ada''], mo_tag = None, mo_doc = None, mo_clear_owners = False, mo_clear_tags = False, mo_clear_docs = False\<rparr>"

definition owner_patch :: metadata_patch where
  "owner_patch = \<lparr>mp_owners = Some (Some [''ada'']), mp_tags = None, mp_links = None\<rparr>"

definition user_target :: target where
  "user_target = \<lparr>t_kind = KEntity, t_name = ''user'', t_version = None, t_feature = None\<rparr>"

lemma owner_patch_ok: "validate_patch demo_env owner_patch = Inr ()"
  by (simp add: validate_patch_def owner_patch_def present_def validate_metadata_values_def check_opt_def owners_ok_def blank_def
      strip_def lstrip_def is_space_def ensure_def)

lemma user_target_ok: "mk_target KEntity ''user'' None None = Inr user_target"
  by (simp add: mk_target_def user_target_def name_eval)

lemma owner_command: "metadata_options_of demo_env KEntity ''user'' None None owner_options = Inr (user_target, owner_patch)"
proof -
  have "metadata_values owner_options = Inr owner_patch"
    by (simp add: metadata_values_def owner_options_def truthy_list_def option_field_def or_empty_def owner_patch_def)
  then show ?thesis by (simp add: metadata_options_of_def cli_target_def user_target_ok owner_patch_ok)
qed

lemma sdk_patch_clears_witness:
  "life_tags (record_life (si_registry tagged_site) (shop_row 0 (SEntity shop_entity)) None) = [(''team'', ''fraud'')] \<and>
   metadata_options_of demo_env KEntity ''user'' None None owner_options = Inr (user_target, owner_patch) \<and>
   life_tags (record_life (si_registry (snd (cli_metadata demo_env (\<lambda>_. False) (Aware 5 0) KEntity ''user'' None None owner_options tagged_site)))
     (shop_row 0 (SEntity shop_entity)) None) = []"
proof -
  have t: "valid_target user_target" using user_target_ok mk_target_eq_Inr by blast
  have r: "record_for_target (si_registry tagged_site) user_target = Inr (shop_row 0 (SEntity shop_entity))"
    by (simp add: tagged_site_def shop_site_def record_for_target_def user_target_def get_record_def find_record_def
        shop_registry_def record_key_def shop_row_def shop_entity_def version_text_def)
  have old: "life_tags (record_life (si_registry tagged_site) (shop_row 0 (SEntity shop_entity)) None) = [(''team'', ''fraud'')]"
    by (simp add: tagged_site_def life_tags_def record_life_def find_life_def life_key_def shop_row_def new_life_def)
  have f: "t_feature user_target = None" by (simp add: user_target_def)
  have "snd (cli_metadata demo_env (\<lambda>_. False) (Aware 5 0) KEntity ''user'' None None owner_options tagged_site)
      = snd (sdk_patch_metadata demo_env (\<lambda>_. False) (Aware 5 0) user_target owner_patch tagged_site)"
    by (simp add: cli_metadata_def cli_run_def owner_command split: prod.split sum.split)
  moreover have "life_tags (record_life (si_registry (snd (sdk_patch_metadata demo_env (\<lambda>_. False) (Aware 5 0) user_target owner_patch tagged_site)))
      (shop_row 0 (SEntity shop_entity)) None) = []"
    using sdk_patch_clears [OF t owner_patch_ok r, of "\<lambda>_. False" "Aware 5 0"] by (auto simp: f life_tags_def owner_patch_def present_def)
  ultimately show ?thesis using old owner_command by simp
qed

subsection \<open>The other requests\<close>

lemma sdk_send_arrives:
  "built = Inr b \<Longrightarrow> finite_json (dump b) \<Longrightarrow> parse (dump b) = Inr x \<Longrightarrow> sdk_send built dump parse h = sdk_call (h x)"
  by (rule ext) (simp add: sdk_send_def encoded_def with_body_def sdk_call_def)

lemma sdk_send_runs:
  "built = Inr b \<Longrightarrow> parse (dump b) = Inr x \<Longrightarrow>
     sdk_send built dump parse h = (if finite_json (dump b) then sdk_call (h x) else (\<lambda>si. (Inl not_standard, si)))"
  by (rule ext) (simp add: sdk_send_def encoded_def with_body_def sdk_call_def)

lemma finite_json_mode [simp]: "finite_json (json_mode env v) = finite_json v"
  by (induction env v rule: json_mode.induct) (auto simp: list_all_iff)

lemma finite_online: "finite_json (online_query_doc env q) = list_all (\<lambda>r. finite_json (VDict r)) (oq_entities q)"
  by (simp add: online_query_doc_def list_all_iff)

lemma finite_observation: "finite_json (observation_doc env ob) = finite_json (VDict (ob_entity ob))"
  by (simp add: observation_doc_def del: json_mode.simps)

lemma finite_historical:
  "finite_json (query_doc env q) = list_all (\<lambda>ob. finite_json (VDict (ob_entity ob))) (hq_observations q)"
  by (simp add: query_doc_def list_all_iff finite_observation split: option.split)

lemma finite_requests [simp]:
  "finite_json (deprecation_doc t m r)" "finite_json (activation_doc t)" "finite_json (job_request_doc env jr)"
  "finite_json (incremental_doc env ir)"
  by (simp_all add: deprecation_doc_def activation_doc_def job_request_doc_def incremental_doc_def some_field_def finite_nullable
      split: option.split)

text \<open>An observation that can be written down: it has a time zone, and its time is read back.\<close>

definition dated :: "pyenv \<Rightarrow> observation \<Rightarrow> bool" where
  "dated env ob \<longleftrightarrow> has_tz (ob_time ob) \<and> time_reads_back env (ob_time ob)"

lemma mk_job_request_fields: "mk_job_request view s e = Inr r \<Longrightarrow> jr_view r = view \<and> jr_start r = s \<and> jr_end r = e"
  by (auto simp: mk_job_request_def split: if_splits)

lemma mk_incremental_fields:
  "mk_incremental_request view e n = Inr r \<Longrightarrow> ir_view r = view \<and> ir_end r = e \<and> ir_lookback r = n"
  by (auto simp: mk_incremental_request_def split: if_splits)

lemma mk_online_fields: "mk_online_query es fs s = Inr q \<Longrightarrow> oq_entities q = es \<and> oq_features q = fs \<and> oq_service q = s"
  by (auto simp: mk_online_query_def bind_result_eq_Inr)

lemma mk_historical_fields:
  "mk_historical_query xs fs s = Inr q \<Longrightarrow> one_selector (hq_features q) (hq_service q) = Inr () \<and> hq_observations q = xs"
  by (auto simp: mk_historical_query_def bind_result_eq_Inr)

text \<open>
  C30. What becomes of every other request of the client. Deprecations, activations, explicit and
  incremental jobs reach their handler exactly as they were built. Online and historical queries
  reach it with their entity values in JSON form: a datetime (the value of a TIMESTAMP join key, say)
  arrives as its text, what JSON knows arrives unchanged (\<open>json_row_id\<close>). A query with an entity value that is
  not a finite number is not sent: the call raises and the site is as before.
\<close>

theorem requests_arrive:
  assumes "valid_target t" "pred_option valid_target r" "pred_option (\<lambda>s. length s \<le> 2000) m"
    and "mk_job_request view s e = Inr jr" "time_reads_back (we_env E) s" "time_reads_back (we_env E) e"
    and "mk_incremental_request view e' n = Inr ir" "pred_option (time_reads_back (we_env E)) e'"
    and "mk_online_query es (or_empty fs) service = Inr oq"
    and "traverse (given_observation (we_env E)) obs = Inr xs" "list_all (dated (we_env E)) xs"
    and "mk_historical_query xs (or_empty fs) service = Inr hq"
  shows "sdk_deprecate (we_env E) dv now t m r = sdk_call (deprecate_registry_object (we_env E) dv now (t, m, r)) \<and>
    sdk_activate (we_env E) dv now t = sdk_call (activate_registry_object (we_env E) dv now t) \<and>
    sdk_backfill E dv i k view s e = sdk_call (create_backfill E dv i k jr) \<and>
    sdk_materialize E dv i k view s e = sdk_call (create_materialization E dv i k jr) \<and>
    sdk_incremental E dv i k view e' n = sdk_call (create_incremental_materialization E dv i k ir) \<and>
    sdk_online E dv es fs service =
      (if list_all (\<lambda>x. finite_json (VDict x)) es then sdk_call (read_online E dv (oq\<lparr>oq_entities := map (json_row (we_env E)) es\<rparr>))
       else (\<lambda>si. (Inl not_standard, si))) \<and>
    sdk_historical E dv i k obs fs service =
      (if list_all (\<lambda>ob. finite_json (VDict (ob_entity ob))) xs
       then sdk_call (query_historical E dv i k
         (hq\<lparr>hq_observations := map (\<lambda>ob. ob\<lparr>ob_entity := json_row (we_env E) (ob_entity ob)\<rparr>) xs\<rparr>))
       else (\<lambda>si. (Inl not_standard, si)))"
proof (intro conjI)
  note jr = mk_job_request_fields [OF assms(4)] and ir = mk_incremental_fields [OF assms(7)]
    and oq = mk_online_fields [OF assms(9)] and hq = mk_historical_fields [OF assms(12)]
  have built: "build_deprecation t m r = Inr (t, m, r)"
    using assms(3) by (auto simp: build_deprecation_def mk_note_def split: option.split)
  show "sdk_deprecate (we_env E) dv now t m r = sdk_call (deprecate_registry_object (we_env E) dv now (t, m, r))"
    unfolding sdk_deprecate_def by (rule sdk_send_arrives, rule built) (simp_all add: parse_deprecation_doc [OF assms(1-3)])
  show "sdk_activate (we_env E) dv now t = sdk_call (activate_registry_object (we_env E) dv now t)"
    unfolding sdk_activate_def by (rule sdk_send_arrives, rule refl) (simp_all add: parse_activation_doc [OF assms(1)])
  have job: "parse_job_request (we_env E) (job_request_doc (we_env E) jr) = Inr jr"
    using assms(4-6) jr by (intro parse_job_request_doc) simp_all
  show "sdk_backfill E dv i k view s e = sdk_call (create_backfill E dv i k jr)"
    "sdk_materialize E dv i k view s e = sdk_call (create_materialization E dv i k jr)"
    unfolding sdk_backfill_def sdk_materialize_def sdk_create_job_def
    by (rule sdk_send_arrives, rule assms(4), rule finite_requests, rule job)+
  have incr: "parse_incremental (we_env E) (incremental_doc (we_env E) ir) = Inr ir"
    using assms(7,8) ir by (intro parse_incremental_doc) simp_all
  show "sdk_incremental E dv i k view e' n = sdk_call (create_incremental_materialization E dv i k ir)"
    unfolding sdk_incremental_def by (rule sdk_send_arrives, rule assms(7), rule finite_requests, rule incr)
  have online: "parse_online_query (online_query_doc (we_env E) oq) = Inr (oq\<lparr>oq_entities := map (json_row (we_env E)) es\<rparr>)"
    using assms(9) oq parse_online_query_doc [of oq "we_env E"] by (simp add: json_online_def)
  show "sdk_online E dv es fs service =
      (if list_all (\<lambda>x. finite_json (VDict x)) es then sdk_call (read_online E dv (oq\<lparr>oq_entities := map (json_row (we_env E)) es\<rparr>))
       else (\<lambda>si. (Inl not_standard, si)))"
    unfolding sdk_online_def by (subst sdk_send_runs, rule assms(9), rule online) (simp add: finite_online oq)
  have given: "bind_result (traverse (given_observation (we_env E)) obs) (\<lambda>obs. mk_historical_query obs (or_empty fs) service) = Inr hq"
    using assms(10,12) by simp
  have historical: "parse_query (we_env E) (query_doc (we_env E) hq)
      = Inr (hq\<lparr>hq_observations := map (\<lambda>ob. ob\<lparr>ob_entity := json_row (we_env E) (ob_entity ob)\<rparr>) xs\<rparr>)"
    using parse_historical_json [of hq "we_env E"] assms(11) hq
    by (simp add: json_historical_def json_observation_def dated_def list_all_iff cong: map_cong)
  show "sdk_historical E dv i k obs fs service =
      (if list_all (\<lambda>ob. finite_json (VDict (ob_entity ob))) xs
       then sdk_call (query_historical E dv i k
         (hq\<lparr>hq_observations := map (\<lambda>ob. ob\<lparr>ob_entity := json_row (we_env E) (ob_entity ob)\<rparr>) xs\<rparr>))
       else (\<lambda>si. (Inl not_standard, si)))"
    unfolding sdk_historical_def by (subst sdk_send_runs, rule given, rule historical) (simp add: finite_historical hq)
qed

text \<open>An environment that tells two times apart.\<close>

definition two_times :: pyenv where
  "two_times = demo_env\<lparr>env_dump_time := (\<lambda>d. if d = Aware 5 0 then ''a'' else ''b''),
     env_parse_time := (\<lambda>v. if v = VStr ''a'' then Some (Aware 5 0) else Some (Aware 9 0))\<rparr>"

definition two_times_worker :: "(hashes, lake, disk) worker_env" where
  "two_times_worker = shop_worker\<lparr>we_env := two_times\<rparr>"

text \<open>A user looked up by a time, and an observation of one.\<close>

definition by_time :: row where
  "by_time = [(''seen_at'', VTime (Aware 9 0))]"

definition ob_by_time :: observation where
  "ob_by_time = \<lparr>ob_entity = by_time, ob_time = Aware 5 0\<rparr>"

lemma requests_arrive_witness:
  "sdk_backfill two_times_worker (\<lambda>_. True) ''j1'' 0 ''spend@1.0.0'' (Aware 5 0) (Aware 9 0)
     = sdk_call (create_backfill two_times_worker (\<lambda>_. True) ''j1'' 0 \<lparr>jr_view = ''spend@1.0.0'', jr_start = Aware 5 0, jr_end = Aware 9 0\<rparr>) \<and>
   sdk_historical two_times_worker (\<lambda>_. True) ''j1'' 0 [Inl ob_by_time] (Some (hq_features asking)) None
     = sdk_call (query_historical two_times_worker (\<lambda>_. True) ''j1'' 0
         \<lparr>hq_observations = [\<lparr>ob_entity = [(''seen_at'', VStr ''b'')], ob_time = Aware 5 0\<rparr>], hq_features = hq_features asking, hq_service = None\<rparr>) \<and>
   sdk_online two_times_worker (\<lambda>_. True) [by_time, [(''user_id'', VFloat NotANumber)]] (Some (hq_features asking)) None
     = (\<lambda>si. (Inl not_standard, si))"
proof -
  have env: "we_env two_times_worker = two_times" by (simp add: two_times_worker_def)
  have t: "valid_target user_target" using user_target_ok mk_target_eq_Inr by blast
  have jr: "mk_job_request ''spend@1.0.0'' (Aware 5 0) (Aware 9 0) = Inr \<lparr>jr_view = ''spend@1.0.0'', jr_start = Aware 5 0, jr_end = Aware 9 0\<rparr>"
    by (simp add: mk_job_request_def)
  have ir: "mk_incremental_request ''spend@1.0.0'' None None = Inr \<lparr>ir_view = ''spend@1.0.0'', ir_end = None, ir_lookback = None\<rparr>"
    by (simp add: mk_incremental_request_def)
  have times: "time_reads_back (we_env two_times_worker) (Aware 5 0)" "time_reads_back (we_env two_times_worker) (Aware 9 0)"
    by (simp_all add: env two_times_def time_reads_back_def)
  let ?es = "[by_time, [(''user_id'', VFloat NotANumber)]]"
  have oq: "mk_online_query ?es (or_empty (Some (hq_features asking))) None = Inr \<lparr>oq_entities = ?es, oq_features = hq_features asking, oq_service = None\<rparr>"
    by (simp add: mk_online_query_def one_selector_def or_empty_def asking_def)
  have obs: "traverse (given_observation (we_env two_times_worker)) [Inl ob_by_time] = Inr [ob_by_time]"
    by (simp add: given_observation_def)
  have dated: "list_all (dated (we_env two_times_worker)) [ob_by_time]" using times(1) by (simp add: dated_def ob_by_time_def)
  have hq: "mk_historical_query [ob_by_time] (or_empty (Some (hq_features asking))) None =
      Inr \<lparr>hq_observations = [ob_by_time], hq_features = hq_features asking, hq_service = None\<rparr>"
    by (simp add: mk_historical_query_def one_selector_def or_empty_def asking_def)
  have none: "pred_option valid_target None" "pred_option (\<lambda>s. length s \<le> 2000) None"
    "pred_option (time_reads_back (we_env two_times_worker)) None" by simp_all
  note run = requests_arrive [OF t none(1,2) jr times ir none(3) oq obs dated hq, of "\<lambda>_. True" "Aware 0 0" "''j1''" 0]
  have arrived: "json_row two_times by_time = [(''seen_at'', VStr ''b'')]" by (simp add: json_row_def by_time_def two_times_def)
  show ?thesis using run by (simp add: by_time_def ob_by_time_def env arrived [unfolded by_time_def]) blast
qed

end
