(* ===== verification/WorkerLoop.thy ===== *)
theory WorkerLoop
  imports ExecutionLaws
begin

section \<open>The worker process\<close>

text \<open>
  \<open>worker.py\<close>: the heartbeat thread of a running job, and one turn of the loop: the sweep of expired
  artifacts when it is due, a claim, and the execution of the claimed job; and the gauges of
  \<open>observability.py\<close> that the loop refreshes from the database. \<open>heartbeats_keep_lease\<close> says how long the
  thread keeps a job owned, \<open>sweep_keeps_candidates\<close> that the sweep does not get in the way of the
  claim. The two runs of a job are not put together: \<open>lease_lasts\<close>, which \<open>execute_settles\<close> assumes, asks more of
  the lease at the start of the job than a thread that renews it would need.
\<close>

subsection \<open>Heartbeats\<close>

text \<open>
  A beat of the thread: whether its session raised, what other sessions did to the database before,
  and the clock. The list ends when the main thread sets the event. The result tells whether the
  lease was still held.
\<close>

type_synonym beat = "bool \<times> (database \<Rightarrow> database) \<times> int"

fun heartbeat_loop :: "settings \<Rightarrow> string \<Rightarrow> string \<Rightarrow> beat list \<Rightarrow> database \<Rightarrow> bool \<times> database" where
  "heartbeat_loop st i token [] db = (True, db)"
| "heartbeat_loop st i token ((raised, others, now) # beats) db =
     (if raised then heartbeat_loop st i token beats (others db)
      else (case heartbeat st i token now (others db) of
          (alive, db') \<Rightarrow> if alive then heartbeat_loop st i token beats db' else (False, db')))"

subsection \<open>The sweep of expired artifacts\<close>

fun sweep_jobs :: "('s, 'd, 'f) worker_env \<Rightarrow> int \<Rightarrow> job list \<Rightarrow> nat \<Rightarrow> (nat, 's, 'd, 'f) work" where
  "sweep_jobs E now [] n = ret n"
| "sweep_jobs E now (j # js) n =
     then_act (work_files (delete_job (we_files E) (we_path E) (work_root E) (j_id j))) (
     bind_act (read_act (\<lambda>w. rowcount (\<lambda>r. j_id r = j_id j \<and> j_cleaned r = None) (db_jobs (wk_db w)))) (\<lambda>k.
     then_act (change (\<lambda>w. w\<lparr>wk_db := update_jobs (\<lambda>r. j_id r = j_id j \<and> j_cleaned r = None) (\<lambda>r. r\<lparr>j_cleaned := Some now\<rparr>) (wk_db w)\<rparr>))
       (sweep_jobs E now js (n + k))))"

definition sweep :: "('s, 'd, 'f) worker_env \<Rightarrow> (nat, 's, 'd, 'f) work" where
  "sweep E =
     bind_act (tick E) (\<lambda>now.
     bind_act (read_act (\<lambda>w. filter (expired_query now) (db_jobs (wk_db w)))) (\<lambda>js. sweep_jobs E now js 0))"

subsection \<open>One turn of the loop\<close>

definition claim :: "('s, 'd, 'f) worker_env \<Rightarrow> string \<Rightarrow> string \<Rightarrow> (job option, 's, 'd, 'f) work" where
  "claim E owner token =
     bind_act (tick E) (\<lambda>now. \<lambda>w.
       case claim_next (we_settings E) owner token now (wk_db w) of (jo, db) \<Rightarrow> (Inr jo, w\<lparr>wk_db := db\<rparr>))"

text \<open>
  An exception of the sweep is logged. Its session goes on: the rows it has marked so far are
  committed by the claim, if that commits anything, and rolled back otherwise.
\<close>

definition claim_commits :: "('s, 'd, 'f) worker_env \<Rightarrow> ('s, 'd, 'f) worker \<Rightarrow> bool" where
  "claim_commits E w \<longleftrightarrow> candidate (we_now E (wk_ticks w)) (db_jobs (we_others E (wk_ticks w) (wk_db w))) \<noteq> None"

definition unswept :: "('s, 'd, 'f) worker_env \<Rightarrow> ('s, 'd, 'f) worker \<Rightarrow> database" where
  "unswept E w = we_others E (Suc (wk_ticks w)) (we_others E (wk_ticks w) (wk_db w))"

definition claim_after_sweep ::
    "('s, 'd, 'f) worker_env \<Rightarrow> string \<Rightarrow> string \<Rightarrow> ('s, 'd, 'f) worker \<Rightarrow> job option result \<times> ('s, 'd, 'f) worker" where
  "claim_after_sweep E owner token w =
     (case sweep E w of
        (Inr _, w1) \<Rightarrow> claim E owner token w1
      | (Inl _, w1) \<Rightarrow>
          (case claim E owner token w1 of
             (r, w2) \<Rightarrow> (r, if claim_commits E w1 then w2 else w2\<lparr>wk_db := unswept E w\<rparr>)))"

definition worker_turn ::
    "('s, 'd, 'f) worker_env \<Rightarrow> int \<Rightarrow> string \<Rightarrow> int \<Rightarrow> string \<Rightarrow> int \<times> ('s, 'd, 'f) worker \<Rightarrow> unit result \<times> int \<times> ('s, 'd, 'f) worker" where
  "worker_turn E interval owner current token lw =
     (case lw of (last_cleanup, w) \<Rightarrow>
       (case (if interval \<le> current - last_cleanup then (claim_after_sweep E owner token w, current)
              else (claim E owner token w, last_cleanup)) of
          ((r, w'), last') \<Rightarrow>
            (case r of
               Inl e \<Rightarrow> (Inl e, last', w')
             | Inr None \<Rightarrow> (Inr (), last', w')
             | Inr (Some j) \<Rightarrow> (case execute E j w' of (x, w'') \<Rightarrow> (x, last', w'')))))"

subsection \<open>Gauges\<close>

definition age_of :: "int \<Rightarrow> int option \<Rightarrow> int" where
  "age_of now oldest = (case oldest of None \<Rightarrow> 0 | Some t \<Rightarrow> max 0 (now - t))"

definition oldest_of :: "int list \<Rightarrow> int option" where
  "oldest_of ts = (if ts = [] then None else Some (Min (set ts)))"

definition gauge :: "int \<Rightarrow> int list \<Rightarrow> nat \<times> int" where
  "gauge now created = (length created, age_of now (oldest_of created))"

definition job_gauge :: "int \<Rightarrow> database \<Rightarrow> job_status \<Rightarrow> nat \<times> int" where
  "job_gauge now db s = gauge now (map j_created (filter (\<lambda>j. j_status j = s) (db_jobs db)))"

definition ledger_gauge :: "int \<Rightarrow> database \<Rightarrow> event_state \<Rightarrow> nat \<times> int" where
  "ledger_gauge now db s = gauge now (map er_created (filter (\<lambda>r. er_state r = s) (db_events db)))"

definition view_ages :: "int \<Rightarrow> (mat_state \<Rightarrow> int option) \<Rightarrow> database \<Rightarrow> (string \<times> int) list" where
  "view_ages now f db =
     concat (map (\<lambda>s. case f s of None \<Rightarrow> [] | Some t \<Rightarrow> [(ms_view s, max 0 (now - t))]) (db_states db))"

record gauges =
  ga_jobs :: "(job_status \<times> nat \<times> int) list"
  ga_ledger :: "(event_state \<times> nat \<times> int) list"
  ga_watermarks :: "(string \<times> int) list"
  ga_sources :: "(string \<times> int) list"

definition operational_gauges :: "int \<Rightarrow> database \<Rightarrow> gauges" where
  "operational_gauges now db =
     \<lparr>ga_jobs = map (\<lambda>s. (s, job_gauge now db s)) [Pending, Retrying, Running],
      ga_ledger = map (\<lambda>s. (s, ledger_gauge now db s)) [EPending, EStaged],
      ga_watermarks = view_ages now ms_watermark db, ga_sources = view_ages now ms_freshness db\<rparr>"

subsection \<open>The heartbeat keeps the lease\<close>

text \<open>
  The beats come in time: each one that reaches the database does so before the lease that the one
  before it has set.
\<close>

fun lease_after :: "int \<Rightarrow> int \<Rightarrow> beat list \<Rightarrow> int option" where
  "lease_after d t [] = Some t"
| "lease_after d t ((raised, others, now) # beats) =
     (if raised then lease_after d t beats else if now < t then lease_after d (now + d) beats else None)"

text \<open>
  Sessions that leave the primary key and the state, token and lease of a row alone: those that do
  not touch the row, and the checkpoint commits of the job itself, but not a cancellation.
\<close>

definition leaves_job :: "string \<Rightarrow> (database \<Rightarrow> database) \<Rightarrow> bool" where
  "leaves_job i f \<longleftrightarrow> (\<forall>db j. job_ids_unique db \<and> find_job db i = Some j \<longrightarrow> job_ids_unique (f db) \<and>
     (\<exists>j'. find_job (f db) i = Some j' \<and> j_status j' = j_status j \<and> j_token j' = j_token j \<and> j_lease j' = j_lease j))"

definition saving :: "string \<Rightarrow> string \<Rightarrow> int \<Rightarrow> string list \<Rightarrow> database \<Rightarrow> database" where
  "saving i token now cps db = (case commit_checkpoints i token now cps db of Inl _ \<Rightarrow> db | Inr db' \<Rightarrow> db')"

lemma saving_leaves_job: "leaves_job i (saving k token now cps)"
  unfolding leaves_job_def
proof (intro allI impI)
  fix db j
  assume job: "job_ids_unique db \<and> find_job db i = Some j"
  let ?f = "\<lambda>r. if leased k token now r then r\<lparr>j_checkpoints := cps\<rparr> else r"
  have "find (\<lambda>r. j_id r = i) (map ?f rs) = map_option ?f (find (\<lambda>r. j_id r = i) rs)" for rs by (induction rs) auto
  then have "find_job (update_jobs (leased k token now) (\<lambda>r. r\<lparr>j_checkpoints := cps\<rparr>) db) i = Some (?f j)"
    using job by (simp add: find_job_def sql_update_def)
  moreover have "job_ids_unique (update_jobs (leased k token now) (\<lambda>r. r\<lparr>j_checkpoints := cps\<rparr>) db)"
    using job by (simp add: job_ids_unique_def sql_update_keeps_map)
  ultimately show "job_ids_unique (saving k token now cps db) \<and>
      (\<exists>j'. find_job (saving k token now cps db) i = Some j' \<and> j_status j' = j_status j \<and> j_token j' = j_token j \<and> j_lease j' = j_lease j)"
    using job by (auto simp: saving_def commit_checkpoints_def)
qed

definition held :: "string \<Rightarrow> string \<Rightarrow> int \<Rightarrow> database \<Rightarrow> bool" where
  "held i token t db \<longleftrightarrow> job_ids_unique db \<and>
     (\<exists>j. find_job db i = Some j \<and> j_status j = Running \<and> j_token j = Some token \<and> j_lease j = Some t)"

lemma held_leased:
  assumes "held i token t db"
  shows "r \<in> set (db_jobs db) \<Longrightarrow> leased i token now r \<longleftrightarrow> j_id r = i \<and> now < t"
proof -
  obtain j where j: "find_job db i = Some j" "j_status j = Running" "j_token j = Some token" "j_lease j = Some t"
      and u: "job_ids_unique db" using assms by (auto simp: held_def)
  assume r: "r \<in> set (db_jobs db)"
  have "r = j" if "j_id r = i" using row_of_id [OF u r] find_job_row [OF u, of i j] that j(1) by simp
  then show "leased i token now r \<longleftrightarrow> j_id r = i \<and> now < t" using j by (auto simp: leased_def)
qed

lemma held_row: "held i token t db \<Longrightarrow> \<exists>j \<in> set (db_jobs db). j_id j = i"
  by (auto simp: held_def find_job_def find_Some_iff)

lemma held_owns:
  assumes "held i token t db"
  shows "owns i token now db \<longleftrightarrow> now < t"
  using held_leased [OF assms] held_row [OF assms] by (auto simp: owns_def rowcount_def filter_empty_conv)

lemma held_beat:
  assumes "held i token t db" "now < t"
  shows "heartbeat st i token now db = (True, snd (heartbeat st i token now db)) \<and>
    held i token (now + seconds (st_lease st)) (snd (heartbeat st i token now db))"
proof -
  obtain j where j: "find_job db i = Some j" "j_status j = Running" "j_token j = Some token" and u: "job_ids_unique db"
    using assms(1) by (auto simp: held_def)
  let ?f = "\<lambda>j. j\<lparr>j_lease := Some (now + seconds (st_lease st)), j_heartbeat := Some now\<rparr>"
  have rows: "db_jobs (snd (heartbeat st i token now db)) = sql_update (\<lambda>r. j_id r = i) ?f (db_jobs db)"
    using held_leased [OF assms(1)] assms(2) by (auto simp: heartbeat_def update_jobs_def sql_update_def)
  have "find_job (snd (heartbeat st i token now db)) i = Some (?f j)"
    using j(1) find_sql_update [of j_id ?f i i "db_jobs db"] by (simp add: find_job_def rows)
  moreover have "job_ids_unique (snd (heartbeat st i token now db))"
    using u unfolding job_ids_unique_def rows by (simp add: sql_update_keeps_map)
  ultimately show ?thesis using j held_owns [OF assms(1)] assms(2) by (auto simp: held_def heartbeat_def)
qed

lemma late_beat:
  assumes "held i token t db" "\<not> now < t"
  shows "heartbeat st i token now db = (False, db)"
proof -
  have "sql_update (leased i token now) f (db_jobs db) = db_jobs db" for f
    using held_leased [OF assms(1)] assms(2) by (auto simp: sql_update_def intro!: map_idI)
  then show ?thesis using held_owns [OF assms(1)] assms(2) by (simp add: heartbeat_def update_jobs_def)
qed

lemma held_left: "held i token t db \<Longrightarrow> leaves_job i f \<Longrightarrow> held i token t (f db)"
  unfolding held_def leaves_job_def by metis

text \<open>
  C29. The heartbeat thread holds the lease exactly as long as it is in time: if every beat that
  reaches the database comes before the lease the one before it has set (however many sessions in
  between fail), the job is owned until the lease of the last one ends; if one beat comes too late,
  the thread stops there and reports the loss, having written nothing more. Between the beats other
  sessions may do anything that leaves the state, token and lease of the job alone
  (\<open>leaves_job\<close>), so the job commits its checkpoints (\<open>saving_leaves_job\<close>), but nobody cancels it.
\<close>

theorem heartbeats_keep_lease:
  assumes "held i token t db" "list_all (\<lambda>(_, others, _). leaves_job i others) beats"
  shows "case lease_after (seconds (st_lease st)) t beats of
      Some t' \<Rightarrow> fst (heartbeat_loop st i token beats db) \<and> (\<forall>now. owns i token now (snd (heartbeat_loop st i token beats db)) \<longleftrightarrow> now < t')
    | None \<Rightarrow> \<not> fst (heartbeat_loop st i token beats db)"
  using assms
proof (induction beats arbitrary: t db)
  case Nil
  then show ?case using held_owns by simp
next
  case (Cons b beats)
  obtain raised others now where b: "b = (raised, others, now)" by (cases b)
  have kept: "held i token t (others db)" and rest: "list_all (\<lambda>(_, others, _). leaves_job i others) beats"
    using Cons.prems by (auto simp: b intro: held_left)
  show ?case
  proof (cases raised)
    case True
    then have "heartbeat_loop st i token (b # beats) db = heartbeat_loop st i token beats (others db)"
      "lease_after (seconds (st_lease st)) t (b # beats) = lease_after (seconds (st_lease st)) t beats" by (simp_all add: b)
    then show ?thesis using Cons.IH [OF kept rest] by (simp only:)
  next
    case False
    show ?thesis
    proof (cases "now < t")
      case True
      let ?db = "snd (heartbeat st i token now (others db))"
      have beat: "heartbeat st i token now (others db) = (True, ?db)" "held i token (now + seconds (st_lease st)) ?db"
        using held_beat [OF kept True, where st = st] by blast+
      have "heartbeat_loop st i token (b # beats) db = heartbeat_loop st i token beats ?db"
        using False unfolding b heartbeat_loop.simps by (subst beat(1)) simp
      moreover have "lease_after (seconds (st_lease st)) t (b # beats) = lease_after (seconds (st_lease st)) (now + seconds (st_lease st)) beats"
        using False True by (simp add: b)
      ultimately show ?thesis using Cons.IH [OF beat(2) rest] by (simp only:)
    next
      case late: False
      then show ?thesis using False late_beat [OF kept late] by (simp add: b)
    qed
  qed
qed

lemma heartbeats_keep_lease_witness:
  "fst (heartbeat_loop default_settings ''q1'' ''t1'' [(False, id, 10), (True, id, 20), (False, saving ''q1'' ''t1'' 25 [''c''], 30)] (empty_db\<lparr>db_jobs := [asked_job\<lparr>j_lease := Some 30000000\<rparr>]\<rparr>)) \<and>
   \<not> fst (heartbeat_loop default_settings ''q1'' ''t1'' [(False, id, 30000000)] (empty_db\<lparr>db_jobs := [asked_job\<lparr>j_lease := Some 30000000\<rparr>]\<rparr>))"
proof -
  have h: "held ''q1'' ''t1'' 30000000 (empty_db\<lparr>db_jobs := [asked_job\<lparr>j_lease := Some 30000000\<rparr>]\<rparr>)"
    by (simp add: held_def job_ids_unique_def find_job_def) (simp add: asked_job_def new_job_def)
  have others: "list_all (\<lambda>(_, others, _). leaves_job ''q1'' others) [(False, id, 10), (True, id, 20), (False, saving ''q1'' ''t1'' 25 [''c''], 30)]"
    "list_all (\<lambda>(_, others, _). leaves_job ''q1'' others) [(False, id, 30000000)]" by (simp_all add: saving_leaves_job) (simp_all add: leaves_job_def)
  show ?thesis
    using heartbeats_keep_lease [OF h others(1), of default_settings] heartbeats_keep_lease [OF h others(2), of default_settings]
    by (simp add: seconds_def default_settings_def)
qed

subsection \<open>The sweep and the claim\<close>

lemma expired_not_eligible: "expired_query now r \<Longrightarrow> \<not> eligible now' r"
  by (auto simp: expired_query_def finished_status_def eligible_def)

lemma sweep_jobs_rows:
  assumes "sweep_jobs E now js n w = (r, w')" "job_ids_unique (wk_db w)"
    and "list_all (\<lambda>j. list_all (\<lambda>x. j_id x = j_id j \<longrightarrow> finished_status x) (db_jobs (wk_db w))) js"
  shows "filter (\<lambda>j. \<not> finished_status j) (db_jobs (wk_db w')) = filter (\<lambda>j. \<not> finished_status j) (db_jobs (wk_db w)) \<and>
    wk_ticks w' = wk_ticks w"
  using assms
proof (induction E now js n arbitrary: w rule: sweep_jobs.induct)
  case (1 E now n)
  then show ?case by simp
next
  case (2 E now j js n)
  let ?P = "\<lambda>r. j_id r = j_id j \<and> j_cleaned r = None"
  let ?f = "\<lambda>r. r\<lparr>j_cleaned := Some now\<rparr>"
  show ?case
  proof (cases "delete_job (we_files E) (we_path E) (work_root E) (j_id j) (wk_files w)")
    case (Pair res fs)
    show ?thesis
    proof (cases res)
      case (Inl e)
      then have "w' = w\<lparr>wk_files := fs\<rparr>" using 2(2) Pair by (simp add: work_files_def then_act_def bind_act_def)
      then show ?thesis by simp
    next
      case (Inr u)
      let ?w = "w\<lparr>wk_files := fs, wk_db := update_jobs ?P ?f (wk_db w)\<rparr>"
      let ?k = "rowcount ?P (db_jobs (wk_db w))"
      have run: "sweep_jobs E now js (n + ?k) ?w = (r, w')"
        using 2(2) Pair Inr by (simp add: work_files_def then_act_def bind_act_def)
      obtain g where rows: "db_jobs (wk_db ?w) = map g (db_jobs (wk_db w))"
        and g: "\<And>x. j_id (g x) = j_id x" "\<And>x. finished_status (g x) = finished_status x" "\<And>x. \<not> ?P x \<Longrightarrow> g x = x"
        by (rule that [of "\<lambda>x. if ?P x then ?f x else x"]) (simp_all add: sql_update_def finished_status_def)
      have u: "job_ids_unique (wk_db ?w)"
        using 2(3) unfolding job_ids_unique_def by (simp add: sql_update_keeps_map)
      have ids: "list_all (\<lambda>j. list_all (\<lambda>x. j_id x = j_id j \<longrightarrow> finished_status x) (db_jobs (wk_db ?w))) js"
        using 2(4) unfolding rows by (simp add: list_all_iff g)
      have "filter (\<lambda>j. \<not> finished_status j) (map g xs) = filter (\<lambda>j. \<not> finished_status j) xs"
        if "list_all (\<lambda>x. j_id x = j_id j \<longrightarrow> finished_status x) xs" for xs
        using that by (induction xs) (auto simp: g)
      then have "filter (\<lambda>j. \<not> finished_status j) (db_jobs (wk_db ?w)) = filter (\<lambda>j. \<not> finished_status j) (db_jobs (wk_db w))"
        using 2(4) unfolding rows by simp
      then show ?thesis using 2(1) [OF run u ids] by simp
    qed
  qed
qed

lemma finished_not_eligible: "finished_status r \<Longrightarrow> \<not> eligible now r"
  by (auto simp: finished_status_def eligible_def)

lemma candidate_unfinished: "candidate now js = candidate now (filter (\<lambda>j. \<not> finished_status j) js)"
proof -
  have "filter (eligible now) js = filter (eligible now) (filter (\<lambda>j. \<not> finished_status j) js)"
    using finished_not_eligible by (auto intro: filter_cong)
  then show ?thesis by (simp add: candidate_def)
qed

text \<open>The sweep, however it ends, leaves the jobs that a claim can take as they are.\<close>

lemma sweep_keeps_candidates:
  assumes "sweep E w = (r, w')" "job_ids_unique (we_others E (wk_ticks w) (wk_db w))"
  shows "candidate now (db_jobs (wk_db w')) = candidate now (db_jobs (we_others E (wk_ticks w) (wk_db w))) \<and> wk_ticks w' = Suc (wk_ticks w)"
proof -
  let ?db = "we_others E (wk_ticks w) (wk_db w)"
  let ?js = "filter (expired_query (we_now E (wk_ticks w))) (db_jobs ?db)"
  have run: "sweep_jobs E (we_now E (wk_ticks w)) ?js 0 (w\<lparr>wk_ticks := Suc (wk_ticks w), wk_db := ?db\<rparr>) = (r, w')"
    using assms(1) by (simp add: sweep_def bind_act_def tick_def)
  have "finished_status x" if "j \<in> set ?js" "x \<in> set (db_jobs ?db)" "j_id x = j_id j" for x j
    using row_of_id [OF assms(2) that(2), of j] that by (auto simp: expired_query_def)
  then have "list_all (\<lambda>j. list_all (\<lambda>x. j_id x = j_id j \<longrightarrow> finished_status x) (db_jobs ?db)) ?js"
    unfolding list_all_iff by blast
  then have "filter (\<lambda>j. \<not> finished_status j) (db_jobs (wk_db w')) = filter (\<lambda>j. \<not> finished_status j) (db_jobs ?db)"
      "wk_ticks w' = Suc (wk_ticks w)"
    using sweep_jobs_rows [OF run] assms(2) by simp_all
  then show ?thesis using candidate_unfinished [of now "db_jobs (wk_db w')"] candidate_unfinished [of now "db_jobs ?db"] by simp
qed

lemma sweep_jobs_stuck:
  assumes "\<And>fs. \<exists>e fs'. delete_job (we_files E) (we_path E) (work_root E) (j_id j) fs = (Inl e, fs')" "j \<in> set js"
  shows "\<exists>e w'. sweep_jobs E now js n w = (Inl e, w')"
  using assms(2)
proof (induction js arbitrary: n w)
  case Nil
  then show ?case by simp
next
  case (Cons x js)
  obtain res fs where del: "delete_job (we_files E) (we_path E) (work_root E) (j_id x) (wk_files w) = (res, fs)" by (rule prod.exhaust)
  show ?case
  proof (cases res)
    case (Inl e)
    then show ?thesis using del by (simp add: work_files_def then_act_def bind_act_def)
  next
    case (Inr u)
    have "j_id x \<noteq> j_id j"
      using assms(1) [of "wk_files w"] del Inr by auto
    then have "j \<in> set js" using Cons.prems by auto
    then show ?thesis using Cons.IH del Inr by (simp add: work_files_def then_act_def bind_act_def)
  qed
qed

text \<open>
  One job whose artifacts cannot be deleted stops every sweep of an idle worker: the turn goes
  on and takes no harm, but not one row is marked as cleaned, also of the jobs whose artifacts the
  sweep has just deleted.
\<close>

theorem stuck_sweep_marks_nothing:
  assumes "we_others E = (\<lambda>_ db. db)" "job_ids_unique (wk_db w)" "interval \<le> current - last_cleanup"
    and "j \<in> set (db_jobs (wk_db w))" "expired_query (we_now E (wk_ticks w)) j"
    and "\<And>fs. \<exists>e fs'. delete_job (we_files E) (we_path E) (work_root E) (j_id j) fs = (Inl e, fs')"
    and "candidate (we_now E (Suc (wk_ticks w))) (db_jobs (wk_db w)) = None"
  shows "\<exists>w'. worker_turn E interval owner current token (last_cleanup, w) = (Inr (), current, w') \<and> wk_db w' = wk_db w"
proof -
  let ?js = "filter (expired_query (we_now E (wk_ticks w))) (db_jobs (wk_db w))"
  have "\<exists>e w1. sweep_jobs E (we_now E (wk_ticks w)) ?js 0 (w\<lparr>wk_ticks := Suc (wk_ticks w)\<rparr>) = (Inl e, w1)"
    by (rule sweep_jobs_stuck [where j = j, OF assms(6)]) (use assms(4,5) in simp)
  then obtain e w1 where swept: "sweep E w = (Inl e, w1)"
    using assms(1) by (auto simp: sweep_def bind_act_def tick_def)
  have "candidate (we_now E (Suc (wk_ticks w))) (db_jobs (wk_db w1)) = None" "wk_ticks w1 = Suc (wk_ticks w)"
    using sweep_keeps_candidates [OF swept] assms(1,2,7) by simp_all
  then show ?thesis
    using swept assms(1,3)
    by (simp add: worker_turn_def claim_after_sweep_def claim_def bind_act_def tick_def claim_commits_def unswept_def claim_next.simps)
qed

text \<open>A store that finds everything and deletes nothing.\<close>

definition refusing_worker :: "(hashes, lake, disk) worker_env" where
  "refusing_worker = asked_worker\<lparr>we_files := mem_files\<lparr>fi_found := (\<lambda>_ _. True), fi_delete_dir := (\<lambda>_ s. (Inl (RuntimeError ''denied''), s))\<rparr>\<rparr>"

definition expired_job :: job where
  "expired_job = asked_job\<lparr>j_status := Succeeded, j_token := None, j_lease := None, j_expires := Some 1\<rparr>"

lemma stuck_sweep_marks_nothing_witness:
  "\<exists>w'. worker_turn refusing_worker 60 ''w'' 100 ''t2'' (0, asked_start\<lparr>wk_db := empty_db\<lparr>db_jobs := [expired_job]\<rparr>\<rparr>) = (Inr (), 100, w') \<and>
     wk_db w' = empty_db\<lparr>db_jobs := [expired_job]\<rparr>"
proof -
  let ?w = "asked_start\<lparr>wk_db := empty_db\<lparr>db_jobs := [expired_job]\<rparr>\<rparr>"
  have others: "we_others refusing_worker = (\<lambda>_ db. db)" and now: "we_now refusing_worker = (\<lambda>_. 5)"
    by (simp_all add: refusing_worker_def)
  have u: "job_ids_unique (wk_db ?w)" by (simp add: job_ids_unique_def)
  have due: "(60 :: int) \<le> 100 - 0" by simp
  have row: "expired_job \<in> set (db_jobs (wk_db ?w))" by simp
  have old: "expired_query (we_now refusing_worker (wk_ticks ?w)) expired_job"
    unfolding now by (simp add: expired_query_def finished_status_def expired_job_def) (simp add: asked_job_def new_job_def)
  have del: "\<exists>e fs'. delete_job (we_files refusing_worker) (we_path refusing_worker) (work_root refusing_worker) (j_id expired_job) fs = (Inl e, fs')" for fs
    by (simp add: refusing_worker_def delete_job_def)
  have idle: "candidate (we_now refusing_worker (Suc (wk_ticks ?w))) (db_jobs (wk_db ?w)) = None"
    by (simp add: candidate_def eligible_def expired_job_def)
  show ?thesis using stuck_sweep_marks_nothing [OF others u due row old del idle, of "''w''" "''t2''"] by simp
qed

subsection \<open>Sweeps and gauges\<close>

text \<open>A sweep that succeeds is the clean-up of the job queue.\<close>

definition deleting :: "('s, 'd, 'f) worker_env \<Rightarrow> string \<Rightarrow> 'f \<Rightarrow> 'f result" where
  "deleting E i fs = (case delete_job (we_files E) (we_path E) (work_root E) i fs of (Inl e, _) \<Rightarrow> Inl e | (Inr _, fs') \<Rightarrow> Inr fs')"

lemma sweep_is_cleanup:
  "sweep_jobs E now js n w = (Inr m, w') \<Longrightarrow>
     cleanup_loop (deleting E) now js (wk_files w) (wk_db w) n = Inr (m, wk_files w', wk_db w')"
proof (induction js arbitrary: n w)
  case Nil
  then show ?case by simp
next
  case (Cons j js)
  obtain u fs where del: "delete_job (we_files E) (we_path E) (work_root E) (j_id j) (wk_files w) = (Inr u, fs)"
    using Cons.prems by (auto simp: work_files_def then_act_def bind_act_def split: prod.splits sum.splits)
  let ?P = "\<lambda>r. j_id r = j_id j \<and> j_cleaned r = None"
  let ?w = "w\<lparr>wk_files := fs, wk_db := update_jobs ?P (\<lambda>r. r\<lparr>j_cleaned := Some now\<rparr>) (wk_db w)\<rparr>"
  have "sweep_jobs E now js (n + rowcount ?P (db_jobs (wk_db w))) ?w = (Inr m, w')"
    using Cons.prems del by (simp add: work_files_def then_act_def bind_act_def)
  from Cons.IH [OF this] show ?case using del by (simp add: deleting_def)
qed

text \<open>The queue gauges count every active job once.\<close>

lemma gauges_count_active:
  "sum_list (map (\<lambda>g. fst (snd g)) (ga_jobs (operational_gauges now db))) = length (filter active (db_jobs db))"
proof -
  have "length (filter active js) = length (filter (\<lambda>j. j_status j = Pending) js)
      + length (filter (\<lambda>j. j_status j = Retrying) js) + length (filter (\<lambda>j. j_status j = Running) js)" for js
    by (induction js) (auto simp: active_def)
  then show ?thesis by (simp add: operational_gauges_def job_gauge_def gauge_def)
qed

end
