(* ===== verification/Benchmark.thy ===== *)
theory Benchmark
  imports Requests
begin

section \<open>The benchmark and the demo data\<close>

text \<open>
  \<open>benchmark.py\<close>: the scenarios with their requests, the classification of responses, the report of
  a phase and the cap on its requests; and the rows \<open>demo.py\<close> seeds. Latencies are rational numbers
  of seconds; the float product under the ceiling of a percentile is an argument. Rates and the
  environment in a report are left out. \<open>scenario_requests_valid\<close> says that the built-in scenarios send
  requests the server accepts, \<open>seeded_rows\<close> that the data is what a report says it is.
\<close>

subsection \<open>Scenarios\<close>

definition bench_features :: "string list" where
  "bench_features = [''account_transaction_features@1.0.0:txn_count_1h'', ''account_transaction_features@1.0.0:amount_sum_24h'',
     ''account_transaction_features@1.0.0:country_mismatch'', ''account_transaction_features@1.0.0:account_age_days'']"

definition bench_accounts :: "string list" where
  "bench_accounts = [''acct_001'', ''acct_002'', ''acct_003'', ''acct_004'']"

definition observation_timestamp :: string where
  "observation_timestamp = ''2025-01-03T23:59:00+00:00''"

record scenario =
  sc_name :: string
  sc_kind :: string
  sc_units :: nat
  sc_features :: nat
  sc_concurrency :: nat

definition is_online :: "scenario \<Rightarrow> bool" where
  "is_online s \<longleftrightarrow> sc_kind s = ''online''"

definition endpoint :: "scenario \<Rightarrow> string" where
  "endpoint s = (if is_online s then ''/v1/online-features:read'' else ''/v1/historical-features:query'')"

definition unit_name :: "scenario \<Rightarrow> string" where
  "unit_name s = (if is_online s then ''entities'' else ''rows'')"

definition account_value :: "nat \<Rightarrow> pyval" where
  "account_value i = VDict [(''account_id'', VStr (bench_accounts ! (i mod length bench_accounts)))]"

definition feature_refs :: "scenario \<Rightarrow> pyval" where
  "feature_refs s = VList (map VStr (take (sc_features s) bench_features))"

definition scenario_payload :: "scenario \<Rightarrow> pyval" where
  "scenario_payload s =
     (if is_online s
      then VDict [(''entities'', VList (map account_value [0..<sc_units s])), (''features'', feature_refs s)]
      else VDict [(''observations'', VList (map (\<lambda>i. VDict [(''entity_values'', account_value i),
               (''event_timestamp'', VStr observation_timestamp)]) [0..<sc_units s])), (''features'', feature_refs s)])"

definition scenario_shape :: "scenario \<Rightarrow> row" where
  "scenario_shape s =
     [(''kind'', VStr (sc_kind s)), (''endpoint'', VStr (endpoint s)),
      (if is_online s then ''entity_count'' else ''observation_count'', VInt (int (sc_units s))),
      (''feature_count'', VInt (int (sc_features s))), (''feature_refs'', feature_refs s),
      (''concurrency'', VInt (int (sc_concurrency s)))]"

definition mk_scenario :: "string \<Rightarrow> string \<Rightarrow> nat \<Rightarrow> nat \<Rightarrow> nat \<Rightarrow> scenario" where
  "mk_scenario n k u f c = \<lparr>sc_name = n, sc_kind = k, sc_units = u, sc_features = f, sc_concurrency = c\<rparr>"

definition scenarios :: "scenario list" where
  "scenarios =
     [mk_scenario ''online-small'' ''online'' 1 1 1, mk_scenario ''online-batch'' ''online'' 4 4 1,
      mk_scenario ''online-concurrent'' ''online'' 4 4 8, mk_scenario ''historical-small'' ''historical'' 100 1 1,
      mk_scenario ''historical-wide'' ''historical'' 1000 4 1, mk_scenario ''historical-concurrent'' ''historical'' 250 4 4]"

definition find_scenario :: "string \<Rightarrow> scenario option" where
  "find_scenario n = find (\<lambda>s. sc_name s = n) scenarios"

text \<open>\<open>_selected_scenarios\<close>; the names that are unknown are the error.\<close>

definition selected_scenarios :: "string list option \<Rightarrow> string list + scenario list" where
  "selected_scenarios names =
     (case names of
        None \<Rightarrow> Inr scenarios
      | Some ns \<Rightarrow>
          if ns = [] then Inr scenarios
          else (let unknown = sort (remdups (filter (\<lambda>n. find_scenario n = None) ns)) in
            if unknown \<noteq> [] then Inl unknown else Inr (map (\<lambda>n. the (find_scenario n)) ns)))"

subsection \<open>Requests and their samples\<close>

datatype response = Status nat | TimedOut | TransportFailed | OtherFailure

definition error_kinds :: "string list" where
  "error_kinds = [''http_4xx'', ''http_5xx'', ''timeout'', ''transport'', ''unexpected_response'']"

definition response_error :: "response \<Rightarrow> string option" where
  "response_error r =
     (case r of
        Status c \<Rightarrow>
          if c = 200 then None
          else if 400 \<le> c \<and> c < 500 then Some ''http_4xx''
          else if 500 \<le> c \<and> c < 600 then Some ''http_5xx''
          else Some ''unexpected_response''
      | TimedOut \<Rightarrow> Some ''timeout''
      | TransportFailed \<Rightarrow> Some ''transport''
      | OtherFailure \<Rightarrow> Some ''unexpected_response'')"

record sample =
  sa_latency :: rat
  sa_error :: "string option"

definition sample_of :: "rat \<times> response \<Rightarrow> sample" where
  "sample_of lr = \<lparr>sa_latency = fst lr, sa_error = response_error (snd lr)\<rparr>"

text \<open>\<open>_nearest_rank\<close>: \<open>rank n\<close> is \<open>math.ceil(percentile * n)\<close>.\<close>

definition nearest_rank :: "(nat \<Rightarrow> int) \<Rightarrow> rat list \<Rightarrow> rat option" where
  "nearest_rank rank samples =
     (if samples = [] then None else Some (sort samples ! nat (max 0 (rank (length samples) - 1))))"

record measurement =
  me_attempted :: nat
  me_succeeded :: nat
  me_errors :: nat
  me_counts :: "(string \<times> nat) list"
  me_p50 :: "rat option"
  me_p95 :: "rat option"
  me_p99 :: "rat option"

definition succeeded_latencies :: "sample list \<Rightarrow> rat list" where
  "succeeded_latencies samples = map sa_latency (filter (\<lambda>s. sa_error s = None) samples)"

definition measurement_of :: "(nat \<Rightarrow> nat \<Rightarrow> int) \<Rightarrow> sample list \<Rightarrow> measurement" where
  "measurement_of rank samples =
     \<lparr>me_attempted = length samples, me_succeeded = length (succeeded_latencies samples),
      me_errors = length samples - length (succeeded_latencies samples),
      me_counts = map (\<lambda>k. (k, length (filter (\<lambda>s. sa_error s = Some k) samples))) error_kinds,
      me_p50 = nearest_rank (rank 50) (succeeded_latencies samples),
      me_p95 = nearest_rank (rank 95) (succeeded_latencies samples),
      me_p99 = nearest_rank (rank 99) (succeeded_latencies samples)\<rparr>"

definition cold_phase :: "(nat \<Rightarrow> nat \<Rightarrow> int) \<Rightarrow> nat \<Rightarrow> (nat \<Rightarrow> rat \<times> response) \<Rightarrow> measurement" where
  "cold_phase rank iterations answers = measurement_of rank (map (\<lambda>i. sample_of (answers i)) [0..<iterations])"

text \<open>
  The warm phase: the workers take turns at the event loop, each turn a check of the clock and of the
  cap and one request. The list holds the clock and the answer of each turn; a turn that fails a
  check ends its worker and adds nothing.
\<close>

fun warm_turns :: "rat \<Rightarrow> nat option \<Rightarrow> (rat \<times> rat \<times> response) list \<Rightarrow> nat \<Rightarrow> sample list \<Rightarrow> nat \<times> sample list" where
  "warm_turns deadline cap [] next_request samples = (next_request, samples)"
| "warm_turns deadline cap ((t, a) # turns) next_request samples =
     (if t < deadline \<and> (case cap of None \<Rightarrow> True | Some n \<Rightarrow> next_request < n)
      then warm_turns deadline cap turns (Suc next_request) (samples @ [sample_of a])
      else warm_turns deadline cap turns next_request samples)"

definition warm_phase :: "(nat \<Rightarrow> nat \<Rightarrow> int) \<Rightarrow> rat \<Rightarrow> nat option \<Rightarrow> (rat \<times> rat \<times> response) list \<Rightarrow> measurement" where
  "warm_phase rank deadline cap turns = measurement_of rank (snd (warm_turns deadline cap turns 0 []))"

text \<open>The exit code of \<open>run_benchmark\<close> once the report is written.\<close>

definition report_exit :: "(measurement \<times> measurement) list \<Rightarrow> nat" where
  "report_exit results = (if list_ex (\<lambda>(cold, warm). me_succeeded warm = 0) results then 1 else 0)"

subsection \<open>The demo rows\<close>

definition demo_epoch :: int where
  "demo_epoch = 20089 * 86400000000"

definition demo_accounts :: "(string \<times> string \<times> int) list" where
  "demo_accounts = [(''acct_001'', ''US'', 600), (''acct_002'', ''GB'', 120), (''acct_003'', ''DE'', 30), (''acct_004'', ''US'', 10)]"

definition demo_count :: "nat \<Rightarrow> string \<Rightarrow> nat" where
  "demo_count hour account = 1 + (hour + length account) mod 3"

definition merchant_country :: "nat \<Rightarrow> string \<Rightarrow> string \<Rightarrow> string" where
  "merchant_country hour account home = (if account = ''acct_004'' \<and> hour mod 5 = 0 then ''CA'' else home)"

definition demo_row :: "(nat \<Rightarrow> string \<Rightarrow> nat \<Rightarrow> pyval) \<Rightarrow> nat \<Rightarrow> string \<times> string \<times> int \<Rightarrow> nat \<Rightarrow> row" where
  "demo_row amount hour acc item =
     (case acc of (account, home, days) \<Rightarrow>
       [(''account_id'', VStr account),
        (''transaction_id'', VStr (''txn_'' @ fixed_str 3 hour @ ''_'' @ account @ ''_'' @ nat_str item)),
        (''event_timestamp'', VTime (Aware (demo_epoch + int hour * 3600000000 + int item * 660000000) 0)),
        (''amount'', amount hour account item), (''home_country'', VStr home),
        (''merchant_country'', VStr (merchant_country hour account home)),
        (''account_created_at'', VTime (Aware (demo_epoch - days * 86400000000) 0))])"

text \<open>\<open>generate_transactions\<close>; the random amounts are the argument.\<close>

definition generate_transactions :: "(nat \<Rightarrow> string \<Rightarrow> nat \<Rightarrow> pyval) \<Rightarrow> row list" where
  "generate_transactions amount =
     concat (map (\<lambda>hour. concat (map (\<lambda>acc. map (demo_row amount hour acc) [0..<demo_count hour (fst acc)]) demo_accounts)) [0..<72])"

subsection \<open>Reports\<close>

lemma error_kinds_distinct: "distinct error_kinds"
  by (simp add: error_kinds_def)

lemma response_error_kind: "response_error r = Some k \<Longrightarrow> k \<in> set error_kinds"
  by (auto simp: response_error_def error_kinds_def split: response.splits if_splits)

text \<open>The error counts of a report add up to its errors.\<close>

lemma count_by_kind:
  assumes "distinct ks"
  shows "sum_list (map (\<lambda>k. length (filter (\<lambda>s. sa_error s = Some k) ss)) ks)
    = length (filter (\<lambda>s. \<exists>k \<in> set ks. sa_error s = Some k) ss)"
proof (induction ss)
  case (Cons s ss)
  have "sum_list (map (\<lambda>k. if sa_error s = Some k then Suc (f k) else f k) ks)
      = sum_list (map f ks) + (if \<exists>k \<in> set ks. sa_error s = Some k then 1 else 0)" for f
    using assms by (induction ks) auto
  then show ?case using Cons by (simp add: if_distrib [of length] cong: if_cong)
qed simp

lemma errors_add_up:
  assumes "list_all (\<lambda>s. \<exists>a. s = sample_of a) samples"
  shows "sum_list (map snd (me_counts (measurement_of rank samples))) = me_errors (measurement_of rank samples)"
proof -
  have "(\<exists>k \<in> set error_kinds. sa_error s = Some k) \<longleftrightarrow> sa_error s \<noteq> None" if "s \<in> set samples" for s
    using assms that response_error_kind by (fastforce simp: list_all_iff sample_of_def)
  then have "filter (\<lambda>s. \<exists>k \<in> set error_kinds. sa_error s = Some k) samples = filter (\<lambda>s. sa_error s \<noteq> None) samples"
    by (rule filter_cong [OF refl])
  moreover have "length (filter (\<lambda>s. sa_error s \<noteq> None) samples) = length samples - length (filter (\<lambda>s. sa_error s = None) samples)"
    using sum_length_filter_compl [of "\<lambda>s. sa_error s = None" samples] by simp
  ultimately show ?thesis
    using count_by_kind [OF error_kinds_distinct, of samples] by (simp add: measurement_of_def succeeded_latencies_def o_def)
qed

lemma warm_turns_capped:
  assumes "warm_turns deadline (Some cap) turns n samples = (n', samples')" "length samples = n" "n \<le> cap"
  shows "length samples' = n' \<and> n' \<le> cap"
  using assms by (induction turns arbitrary: n samples) (auto split: if_splits)

lemma length_filter_sort: "length (filter P (sort xs)) = length (filter P (xs :: rat list))"
  by (metis mset_filter mset_sort size_mset)

text \<open>A percentile is a measured latency with the given share of the latencies at or below it.\<close>

lemma nearest_rank_value:
  assumes "1 \<le> rank (length xs)" "rank (length xs) \<le> int (length xs)"
  shows "\<exists>v. nearest_rank rank xs = Some v \<and> v \<in> set xs \<and>
    rank (length xs) \<le> int (length (filter (\<lambda>x. x \<le> v) xs)) \<and> int (length xs) - rank (length xs) < int (length (filter (\<lambda>x. v \<le> x) xs))"
proof -
  let ?ys = "sort xs" and ?k = "nat (rank (length xs) - 1)"
  have k: "?k < length ?ys" "xs \<noteq> []" using assms by auto
  let ?v = "?ys ! ?k"
  have le: "?ys ! i \<le> ?v" if "i \<le> ?k" for i using that k(1) sorted_nth_mono [of ?ys i ?k] by simp
  have ge: "?v \<le> ?ys ! i" if "?k \<le> i" "i < length ?ys" for i using that sorted_nth_mono [of ?ys ?k i] by simp
  have low: "Suc ?k \<le> length (filter (\<lambda>x. x \<le> ?v) ?ys)"
  proof -
    have "filter (\<lambda>x. x \<le> ?v) (take (Suc ?k) ?ys) = take (Suc ?k) ?ys"
      using le k(1) by (auto simp: filter_id_conv in_set_conv_nth less_Suc_eq_le)
    then have "length (filter (\<lambda>x. x \<le> ?v) (take (Suc ?k) ?ys)) = Suc ?k" using k(1) by simp
    moreover have "length (filter (\<lambda>x. x \<le> ?v) ?ys) =
        length (filter (\<lambda>x. x \<le> ?v) (take (Suc ?k) ?ys)) + length (filter (\<lambda>x. x \<le> ?v) (drop (Suc ?k) ?ys))"
      by (metis append_take_drop_id filter_append length_append)
    ultimately show ?thesis by simp
  qed
  have high: "length ?ys - ?k \<le> length (filter (\<lambda>x. ?v \<le> x) ?ys)"
  proof -
    have "filter (\<lambda>x. ?v \<le> x) (drop ?k ?ys) = drop ?k ?ys"
      using ge by (auto simp: filter_id_conv in_set_conv_nth)
    then have "length (filter (\<lambda>x. ?v \<le> x) (drop ?k ?ys)) = length ?ys - ?k" by simp
    moreover have "length (filter (\<lambda>x. ?v \<le> x) ?ys) =
        length (filter (\<lambda>x. ?v \<le> x) (take ?k ?ys)) + length (filter (\<lambda>x. ?v \<le> x) (drop ?k ?ys))"
      by (metis append_take_drop_id filter_append length_append)
    ultimately show ?thesis by simp
  qed
  have mem: "?v \<in> set xs" using k(1) nth_mem [of ?k ?ys] by simp
  have val: "nearest_rank rank xs = Some ?v" using assms k(2) by (simp add: nearest_rank_def)
  have cast: "int ?k = rank (length xs) - 1" using assms(1) by simp
  have "rank (length xs) \<le> int (length (filter (\<lambda>x. x \<le> ?v) xs))"
    using low cast unfolding length_filter_sort by linarith
  moreover have "int (length xs) - rank (length xs) < int (length (filter (\<lambda>x. ?v \<le> x) xs))"
    using high cast k(1) unfolding length_filter_sort length_sort by linarith
  ultimately show ?thesis using mem val by blast
qed

subsection \<open>The built-in scenarios\<close>

lemma scenarios_shape: "s \<in> set scenarios \<Longrightarrow> 0 < sc_features s \<and> sc_units s \<le> 1000"
  by (auto simp: scenarios_def mk_scenario_def)

lemma account_ok: "parse_dict_field (account_value i) = Inr [(''account_id'', VStr (bench_accounts ! (i mod length bench_accounts)))]"
  by (simp add: account_value_def parse_dict_field_def)

lemma feature_refs_ok:
  assumes "0 < sc_features s"
  shows "parse_features (Some (feature_refs s)) = Inr (take (sc_features s) bench_features)"
    and "one_selector (take (sc_features s) bench_features) None = Inr ()"
  using assms by (simp_all add: parse_features_def feature_refs_def traverse_texts one_selector_def bench_features_def)

text \<open>
  Every built-in scenario of the benchmark sends a request the server accepts, with one entity
  or observation for each unit it is measured by, and no historical one is too large to be answered
  at once under the limit the report assumes.
\<close>

theorem scenario_requests_valid:
  assumes "s \<in> set scenarios" "env_parse_time env (VStr observation_timestamp) = Some t" "has_tz t"
  shows "if is_online s
    then \<exists>q. parse_online_query (scenario_payload s) = Inr q \<and> length (oq_entities q) = sc_units s
    else \<exists>q. parse_query env (scenario_payload s) = Inr q \<and> length (hq_observations q) = sc_units s \<and> length (hq_observations q) \<le> 1000"
proof (cases "is_online s")
  case True
  note shape = scenarios_shape [OF assms(1)]
  have ents: "traverse parse_dict_field (map account_value is)
      = Inr (map (\<lambda>v. [(''account_id'', VStr (bench_accounts ! (v mod length bench_accounts)))]) is)" for "is"
    by (induction "is") (simp_all add: account_ok)
  show ?thesis
    using True ents feature_refs_ok [of s] shape
    by (simp add: scenario_payload_def parse_online_query_def strict_object_def parse_list_field_def parse_service_def mk_online_query_def)
next
  case False
  note shape = scenarios_shape [OF assms(1)]
  let ?ob = "\<lambda>i. VDict [(''entity_values'', account_value i), (''event_timestamp'', VStr observation_timestamp)]"
  let ?res = "\<lambda>i. \<lparr>ob_entity = [(''account_id'', VStr (bench_accounts ! (i mod length bench_accounts)))], ob_time = t\<rparr>"
  have one: "parse_observation env (?ob i) = Inr (?res i)" for i
    using assms(2,3) by (simp add: parse_observation_def dict_get_def account_value_def mk_observation_def)
  have "traverse (parse_observation env) (map ?ob is) = Inr (map ?res is)" for "is"
    by (induction "is") (simp_all add: one)
  then show ?thesis
    using False feature_refs_ok [of s] shape
    by (simp add: scenario_payload_def parse_query_def parse_service_def mk_historical_query_def)
qed

lemma scenario_requests_valid_witness:
  "\<exists>q. parse_query (demo_env\<lparr>env_parse_time := (\<lambda>_. Some (Aware 5 0))\<rparr>) (scenario_payload (mk_scenario ''historical-wide'' ''historical'' 1000 4 1)) = Inr q \<and>
     length (hq_observations q) = 1000"
  using scenario_requests_valid [of "mk_scenario ''historical-wide'' ''historical'' 1000 4 1" "demo_env\<lparr>env_parse_time := (\<lambda>_. Some (Aware 5 0))\<rparr>" "Aware 5 0"]
  by (auto simp: scenarios_def is_online_def mk_scenario_def)

text \<open>The seeded data is what the report of a benchmark says: 576 transactions on three days.\<close>

lemma seeded_rows: "length (generate_transactions amount) = 576"
proof -
  have "length (generate_transactions amount) = sum_list (map (\<lambda>hour. sum_list (map (\<lambda>acc. demo_count hour (fst acc)) demo_accounts)) [0..<72])"
    by (simp add: generate_transactions_def length_concat o_def)
  also have "\<dots> = 576" by code_simp
  finally show ?thesis .
qed

lemma seeded_times:
  assumes "r \<in> set (generate_transactions amount)"
  shows "\<exists>t. dict_get r ''event_timestamp'' = VTime (Aware t 0) \<and> demo_epoch \<le> t \<and> t < demo_epoch + 3 * 86400000000"
proof -
  obtain hour acc item where r: "r = demo_row amount hour acc item" "hour < 72" "item < demo_count hour (fst acc)"
    using assms by (auto simp: generate_transactions_def)
  have "item < 3" using r(3) by (simp add: demo_count_def)
  obtain account home days where "acc = (account, home, days)" by (cases acc)
  then show ?thesis using r(1,2) \<open>item < 3\<close> by (simp add: demo_row_def dict_get_def)
qed

end
