(* ===== verification/Migrations.thy ===== *)
theory Migrations
  imports Values
begin

section \<open>Migrations\<close>

text \<open>
  The schema of the database: the six Alembic migrations under \<open>migrations/versions\<close> with their
  downgrades, the tables \<open>db.py\<close> declares, and \<open>init_db\<close>, which every service calls when it starts.
  A statement fails where the databases agree that it does: a name that is taken or missing, a column
  without a default added to rows. Foreign keys are recorded and not enforced.
  \<open>migrations_build_models\<close> says that the migrations lead every populated database to the declared
  tables, \<open>downgrade_undoes_upgrade\<close> that every downgrade gives back the schema and the rows.
\<close>

subsection \<open>Schemas and statements\<close>

datatype column_type = CString nat | CText | CJson | CTime | CInteger | CBigInteger

record db_column =
  dc_name :: string
  dc_type :: column_type
  dc_null :: bool
  dc_key :: bool
  dc_ref :: "(string \<times> string) option"
  dc_default :: "pyval option"

record db_index =
  dx_name :: string
  dx_columns :: "string list"
  dx_unique :: bool
  dx_where :: "string option"

record db_table =
  dt_name :: string
  dt_columns :: "db_column list"
  dt_uniques :: "string list list"
  dt_indexes :: "db_index list"
  dt_rows :: "row list"

type_synonym schema = "db_table list"

definition table_names :: "schema \<Rightarrow> string set" where
  "table_names db = dt_name ` set db"

definition columns_of :: "db_table \<Rightarrow> string set" where
  "columns_of t = dc_name ` set (dt_columns t)"

definition index_names :: "db_table \<Rightarrow> string set" where
  "index_names t = dx_name ` set (dt_indexes t)"

definition used_columns :: "db_table \<Rightarrow> string set" where
  "used_columns t = \<Union> (set ` set (dt_uniques t)) \<union> \<Union> ((\<lambda>x. set (dx_columns x)) ` set (dt_indexes t))"

datatype ddl =
    CreateTable string "db_column list" "string list list"
  | DropTable string
  | AddColumn string db_column
  | DropColumn string string
  | CreateIndex string db_index
  | DropIndex string string

definition on_table :: "string \<Rightarrow> (db_table \<Rightarrow> db_table result) \<Rightarrow> schema \<Rightarrow> schema result" where
  "on_table n f db =
     (if n \<notin> table_names db then Inl (RuntimeError ''no such table'')
      else traverse (\<lambda>t. if dt_name t = n then f t else Inr t) db)"

definition append_column :: "db_column \<Rightarrow> db_table \<Rightarrow> db_table result" where
  "append_column c t =
     (if dc_name c \<in> columns_of t then Inl (RuntimeError ''duplicate column'')
      else if \<not> dc_null c \<and> dc_default c = None \<and> dt_rows t \<noteq> [] then Inl (IntegrityError ''NOT NULL'')
      else Inr (t\<lparr>dt_columns := dt_columns t @ [c],
             dt_rows := map (\<lambda>r. r @ [(dc_name c, case dc_default c of None \<Rightarrow> VNone | Some v \<Rightarrow> v)]) (dt_rows t)\<rparr>))"

definition remove_column :: "string \<Rightarrow> db_table \<Rightarrow> db_table result" where
  "remove_column c t =
     (if c \<notin> columns_of t then Inl (RuntimeError ''no such column'')
      else if c \<in> used_columns t then Inl (RuntimeError ''column is in use'')
      else Inr (t\<lparr>dt_columns := filter (\<lambda>x. dc_name x \<noteq> c) (dt_columns t),
             dt_rows := map (filter (\<lambda>kv. fst kv \<noteq> c)) (dt_rows t)\<rparr>))"

definition create_index :: "db_index \<Rightarrow> db_table \<Rightarrow> db_table result" where
  "create_index x t =
     (if \<not> set (dx_columns x) \<subseteq> columns_of t then Inl (RuntimeError ''no such column'')
      else Inr (t\<lparr>dt_indexes := dt_indexes t @ [x]\<rparr>))"

definition drop_index :: "string \<Rightarrow> db_table \<Rightarrow> db_table result" where
  "drop_index i t =
     (if i \<notin> index_names t then Inl (RuntimeError ''no such index'')
      else Inr (t\<lparr>dt_indexes := filter (\<lambda>x. dx_name x \<noteq> i) (dt_indexes t)\<rparr>))"

definition create_table :: "string \<Rightarrow> db_column list \<Rightarrow> string list list \<Rightarrow> schema \<Rightarrow> schema result" where
  "create_table n cs us db =
     (if n \<in> table_names db then Inl (RuntimeError ''table already exists'')
      else if \<not> \<Union> (set ` set us) \<subseteq> dc_name ` set cs then Inl (RuntimeError ''no such column'')
      else Inr (db @ [\<lparr>dt_name = n, dt_columns = cs, dt_uniques = us, dt_indexes = [], dt_rows = []\<rparr>]))"

definition drop_table :: "string \<Rightarrow> schema \<Rightarrow> schema result" where
  "drop_table n db =
     (if n \<notin> table_names db then Inl (RuntimeError ''no such table'') else Inr (filter (\<lambda>t. dt_name t \<noteq> n) db))"

fun apply_op :: "ddl \<Rightarrow> schema \<Rightarrow> schema result" where
  "apply_op (CreateTable n cs us) db = create_table n cs us db"
| "apply_op (DropTable n) db = drop_table n db"
| "apply_op (AddColumn n c) db = on_table n (append_column c) db"
| "apply_op (DropColumn n c) db = on_table n (remove_column c) db"
| "apply_op (CreateIndex n x) db =
     (if dx_name x \<in> \<Union> (index_names ` set db) then Inl (RuntimeError ''index already exists'')
      else on_table n (create_index x) db)"
| "apply_op (DropIndex n i) db = on_table n (drop_index i) db"

fun apply_ops :: "ddl list \<Rightarrow> schema \<Rightarrow> schema result" where
  "apply_ops [] db = Inr db"
| "apply_ops (s # ss) db = bind_result (apply_op s db) (apply_ops ss)"

subsection \<open>The migrations\<close>

text \<open>The columns and indexes as the scripts write them.\<close>

definition col :: "string \<Rightarrow> column_type \<Rightarrow> bool \<Rightarrow> db_column" where
  "col n ty null = \<lparr>dc_name = n, dc_type = ty, dc_null = null, dc_key = False, dc_ref = None, dc_default = None\<rparr>"

definition key_col :: "string \<Rightarrow> column_type \<Rightarrow> db_column" where
  "key_col n ty = (col n ty False)\<lparr>dc_key := True\<rparr>"

definition plain_index :: "string \<Rightarrow> string list \<Rightarrow> db_index" where
  "plain_index n cs = \<lparr>dx_name = n, dx_columns = cs, dx_unique = False, dx_where = None\<rparr>"

record migration =
  mg_revision :: string
  mg_down :: "string option"
  mg_upgrade :: "ddl list"
  mg_downgrade :: "ddl list"

definition upgrade_0001 :: "ddl list" where
  "upgrade_0001 =
     [CreateTable ''registry_records''
        [key_col ''id'' (CString 36), col ''kind'' (CString 32) False, col ''name'' (CString 128) False,
         col ''version'' (CString 32) False, col ''fingerprint'' (CString 64) False, col ''spec'' CJson False,
         col ''created_at'' CTime False] [[''kind'', ''name'', ''version'']],
      CreateIndex ''registry_records'' (plain_index ''ix_registry_records_kind'' [''kind'']),
      CreateIndex ''registry_records'' (plain_index ''ix_registry_records_name'' [''name'']),
      CreateTable ''jobs''
        [key_col ''id'' (CString 36), col ''kind'' (CString 32) False, col ''status'' (CString 32) False,
         col ''payload'' CJson False, col ''checkpoints'' CJson False, col ''error'' CText True,
         col ''created_at'' CTime False, col ''started_at'' CTime True, col ''finished_at'' CTime True] [],
      CreateIndex ''jobs'' (plain_index ''ix_jobs_kind'' [''kind'']),
      CreateIndex ''jobs'' (plain_index ''ix_jobs_status'' [''status''])]"

definition downgrade_0001 :: "ddl list" where
  "downgrade_0001 = [DropTable ''jobs'', DropTable ''registry_records'']"

definition upgrade_0002 :: "ddl list" where
  "upgrade_0002 =
     [CreateTable ''stream_events''
        [key_col ''id'' (CString 36), col ''feature_view'' (CString 160) False, col ''event_id'' (CString 256) False,
         col ''fingerprint'' (CString 64) False, col ''payload'' CJson False, col ''state'' (CString 32) False,
         col ''source_topic'' (CString 256) True, col ''source_partition'' CInteger True,
         col ''source_offset'' CBigInteger True, col ''job_id'' (CString 36) True, col ''created_at'' CTime False,
         col ''updated_at'' CTime False, col ''staged_at'' CTime True, col ''applied_at'' CTime True]
        [[''feature_view'', ''event_id'']],
      CreateIndex ''stream_events'' (plain_index ''ix_stream_events_feature_view'' [''feature_view'']),
      CreateIndex ''stream_events'' (plain_index ''ix_stream_events_state'' [''state'']),
      CreateIndex ''stream_events'' (plain_index ''ix_stream_events_job_id'' [''job_id''])]"

definition downgrade_0002 :: "ddl list" where
  "downgrade_0002 = [DropTable ''stream_events'']"

definition upgrade_0003 :: "ddl list" where
  "upgrade_0003 =
     map (AddColumn ''jobs'')
       [(col ''attempt_count'' CInteger False)\<lparr>dc_default := Some (VInt 0)\<rparr>,
        (col ''max_attempts'' CInteger False)\<lparr>dc_default := Some (VInt 3)\<rparr>,
        col ''next_attempt_at'' CTime True, col ''worker_id'' (CString 128) True, col ''lease_token'' (CString 36) True,
        col ''lease_expires_at'' CTime True, col ''last_heartbeat_at'' CTime True, col ''failure_kind'' (CString 32) True] @
     map (CreateIndex ''jobs'')
       [plain_index ''ix_jobs_next_attempt_at'' [''next_attempt_at''], plain_index ''ix_jobs_worker_id'' [''worker_id''],
        plain_index ''ix_jobs_lease_expires_at'' [''lease_expires_at'']]"

definition downgrade_0003 :: "ddl list" where
  "downgrade_0003 =
     map (DropIndex ''jobs'') [''ix_jobs_lease_expires_at'', ''ix_jobs_worker_id'', ''ix_jobs_next_attempt_at''] @
     map (DropColumn ''jobs'')
       [''failure_kind'', ''last_heartbeat_at'', ''lease_expires_at'', ''lease_token'', ''worker_id'', ''next_attempt_at'',
        ''max_attempts'', ''attempt_count'']"

definition upgrade_0004 :: "ddl list" where
  "upgrade_0004 =
     map (AddColumn ''jobs'')
       [col ''artifact_uri'' CText True, col ''result_uri'' CText True, col ''result_metadata'' CJson True,
        col ''artifact_expires_at'' CTime True, col ''artifacts_cleaned_at'' CTime True] @
     [CreateIndex ''jobs'' (plain_index ''ix_jobs_artifact_expires_at'' [''artifact_expires_at''])]"

definition downgrade_0004 :: "ddl list" where
  "downgrade_0004 =
     DropIndex ''jobs'' ''ix_jobs_artifact_expires_at'' #
     map (DropColumn ''jobs'') [''artifacts_cleaned_at'', ''artifact_expires_at'', ''result_metadata'', ''result_uri'', ''artifact_uri'']"

definition upgrade_0005 :: "ddl list" where
  "upgrade_0005 =
     [CreateTable ''materialization_states''
        [key_col ''feature_view'' (CString 160), col ''watermark'' CTime True, col ''source_freshness_at'' CTime True,
         col ''active_job_id'' (CString 36) True, col ''last_successful_job_id'' (CString 36) True,
         col ''updated_at'' CTime False] [],
      CreateIndex ''materialization_states'' (plain_index ''ix_materialization_states_active_job_id'' [''active_job_id''])]"

definition downgrade_0005 :: "ddl list" where
  "downgrade_0005 = [DropTable ''materialization_states'']"

definition object_index :: db_index where
  "object_index = \<lparr>dx_name = ''uq_registry_lifecycle_object'', dx_columns = [''registry_record_id''], dx_unique = True,
     dx_where = Some ''feature_name IS NULL''\<rparr>"

definition upgrade_0006 :: "ddl list" where
  "upgrade_0006 =
     [CreateTable ''registry_lifecycle''
        [key_col ''id'' (CString 36), (col ''registry_record_id'' (CString 36) False)\<lparr>dc_ref := Some (''registry_records.id'', ''CASCADE'')\<rparr>,
         col ''feature_name'' (CString 128) True, col ''owners'' CJson False, col ''tags'' CJson False,
         col ''documentation_links'' CJson False, col ''status'' (CString 32) False, col ''deprecated_at'' CTime True,
         col ''deprecation_message'' CText True, col ''replacement'' CJson True, col ''updated_at'' CTime False]
        [[''registry_record_id'', ''feature_name'']],
      CreateIndex ''registry_lifecycle'' (plain_index ''ix_registry_lifecycle_registry_record_id'' [''registry_record_id'']),
      CreateIndex ''registry_lifecycle'' object_index]"

definition downgrade_0006 :: "ddl list" where
  "downgrade_0006 = [DropTable ''registry_lifecycle'']"

definition mk_migration :: "string \<Rightarrow> string option \<Rightarrow> ddl list \<Rightarrow> ddl list \<Rightarrow> migration" where
  "mk_migration r d u w = \<lparr>mg_revision = r, mg_down = d, mg_upgrade = u, mg_downgrade = w\<rparr>"

definition migrations :: "migration list" where
  "migrations =
     [mk_migration ''0001'' None upgrade_0001 downgrade_0001, mk_migration ''0002'' (Some ''0001'') upgrade_0002 downgrade_0002,
      mk_migration ''0003'' (Some ''0002'') upgrade_0003 downgrade_0003, mk_migration ''0004'' (Some ''0003'') upgrade_0004 downgrade_0004,
      mk_migration ''0005'' (Some ''0004'') upgrade_0005 downgrade_0005, mk_migration ''0006'' (Some ''0005'') upgrade_0006 downgrade_0006]"

text \<open>\<open>run_migrations\<close> runs inside one transaction: an error leaves nothing.\<close>

definition upgrade :: "migration list \<Rightarrow> schema \<Rightarrow> schema result" where
  "upgrade ms = apply_ops (concat (map mg_upgrade ms))"

subsection \<open>The declared tables\<close>

text \<open>A column of a model class and whether it is declared with \<open>index=True\<close>.\<close>

definition indexes_of :: "string \<Rightarrow> (db_column \<times> bool) list \<Rightarrow> db_index list" where
  "indexes_of n cs = map (\<lambda>(c, _). plain_index (''ix_'' @ n @ ''_'' @ dc_name c) [dc_name c]) (filter snd cs)"

definition declared_table :: "string \<Rightarrow> (db_column \<times> bool) list \<Rightarrow> string list list \<Rightarrow> db_index list \<Rightarrow> db_table" where
  "declared_table n cs us xs =
     \<lparr>dt_name = n, dt_columns = map fst cs, dt_uniques = us, dt_indexes = indexes_of n cs @ xs, dt_rows = []\<rparr>"

definition registry_record_table :: db_table where
  "registry_record_table =
     declared_table ''registry_records''
       [(key_col ''id'' (CString 36), False), (col ''kind'' (CString 32) False, True), (col ''name'' (CString 128) False, True),
        (col ''version'' (CString 32) False, False), (col ''fingerprint'' (CString 64) False, False), (col ''spec'' CJson False, False),
        (col ''created_at'' CTime False, False)] [[''kind'', ''name'', ''version'']] []"

definition lifecycle_table :: db_table where
  "lifecycle_table =
     declared_table ''registry_lifecycle''
       [(key_col ''id'' (CString 36), False),
        ((col ''registry_record_id'' (CString 36) False)\<lparr>dc_ref := Some (''registry_records.id'', ''CASCADE'')\<rparr>, True),
        (col ''feature_name'' (CString 128) True, False), (col ''owners'' CJson False, False), (col ''tags'' CJson False, False),
        (col ''documentation_links'' CJson False, False), (col ''status'' (CString 32) False, False), (col ''deprecated_at'' CTime True, False),
        (col ''deprecation_message'' CText True, False), (col ''replacement'' CJson True, False), (col ''updated_at'' CTime False, False)]
       [[''registry_record_id'', ''feature_name'']] [object_index]"

definition job_table :: db_table where
  "job_table =
     declared_table ''jobs''
       [(key_col ''id'' (CString 36), False), (col ''kind'' (CString 32) False, True), (col ''status'' (CString 32) False, True),
        (col ''payload'' CJson False, False), (col ''checkpoints'' CJson False, False), (col ''error'' CText True, False),
        (col ''failure_kind'' (CString 32) True, False), (col ''attempt_count'' CInteger False, False),
        (col ''max_attempts'' CInteger False, False), (col ''next_attempt_at'' CTime True, True), (col ''worker_id'' (CString 128) True, True),
        (col ''lease_token'' (CString 36) True, False), (col ''lease_expires_at'' CTime True, True),
        (col ''last_heartbeat_at'' CTime True, False), (col ''created_at'' CTime False, False), (col ''started_at'' CTime True, False),
        (col ''finished_at'' CTime True, False), (col ''artifact_uri'' CText True, False), (col ''result_uri'' CText True, False),
        (col ''result_metadata'' CJson True, False), (col ''artifact_expires_at'' CTime True, True),
        (col ''artifacts_cleaned_at'' CTime True, False)] [] []"

definition stream_event_table :: db_table where
  "stream_event_table =
     declared_table ''stream_events''
       [(key_col ''id'' (CString 36), False), (col ''feature_view'' (CString 160) False, True), (col ''event_id'' (CString 256) False, False),
        (col ''fingerprint'' (CString 64) False, False), (col ''payload'' CJson False, False), (col ''state'' (CString 32) False, True),
        (col ''source_topic'' (CString 256) True, False), (col ''source_partition'' CInteger True, False),
        (col ''source_offset'' CBigInteger True, False), (col ''job_id'' (CString 36) True, True), (col ''created_at'' CTime False, False),
        (col ''updated_at'' CTime False, False), (col ''staged_at'' CTime True, False), (col ''applied_at'' CTime True, False)]
       [[''feature_view'', ''event_id'']] []"

definition state_table :: db_table where
  "state_table =
     declared_table ''materialization_states''
       [(key_col ''feature_view'' (CString 160), False), (col ''watermark'' CTime True, False), (col ''source_freshness_at'' CTime True, False),
        (col ''active_job_id'' (CString 36) True, True), (col ''last_successful_job_id'' (CString 36) True, False),
        (col ''updated_at'' CTime False, False)] [] []"

definition declared :: schema where
  "declared = [registry_record_table, lifecycle_table, job_table, stream_event_table, state_table]"

text \<open>\<open>create_all\<close> creates the tables that are missing, with their indexes, and leaves the others.\<close>

definition init_db :: "schema \<Rightarrow> schema" where
  "init_db db = db @ filter (\<lambda>t. dt_name t \<notin> table_names db) declared"

definition downgrade :: "migration \<Rightarrow> schema \<Rightarrow> schema result" where
  "downgrade m = apply_ops (mg_downgrade m)"

text \<open>Equal tables up to the order of columns and the defaults of the server.\<close>

definition same_table :: "db_table \<Rightarrow> db_table \<Rightarrow> bool" where
  "same_table t u \<longleftrightarrow> dt_name t = dt_name u \<and>
     set (map (\<lambda>c. c\<lparr>dc_default := None\<rparr>) (dt_columns t)) = set (map (\<lambda>c. c\<lparr>dc_default := None\<rparr>) (dt_columns u)) \<and>
     set (dt_uniques t) = set (dt_uniques u) \<and> set (dt_indexes t) = set (dt_indexes u)"

definition same_schema :: "schema \<Rightarrow> schema \<Rightarrow> bool" where
  "same_schema a b \<longleftrightarrow> (\<forall>t \<in> set a. \<exists>u \<in> set b. same_table t u) \<and> (\<forall>u \<in> set b. \<exists>t \<in> set a. same_table t u)"

definition migrated :: schema where
  "migrated = (case upgrade migrations [] of Inl _ \<Rightarrow> [] | Inr db \<Rightarrow> db)"

subsection \<open>Rows do not matter\<close>

definition bare :: "db_table \<Rightarrow> db_table" where
  "bare t = t\<lparr>dt_rows := []\<rparr>"

lemma bare_simps [simp]:
  "dt_name (bare t) = dt_name t" "dt_columns (bare t) = dt_columns t" "dt_uniques (bare t) = dt_uniques t"
  "dt_indexes (bare t) = dt_indexes t" "dt_rows (bare t) = []" "columns_of (bare t) = columns_of t"
  "index_names (bare t) = index_names t" "used_columns (bare t) = used_columns t"
  by (simp_all add: bare_def columns_of_def index_names_def used_columns_def)

lemma bare_names [simp]: "table_names (map bare db) = table_names db"
  by (simp add: table_names_def image_image)

definition bared :: "schema result \<Rightarrow> schema result" where
  "bared r = bind_result r (\<lambda>db. Inr (map bare db))"

lemma bared_simps [simp]: "bared (Inl e) = Inl e" "bared (Inr db) = Inr (map bare db)"
  by (simp_all add: bared_def)

lemma traverse_bare:
  assumes "\<And>t. bind_result (f t) (\<lambda>u. Inr (bare u)) = f (bare t)"
  shows "bared (traverse f db) = traverse f (map bare db)"
proof (induction db)
  case (Cons t db)
  then show ?case
    unfolding list.map traverse.simps Cons.IH [symmetric] assms [symmetric]
    by (cases "f t"; cases "traverse f db") simp_all
qed simp

lemma on_table_bare:
  assumes "\<And>t. bind_result (f t) (\<lambda>u. Inr (bare u)) = f (bare t)"
  shows "bared (on_table n f db) = on_table n f (map bare db)"
  using traverse_bare [of "\<lambda>t. if dt_name t = n then f t else Inr t" db] assms by (simp add: on_table_def)

text \<open>Statements that do not ask anything of the rows.\<close>

fun row_free :: "ddl \<Rightarrow> bool" where
  "row_free (AddColumn n c) = (dc_null c \<or> dc_default c \<noteq> None)"
| "row_free _ = True"

lemma apply_op_bare: "row_free s \<Longrightarrow> bared (apply_op s db) = apply_op s (map bare db)"
proof (cases s)
  case (CreateTable n cs us)
  show ?thesis unfolding CreateTable by (simp add: create_table_def bare_def)
next
  case (DropTable n)
  show ?thesis unfolding DropTable by (simp add: drop_table_def filter_map o_def)
next
  case (AddColumn n c)
  assume "row_free s"
  then show ?thesis unfolding AddColumn apply_op.simps
    by (intro on_table_bare) (auto simp: append_column_def bare_def columns_of_def)
next
  case (DropColumn n c)
  show ?thesis unfolding DropColumn apply_op.simps
    by (intro on_table_bare) (auto simp: remove_column_def bare_def columns_of_def index_names_def used_columns_def)
next
  case (CreateIndex n x)
  have "bared (on_table n (create_index x) db) = on_table n (create_index x) (map bare db)"
    by (intro on_table_bare) (auto simp: create_index_def bare_def columns_of_def index_names_def used_columns_def)
  then show ?thesis unfolding CreateIndex by (simp add: image_image)
next
  case (DropIndex n i)
  show ?thesis unfolding DropIndex apply_op.simps
    by (intro on_table_bare) (auto simp: drop_index_def bare_def columns_of_def index_names_def used_columns_def)
qed

lemma apply_ops_bare: "list_all row_free ss \<Longrightarrow> bared (apply_ops ss db) = apply_ops ss (map bare db)"
proof (induction ss arbitrary: db)
  case (Cons s ss)
  have "bared (apply_op s db) = apply_op s (map bare db)" using Cons.prems apply_op_bare by simp
  then have "apply_ops (s # ss) (map bare db) = bind_result (bared (apply_op s db)) (apply_ops ss)" by simp
  then show ?case using Cons by (cases "apply_op s db") simp_all
qed simp

subsection \<open>Statements that keep rows\<close>

fun adds_only :: "ddl \<Rightarrow> bool" where
  "adds_only (CreateTable n cs us) = True"
| "adds_only (AddColumn n c) = True"
| "adds_only (CreateIndex n x) = True"
| "adds_only _ = False"

text \<open>Every table is still there, its rows as before or longer.\<close>

definition rows_kept :: "schema \<Rightarrow> schema \<Rightarrow> bool" where
  "rows_kept db db' \<longleftrightarrow> (\<forall>t \<in> set db. \<exists>t' \<in> set db'. dt_name t' = dt_name t \<and>
     list_all2 (\<lambda>r r'. \<exists>more. r' = r @ more) (dt_rows t) (dt_rows t'))"

lemma rows_kept_refl: "rows_kept db db"
  by (auto simp: rows_kept_def intro!: bexI list.rel_refl)

lemma rows_kept_append: "rows_kept db (db @ ts)"
  using rows_kept_refl [of db] unfolding rows_kept_def by auto

lemma rows_kept_trans:
  assumes "rows_kept a b" "rows_kept b c"
  shows "rows_kept a c"
  unfolding rows_kept_def
proof
  fix t assume "t \<in> set a"
  then obtain u where u: "u \<in> set b" "dt_name u = dt_name t" "list_all2 (\<lambda>r r'. \<exists>more. r' = r @ more) (dt_rows t) (dt_rows u)"
    using assms(1) by (auto simp: rows_kept_def)
  then obtain v where v: "v \<in> set c" "dt_name v = dt_name u" "list_all2 (\<lambda>r r'. \<exists>more. r' = r @ more) (dt_rows u) (dt_rows v)"
    using assms(2) by (auto simp: rows_kept_def)
  have "list_all2 (\<lambda>r r'. \<exists>more. r' = r @ more) (dt_rows t) (dt_rows v)"
    by (rule list_all2_trans [OF _ u(3) v(3)]) auto
  then show "\<exists>t' \<in> set c. dt_name t' = dt_name t \<and> list_all2 (\<lambda>r r'. \<exists>more. r' = r @ more) (dt_rows t) (dt_rows t')"
    using u(2) v(1,2) by (intro bexI [of _ v]) simp_all
qed

lemma on_table_kept:
  assumes "on_table n f db = Inr db'"
    and "\<And>t t'. f t = Inr t' \<Longrightarrow> dt_name t' = dt_name t \<and> list_all2 (\<lambda>r r'. \<exists>more. r' = r @ more) (dt_rows t) (dt_rows t')"
  shows "rows_kept db db'"
  unfolding rows_kept_def
proof
  let ?ext = "list_all2 (\<lambda>r r'. \<exists>more. r' = (r :: row) @ more)"
  have same: "?ext rs rs" for rs by (simp add: list_all2_same)
  fix t assume t: "t \<in> set db"
  have run: "traverse (\<lambda>t. if dt_name t = n then f t else Inr t) db = Inr db'"
    using assms(1) by (simp add: on_table_def split: if_splits)
  obtain t' where "t' \<in> set db'" "(if dt_name t = n then f t else Inr t) = Inr t'"
    using traverse_Inr_set [OF run t] by (elim bexE)
  then show "\<exists>t' \<in> set db'. dt_name t' = dt_name t \<and> ?ext (dt_rows t) (dt_rows t')"
    using assms(2) [of t t'] same [of "dt_rows t"] by (intro bexI [of _ t']) (simp_all split: if_splits)
qed

lemma apply_op_kept:
  assumes "adds_only s" "apply_op s db = Inr db'"
  shows "rows_kept db db'"
  using assms
proof (cases s)
  case (CreateTable n cs us)
  then obtain t where "db' = db @ [t]" using assms(2) by (auto simp: create_table_def split: if_splits)
  then show ?thesis using rows_kept_append by simp
next
  case (AddColumn n c)
  have "on_table n (append_column c) db = Inr db'" using assms(2) AddColumn by simp
  then show ?thesis
    by (rule on_table_kept) (auto simp: append_column_def list_all2_map2 list_all2_same split: if_splits)
next
  case (CreateIndex n x)
  have "on_table n (create_index x) db = Inr db'" using assms(2) CreateIndex by (simp split: if_splits)
  then show ?thesis
    by (rule on_table_kept) (auto simp: create_index_def list_all2_same split: if_splits)
qed auto

lemma apply_ops_kept: "list_all adds_only ss \<Longrightarrow> apply_ops ss db = Inr db' \<Longrightarrow> rows_kept db db'"
proof (induction ss arbitrary: db)
  case Nil
  then show ?case using rows_kept_refl by simp
next
  case (Cons s ss)
  then obtain d where d: "apply_op s db = Inr d" "apply_ops ss d = Inr db'" by (auto simp: bind_result_eq_Inr)
  have "rows_kept db d" by (rule apply_op_kept [OF _ d(1)]) (use Cons.prems(1) in simp)
  moreover have "rows_kept d db'" by (rule Cons.IH [OF _ d(2)]) (use Cons.prems(1) in simp)
  ultimately show ?case by (rule rows_kept_trans)
qed

lemma apply_ops_append: "apply_ops (xs @ ys) db = bind_result (apply_ops xs db) (apply_ops ys)"
proof (induction xs arbitrary: db)
  case (Cons x xs)
  then show ?case by (cases "apply_op x db") simp_all
qed simp

subsection \<open>The migrations build the declared tables\<close>

lemma migrations_grow: "list_all (\<lambda>m. list_all (\<lambda>s. row_free s \<and> adds_only s) (mg_upgrade m)) migrations"
  by code_simp

lemma upgrade_fresh: "upgrade migrations [] = Inr migrated"
proof -
  have "\<not> isl (upgrade migrations [])" by code_simp
  then show ?thesis by (cases "upgrade migrations []") (simp_all add: migrated_def)
qed

lemma migrated_declared: "same_schema migrated declared"
  by code_simp

lemma init_db_migrated: "init_db migrated = migrated"
  by code_simp

lemma same_schema_bare: "same_schema (map bare db) d \<longleftrightarrow> same_schema db d"
  by (simp add: same_schema_def same_table_def)

lemma upgrade_drop: "bind_result (upgrade (take k ms) db) (upgrade (drop k ms)) = upgrade ms db"
proof -
  have "concat (map mg_upgrade ms) = concat (map mg_upgrade (take k ms)) @ concat (map mg_upgrade (drop k ms))"
    by (metis append_take_drop_id concat_append map_append)
  then show ?thesis by (simp add: upgrade_def apply_ops_append)
qed

lemma later_migrations:
  "list_all row_free (concat (map mg_upgrade (drop k migrations)))" "list_all adds_only (concat (map mg_upgrade (drop k migrations)))"
  using migrations_grow in_set_dropD [of _ k migrations] by (fastforce simp: list_all_iff)+

text \<open>
  C33. From every database with the schema that some number of migrations builds, whatever its rows,
  the remaining migrations succeed and lead to the tables \<open>db.py\<close> declares, up to the order of the
  columns and the defaults of the server. They drop no row and no value, and the start of a service
  has nothing left to create.
\<close>

theorem migrations_build_models:
  assumes "upgrade (take k migrations) [] = Inr (map bare db)"
  shows "\<exists>db'. upgrade (drop k migrations) db = Inr db' \<and> same_schema db' declared \<and> rows_kept db db' \<and> init_db db' = db'"
proof -
  have "bared (upgrade (drop k migrations) db) = upgrade (drop k migrations) (map bare db)"
    unfolding upgrade_def by (rule apply_ops_bare [OF later_migrations(1)])
  also have "\<dots> = Inr migrated"
    using upgrade_drop [of k migrations "[]"] assms upgrade_fresh by simp
  finally obtain db' where db': "upgrade (drop k migrations) db = Inr db'" "map bare db' = migrated"
    by (cases "upgrade (drop k migrations) db") auto
  have "same_schema db' declared" using migrated_declared same_schema_bare [of db'] db'(2) by simp
  moreover have "rows_kept db db'" using db'(1) apply_ops_kept [OF later_migrations(2)] by (simp add: upgrade_def)
  moreover have "init_db db' = db'"
    using init_db_migrated bare_names [of db'] unfolding db'(2) by (simp add: init_db_def)
  ultimately show ?thesis using db'(1) by blast
qed

text \<open>A database at the second revision, with one finished job.\<close>

definition old_job :: row where
  "old_job = [(''id'', VStr ''j1''), (''kind'', VStr ''backfill''), (''status'', VStr ''succeeded''), (''payload'', VDict []),
     (''checkpoints'', VList []), (''error'', VNone), (''created_at'', VTime (Aware 5 0)), (''started_at'', VNone), (''finished_at'', VNone)]"

definition old_database :: schema where
  "old_database = (case upgrade (take 2 migrations) [] of Inl _ \<Rightarrow> []
     | Inr db \<Rightarrow> map (\<lambda>t. if dt_name t = ''jobs'' then t\<lparr>dt_rows := [old_job]\<rparr> else t) db)"

lemma old_database_bare: "upgrade (take 2 migrations) [] = Inr (map bare old_database)"
  by code_simp

lemma migrations_build_models_witness:
  "\<exists>db'. upgrade (drop 2 migrations) old_database = Inr db' \<and> same_schema db' declared \<and> rows_kept old_database db' \<and> init_db db' = db'"
  by (rule migrations_build_models [OF old_database_bare])

subsection \<open>Downgrades\<close>

definition wf_table :: "db_table \<Rightarrow> bool" where
  "wf_table t \<longleftrightarrow> used_columns t \<subseteq> columns_of t \<and> list_all (\<lambda>r. fst ` set r \<subseteq> columns_of t) (dt_rows t)"

fun undo :: "ddl \<Rightarrow> ddl" where
  "undo (CreateTable n cs us) = DropTable n"
| "undo (AddColumn n c) = DropColumn n (dc_name c)"
| "undo (CreateIndex n x) = DropIndex n (dx_name x)"
| "undo s = s"

text \<open>A dropped table takes its indexes with it.\<close>

fun tidy :: "ddl list \<Rightarrow> ddl list" where
  "tidy [] = []"
| "tidy (s # ss) =
     (case (s, tidy ss) of
        (DropIndex n i, DropTable m # r) \<Rightarrow> if m = n then DropTable m # r else s # DropTable m # r
      | (_, r) \<Rightarrow> s # r)"

lemma on_table_names:
  assumes "on_table n f db = Inr db'" "\<And>t t'. f t = Inr t' \<Longrightarrow> dt_name t' = dt_name t"
  shows "map dt_name db' = map dt_name db \<and> filter (\<lambda>t. dt_name t \<noteq> n) db' = filter (\<lambda>t. dt_name t \<noteq> n) db"
proof -
  have "list_all2 (\<lambda>t t'. (if dt_name t = n then f t else Inr t) = Inr t') db db'"
    using assms(1) by (simp add: on_table_def traverse_Inr_iff split: if_splits)
  then show ?thesis
    by (induction rule: list_all2_induct) (auto dest: assms(2) split: if_splits)
qed

lemma on_table_undone:
  assumes "on_table n f db = Inr db'" "list_all wf_table db"
    and "\<And>t t'. t \<in> set db \<Longrightarrow> wf_table t \<Longrightarrow> f t = Inr t' \<Longrightarrow> dt_name t' = dt_name t \<and> wf_table t' \<and> g t' = Inr t"
  shows "list_all wf_table db' \<and> on_table n g db' = Inr db"
proof -
  have run: "list_all2 (\<lambda>t t'. (if dt_name t = n then f t else Inr t) = Inr t') db db'" and n: "n \<in> table_names db"
    using assms(1) by (simp_all add: on_table_def traverse_Inr_iff split: if_splits)
  have steps: "list_all2 (\<lambda>t t'. dt_name t' = dt_name t \<and> wf_table t' \<and> (if dt_name t' = n then g t' else Inr t') = Inr t) db db'"
  proof (rule list.rel_mono_strong [OF run])
    fix t t' assume t: "t \<in> set db" "(if dt_name t = n then f t else Inr t) = Inr t'"
    have "wf_table t" using assms(2) t(1) by (simp add: list_all_iff)
    then show "dt_name t' = dt_name t \<and> wf_table t' \<and> (if dt_name t' = n then g t' else Inr t') = Inr t"
      using assms(3) [OF t(1)] t(2) by (cases "dt_name t = n") simp_all
  qed
  have "traverse (\<lambda>t. if dt_name t = n then g t else Inr t) db' = Inr db"
    unfolding traverse_Inr_iff by (subst list.rel_flip [symmetric], rule list.rel_mono_strong [OF steps]) auto
  moreover have "table_names db' = table_names db" "list_all wf_table db'"
    using steps by (induction rule: list_all2_induct) (auto simp: table_names_def)
  ultimately show ?thesis using n by (simp add: on_table_def)
qed

lemma append_column_undone:
  assumes "wf_table t" "append_column c t = Inr t'"
  shows "dt_name t' = dt_name t \<and> wf_table t' \<and> remove_column (dc_name c) t' = Inr t"
proof -
  have fresh: "dc_name c \<notin> columns_of t" and t': "dt_name t' = dt_name t" "dt_columns t' = dt_columns t @ [c]"
      "dt_uniques t' = dt_uniques t" "dt_indexes t' = dt_indexes t"
      "\<exists>v. dt_rows t' = map (\<lambda>r. r @ [(dc_name c, v)]) (dt_rows t)"
    using assms(2) by (auto simp: append_column_def split: if_splits)
  then obtain v where rows: "dt_rows t' = map (\<lambda>r. r @ [(dc_name c, v)]) (dt_rows t)" by blast
  have used: "used_columns t' = used_columns t" and names: "columns_of t' = insert (dc_name c) (columns_of t)"
    using t' by (simp_all add: used_columns_def columns_of_def)
  have kept: "filter (\<lambda>kv. fst kv \<noteq> dc_name c) (r @ [(dc_name c, v)]) = r" if "r \<in> set (dt_rows t)" for r
    using assms(1) that fresh by (force simp: wf_table_def list_all_iff filter_id_conv)
  have cols: "filter (\<lambda>x. dc_name x \<noteq> dc_name c) (dt_columns t') = dt_columns t"
    using fresh t'(2) by (auto simp: columns_of_def filter_id_conv dest: image_eqI [OF sym])
  have "map (filter (\<lambda>kv. fst kv \<noteq> dc_name c)) (dt_rows t') = dt_rows t"
    unfolding rows map_map o_def by (rule map_idI) (rule kept)
  then have "remove_column (dc_name c) t' = Inr (t'\<lparr>dt_columns := dt_columns t, dt_rows := dt_rows t\<rparr>)"
    using cols names used fresh assms(1) by (auto simp: remove_column_def wf_table_def)
  moreover have "t'\<lparr>dt_columns := dt_columns t, dt_rows := dt_rows t\<rparr> = t" using t' by simp
  moreover have "wf_table t'" using assms(1) by (auto simp: wf_table_def used names rows list_all_iff)
  ultimately show ?thesis using t'(1) by simp
qed

lemma create_index_undone:
  assumes "wf_table t" "create_index x t = Inr t'" "dx_name x \<notin> index_names t"
  shows "dt_name t' = dt_name t \<and> wf_table t' \<and> drop_index (dx_name x) t' = Inr t"
proof -
  have t': "t' = t\<lparr>dt_indexes := dt_indexes t @ [x]\<rparr>" and cols: "set (dx_columns x) \<subseteq> columns_of t"
    using assms(2) by (auto simp: create_index_def split: if_splits)
  have "filter (\<lambda>y. dx_name y \<noteq> dx_name x) (dt_indexes t @ [x]) = dt_indexes t"
    using assms(3) by (auto simp: index_names_def filter_id_conv dest: image_eqI [OF sym])
  then show ?thesis using assms(1) cols
    by (auto simp: t' drop_index_def index_names_def wf_table_def used_columns_def columns_of_def)
qed

lemma op_undone:
  assumes "adds_only s" "list_all wf_table db" "apply_op s db = Inr db'"
  shows "list_all wf_table db' \<and> apply_op (undo s) db' = Inr db"
proof (cases s)
  case (CreateTable n cs us)
  have db': "db' = db @ [\<lparr>dt_name = n, dt_columns = cs, dt_uniques = us, dt_indexes = [], dt_rows = []\<rparr>]"
      and fresh: "n \<notin> table_names db" and cols: "\<Union> (set ` set us) \<subseteq> dc_name ` set cs"
    using assms(3) CreateTable by (simp_all add: create_table_def split: if_splits)
  have "filter (\<lambda>t. dt_name t \<noteq> n) db = db" using fresh by (auto simp: table_names_def filter_id_conv)
  then show ?thesis using assms(2) cols CreateTable
    by (simp add: db' drop_table_def table_names_def wf_table_def used_columns_def columns_of_def)
next
  case (AddColumn n c)
  have "on_table n (append_column c) db = Inr db'" using assms(3) AddColumn by simp
  from on_table_undone [OF this assms(2), of "remove_column (dc_name c)"] append_column_undone AddColumn show ?thesis by simp
next
  case (CreateIndex n x)
  have run: "on_table n (create_index x) db = Inr db'" and fresh: "\<And>t. t \<in> set db \<Longrightarrow> dx_name x \<notin> index_names t"
    using assms(3) CreateIndex by (auto split: if_splits)
  from on_table_undone [OF run assms(2), of "drop_index (dx_name x)"] create_index_undone fresh CreateIndex show ?thesis by simp
qed (use assms(1) in simp_all)

lemma ops_undone:
  "list_all adds_only ss \<Longrightarrow> list_all wf_table db \<Longrightarrow> apply_ops ss db = Inr db' \<Longrightarrow> apply_ops (rev (map undo ss)) db' = Inr db"
proof (induction ss arbitrary: db)
  case (Cons s ss)
  then obtain d where d: "apply_op s db = Inr d" "apply_ops ss d = Inr db'" by (auto simp: bind_result_eq_Inr)
  have "list_all wf_table d \<and> apply_op (undo s) d = Inr db" by (rule op_undone [OF _ Cons.prems(2) d(1)]) (use Cons.prems(1) in simp)
  then show ?case using Cons.IH [OF _ _ d(2)] Cons.prems(1) by (simp add: apply_ops_append)
qed simp

lemma skip_drop_index:
  assumes "apply_ops (DropIndex n i # DropTable n # ss) db = Inr r"
  shows "apply_ops (DropTable n # ss) db = Inr r"
proof -
  obtain d where d: "on_table n (drop_index i) db = Inr d" "bind_result (drop_table n d) (apply_ops ss) = Inr r"
    using assms by (auto simp: bind_result_eq_Inr)
  have "map dt_name d = map dt_name db \<and> filter (\<lambda>t. dt_name t \<noteq> n) d = filter (\<lambda>t. dt_name t \<noteq> n) db"
    by (rule on_table_names [OF d(1)]) (auto simp: drop_index_def split: if_splits)
  then have "drop_table n d = drop_table n db"
    by (simp add: drop_table_def table_names_def flip: set_map)
  then show ?thesis using d(2) by simp
qed

lemma tidy_runs: "apply_ops ss db = Inr r \<Longrightarrow> apply_ops (tidy ss) db = Inr r"
proof (induction ss arbitrary: db)
  case (Cons s ss)
  then obtain d where d: "apply_op s db = Inr d" "apply_ops (tidy ss) d = Inr r" by (auto simp: bind_result_eq_Inr)
  then have whole: "apply_ops (s # tidy ss) db = Inr r" by simp
  show ?case
  proof (cases "\<exists>n i rest. s = DropIndex n i \<and> tidy ss = DropTable n # rest")
    case True
    then obtain n i rest where parts: "s = DropIndex n i" "tidy ss = DropTable n # rest" by blast
    then show ?thesis using skip_drop_index whole by simp
  next
    case False
    then have "tidy (s # ss) = s # tidy ss" by (auto split: ddl.splits list.splits)
    then show ?thesis using whole by simp
  qed
qed simp

lemma downgrades_undo: "list_all (\<lambda>m. mg_downgrade m = tidy (rev (map undo (mg_upgrade m)))) migrations"
  by code_simp

text \<open>
  C34. Every downgrade undoes its upgrade: it gives back the database, its tables, columns, indexes
  and rows, from whatever database the upgrade has started.
\<close>

theorem downgrade_undoes_upgrade:
  assumes "m \<in> set migrations" "list_all wf_table db" "upgrade [m] db = Inr db'"
  shows "downgrade m db' = Inr db"
proof -
  have "list_all adds_only (mg_upgrade m)" "mg_downgrade m = tidy (rev (map undo (mg_upgrade m)))"
    using assms(1) migrations_grow downgrades_undo by (auto simp: list_all_iff)
  then show ?thesis
    using ops_undone [OF _ assms(2)] assms(3) tidy_runs by (simp add: upgrade_def downgrade_def)
qed

lemma downgrade_undoes_upgrade_witness:
  "\<exists>db'. upgrade [migrations ! 2] old_database = Inr db' \<and> downgrade (migrations ! 2) db' = Inr old_database"
proof -
  have wf: "list_all wf_table old_database" by code_simp
  have m: "migrations ! 2 \<in> set migrations" by (rule nth_mem) code_simp
  have "\<not> isl (upgrade [migrations ! 2] old_database)" by code_simp
  then obtain db' where "upgrade [migrations ! 2] old_database = Inr db'" by (cases "upgrade [migrations ! 2] old_database") auto
  then show ?thesis using downgrade_undoes_upgrade [OF m wf] by blast
qed

text \<open>
  A service that starts on an empty database creates the tables, and the migrations fail on them
  from then on.
\<close>

lemma startup_blocks_upgrade: "isl (upgrade migrations (init_db []))"
  by code_simp

end
