(* ===== verification/Spec2Isabelle.thy ===== *)
theory Spec2Isabelle
  imports Quality RegistryWarnings OnlineLaws Ledger JobOutcomes Pit Append StreamLaws ClientLaws WorkerLoop Benchmark Migrations
begin

text \<open>
  A model of the feature store under \<open>src/feature_store\<close> and the theorems that make it correct.

  The program. A registry keeps immutable, versioned definitions of entities, sources, feature
  views and services. Values reach the store in two ways: a stream consumer reads events from
  Kafka, checks them, records them in a ledger, writes the online store and stages them for an
  append job; batch jobs transform source tables into the offline tables and copy the newest rows
  online. Jobs run under leases taken from a queue in the database. Values are read back online
  (the newest per entity) or historically (as of the time of each observation).

  The parts and their theories.

  \<^item> \<open>Prelude\<close>, \<open>Calendar\<close>, \<open>Values\<close>, \<open>Json\<close>: exceptions as values of a sum type, Python
    strings, SQL-style tables (locale \<open>keyed_table\<close>), instants in microseconds and their ISO text,
    the values of a JSON document with their Python order and equality, \<open>json.dumps\<close> and
    \<open>json.loads\<close>. Dumping is injective up to key order (\<open>json_dumps_inj\<close>), loading inverts it
    (\<open>json_loads_dumps\<close>). The parser runs on fuel, twice the length of its input and one more, and
    \<open>json_loads_fuel\<close> shows that this is enough for every text.
  \<^item> \<open>Models\<close>, \<open>Events\<close> (\<open>models.py\<close>): the objects of a manifest, requests, events and queries,
    each with its validators and its document.
  \<^item> \<open>Quality\<close> (\<open>quality.py\<close>): the contracts on feature values. The reported violations are exactly
    the broken clauses, row indexes are partitioned, and typed rows always get a verdict.
  \<^item> \<open>RegistryStore\<close>, \<open>RegistryPlan\<close>, \<open>RegistryApply\<close>, \<open>RegistryReapply\<close>, \<open>RegistryLifecycle\<close>,
    \<open>RegistryWarnings\<close> (\<open>registry.py\<close>): the two tables, lookups, the plan of a manifest with its
    structural diff, the apply, metadata and deprecation. Applying never changes a stored object,
    keeps every reference resolvable and is idempotent; replacements of deprecated objects stay live
    in every reachable registry.
  \<^item> \<open>Latest\<close>, \<open>Online\<close>, \<open>OnlineLaws\<close> (\<open>online.py\<close>): the compare-and-set script, \<open>upsert\<close> and
    \<open>read\<close>. In whatever order and however often events are delivered, the newest one is stored.
  \<^item> \<open>Database\<close>, \<open>Ledger\<close> (\<open>db.py\<close>, \<open>ledger.py\<close>): the shared tables; registration of events under
    their identity, and the way back from a row to its event.
  \<^item> \<open>Jobs\<close>, \<open>JobSteps\<close>, \<open>JobInvariant\<close>, \<open>JobLaws\<close>, \<open>JobOutcomes\<close> (\<open>jobs.py\<close>): every operation of
    the queue, the step relation of all its clients, the invariant of reachable queues, and what
    claims, leases, retries, failures and watermarks promise.
  \<^item> \<open>Offline\<close>, \<open>Append\<close>, \<open>Pit\<close> (\<open>offline.py\<close>, \<open>jobs.py\<close>, \<open>pit.py\<close>): the Delta tables, the append
    job of staged events, which is exactly once over any number of attempts that do not overlap, and
    the point-in-time join, which reads the newest value at each observation and never a later one.
  \<^item> \<open>Actions\<close>, \<open>Streaming\<close>, \<open>StreamSafety\<close>, \<open>StreamLaws\<close> (\<open>streaming.py\<close>): calls that change
    several stores and may raise half-way, the handling of a message with all its ways out, the
    flush, the commit and the recovery. No accepted message is committed before it is handed over to
    an append job. A dead-lettered one is committed once its letter is in the queue of the producer,
    delivered or not, so it can be lost.
  \<^item> \<open>Worker\<close>, \<open>Backfill\<close>, \<open>BackfillLaws\<close>, \<open>Materialization\<close>, \<open>MaterializationLaws\<close> (\<open>jobs.py\<close>):
    the bodies of the batch jobs on the state of a worker. A backfill replaces its range chunk by
    chunk and nothing else, and resumes from its checkpoints; a materialization leaves the online
    store as upserting every scanned row would.
  \<^item> \<open>Artifacts\<close>, \<open>Execution\<close>, \<open>ExecutionLaws\<close> (\<open>artifacts.py\<close>, \<open>jobs.py\<close>): the files of a query job,
    the execution of a claimed job with its handlers and its clean-up. While the lease lasts every
    attempt ends with the job settled.
  \<^item> \<open>WorkerLoop\<close> (\<open>worker.py\<close>, \<open>observability.py\<close>): the heartbeat thread and how long it keeps a job
    owned, a turn of the loop with the sweep of expired artifacts, and the gauges. Execution and
    heartbeats are not interleaved: \<open>execute_settles\<close> assumes a first lease that outlasts the attempt.
  \<^item> \<open>Requests\<close>, \<open>Api\<close>, \<open>ApiLaws\<close>, \<open>ApiTypes\<close> (\<open>api.py\<close>, \<open>models.py\<close>): request documents and their
    validation, every endpoint with its status codes, and the documents of jobs. A queued query is
    answered by the download as it is inline, and every job document fits the declared response.
  \<^item> \<open>Client\<close>, \<open>ClientLaws\<close> (\<open>sdk.py\<close>, \<open>cli.py\<close>): the methods of the client and the commands. Requests
    arrive as they were built, with two exceptions: the entity values of a query arrive in JSON form,
    and a metadata patch clears what it does not mention.
  \<^item> \<open>Migrations\<close> (\<open>migrations/versions\<close>, \<open>db.py\<close>): the upgrades and downgrades on tables with their
    rows. They lead every populated database to the declared tables, and each can be undone.
  \<^item> \<open>Benchmark\<close> (\<open>benchmark.py\<close>, \<open>demo.py\<close>): scenarios, samples, reports, and the demo rows.

  Correspondence. A model class is a \<open>record\<close> with a constructor \<open>mk_...\<close> or a check
  \<open>validate_...\<close>; an exception is a value of \<open>py_error\<close> and a call that may raise has a sum type.
  A function that works on a session takes the tables and returns them, unchanged when it raises
  before it commits. An \<open>UPDATE ... WHERE\<close> is \<open>sql_update\<close> with its row count. Clock readings and
  random identifiers are arguments, in the order in which the code draws them.

  A loop over Kafka messages, heartbeats or benchmark turns takes the list of what it meets, each
  with what other sessions did before it and the clock.

  Parameters. Code outside the repository is an argument. \<open>pyenv\<close> holds the hash, the float and
  datetime texts of Python and pydantic; \<open>redis\<close> the three hash commands, with \<open>redis_laws\<close>; \<open>delta\<close>
  the Delta Lake calls, with \<open>delta_laws\<close> and \<open>delta_partitions\<close>; \<open>files\<close> the file system, with
  \<open>file_laws\<close>; \<open>clash\<close> what DuckDB does with duplicate column names. The environments of the consumer
  and of the worker hold the Kafka client, the casts of Arrow, the SQL of a view, the clock by number
  of readings and what other sessions do between two of them, and what becomes of each letter in the
  queue of the producer; \<open>dv\<close> tells which errors of Arrow and
  DuckDB are a \<open>ValueError\<close>. Every locale has an instance here, on which the witnesses run.

  Bounds. The chunks of a backfill end before the last day of the year 9999, whose midnight Python
  cannot represent. A day has 86400 seconds of a million microseconds, all times are UTC instants.

  Idealisations. A float is a rational, an infinity or the NaN, so \<open>-0.0\<close> is \<open>0.0\<close>; the join compares
  entity values of one type and leaves out the casts DuckDB makes between a text and a number; the
  times of a job document are UTC, where SQLite gives back naive ones; dropping a column that an
  index uses is an error, where PostgreSQL drops the index with it. In these points the theorems
  speak of the model.

  Not modelled. The instruments of Prometheus, logging and tracing, which only call their libraries;
  starting the processes, health checks and request identifiers; reading the environment, manifest
  files and the JSON of a manifest or a plan, which arrive validated; rates in a benchmark report and
  the concurrency of its clients; the writes of the demo. No other writer of the online store is
  interleaved with a materialization, and downloads are not split into pieces. A session sees the
  database of its transaction, so errors of the database engine itself (a lost connection, a
  serialization failure) do not appear, and foreign keys are not enforced.
\<close>

end
